(* ===== verification/Prelude.thy ===== *)
theory Prelude
  imports Main "HOL-Library.Word"
begin

text \<open>
  Shared vocabulary of the development.

  \<^item> The C integer types are words of their width: \<open>u8\<close>, \<open>u16\<close>, \<open>u32\<close>, \<open>u64\<close>
    (\<open>int32_t\<close> and \<open>int\<close> are \<open>32 word\<close> read with \<open>sint\<close>).
  \<^item> An execution of a C function either yields a value or stops with a \<open>cfault\<close>: an access
    outside an allocated object, a dereference of NULL, a failed \<open>assert\<close>, a spin loop
    whose exit condition no longer changes, or a value the language leaves undefined.  \<open>'a cres\<close> is the sum of both and \<open>bindc\<close>
    sequences two such executions.
  \<^item> Arrays are lists.  \<open>blit\<close> is the effect of a \<open>memcpy\<close> into an array, and
    \<open>circ_read\<close>, \<open>circ_write\<close> are the reference reading and writing of a circular
    buffer, against which the unrolled copy loops of the ring library are proved.
\<close>

unbundle bit_operations_syntax

type_synonym u8 = "8 word"
type_synonym u16 = "16 word"
type_synonym u32 = "32 word"
type_synonym u64 = "64 word"

named_theorems fault_simps
  \<open>equations that push the sequencing of faulting computations through values\<close>
named_theorems word_nat
  \<open>equations that read word arithmetic as arithmetic of natural numbers\<close>

section \<open>Executions that may fault\<close>

datatype cfault = OutOfBounds | NullDeref | AssertFail | Spins | Undefined

type_synonym 'a cres = "cfault + 'a"

fun bindc :: "'a cres \<Rightarrow> ('a \<Rightarrow> 'b cres) \<Rightarrow> 'b cres" where
  "bindc (Inl e) f = Inl e"
| "bindc (Inr x) f = f x"

lemma bindc_Inr_iff [fault_simps]:
  "bindc m f = Inr y \<longleftrightarrow> (\<exists>x. m = Inr x \<and> f x = Inr y)"
  by (cases m) auto

lemma bindc_assoc [fault_simps]:
  "bindc (bindc m f) g = bindc m (\<lambda>x. bindc (f x) g)"
  by (cases m) auto

lemma bindc_cong [fundef_cong]:
  "m = m' \<Longrightarrow> (\<And>x. m' = Inr x \<Longrightarrow> f x = g x) \<Longrightarrow> bindc m f = bindc m' g"
  by (cases m') auto

lemma bindc_Inr_right [simp]: "bindc m Inr = m"
  by (cases m) auto

section \<open>Copying into arrays\<close>

definition blit :: "'a list \<Rightarrow> nat \<Rightarrow> 'a list \<Rightarrow> 'a list" where
  "blit d p xs = take p d @ xs @ drop (p + length xs) d"

lemma length_blit [simp]: "p + length xs \<le> length d \<Longrightarrow> length (blit d p xs) = length d"
  by (simp add: blit_def)

lemma blit_Nil [simp]: "p \<le> length d \<Longrightarrow> blit d p [] = d"
  by (simp add: blit_def)

lemma nth_blit:
  assumes "p + length xs \<le> length d" and "i < length d"
  shows "blit d p xs ! i = (if p \<le> i \<and> i < p + length xs then xs ! (i - p) else d ! i)"
  using assms by (auto simp: blit_def nth_append min_def)

lemma blit_blit_adjacent:
  assumes "p + length xs + length ys \<le> length d"
  shows "blit (blit d p xs) (p + length xs) ys = blit d p (xs @ ys)"
  using assms by (simp add: blit_def ac_simps)

lemma blit_overwrite_all: "length xs = length d \<Longrightarrow> blit d 0 xs = xs"
  by (simp add: blit_def)

lemma blit_prefix: "length xs \<le> length d \<Longrightarrow> blit d 0 xs = xs @ drop (length xs) d"
  by (simp add: blit_def)

section \<open>Circular buffers\<close>

definition circ_read :: "'a list \<Rightarrow> nat \<Rightarrow> nat \<Rightarrow> 'a list" where
  "circ_read mem s m = map (\<lambda>t. mem ! ((s + t) mod length mem)) [0..<m]"

definition circ_write :: "'a list \<Rightarrow> nat \<Rightarrow> 'a list \<Rightarrow> 'a list" where
  "circ_write mem s xs =
     map (\<lambda>p. let t = (p + length mem - s) mod length mem
              in if t < length xs then xs ! t else mem ! p) [0..<length mem]"

lemma length_circ_read [simp]: "length (circ_read mem s m) = m"
  by (simp add: circ_read_def)

lemma length_circ_write [simp]: "length (circ_write mem s xs) = length mem"
  by (simp add: circ_write_def)

lemma nth_circ_read [simp]: "t < m \<Longrightarrow> circ_read mem s m ! t = mem ! ((s + t) mod length mem)"
  by (simp add: circ_read_def)

lemma nth_circ_write:
  "p < length mem \<Longrightarrow> circ_write mem s xs ! p =
     (let t = (p + length mem - s) mod length mem in if t < length xs then xs ! t else mem ! p)"
  by (simp add: circ_write_def Let_def)

lemma circ_offset:
  fixes L :: nat
  assumes "s < L" and "p < L"
  shows "(p + L - s) mod L = (if s \<le> p then p - s else p + L - s)"
proof (cases "s \<le> p")
  case True
  then have "p + L - s = (p - s) + L" by linarith
  then have "(p + L - s) mod L = (p - s) mod L" by (simp only: mod_add_self2)
  with True assms show ?thesis by simp
next
  case False
  with assms show ?thesis by simp
qed

lemma circ_write_straight:
  assumes "s < length mem" and "s + length xs \<le> length mem"
  shows "circ_write mem s xs = blit mem s xs"
proof (rule nth_equalityI)
  show "length (circ_write mem s xs) = length (blit mem s xs)" using assms by simp
  fix i assume "i < length (circ_write mem s xs)"
  then have i: "i < length mem" by simp
  show "circ_write mem s xs ! i = blit mem s xs ! i"
    using assms i by (auto simp: nth_circ_write nth_blit circ_offset Let_def)
qed

lemma circ_write_wrapped:
  assumes "s < length mem" and "length mem \<le> s + length xs" and "length xs \<le> length mem"
  shows "circ_write mem s xs =
    blit (blit mem s (take (length mem - s) xs)) 0 (drop (length mem - s) xs)"
    (is "_ = blit ?m 0 ?ys")
proof (rule nth_equalityI)
  have lm: "length ?m = length mem" using assms by (subst length_blit) auto
  have ly: "length ?ys \<le> length mem" using assms by simp
  show "length (circ_write mem s xs) = length (blit ?m 0 ?ys)" using lm ly by simp
  fix i assume "i < length (circ_write mem s xs)"
  then have i: "i < length mem" by simp
  have "blit ?m 0 ?ys ! i = (if i < length ?ys then ?ys ! i else ?m ! i)"
    using lm ly i by (subst nth_blit) auto
  moreover have "?m ! i = (if s \<le> i then xs ! (i - s) else mem ! i)"
    using assms i by (subst nth_blit) auto
  ultimately show "circ_write mem s xs ! i = blit ?m 0 ?ys ! i"
    using assms i by (auto simp: nth_circ_write circ_offset Let_def add.commute)
qed

lemma circ_read_straight:
  "s + m \<le> length mem \<Longrightarrow> circ_read mem s m = take m (drop s mem)"
  by (rule nth_equalityI) auto

lemma circ_read_wrapped:
  assumes "s < length mem" and "length mem \<le> s + m" and "m \<le> length mem"
  shows "circ_read mem s m = drop s mem @ take (m - (length mem - s)) mem"
proof (rule nth_equalityI)
  fix i assume "i < length (circ_read mem s m)"
  then have i: "i < m" by simp
  show "circ_read mem s m ! i = (drop s mem @ take (m - (length mem - s)) mem) ! i"
  proof (cases "s + i < length mem")
    case False
    then have "(s + i) mod length mem = i - (length mem - s)"
      using assms i by (auto simp: mod_if add.commute)
    with False assms i show ?thesis by (auto simp: nth_append)
  qed (use assms i in \<open>auto simp: nth_append\<close>)
qed (use assms in simp)

lemma circ_read_append:
  "circ_read mem s (a + b) = circ_read mem s a @ circ_read mem ((s + a) mod length mem) b"
proof (rule nth_equalityI)
  fix i assume "i < length (circ_read mem s (a + b))"
  moreover have "((s + a) mod length mem + (i - a)) mod length mem = (s + a + (i - a)) mod length mem"
    by (rule mod_add_left_eq)
  ultimately show "circ_read mem s (a + b) ! i =
      (circ_read mem s a @ circ_read mem ((s + a) mod length mem) b) ! i"
    by (auto simp: nth_append)
qed simp

lemma circ_read_after_write:
  assumes "s < length mem" and "c + length xs \<le> length mem"
  shows "circ_read (circ_write mem ((s + c) mod length mem) xs) s (c + length xs)
       = circ_read mem s c @ xs"
proof (rule nth_equalityI)
  fix i assume "i < length (circ_read (circ_write mem ((s + c) mod length mem) xs) s (c + length xs))"
  then have i: "i < c + length xs" by simp
  let ?L = "length mem" and ?p = "(s + i) mod length mem" and ?q = "(s + c) mod length mem"
  have L: "0 < ?L" using assms by linarith
  have off: "(?p + ?L - ?q) mod ?L = (if c \<le> i then i - c else ?L + i - c)"
    using assms i by (auto simp: mod_if[of "s + i"] mod_if[of "s + c"] mod_if[of "_ + _ - _"])
  show "circ_read (circ_write mem ?q xs) s (c + length xs) ! i = (circ_read mem s c @ xs) ! i"
    using L i assms by (auto simp: nth_circ_write off Let_def nth_append)
qed simp

section \<open>Words as natural numbers\<close>

lemma unat_and_exp [word_nat]: "unat (x AND (2 ^ n - 1) :: 'a::len word) = unat x mod 2 ^ n"
  by (metis mask_eq_exp_minus_1 take_bit_eq_mask take_bit_eq_mod unsigned_take_bit_eq)

lemma unat_add_no_wrap [word_nat]:
  "unat x + unat y < 2 ^ LENGTH('a) \<Longrightarrow> unat (x + y :: 'a::len word) = unat x + unat y"
  by (simp add: unat_word_ariths)

lemma unat_mult_no_wrap [word_nat]:
  "unat x * unat y < 2 ^ LENGTH('a) \<Longrightarrow> unat (x * y :: 'a::len word) = unat x * unat y"
  by (simp add: unat_word_ariths)

lemma unat_sub_le [word_nat]:
  "y \<le> x \<Longrightarrow> unat (x - y :: 'a::len word) = unat x - unat y"
  by (rule unat_sub)

lemma unat_u32_lt [simp]: "unat (x :: u32) < 4294967296"
  using unsigned_less[of x] by simp

lemma unat_u64_lt: "unat (x :: u64) < 18446744073709551616"
  using unsigned_less[of x] by simp

lemma unat_drop_bit: "unat (drop_bit n (x :: 'a::len word)) = unat x div 2 ^ n"
  by (simp add: unsigned_drop_bit_eq take_bit_nat_eq_self[OF unsigned_less]) (simp add: drop_bit_eq_div)

lemma unat_and_mask: "unat ((x :: 'a::len word) AND mask w) = unat x mod 2 ^ w"
  by (simp add: mask_eq_exp_minus_1 unat_and_exp)

lemma unat_exp [simp]:
  assumes "k < LENGTH('a)"
  shows "unat (2 ^ k :: 'a::len word) = 2 ^ k"
proof -
  have "unat (of_nat (2 ^ k) :: 'a word) = 2 ^ k mod 2 ^ LENGTH('a)"
    by (rule unat_of_nat)
  with assms show ?thesis by simp
qed

lemma and_not_eq_diff: "x AND NOT m = x - (x AND m)" for x :: "'a::len word"
proof -
  have "(x AND NOT m) + (x AND m) = (x AND NOT m) OR (x AND m)"
    by (rule disjunctive_add_eq_or) (simp add: bit_eq_iff bit_simps)
  also have "\<dots> = x" by (rule bit_eqI) (auto simp: bit_simps)
  finally show ?thesis by (simp add: eq_diff_eq)
qed

lemma bit_word_iff_div: "bit (x :: 'a::len word) i \<longleftrightarrow> odd (unat x div 2 ^ i)"
  by (simp flip: bit_iff_odd add: bit_unsigned_iff)

lemma bit_top:
  assumes "2 ^ k \<le> unat x" and "unat (x :: 'a::len word) < 2 ^ Suc k"
  shows "bit x k"
proof -
  have "unat x div 2 ^ k = 1" using assms by (intro div_nat_eqI) auto
  then show ?thesis by (simp add: bit_word_iff_div)
qed

lemma exp_dvd_range: "n \<le> LENGTH('a) \<Longrightarrow> (2::nat) ^ n dvd 2 ^ LENGTH('a::len)"
  by (rule le_imp_power_dvd)

lemma unat_add_mod_exp:
  assumes "n \<le> LENGTH('a)"
  shows "unat (x + y :: 'a::len word) mod 2 ^ n = (unat x + unat y) mod 2 ^ n"
  using assms by (simp add: unat_word_ariths mod_mod_cancel exp_dvd_range)

lemma sint_small [word_nat]:
  assumes "unat x < 2 ^ (LENGTH('a) - 1)"
  shows "sint (x :: 'a::len word) = int (unat x)"
proof -
  have "int (unat x) < int (2 ^ (LENGTH('a) - 1))" using assms by (simp only: of_nat_less_iff)
  then have u: "uint x < 2 ^ (LENGTH('a) - Suc 0)" by simp
  have "sint x = signed_take_bit (LENGTH('a) - Suc 0) (uint x)"
    by (simp add: sint_uint)
  also have "\<dots> = uint x"
    using u by (intro signed_take_bit_int_eq_self) (auto intro: order_trans[of _ 0])
  finally show ?thesis by simp
qed

lemma unat_ucast_wider [word_nat]:
  assumes "LENGTH('a) \<le> LENGTH('b)"
  shows "unat (ucast (x :: 'a::len word) :: 'b::len word) = unat x"
proof -
  have "unat x < 2 ^ LENGTH('a)" by (rule unsigned_less)
  also have "(2::nat) ^ LENGTH('a) \<le> 2 ^ LENGTH('b)" using assms by (simp add: power_increasing)
  finally show ?thesis by (simp add: unsigned_ucast_eq unsigned_take_bit_eq take_bit_nat_eq_self)
qed

end
