(* ===== verification/Rte_Common.thy ===== *)
theory Rte_Common
  imports Prelude
begin

text \<open>
  \<^verbatim>\<open>src/rte_lib/include/rte_common.h\<close>: alignment macros, powers of two and bit
  searches.  The macros that take \<open>typeof(val)\<close> are polymorphic in the word width.  The
  compiler builtins \<open>__builtin_ctz\<close> and \<open>__builtin_clz\<close> are undefined at 0, so the
  functions that call them return a \<open>cres\<close>.
\<close>

section \<open>Alignment macros\<close>

definition RTE_ALIGN_FLOOR :: "'a::len word \<Rightarrow> 'a word \<Rightarrow> 'a word" where
  "RTE_ALIGN_FLOOR val align = val AND NOT (align - 1)"

definition RTE_ALIGN_CEIL :: "'a::len word \<Rightarrow> 'a word \<Rightarrow> 'a word" where
  "RTE_ALIGN_CEIL val align = RTE_ALIGN_FLOOR (val + (align - 1)) align"

definition RTE_ALIGN :: "'a::len word \<Rightarrow> 'a word \<Rightarrow> 'a word" where
  "RTE_ALIGN val align = RTE_ALIGN_CEIL val align"

definition RTE_ALIGN_MUL_CEIL :: "'a::len word \<Rightarrow> 'a word \<Rightarrow> 'a word" where
  "RTE_ALIGN_MUL_CEIL v mul = ((v + mul - 1) div mul) * mul"

definition RTE_ALIGN_MUL_FLOOR :: "'a::len word \<Rightarrow> 'a word \<Rightarrow> 'a word" where
  "RTE_ALIGN_MUL_FLOOR v mul = (v div mul) * mul"

definition RTE_ALIGN_MUL_NEAR :: "'a::len word \<Rightarrow> 'a word \<Rightarrow> 'a word" where
  "RTE_ALIGN_MUL_NEAR v mul =
     (let ceil = RTE_ALIGN_MUL_CEIL v mul; floor = RTE_ALIGN_MUL_FLOOR v mul
      in if ceil - v > v - floor then floor else ceil)"

definition rte_is_aligned :: "u64 \<Rightarrow> u32 \<Rightarrow> bool" where
  "rte_is_aligned ptr align = ((ptr + ucast (align - 1)) AND NOT (ucast (align - 1)) = ptr)"

section \<open>Powers of two\<close>

definition rte_combine32ms1b :: "u32 \<Rightarrow> u32" where
  "rte_combine32ms1b x0 =
     (let x1 = x0 OR drop_bit 1 x0; x2 = x1 OR drop_bit 2 x1; x3 = x2 OR drop_bit 4 x2;
          x4 = x3 OR drop_bit 8 x3; x5 = x4 OR drop_bit 16 x4
      in x5)"

definition rte_combine64ms1b :: "u64 \<Rightarrow> u64" where
  "rte_combine64ms1b v0 =
     (let v1 = v0 OR drop_bit 1 v0; v2 = v1 OR drop_bit 2 v1; v3 = v2 OR drop_bit 4 v2;
          v4 = v3 OR drop_bit 8 v3; v5 = v4 OR drop_bit 16 v4; v6 = v5 OR drop_bit 32 v5
      in v6)"

definition RTE_IS_POWER_OF_2 :: "'a::len word \<Rightarrow> bool" where
  "RTE_IS_POWER_OF_2 n \<longleftrightarrow> n \<noteq> 0 \<and> ((n - 1) AND n) = 0"

definition rte_is_power_of_2 :: "u32 \<Rightarrow> bool" where
  "rte_is_power_of_2 n \<longleftrightarrow> n \<noteq> 0 \<and> (n AND (n - 1)) = 0"

definition rte_align32pow2 :: "u32 \<Rightarrow> u32" where
  "rte_align32pow2 x = rte_combine32ms1b (x - 1) + 1"

definition rte_align32prevpow2 :: "u32 \<Rightarrow> u32" where
  "rte_align32prevpow2 x = (let y = rte_combine32ms1b x in y - drop_bit 1 y)"

definition rte_align64pow2 :: "u64 \<Rightarrow> u64" where
  "rte_align64pow2 v = rte_combine64ms1b (v - 1) + 1"

definition rte_align64prevpow2 :: "u64 \<Rightarrow> u64" where
  "rte_align64prevpow2 v = (let y = rte_combine64ms1b v in y - drop_bit 1 y)"

section \<open>Bit searches\<close>

text \<open>\<open>__builtin_ctz\<close> and \<open>__builtin_clz\<close>: the number of trailing and leading zero bits.\<close>

fun count_zeros :: "(nat \<Rightarrow> bool) \<Rightarrow> nat \<Rightarrow> nat" where
  "count_zeros b 0 = 0"
| "count_zeros b (Suc n) = (if b 0 then 0 else Suc (count_zeros (\<lambda>i. b (Suc i)) n))"

definition builtin_ctz :: "'a::len word \<Rightarrow> nat cres" where
  "builtin_ctz v = (if v = 0 then Inl Undefined else Inr (count_zeros (bit v) LENGTH('a)))"

definition builtin_clz :: "'a::len word \<Rightarrow> nat cres" where
  "builtin_clz v =
     (if v = 0 then Inl Undefined
      else Inr (count_zeros (\<lambda>i. bit v (LENGTH('a) - 1 - i)) LENGTH('a)))"

definition rte_bsf32 :: "u32 \<Rightarrow> u32 cres" where
  "rte_bsf32 v = bindc (builtin_ctz v) (\<lambda>k. Inr (of_nat k))"

definition rte_bsf32_safe :: "u32 \<Rightarrow> u32 \<Rightarrow> (bool \<times> u32) cres" where
  "rte_bsf32_safe v pos =
     (if v = 0 then Inr (False, pos) else bindc (rte_bsf32 v) (\<lambda>k. Inr (True, k)))"

definition rte_log2_u32 :: "u32 \<Rightarrow> u32 cres" where
  "rte_log2_u32 v = (if v = 0 then Inr 0 else rte_bsf32 (rte_align32pow2 v))"

definition rte_fls_u32 :: "u32 \<Rightarrow> u32 cres" where
  "rte_fls_u32 x = (if x = 0 then Inr 0 else bindc (builtin_clz x) (\<lambda>k. Inr (32 - of_nat k)))"

definition rte_bsf64 :: "u64 \<Rightarrow> u32 cres" where
  "rte_bsf64 v = bindc (builtin_ctz v) (\<lambda>k. Inr (of_nat k))"

definition rte_bsf64_safe :: "u64 \<Rightarrow> u32 \<Rightarrow> (bool \<times> u32) cres" where
  "rte_bsf64_safe v pos =
     (if v = 0 then Inr (False, pos) else bindc (rte_bsf64 v) (\<lambda>k. Inr (True, k)))"

definition rte_fls_u64 :: "u64 \<Rightarrow> u32 cres" where
  "rte_fls_u64 x = (if x = 0 then Inr 0 else bindc (builtin_clz x) (\<lambda>k. Inr (64 - of_nat k)))"

definition rte_log2_u64 :: "u64 \<Rightarrow> u32 cres" where
  "rte_log2_u64 v = (if v = 0 then Inr 0 else rte_bsf64 (rte_align64pow2 v))"

definition RTE_LEN2MASK64 :: "nat \<Rightarrow> u64 cres" where
  "RTE_LEN2MASK64 ln = (if ln = 0 \<or> 64 < ln then Inl Undefined else Inr (drop_bit (64 - ln) (-1)))"

section \<open>Lemmas\<close>

subsection \<open>Smearing the most significant bit downwards\<close>

text \<open>
  \<open>y\<close> is \<open>x\<close> smeared by \<open>w\<close> when bit \<open>i\<close> of \<open>y\<close> is set iff one of the \<open>w\<close> bits of
  \<open>x\<close> from \<open>i\<close> on is.  Each shift-and-or of the source doubles \<open>w\<close>.
\<close>

definition smeared :: "'a::len word \<Rightarrow> nat \<Rightarrow> 'a word \<Rightarrow> bool" where
  "smeared x w y \<longleftrightarrow> (\<forall>i. bit y i \<longleftrightarrow> (\<exists>j<w. bit x (i + j)))"

lemma smeared_self: "smeared x 1 x"
  by (simp add: smeared_def)

lemma smeared_step:
  assumes "smeared x w y" and "w' = w + w"
  shows "smeared x w' (y OR drop_bit w y)"
  unfolding smeared_def assms(2)
proof
  fix i
  have split: "(\<exists>j<w + w. bit x (i + j)) \<longleftrightarrow> (\<exists>j<w. bit x (i + j)) \<or> (\<exists>j<w. bit x (w + i + j))"
    (is "?L \<longleftrightarrow> ?R")
  proof
    assume ?L
    then obtain j where "j < w + w" "bit x (i + j)" by blast
    then show ?R
    proof (cases "j < w")
      case False
      then have "bit x (w + i + (j - w))" "j - w < w"
        using \<open>j < w + w\<close> \<open>bit x (i + j)\<close> by (simp_all add: ac_simps)
      then show ?R by blast
    qed blast
  next
    assume ?R
    then show ?L
    proof
      assume "\<exists>j<w. bit x (w + i + j)"
      then obtain j where "j < w" "bit x (w + i + j)" by blast
      then show ?L by (intro exI[of _ "w + j"]) (simp add: ac_simps)
    qed (auto intro: trans_less_add1)
  qed
  show "bit (y OR drop_bit w y) i \<longleftrightarrow> (\<exists>j<w + w. bit x (i + j))"
    using assms by (simp add: smeared_def bit_or_iff bit_drop_bit_eq split)
qed

lemma smeared_combine32: "smeared x 32 (rte_combine32ms1b x)"
proof -
  define y1 where "y1 = x OR drop_bit 1 x"
  define y2 where "y2 = y1 OR drop_bit 2 y1"
  define y3 where "y3 = y2 OR drop_bit 4 y2"
  define y4 where "y4 = y3 OR drop_bit 8 y3"
  define y5 where "y5 = y4 OR drop_bit 16 y4"
  have s1: "smeared x 2 y1" unfolding y1_def by (rule smeared_step[OF smeared_self]) simp
  have s2: "smeared x 4 y2" unfolding y2_def by (rule smeared_step[OF s1]) simp
  have s3: "smeared x 8 y3" unfolding y3_def by (rule smeared_step[OF s2]) simp
  have s4: "smeared x 16 y4" unfolding y4_def by (rule smeared_step[OF s3]) simp
  have s5: "smeared x 32 y5" unfolding y5_def by (rule smeared_step[OF s4]) simp
  have "rte_combine32ms1b x = y5"
    by (simp only: rte_combine32ms1b_def Let_def y1_def y2_def y3_def y4_def y5_def)
  with s5 show ?thesis by (simp only:)
qed

lemma smeared_combine64: "smeared x 64 (rte_combine64ms1b x)"
proof -
  define y1 where "y1 = x OR drop_bit 1 x"
  define y2 where "y2 = y1 OR drop_bit 2 y1"
  define y3 where "y3 = y2 OR drop_bit 4 y2"
  define y4 where "y4 = y3 OR drop_bit 8 y3"
  define y5 where "y5 = y4 OR drop_bit 16 y4"
  define y6 where "y6 = y5 OR drop_bit 32 y5"
  have s1: "smeared x 2 y1" unfolding y1_def by (rule smeared_step[OF smeared_self]) simp
  have s2: "smeared x 4 y2" unfolding y2_def by (rule smeared_step[OF s1]) simp
  have s3: "smeared x 8 y3" unfolding y3_def by (rule smeared_step[OF s2]) simp
  have s4: "smeared x 16 y4" unfolding y4_def by (rule smeared_step[OF s3]) simp
  have s5: "smeared x 32 y5" unfolding y5_def by (rule smeared_step[OF s4]) simp
  have s6: "smeared x 64 y6" unfolding y6_def by (rule smeared_step[OF s5]) simp
  have "rte_combine64ms1b x = y6"
    by (simp only: rte_combine64ms1b_def Let_def y1_def y2_def y3_def y4_def y5_def y6_def)
  with s6 show ?thesis by (simp only:)
qed

lemma smeared_mask:
  assumes "smeared x LENGTH('a) (y :: 'a::len word)" and "2 ^ k \<le> unat x" and "unat x < 2 ^ Suc k"
  shows "y = mask (Suc k)"
proof (rule bit_word_eqI)
  fix i assume i: "i < LENGTH('a)"
  have k: "bit x k" using assms(2,3) by (rule bit_top)
  have above: "\<not> bit x j" if "k < j" for j
  proof -
    have "(2::nat) ^ Suc k \<le> 2 ^ j" using that by (intro power_increasing) auto
    with assms(3) show ?thesis by (simp add: bit_word_iff_div)
  qed
  have "k < LENGTH('a)" using k by (rule bit_imp_le_length)
  then have "(\<exists>j<LENGTH('a). bit x (i + j)) \<longleftrightarrow> i \<le> k"
    using k above by (metis add_leD1 le_add_diff_inverse less_imp_diff_less linorder_not_less)
  then show "bit y i \<longleftrightarrow> bit (mask (Suc k) :: 'a word) i"
    using assms(1) i by (simp add: smeared_def bit_mask_iff less_Suc_eq_le)
qed

lemma next_pow2_of_smeared:
  assumes sm: "smeared (x - 1) LENGTH('a) (y :: 'a::len word)"
    and x: "x \<noteq> 0" "unat x \<le> 2 ^ (LENGTH('a) - 1)"
  shows "\<exists>n < LENGTH('a). y + 1 = 2 ^ n \<and> unat x \<le> 2 ^ n \<and> (\<forall>m. unat x \<le> 2 ^ m \<longrightarrow> n \<le> m)"
proof (cases "unat x = 1")
  case True
  then have "x = 1" by (metis unat_1 word_unat_eq_iff)
  then have "y = 0" using sm by (intro bit_eqI) (simp add: smeared_def)
  with True show ?thesis by (intro exI[of _ 0]) simp
next
  case False
  have x1: "unat (x - 1) = unat x - 1" using x(1) by (simp add: unat_minus_one)
  have "2 \<le> unat x" using x(1) False by (metis One_nat_def Suc_1 Suc_leI le_neq_implies_less less_one linorder_not_less unat_eq_0) 
  then obtain n where n: "2 ^ n < unat x" "unat x \<le> 2 ^ (n + 1)"
    using ex_power_ivl2[of 2 "unat x"] by auto
  have "y = mask (Suc n)" using n by (intro smeared_mask[OF sm]) (auto simp: x1)
  then have y: "y + 1 = 2 ^ Suc n" by (simp add: mask_eq_exp_minus_1)
  have least: "Suc n \<le> m" if "unat x \<le> 2 ^ m" for m
    using n(1) that by (metis Suc_leI le_less_trans less_le_trans one_less_numeral_iff power_less_imp_less_exp semiring_norm(76)) 
  then have "Suc n < LENGTH('a)" using x(2) by (metis One_nat_def Suc_pred le_imp_less_Suc len_gt_0)
  with n y least show ?thesis by (intro exI[of _ "Suc n"]) auto
qed
subsection \<open>Powers of two\<close>

lemma and_decr_eq_0_iff:
  fixes n :: "'a::len word"
  assumes "n \<noteq> 0"
  shows "(n - 1) AND n = 0 \<longleftrightarrow> (\<exists>k < LENGTH('a). n = 2 ^ k)"
proof
  assume z: "(n - 1) AND n = 0"
  have "1 \<le> unat n" using assms by (simp add: Suc_leI unat_gt_0)
  then obtain k where k: "2 ^ k \<le> unat n" "unat n < 2 ^ Suc k"
    using ex_power_ivl1[of 2 "unat n"] by auto
  have bk: "bit n k" using k by (rule bit_top)
  have "unat n = 2 ^ k"
  proof (rule ccontr)
    assume "unat n \<noteq> 2 ^ k"
    then have "bit (n - 1) k" using k assms by (intro bit_top) (auto simp: unat_minus_one)
    with bk have "bit ((n - 1) AND n) k" by (simp add: bit_and_iff)
    with z show False by simp
  qed
  moreover have "k < LENGTH('a)" using bk by (rule bit_imp_le_length)
  ultimately show "\<exists>k < LENGTH('a). n = 2 ^ k"
    by (intro exI[of _ k]) (simp add: word_unat_eq_iff)
next
  assume "\<exists>k < LENGTH('a). n = 2 ^ k"
  then obtain k where "k < LENGTH('a)" "n = 2 ^ k" by blast
  then have "(n - 1) AND n = mask k AND 2 ^ k" by (simp add: mask_eq_exp_minus_1)
  also have "\<dots> = 0" by (rule bit_eqI) (auto simp: bit_and_iff bit_mask_iff bit_exp_iff)
  finally show "(n - 1) AND n = 0" .
qed

lemma unat_align_floor:
  "unat (RTE_ALIGN_FLOOR x (2 ^ k)) = unat x - unat x mod 2 ^ k"
  by (simp add: RTE_ALIGN_FLOOR_def and_not_eq_diff unat_sub_le word_and_le2 unat_and_exp)

lemma align32pow2_word:
  assumes "x \<noteq> 0" and "x \<le> 2 ^ 31"
  shows "\<exists>n < 32. rte_align32pow2 x = 2 ^ n \<and> unat x \<le> 2 ^ n \<and> (\<forall>m. unat x \<le> 2 ^ m \<longrightarrow> n \<le> m)"
  using next_pow2_of_smeared[of x "rte_combine32ms1b (x - 1)"] smeared_combine32[of "x - 1"] assms
  by (simp add: rte_align32pow2_def word_le_nat_alt)

lemma align64pow2_word:
  assumes "x \<noteq> 0" and "x \<le> 2 ^ 63"
  shows "\<exists>n < 64. rte_align64pow2 x = 2 ^ n \<and> unat x \<le> 2 ^ n \<and> (\<forall>m. unat x \<le> 2 ^ m \<longrightarrow> n \<le> m)"
  using next_pow2_of_smeared[of x "rte_combine64ms1b (x - 1)"] smeared_combine64[of "x - 1"] assms
  by (simp add: rte_align64pow2_def word_le_nat_alt)

lemma align32pow2_overflow:
  assumes "2 ^ 31 < x"
  shows "rte_align32pow2 x = 0"
proof -
  have x1: "unat (x - 1) = unat x - 1" using assms by (intro unat_minus_one) auto
  have "2 ^ 31 < unat x" using assms by (simp add: word_less_nat_alt)
  then have "rte_combine32ms1b (x - 1) = mask (Suc 31)"
    using smeared_combine32[of "x - 1"] by (intro smeared_mask) (auto simp: x1 less_imp_diff_less)
  then show ?thesis by (simp add: rte_align32pow2_def mask_eq_exp_minus_1)
qed

lemma count_zeros_eq:
  "n < N \<Longrightarrow> b n \<Longrightarrow> (\<And>i. i < n \<Longrightarrow> \<not> b i) \<Longrightarrow> count_zeros b N = n"
proof (induction N arbitrary: b n)
  case (Suc N)
  show ?case
  proof (cases n)
    case (Suc m)
    with Suc.prems have "count_zeros (\<lambda>i. b (Suc i)) N = m" by (intro Suc.IH) auto
    with Suc Suc.prems show ?thesis by auto
  qed (use Suc.prems in simp)
qed simp

lemma builtin_ctz_exp: "n < LENGTH('a) \<Longrightarrow> builtin_ctz (2 ^ n :: 'a::len word) = Inr n"
  by (auto simp: builtin_ctz_def bit_exp_iff intro!: count_zeros_eq)

end
