(* ===== verification/Ring_Core.thy ===== *)
theory Ring_Core
  imports Rte_Common
begin

text \<open>
  The data of the ring library (\<^verbatim>\<open>src/rte_lib/ring/rte_ring_core.h\<close>) and the copy
  loops of \<^verbatim>\<open>src/rte_lib/ring/rte_ring_elem_pvt.h\<close>.

  The producer and the consumer status are unions of three structures.  The record
  \<open>rte_ring_headtail\<close> lists the 32-bit cells of the union in the order of their offsets, so
  that the three views alias as they do in memory:
  offset 0 is \<open>head\<close> (also \<open>ht.pos.head\<close>, and \<open>tail.val.cnt\<close> in RTS mode), offset 4 is
  \<open>tail\<close> (also \<open>ht.pos.tail\<close> and \<open>tail.val.pos\<close>), offset 8 is \<open>sync_type\<close>, and only
  the RTS view uses the cells after it: \<open>htd_max\<close>, \<open>head.val.cnt\<close>, \<open>head.val.pos\<close>.

  The elements are stored behind the structure (\<open>&r[1]\<close>); \<open>r_mem\<close> is that memory as
  32-bit cells.  A ring of elements of \<open>esize\<close> bytes owns \<open>size * esize / 4\<close> cells.
\<close>

section \<open>Data\<close>

datatype rte_ring_queue_behavior = RTE_RING_QUEUE_FIXED | RTE_RING_QUEUE_VARIABLE

datatype rte_ring_sync_type =
  RTE_RING_SYNC_MT | RTE_RING_SYNC_ST | RTE_RING_SYNC_MT_RTS | RTE_RING_SYNC_MT_HTS

record rte_ring_headtail =
  ht_head :: u32
  ht_tail :: u32
  ht_sync_type :: rte_ring_sync_type
  ht_htd_max :: u32
  ht_rts_cnt :: u32
  ht_rts_pos :: u32

record rte_ring =
  r_name :: string
  r_flags :: u32
  r_memzone :: "nat option"
  r_size :: u32
  r_mask :: u32
  r_capacity :: u32
  r_prod :: rte_ring_headtail
  r_cons :: rte_ring_headtail
  r_mem :: "u32 list"

section \<open>The copy loops\<close>

text \<open>
  One element assignment, \<open>dst[di] = src[si]\<close>, for elements of \<open>k\<close> cells: \<open>k = 1\<close> for
  \<open>uint32_t\<close>, 2 for \<open>uint64_t\<close>, 4 for \<open>rte_int128_t\<close>.  An access outside either array is
  a fault.
\<close>

definition copy_elem :: "nat \<Rightarrow> u32 list \<Rightarrow> u32 \<Rightarrow> u32 list \<Rightarrow> u32 \<Rightarrow> u32 list cres" where
  "copy_elem k dst di src si =
     (if k * unat di + k \<le> length dst \<and> k * unat si + k \<le> length src
      then Inr (blit dst (k * unat di) (take k (drop (k * unat si) src)))
      else Inl OutOfBounds)"

text \<open>
  The six copy functions share one loop shape: \<open>i\<close> runs over the object table and
  \<open>idx\<close> over the ring.  A statement \<open>f d i idx\<close> assigns one element; \<open>d\<close> is the array
  written.  \<open>run_offsets\<close> is one unrolled loop body, \<open>unrolled_loop\<close> the loop
  \<open>for (i = 0; i < (n & ~(u - 1)); i += u, idx += u)\<close> with its number of iterations,
  \<open>fall_through\<close> the switch on the remainder.
\<close>

type_synonym stmt = "u32 list \<Rightarrow> u32 \<Rightarrow> u32 \<Rightarrow> u32 list cres"

fun run_offsets :: "stmt \<Rightarrow> u32 list \<Rightarrow> u32 list \<Rightarrow> u32 \<Rightarrow> u32 \<Rightarrow> u32 list cres" where
  "run_offsets f [] d i idx = Inr d"
| "run_offsets f (k # ks) d i idx =
     bindc (f d (i + k) (idx + k)) (\<lambda>d. run_offsets f ks d i idx)"

fun unrolled_loop :: "stmt \<Rightarrow> u32 list \<Rightarrow> nat \<Rightarrow> u32 list \<Rightarrow> u32 \<Rightarrow> u32 \<Rightarrow> (u32 list \<times> u32 \<times> u32) cres"
where
  "unrolled_loop f ks 0 d i idx = Inr (d, i, idx)"
| "unrolled_loop f ks (Suc m) d i idx =
     bindc (run_offsets f ks d i idx)
       (\<lambda>d. unrolled_loop f ks m d (i + of_nat (length ks)) (idx + of_nat (length ks)))"

fun fall_through :: "stmt \<Rightarrow> nat \<Rightarrow> u32 list \<Rightarrow> u32 \<Rightarrow> u32 \<Rightarrow> u32 list cres" where
  "fall_through f 0 d i idx = Inr d"
| "fall_through f (Suc m) d i idx = bindc (f d i idx) (\<lambda>d. fall_through f m d (i + 1) (idx + 1))"

text \<open>The two loops taken when the copy reaches the end of the ring.\<close>

lemma unat_Suc_word:
  assumes "x < (y :: u32)"
  shows "unat (x + 1) = Suc (unat x)"
proof -
  have "unat x < unat y" using assms by (simp add: word_less_nat_alt)
  then have "unat x + 1 < 4294967296" using unat_u32_lt[of y] by linarith
  then show ?thesis by (subst unat_add_no_wrap) auto
qed

function wrap_loop :: "stmt \<Rightarrow> u32 \<Rightarrow> u32 list \<Rightarrow> u32 \<Rightarrow> u32 \<Rightarrow> (u32 list \<times> u32) cres" where
  "wrap_loop f sz d i idx =
     (if idx < sz then bindc (f d i idx) (\<lambda>d. wrap_loop f sz d (i + 1) (idx + 1))
      else Inr (d, i))"
  by pat_completeness auto
termination
  by (relation "measure (\<lambda>(f, sz, d, i, idx). unat sz - unat idx)")
     (auto simp: unat_Suc_word word_less_nat_alt)

function rest_loop :: "stmt \<Rightarrow> u32 \<Rightarrow> u32 list \<Rightarrow> u32 \<Rightarrow> u32 \<Rightarrow> u32 list cres" where
  "rest_loop f n d i idx =
     (if i < n then bindc (f d i idx) (\<lambda>d. rest_loop f n d (i + 1) (idx + 1)) else Inr d)"
  by pat_completeness auto
termination
  by (relation "measure (\<lambda>(f, n, d, i, idx). unat n - unat i)")
     (auto simp: unat_Suc_word word_less_nat_alt)

declare wrap_loop.simps [simp del] rest_loop.simps [simp del]

definition ring_copy :: "stmt \<Rightarrow> u32 list \<Rightarrow> u32 \<Rightarrow> u32 \<Rightarrow> u32 \<Rightarrow> u32 list \<Rightarrow> u32 list cres" where
  "ring_copy f ks sz idx n d =
     (let u = of_nat (length ks) in
      if idx + n < sz then
        bindc (unrolled_loop f ks (unat (n AND NOT (u - 1)) div length ks) d 0 idx)
          (\<lambda>(d, i, idx). fall_through f (unat (n AND (u - 1))) d i idx)
      else
        bindc (wrap_loop f sz d 0 idx) (\<lambda>(d, i). rest_loop f n d i 0))"

section \<open>Enqueue and dequeue of elements\<close>

definition enqueue_elems_32 :: "rte_ring \<Rightarrow> u32 \<Rightarrow> u32 \<Rightarrow> u32 list \<Rightarrow> u32 \<Rightarrow> rte_ring cres" where
  "enqueue_elems_32 r sz idx obj n =
     bindc (ring_copy (\<lambda>ring i idx. copy_elem 1 ring idx obj i) [0, 1, 2, 3, 4, 5, 6, 7] sz idx n (r_mem r))
       (\<lambda>m. Inr (r\<lparr>r_mem := m\<rparr>))"

definition enqueue_elems_64 :: "rte_ring \<Rightarrow> u32 \<Rightarrow> u32 list \<Rightarrow> u32 \<Rightarrow> rte_ring cres" where
  "enqueue_elems_64 r prod_head obj n =
     (let sz = r_size r; idx = prod_head AND r_mask r in
      bindc (ring_copy (\<lambda>ring i idx. copy_elem 2 ring idx obj i) [0, 1, 2, 3] sz idx n (r_mem r))
        (\<lambda>m. Inr (r\<lparr>r_mem := m\<rparr>)))"

definition enqueue_elems_128 :: "rte_ring \<Rightarrow> u32 \<Rightarrow> u32 list \<Rightarrow> u32 \<Rightarrow> rte_ring cres" where
  "enqueue_elems_128 r prod_head obj n =
     (let sz = r_size r; idx = prod_head AND r_mask r in
      bindc (ring_copy (\<lambda>ring i idx. copy_elem 4 ring idx obj i) [0, 1] sz idx n (r_mem r))
        (\<lambda>m. Inr (r\<lparr>r_mem := m\<rparr>)))"

definition enqueue_elems :: "rte_ring \<Rightarrow> u32 \<Rightarrow> u32 list \<Rightarrow> u32 \<Rightarrow> u32 \<Rightarrow> rte_ring cres" where
  "enqueue_elems r prod_head obj esize num =
     (if esize = 8 then enqueue_elems_64 r prod_head obj num
      else if esize = 16 then enqueue_elems_128 r prod_head obj num
      else
        let scale = esize div 4; nr_num = num * scale; idx = prod_head AND r_mask r;
            nr_idx = idx * scale; nr_size = r_size r * scale
        in enqueue_elems_32 r nr_size nr_idx obj nr_num)"

definition dequeue_elems_32 :: "rte_ring \<Rightarrow> u32 \<Rightarrow> u32 \<Rightarrow> u32 list \<Rightarrow> u32 \<Rightarrow> u32 list cres" where
  "dequeue_elems_32 r sz idx obj n =
     ring_copy (\<lambda>obj i idx. copy_elem 1 obj i (r_mem r) idx) [0, 1, 2, 3, 4, 5, 6, 7] sz idx n obj"

definition dequeue_elems_64 :: "rte_ring \<Rightarrow> u32 \<Rightarrow> u32 list \<Rightarrow> u32 \<Rightarrow> u32 list cres" where
  "dequeue_elems_64 r cons_head obj n =
     (let sz = r_size r; idx = cons_head AND r_mask r in
      ring_copy (\<lambda>obj i idx. copy_elem 2 obj i (r_mem r) idx) [0, 1, 2, 3] sz idx n obj)"

definition dequeue_elems_128 :: "rte_ring \<Rightarrow> u32 \<Rightarrow> u32 list \<Rightarrow> u32 \<Rightarrow> u32 list cres" where
  "dequeue_elems_128 r cons_head obj n =
     (let sz = r_size r; idx = cons_head AND r_mask r in
      ring_copy (\<lambda>obj i idx. copy_elem 4 obj i (r_mem r) idx) [0, 1] sz idx n obj)"

definition dequeue_elems :: "rte_ring \<Rightarrow> u32 \<Rightarrow> u32 list \<Rightarrow> u32 \<Rightarrow> u32 \<Rightarrow> u32 list cres" where
  "dequeue_elems r cons_head obj esize num =
     (if esize = 8 then dequeue_elems_64 r cons_head obj num
      else if esize = 16 then dequeue_elems_128 r cons_head obj num
      else
        let scale = esize div 4; nr_num = num * scale; idx = cons_head AND r_mask r;
            nr_idx = idx * scale; nr_size = r_size r * scale
        in dequeue_elems_32 r nr_size nr_idx obj nr_num)"

section \<open>The unrolled loops are plain element-by-element copies\<close>

lemma fall_through_add:
  "fall_through f (a + b) d i idx =
     bindc (fall_through f a d i idx) (\<lambda>d. fall_through f b d (i + of_nat a) (idx + of_nat a))"
proof (induction a arbitrary: d i idx)
  case (Suc a)
  then show ?case by (cases "f d i idx") (simp_all add: ac_simps)
qed simp

lemma run_offsets_fall_through:
  "run_offsets f (map of_nat [a..<a + c]) d i idx = fall_through f c d (i + of_nat a) (idx + of_nat a)"
proof (induction c arbitrary: a d)
  case (Suc c)
  have "[a..<a + Suc c] = a # [Suc a..<Suc a + c]" by (simp add: upt_rec)
  then show ?case
    using Suc[of "Suc a"] by (cases "f d (i + of_nat a) (idx + of_nat a)") (simp_all add: ac_simps)
qed simp

lemma unrolled_loop_fall_through:
  assumes "ks = map of_nat [0..<u]"
  shows "unrolled_loop f ks m d i idx =
    bindc (fall_through f (m * u) d i idx)
      (\<lambda>d. Inr (d, i + of_nat (m * u), idx + of_nat (m * u)))"
proof (induction m arbitrary: d i idx)
  case (Suc m)
  have "run_offsets f ks d i idx = fall_through f u d i idx"
    using run_offsets_fall_through[of f 0 u d i idx] assms by simp
  then show ?case
    using Suc assms
    by (cases "fall_through f u d i idx") (simp_all add: fall_through_add fault_simps ac_simps)
qed simp

lemma wrap_loop_fall_through:
  "idx \<le> sz \<Longrightarrow> wrap_loop f sz d i idx =
     bindc (fall_through f (unat sz - unat idx) d i idx) (\<lambda>d. Inr (d, i + (sz - idx)))"
proof (induction f sz d i idx rule: wrap_loop.induct)
  case (1 f sz d i idx)
  show ?case
  proof (cases "idx < sz")
    case True
    then have step: "unat sz - unat idx = Suc (unat sz - unat (idx + 1))"
      by (simp add: unat_Suc_word word_less_nat_alt)
    from True have "idx + 1 \<le> sz" by (simp add: inc_le)
    with 1 True show ?thesis
      by (subst wrap_loop.simps, cases "f d i idx") (simp_all add: step algebra_simps)
  next
    case False
    with 1 have "idx = sz" by simp
    then show ?thesis by (simp add: wrap_loop.simps)
  qed
qed

lemma rest_loop_fall_through:
  "rest_loop f n d i idx = fall_through f (unat n - unat i) d i idx"
proof (induction f n d i idx rule: rest_loop.induct)
  case (1 f n d i idx)
  show ?case
  proof (cases "i < n")
    case True
    then have "unat n - unat i = Suc (unat n - unat (i + 1))"
      by (simp add: unat_Suc_word word_less_nat_alt)
    with 1 True show ?thesis
      by (subst rest_loop.simps, cases "f d i idx") simp_all
  qed (simp add: rest_loop.simps word_less_nat_alt)
qed

lemma ring_copy_fall_through:
  assumes "ks = map of_nat [0..<2 ^ e]" and "e < 32" and "idx < sz"
    and "unat idx + unat n < 2 ^ 32"
  shows "ring_copy f ks sz idx n d =
    (if unat idx + unat n < unat sz then fall_through f (unat n) d 0 idx
     else bindc (fall_through f (unat sz - unat idx) d 0 idx)
            (\<lambda>d. fall_through f (unat n - (unat sz - unat idx)) d (sz - idx) 0))"
proof -
  have len: "length ks = 2 ^ e" and u: "of_nat (length ks) = (2 ^ e :: u32)"
    using assms by simp_all
  have m: "unat (n AND (2 ^ e - 1)) = unat n mod 2 ^ e"
    by (rule unat_and_exp)
  have "n AND (2 ^ e - 1) \<le> n" by (rule word_and_le2)
  then have "unat (n AND NOT (2 ^ e - 1)) = unat n - unat n mod 2 ^ e"
    by (simp add: and_not_eq_diff unat_sub_le m)
  then have blocks: "unat (n AND NOT (2 ^ e - 1)) div 2 ^ e * 2 ^ e = unat n div 2 ^ e * 2 ^ e"
    by (simp flip: minus_mod_eq_div_mult)
  have split: "fall_through f (unat n) d 0 idx =
      bindc (fall_through f (unat n div 2 ^ e * 2 ^ e) d 0 idx)
        (\<lambda>d. fall_through f (unat n mod 2 ^ e) d (0 + of_nat (unat n div 2 ^ e * 2 ^ e))
              (idx + of_nat (unat n div 2 ^ e * 2 ^ e)))"
    by (subst fall_through_add[symmetric]) (simp only: div_mult_mod_eq)
  have less: "idx + n < sz \<longleftrightarrow> unat idx + unat n < unat sz"
    using assms by (simp add: word_less_nat_alt unat_add_no_wrap)
  have "unat (sz - idx) = unat sz - unat idx"
    using assms by (simp add: unat_sub_le)
  then show ?thesis
    using assms(2-)
    by (simp add: ring_copy_def Let_def u len less m blocks split wrap_loop_fall_through
          rest_loop_fall_through unrolled_loop_fall_through[OF assms(1)] fault_simps)
qed

section \<open>The copies as writes and reads of a circular buffer\<close>

lemma fall_through_swap:
  "fall_through f c d i idx = fall_through (\<lambda>d a b. f d b a) c d idx i"
  by (induction c arbitrary: d i idx) simp_all

lemma fall_through_copy:
  assumes "k * (unat di + c) \<le> length d" and "k * (unat si + c) \<le> length src"
    and "unat di + c < 2 ^ 32" and "unat si + c < 2 ^ 32"
  shows "fall_through (\<lambda>d di si. copy_elem k d di src si) c d di si =
    Inr (blit d (k * unat di) (take (k * c) (drop (k * unat si) src)))"
  using assms
proof (induction c arbitrary: d di si)
  case 0
  then show ?case by simp
next
  case (Suc c)
  let ?xs = "take k (drop (k * unat si) src)"
  let ?d = "blit d (k * unat di) ?xs"
  have di: "unat (di + 1) = unat di + 1" and si: "unat (si + 1) = unat si + 1"
    using Suc.prems(3,4) by (auto simp: unat_add_no_wrap)
  have bd: "k * unat di + k + k * c \<le> length d" and bs: "k * unat si + k + k * c \<le> length src"
    using Suc.prems(1,2) by (simp_all add: algebra_simps)
  have xs: "length ?xs = k" using bs by simp
  have ld: "length ?d = length d" using bd xs by simp
  have step: "copy_elem k d di src si = Inr ?d" using bd bs by (simp add: copy_elem_def)
  have "fall_through (\<lambda>d di si. copy_elem k d di src si) c ?d (di + 1) (si + 1) =
      Inr (blit ?d (k * unat di + length ?xs) (take (k * c) (drop (k * unat si + k) src)))"
    using Suc.prems bd bs
    by (subst Suc.IH) (simp_all add: di si ld xs add_mult_distrib2 add.commute[of k])
  also have "blit ?d (k * unat di + length ?xs) (take (k * c) (drop (k * unat si + k) src)) =
      blit d (k * unat di) (?xs @ take (k * c) (drop (k * unat si + k) src))"
    using bd bs xs by (intro blit_blit_adjacent) simp
  also have "?xs @ take (k * c) (drop (k * unat si + k) src) = take (k * Suc c) (drop (k * unat si) src)"
    by (simp add: take_add ac_simps)
  finally show ?case using step by simp
qed

lemma ring_copy_into_ring:
  assumes "ks = map of_nat [0..<2 ^ e]" and "e < 32" and "idx < sz"
    and "unat idx + unat n < 2 ^ 32" and "n \<le> sz" and "0 < k"
    and "length mem = k * unat sz" and "k * unat n \<le> length obj"
  shows "ring_copy (\<lambda>ring i idx. copy_elem k ring idx obj i) ks sz idx n mem =
    Inr (circ_write mem (k * unat idx) (take (k * unat n) obj))"
proof -
  have lt: "unat idx < unat sz" and le: "unat n \<le> unat sz"
    using assms by (simp_all add: word_less_nat_alt word_le_nat_alt)
  have s: "k * unat idx < length mem" using lt assms by simp
  show ?thesis
  proof (cases "unat idx + unat n < unat sz")
    case True
    then have "k * (unat idx + unat n) \<le> k * unat sz" by (intro mult_le_mono2) simp
    with True assms s show ?thesis
      by (subst ring_copy_fall_through[OF assms(1-4)])
         (simp add: fall_through_swap[of _ _ _ 0] fall_through_copy circ_write_straight algebra_simps)
  next
    case False
    let ?c = "unat sz - unat idx"
    have c: "?c \<le> unat n" "unat (sz - idx) = ?c" using False lt less_imp_le[OF assms(3)] by (auto simp: unat_sub_le)
    have c32: "?c < 2 ^ 32" using le_less_trans[OF c(1) unat_u32_lt] by simp
    have d32: "unat n - ?c < 2 ^ 32" using le_less_trans[OF diff_le_self unat_u32_lt] by simp
    have kc: "k * ?c \<le> k * unat n" using c by simp
    have kn: "k * unat n \<le> k * unat sz" using le by simp
    have "k * unat sz \<le> k * (unat idx + unat n)" using False by (intro mult_le_mono2) simp
    then have wrap: "length mem \<le> k * unat idx + k * unat n" using assms by (simp add: algebra_simps)
    let ?m = "blit mem (k * unat idx) (take (k * ?c) obj)"
    have idxc: "k * (unat idx + ?c) = length mem" using lt assms by simp
    then have rest: "length mem - k * unat idx = k * ?c" by (simp add: algebra_simps)
    have first: "fall_through (\<lambda>ring i idx. copy_elem k ring idx obj i) ?c mem 0 idx = Inr ?m"
      using idxc le_trans[OF kc assms(8)] lt c32
      by (subst fall_through_swap) (subst fall_through_copy, simp_all)
    have lm: "length ?m = length mem" using s kc assms(8) rest by simp
    have "k * (unat n - ?c) \<le> length mem" using kn assms(7) by (simp add: diff_mult_distrib2 le_trans[OF diff_le_self])
    moreover have "k * (?c + (unat n - ?c)) \<le> length obj" using c assms by simp
    ultimately have "fall_through (\<lambda>ring i idx. copy_elem k ring idx obj i) (unat n - ?c) ?m (sz - idx) 0 =
        Inr (blit ?m 0 (take (k * (unat n - ?c)) (drop (k * ?c) obj)))"
      using c lm d32 by (subst fall_through_swap) (subst fall_through_copy, simp_all)
    moreover have "circ_write mem (k * unat idx) (take (k * unat n) obj) =
        blit ?m 0 (take (k * (unat n - ?c)) (drop (k * ?c) obj))"
      using s wrap kn kc assms
      by (subst circ_write_wrapped) (simp_all add: rest drop_take diff_mult_distrib2 add_mult_distrib2 min_absorb1)
    ultimately show ?thesis
      using False first by (simp add: ring_copy_fall_through[OF assms(1-4)])
  qed
qed

lemma ring_copy_from_ring:
  assumes "ks = map of_nat [0..<2 ^ e]" and "e < 32" and "idx < sz"
    and "unat idx + unat n < 2 ^ 32" and "n \<le> sz" and "0 < k"
    and "length mem = k * unat sz" and "k * unat n \<le> length obj"
  shows "ring_copy (\<lambda>obj i idx. copy_elem k obj i mem idx) ks sz idx n obj =
    Inr (circ_read mem (k * unat idx) (k * unat n) @ drop (k * unat n) obj)"
proof -
  have lt: "unat idx < unat sz" and le: "unat n \<le> unat sz"
    using assms by (simp_all add: word_less_nat_alt word_le_nat_alt)
  have s: "k * unat idx < length mem" using lt assms by simp
  show ?thesis
  proof (cases "unat idx + unat n < unat sz")
    case True
    then have "k * (unat idx + unat n) \<le> k * unat sz" by (intro mult_le_mono2) simp
    with True assms s show ?thesis
      by (subst ring_copy_fall_through[OF assms(1-4)])
         (simp add: fall_through_copy circ_read_straight blit_prefix min_absorb1 algebra_simps)
  next
    case False
    let ?c = "unat sz - unat idx"
    have c: "?c \<le> unat n" "unat (sz - idx) = ?c" using False lt less_imp_le[OF assms(3)] by (auto simp: unat_sub_le)
    have c32: "?c < 2 ^ 32" using le_less_trans[OF c(1) unat_u32_lt] by simp
    have d32: "unat n - ?c < 2 ^ 32" using le_less_trans[OF diff_le_self unat_u32_lt] by simp
    have kc: "k * ?c \<le> k * unat n" using c by simp
    have kn: "k * unat n \<le> k * unat sz" using le by simp
    have "k * unat sz \<le> k * (unat idx + unat n)" using False by (intro mult_le_mono2) simp
    then have wrap: "length mem \<le> k * unat idx + k * unat n" using assms by (simp add: algebra_simps)
    have idxc: "k * (unat idx + ?c) = length mem" using lt assms by simp
    then have rest: "length mem - k * unat idx = k * ?c" by (simp add: algebra_simps)
    let ?A = "drop (k * unat idx) mem" and ?B = "take (k * (unat n - ?c)) mem"
    have A: "length ?A = k * ?c" using rest by simp
    have knc: "k * (unat n - ?c) \<le> length mem" using kn assms(7) by (simp add: diff_mult_distrib2 le_trans[OF diff_le_self])
    have len: "length ?A + length ?B = k * unat n" using A knc kc by (simp add: diff_mult_distrib2 min_absorb1)
    have first: "fall_through (\<lambda>obj i idx. copy_elem k obj i mem idx) ?c obj 0 idx = Inr (blit obj 0 ?A)"
      using idxc le_trans[OF kc assms(8)] lt c32 A
      by (subst fall_through_copy) simp_all
    have lo: "length (blit obj 0 ?A) = length obj" using le_trans[OF kc assms(8)] A by simp
    have "fall_through (\<lambda>obj i idx. copy_elem k obj i mem idx) (unat n - ?c) (blit obj 0 ?A) (sz - idx) 0 =
        Inr (blit (blit obj 0 ?A) (0 + length ?A) ?B)"
      using c lo knc assms A d32 by (subst fall_through_copy) simp_all
    also have "blit (blit obj 0 ?A) (0 + length ?A) ?B = blit obj 0 (?A @ ?B)"
      using len assms(8) by (intro blit_blit_adjacent) simp
    also have "\<dots> = (?A @ ?B) @ drop (k * unat n) obj"
      using len assms(8) by (subst blit_prefix) simp_all
    finally show ?thesis
      using False first s wrap kn assms(7)
      by (simp add: ring_copy_fall_through[OF assms(1-4)] circ_read_wrapped rest diff_mult_distrib2)
  qed
qed

section \<open>The shape of an initialised ring\<close>

text \<open>
  A ring for elements of \<open>k\<close> cells: the size is a power of two, the mask is one less, and
  the memory behind the structure holds \<open>size\<close> elements.  The bound is the one under which
  the 32-bit product \<open>count * esize\<close> of \<open>rte_ring_get_memsize_elem\<close> does not wrap.
\<close>

definition ring_shape :: "nat \<Rightarrow> rte_ring \<Rightarrow> bool" where
  "ring_shape k r \<longleftrightarrow> RTE_IS_POWER_OF_2 (r_size r) \<and> r_mask r = r_size r - 1 \<and> 0 < k \<and>
     k * unat (r_size r) < 2 ^ 30 \<and> length (r_mem r) = k * unat (r_size r)"

lemma shape_size:
  assumes "ring_shape k r"
  obtains s where "s < 30" and "unat (r_size r) = 2 ^ s" and "r_size r = 2 ^ s" and "r_mask r = 2 ^ s - 1"
proof -
  have "\<exists>s < 32. r_size r = 2 ^ s"
    using assms and_decr_eq_0_iff[of "r_size r"] by (auto simp: ring_shape_def RTE_IS_POWER_OF_2_def)
  then obtain s where s: "s < 32" "r_size r = 2 ^ s" by blast
  then have u: "unat (r_size r) = 2 ^ s" by simp
  have "2 ^ s \<le> k * unat (r_size r)" using assms u by (simp add: ring_shape_def)
  also have "\<dots> < 2 ^ 30" using assms by (simp add: ring_shape_def)
  finally have "s < 30" by (rule power_less_imp_less_exp[rotated]) simp
  with that s u assms show thesis by (simp add: ring_shape_def)
qed

lemma shape_index:
  assumes "ring_shape k r"
  shows "unat (h AND r_mask r) = unat h mod unat (r_size r)" and "h AND r_mask r < r_size r"
proof -
  obtain s where s: "s < 30" "unat (r_size r) = 2 ^ s" "r_mask r = 2 ^ s - 1"
    using assms by (rule shape_size) blast
  then show idx: "unat (h AND r_mask r) = unat h mod unat (r_size r)"
    by (simp add: unat_and_exp)
  show "h AND r_mask r < r_size r"
    using idx s by (simp add: word_less_nat_alt)
qed

lemma unat_cell_size: "unat esize = 4 * k \<Longrightarrow> unat (esize div 4 :: u32) = k"
  by (simp add: unat_div)

lemma scaled_bound:
  assumes "ring_shape k r" and "x \<le> r_size r"
  shows "k * unat x < 2 ^ 30"
proof -
  have "k * unat x \<le> k * unat (r_size r)" using assms(2) by (simp add: word_le_nat_alt)
  also have "\<dots> < 2 ^ 30" using assms(1) by (simp add: ring_shape_def)
  finally show ?thesis .
qed

lemma scaled_index:
  assumes "ring_shape k r" and "unat esize = 4 * k" and "x \<le> r_size r"
  shows "unat (x * (esize div 4)) = k * unat x"
proof -
  have "unat x * unat (esize div 4) < 2 ^ 32"
    using scaled_bound[OF assms(1,3)] by (simp add: unat_cell_size[OF assms(2)] mult.commute)
  then show ?thesis by (simp add: unat_mult_no_wrap unat_cell_size[OF assms(2)])
qed

lemma scale_less:
  assumes "ring_shape k r" and "unat esize = 4 * k" and "x < r_size r" and "n \<le> r_size r"
  shows "x * (esize div 4) < r_size r * (esize div 4)"
    and "n * (esize div 4) \<le> r_size r * (esize div 4)"
    and "unat (x * (esize div 4)) + unat (n * (esize div 4)) < 2 ^ 32"
proof -
  note sc = scaled_index[OF assms(1,2)]
  have k: "0 < k" using assms by (auto simp: ring_shape_def)
  show "x * (esize div 4) < r_size r * (esize div 4)"
    using sc[of x] sc[of "r_size r"] assms(3) k by (simp add: word_less_nat_alt word_le_nat_alt)
  show "n * (esize div 4) \<le> r_size r * (esize div 4)"
    using sc[of n] sc[of "r_size r"] assms(4) by (simp add: word_le_nat_alt)
  show "unat (x * (esize div 4)) + unat (n * (esize div 4)) < 2 ^ 32"
    using sc[of x] sc[of n] scaled_bound[OF assms(1) less_imp_le[OF assms(3)]]
      scaled_bound[OF assms(1,4)] assms(3,4)
    by simp
qed

lemma unroll_lists:
  "[0, 1, 2, 3, 4, 5, 6, 7] = map of_nat [0..<2 ^ 3]" "[0, 1, 2, 3] = map of_nat [0..<2 ^ 2]"
  "[0, 1] = (map of_nat [0..<2 ^ 1] :: u32 list)"
  by (simp_all add: upt_rec)

lemma index_no_wrap:
  assumes "ring_shape k r" and "n \<le> r_size r"
  shows "unat (h AND r_mask r) + unat n < 2 ^ 32"
proof -
  obtain s where s: "s < 30" "unat (r_size r) = 2 ^ s" using assms(1) by (rule shape_size) blast
  have "(2::nat) ^ s \<le> 2 ^ 30" using s by (intro power_increasing) auto
  moreover have "unat (h AND r_mask r) < 2 ^ s" "unat n \<le> 2 ^ s"
    using shape_index(2)[OF assms(1), of h] assms(2) s by (simp_all add: word_less_nat_alt word_le_nat_alt)
  ultimately show ?thesis by simp
qed

text \<open>
  For every element size the enqueue copies \<open>n\<close> elements of the object table to the slots
  from \<open>prod_head\<close> on, wrapping at the end of the ring, and the dequeue copies them back.
\<close>

lemma enqueue_elems_circ:
  assumes shape: "ring_shape k r" and es: "unat esize = 4 * k" and n: "n \<le> r_size r"
    and obj: "k * unat n \<le> length obj"
  shows "enqueue_elems r h obj esize n =
    Inr (r\<lparr>r_mem := circ_write (r_mem r) (k * (unat h mod unat (r_size r))) (take (k * unat n) obj)\<rparr>)"
proof -
  note facts = shape_index[OF shape, of h] index_no_wrap[OF shape n, of h] n obj
  have k: "0 < k" and mem: "length (r_mem r) = k * unat (r_size r)"
    using shape by (auto simp: ring_shape_def)
  consider "esize = 8" | "esize = 16" | "esize \<noteq> 8" "esize \<noteq> 16" by blast
  then show ?thesis
  proof cases
    case 1
    then have "k = 2" using es by simp
    with 1 facts mem show ?thesis
      by (simp add: enqueue_elems_def enqueue_elems_64_def ring_copy_into_ring[OF unroll_lists(2)])
  next
    case 2
    then have "k = 4" using es by simp
    with 2 facts mem show ?thesis
      by (simp add: enqueue_elems_def enqueue_elems_128_def ring_copy_into_ring[OF unroll_lists(3)])
  next
    case 3
    let ?c = "esize div 4"
    from 3 facts mem k scale_less[OF shape es facts(2) n] show ?thesis
      by (simp add: enqueue_elems_def enqueue_elems_32_def ring_copy_into_ring[OF unroll_lists(1)]
            scaled_index[OF shape es] Let_def)
  qed
qed

lemma dequeue_elems_circ:
  assumes shape: "ring_shape k r" and es: "unat esize = 4 * k" and n: "n \<le> r_size r"
    and obj: "k * unat n \<le> length obj"
  shows "dequeue_elems r h obj esize n =
    Inr (circ_read (r_mem r) (k * (unat h mod unat (r_size r))) (k * unat n) @ drop (k * unat n) obj)"
proof -
  note facts = shape_index[OF shape, of h] index_no_wrap[OF shape n, of h] n obj
  have k: "0 < k" and mem: "length (r_mem r) = k * unat (r_size r)"
    using shape by (auto simp: ring_shape_def)
  consider "esize = 8" | "esize = 16" | "esize \<noteq> 8" "esize \<noteq> 16" by blast
  then show ?thesis
  proof cases
    case 1
    then have "k = 2" using es by simp
    with 1 facts mem show ?thesis
      by (simp add: dequeue_elems_def dequeue_elems_64_def ring_copy_from_ring[OF unroll_lists(2)])
  next
    case 2
    then have "k = 4" using es by simp
    with 2 facts mem show ?thesis
      by (simp add: dequeue_elems_def dequeue_elems_128_def ring_copy_from_ring[OF unroll_lists(3)])
  next
    case 3
    from 3 facts mem k scale_less[OF shape es facts(2) n] show ?thesis
      by (simp add: dequeue_elems_def dequeue_elems_32_def ring_copy_from_ring[OF unroll_lists(1)]
            scaled_index[OF shape es] Let_def)
  qed
qed

end
