(* ===== verification/Rte_Atomic.thy ===== *)
theory Rte_Atomic
  imports Prelude
begin

text \<open>
  \<^verbatim>\<open>src/rte_lib/include/generic/rte_atomic.h\<close>.  An atomic object is the content of its cell; an
  operation returns its result together with the new content.  The signed counters are words, and
  arithmetic on them wraps as \<open>__sync_add_and_fetch\<close> does.

  \<open>rte_atomic32_cmpset\<close> is inline assembly in this repository: a \<open>cmpxchgl\<close> whose \<open>lock\<close> prefix
  (\<open>MPLOCKED\<close>) is commented out.  A processor then reads the cell and writes it in two accesses,
  \<open>cmpxchg_read\<close> and \<open>cmpxchg_write\<close>; \<open>rte_atomic32_cmpset\<close> is the two in sequence, which is what
  the function does when no other processor intervenes.
\<close>

section \<open>The builtins\<close>

definition sync_bool_compare_and_swap :: "'a \<Rightarrow> 'a \<Rightarrow> 'a \<Rightarrow> bool \<times> 'a" where
  "sync_bool_compare_and_swap cell expected desired =
     (if cell = expected then (True, desired) else (False, cell))"

text \<open>\<open>__atomic_compare_exchange_n\<close> also writes the content it found to \<open>expected\<close>.\<close>

definition atomic_compare_exchange :: "'a \<Rightarrow> 'a \<Rightarrow> 'a \<Rightarrow> bool \<times> 'a \<times> 'a" where
  "atomic_compare_exchange cell expected desired =
     (if cell = expected then (True, desired, expected) else (False, cell, cell))"

definition sync_add_and_fetch :: "'w::len word \<Rightarrow> 'w word \<Rightarrow> 'w word \<times> 'w word" where
  "sync_add_and_fetch cell v = (cell + v, cell + v)"

definition sync_sub_and_fetch :: "'w::len word \<Rightarrow> 'w word \<Rightarrow> 'w word \<times> 'w word" where
  "sync_sub_and_fetch cell v = (cell - v, cell - v)"

section \<open>16-bit objects\<close>

definition rte_atomic16_cmpset :: "u16 \<Rightarrow> u16 \<Rightarrow> u16 \<Rightarrow> bool \<times> u16" where
  "rte_atomic16_cmpset dst old src = sync_bool_compare_and_swap dst old src"

definition rte_atomic16_exchange :: "u16 \<Rightarrow> u16 \<Rightarrow> u16 \<times> u16" where
  "rte_atomic16_exchange dst val = (dst, val)"

definition rte_atomic16_init :: "u16 \<Rightarrow> u16" where
  "rte_atomic16_init v = 0"

definition rte_atomic16_read :: "u16 \<Rightarrow> u16" where
  "rte_atomic16_read v = v"

definition rte_atomic16_set :: "u16 \<Rightarrow> u16 \<Rightarrow> u16" where
  "rte_atomic16_set v new_value = new_value"

definition rte_atomic16_add :: "u16 \<Rightarrow> u16 \<Rightarrow> u16" where
  "rte_atomic16_add v inc = snd (sync_add_and_fetch v inc)"

definition rte_atomic16_sub :: "u16 \<Rightarrow> u16 \<Rightarrow> u16" where
  "rte_atomic16_sub v dec = snd (sync_sub_and_fetch v dec)"

definition rte_atomic16_inc :: "u16 \<Rightarrow> u16" where
  "rte_atomic16_inc v = rte_atomic16_add v 1"

definition rte_atomic16_dec :: "u16 \<Rightarrow> u16" where
  "rte_atomic16_dec v = rte_atomic16_sub v 1"

definition rte_atomic16_add_return :: "u16 \<Rightarrow> u16 \<Rightarrow> u16 \<times> u16" where
  "rte_atomic16_add_return v inc = sync_add_and_fetch v inc"

definition rte_atomic16_sub_return :: "u16 \<Rightarrow> u16 \<Rightarrow> u16 \<times> u16" where
  "rte_atomic16_sub_return v dec = sync_sub_and_fetch v dec"

definition rte_atomic16_inc_and_test :: "u16 \<Rightarrow> bool \<times> u16" where
  "rte_atomic16_inc_and_test v = (let (r, v) = sync_add_and_fetch v 1 in (r = 0, v))"

definition rte_atomic16_dec_and_test :: "u16 \<Rightarrow> bool \<times> u16" where
  "rte_atomic16_dec_and_test v = (let (r, v) = sync_sub_and_fetch v 1 in (r = 0, v))"

definition rte_atomic16_test_and_set :: "u16 \<Rightarrow> bool \<times> u16" where
  "rte_atomic16_test_and_set v = rte_atomic16_cmpset v 0 1"

definition rte_atomic16_clear :: "u16 \<Rightarrow> u16" where
  "rte_atomic16_clear v = 0"

section \<open>32-bit objects\<close>

definition cmpxchg_read :: "u32 \<Rightarrow> u32 \<Rightarrow> bool" where
  "cmpxchg_read dst old \<longleftrightarrow> dst = old"

definition cmpxchg_write :: "bool \<Rightarrow> u32 \<Rightarrow> u32 \<Rightarrow> u32" where
  "cmpxchg_write equal dst src = (if equal then src else dst)"

definition rte_atomic32_cmpset :: "u32 \<Rightarrow> u32 \<Rightarrow> u32 \<Rightarrow> bool \<times> u32" where
  "rte_atomic32_cmpset dst old src =
     (let res = cmpxchg_read dst old in (res, cmpxchg_write res dst src))"

definition rte_atomic32_exchange :: "u32 \<Rightarrow> u32 \<Rightarrow> u32 \<times> u32" where
  "rte_atomic32_exchange dst val = (dst, val)"

definition rte_atomic32_init :: "u32 \<Rightarrow> u32" where
  "rte_atomic32_init v = 0"

definition rte_atomic32_read :: "u32 \<Rightarrow> u32" where
  "rte_atomic32_read v = v"

definition rte_atomic32_set :: "u32 \<Rightarrow> u32 \<Rightarrow> u32" where
  "rte_atomic32_set v new_value = new_value"

definition rte_atomic32_add :: "u32 \<Rightarrow> u32 \<Rightarrow> u32" where
  "rte_atomic32_add v inc = snd (sync_add_and_fetch v inc)"

definition rte_atomic32_sub :: "u32 \<Rightarrow> u32 \<Rightarrow> u32" where
  "rte_atomic32_sub v dec = snd (sync_sub_and_fetch v dec)"

definition rte_atomic32_inc :: "u32 \<Rightarrow> u32" where
  "rte_atomic32_inc v = rte_atomic32_add v 1"

definition rte_atomic32_dec :: "u32 \<Rightarrow> u32" where
  "rte_atomic32_dec v = rte_atomic32_sub v 1"

definition rte_atomic32_add_return :: "u32 \<Rightarrow> u32 \<Rightarrow> u32 \<times> u32" where
  "rte_atomic32_add_return v inc = sync_add_and_fetch v inc"

definition rte_atomic32_sub_return :: "u32 \<Rightarrow> u32 \<Rightarrow> u32 \<times> u32" where
  "rte_atomic32_sub_return v dec = sync_sub_and_fetch v dec"

definition rte_atomic32_inc_and_test :: "u32 \<Rightarrow> bool \<times> u32" where
  "rte_atomic32_inc_and_test v = (let (r, v) = sync_add_and_fetch v 1 in (r = 0, v))"

definition rte_atomic32_dec_and_test :: "u32 \<Rightarrow> bool \<times> u32" where
  "rte_atomic32_dec_and_test v = (let (r, v) = sync_sub_and_fetch v 1 in (r = 0, v))"

definition rte_atomic32_test_and_set :: "u32 \<Rightarrow> bool \<times> u32" where
  "rte_atomic32_test_and_set v = rte_atomic32_cmpset v 0 1"

definition rte_atomic32_clear :: "u32 \<Rightarrow> u32" where
  "rte_atomic32_clear v = 0"

section \<open>64-bit objects\<close>

definition rte_atomic64_cmpset :: "u64 \<Rightarrow> u64 \<Rightarrow> u64 \<Rightarrow> bool \<times> u64" where
  "rte_atomic64_cmpset dst old src = sync_bool_compare_and_swap dst old src"

definition rte_atomic64_exchange :: "u64 \<Rightarrow> u64 \<Rightarrow> u64 \<times> u64" where
  "rte_atomic64_exchange dst val = (dst, val)"

text \<open>\<open>__LP64__\<close> is defined, so initialisation, read and set are plain accesses.\<close>

definition rte_atomic64_init :: "u64 \<Rightarrow> u64" where
  "rte_atomic64_init v = 0"

definition rte_atomic64_read :: "u64 \<Rightarrow> u64" where
  "rte_atomic64_read v = v"

definition rte_atomic64_set :: "u64 \<Rightarrow> u64 \<Rightarrow> u64" where
  "rte_atomic64_set v new_value = new_value"

definition rte_atomic64_add :: "u64 \<Rightarrow> u64 \<Rightarrow> u64" where
  "rte_atomic64_add v inc = snd (sync_add_and_fetch v inc)"

definition rte_atomic64_sub :: "u64 \<Rightarrow> u64 \<Rightarrow> u64" where
  "rte_atomic64_sub v dec = snd (sync_sub_and_fetch v dec)"

definition rte_atomic64_inc :: "u64 \<Rightarrow> u64" where
  "rte_atomic64_inc v = rte_atomic64_add v 1"

definition rte_atomic64_dec :: "u64 \<Rightarrow> u64" where
  "rte_atomic64_dec v = rte_atomic64_sub v 1"

definition rte_atomic64_add_return :: "u64 \<Rightarrow> u64 \<Rightarrow> u64 \<times> u64" where
  "rte_atomic64_add_return v inc = sync_add_and_fetch v inc"

definition rte_atomic64_sub_return :: "u64 \<Rightarrow> u64 \<Rightarrow> u64 \<times> u64" where
  "rte_atomic64_sub_return v dec = sync_sub_and_fetch v dec"

definition rte_atomic64_inc_and_test :: "u64 \<Rightarrow> bool \<times> u64" where
  "rte_atomic64_inc_and_test v = (let (r, v) = rte_atomic64_add_return v 1 in (r = 0, v))"

definition rte_atomic64_dec_and_test :: "u64 \<Rightarrow> bool \<times> u64" where
  "rte_atomic64_dec_and_test v = (let (r, v) = rte_atomic64_sub_return v 1 in (r = 0, v))"

definition rte_atomic64_test_and_set :: "u64 \<Rightarrow> bool \<times> u64" where
  "rte_atomic64_test_and_set v = rte_atomic64_cmpset v 0 1"

definition rte_atomic64_clear :: "u64 \<Rightarrow> u64" where
  "rte_atomic64_clear v = rte_atomic64_set v 0"

section \<open>Lemmas\<close>

lemma rte_atomic32_cmpset_eq:
  "rte_atomic32_cmpset dst old src = (if dst = old then (True, src) else (False, dst))"
  by (simp add: rte_atomic32_cmpset_def cmpxchg_read_def cmpxchg_write_def)



text \<open>A counter that is incremented and decremented by the same amount is unchanged, also across the
  wrap, and the tests report exactly the passage through 0.\<close>

theorem atomic32_counter:
  "rte_atomic32_sub (rte_atomic32_add v d) d = v \<and> rte_atomic32_dec (rte_atomic32_inc v) = v \<and>
   (fst (rte_atomic32_dec_and_test v) \<longleftrightarrow> v = 1) \<and> (fst (rte_atomic32_inc_and_test v) \<longleftrightarrow> v = - 1) \<and>
   (fst (rte_atomic32_test_and_set v) \<longleftrightarrow> v = 0)"
proof -
  have "v - 1 = 0 \<longleftrightarrow> v = 1" by (rule right_minus_eq)
  moreover have "v + 1 = 0 \<longleftrightarrow> v = - 1" by (rule eq_neg_iff_add_eq_0[symmetric])
  ultimately show ?thesis
    by (simp add: rte_atomic32_sub_def rte_atomic32_add_def rte_atomic32_dec_def rte_atomic32_inc_def
        rte_atomic32_dec_and_test_def rte_atomic32_inc_and_test_def rte_atomic32_test_and_set_def
        sync_add_and_fetch_def sync_sub_and_fetch_def rte_atomic32_cmpset_eq)
qed

end
