(* ===== verification/Ring_Elem.thy ===== *)
theory Ring_Elem
  imports Ring_Core Rte_Atomic
begin

text \<open>
  Reserving and publishing slots of a ring, in the three synchronisation schemes:
  \<^item> \<^verbatim>\<open>rte_ring_generic_pvt.h\<close> and \<^verbatim>\<open>rte_ring_elem_pvt.h\<close> (single and multi
    producer/consumer); \<open>RTE_USE_C11_MEM_MODEL\<close> is not defined, so the generic header is used,
    and the C11 header is modelled next to it;
  \<^item> \<^verbatim>\<open>rte_ring_hts_elem_pvt.h\<close> (head/tail sync);
  \<^item> \<^verbatim>\<open>rte_ring_rts_elem_pvt.h\<close> (relaxed tail sync).

  The functions here are runs of one thread that no other thread interrupts: a
  compare-and-set compares with the cell it finds, and a wait loop whose condition
  does not hold at once is the fault \<open>Spins\<close>, because nobody else changes the cell.
  The interleavings of several threads are in \<open>Ring_Threads\<close>.

  The out-parameters are returned: \<open>(n, old_head, new_head, free_entries, ring)\<close>.  When \<open>n\<close>
  is 0 the source leaves \<open>*new_head\<close> unset, and no caller reads it.
\<close>

section \<open>Shared pieces\<close>

text \<open>The value of a \<open>enum rte_ring_sync_type\<close> passed as \<open>is_sp\<close> or \<open>is_sc\<close>, as a truth value.\<close>

definition is_single :: "rte_ring_sync_type \<Rightarrow> bool" where
  "is_single st \<longleftrightarrow> st \<noteq> RTE_RING_SYNC_MT"

text \<open>How many of \<open>n\<close> wanted entries are granted when \<open>avail\<close> are there.\<close>

definition ring_limit :: "rte_ring_queue_behavior \<Rightarrow> u32 \<Rightarrow> u32 \<Rightarrow> u32" where
  "ring_limit behavior n avail =
     (if n > avail then (if behavior = RTE_RING_QUEUE_FIXED then 0 else avail) else n)"

section \<open>Single and multi producer/consumer\<close>

definition update_tail :: "rte_ring_headtail \<Rightarrow> u32 \<Rightarrow> u32 \<Rightarrow> bool \<Rightarrow> rte_ring_headtail cres" where
  "update_tail ht old_val new_val single =
     (if \<not> single \<and> ht_tail ht \<noteq> old_val then Inl Spins
      else Inr (ht\<lparr>ht_tail := new_val\<rparr>))"

definition move_prod_head ::
  "rte_ring \<Rightarrow> bool \<Rightarrow> u32 \<Rightarrow> rte_ring_queue_behavior \<Rightarrow> (u32 \<times> u32 \<times> u32 \<times> u32 \<times> rte_ring) cres"
where
  "move_prod_head r is_sp n behavior =
     (let old_head = ht_head (r_prod r);
          free_entries = r_capacity r + ht_tail (r_cons r) - old_head;
          n = ring_limit behavior n free_entries;
          new_head = old_head + n
      in if n = 0 then Inr (0, old_head, new_head, free_entries, r)
         else
           let (success, h) = (if is_sp then (True, new_head)
                 else rte_atomic32_cmpset (ht_head (r_prod r)) old_head new_head)
           in if success
              then Inr (n, old_head, new_head, free_entries, r\<lparr>r_prod := (r_prod r)\<lparr>ht_head := h\<rparr>\<rparr>)
              else Inl Spins)"

definition move_cons_head ::
  "rte_ring \<Rightarrow> bool \<Rightarrow> u32 \<Rightarrow> rte_ring_queue_behavior \<Rightarrow> (u32 \<times> u32 \<times> u32 \<times> u32 \<times> rte_ring) cres"
where
  "move_cons_head r is_sc n behavior =
     (let old_head = ht_head (r_cons r);
          entries = ht_tail (r_prod r) - old_head;
          n = ring_limit behavior n entries;
          new_head = old_head + n
      in if n = 0 then Inr (0, old_head, new_head, entries, r)
         else
           let (success, h) = (if is_sc then (True, new_head)
                 else rte_atomic32_cmpset (ht_head (r_cons r)) old_head new_head)
           in if success
              then Inr (n, old_head, new_head, entries, r\<lparr>r_cons := (r_cons r)\<lparr>ht_head := h\<rparr>\<rparr>)
              else Inl Spins)"

definition do_enqueue_elem ::
  "rte_ring \<Rightarrow> u32 list \<Rightarrow> u32 \<Rightarrow> u32 \<Rightarrow> rte_ring_queue_behavior \<Rightarrow> bool \<Rightarrow> (u32 \<times> u32 \<times> rte_ring) cres"
where
  "do_enqueue_elem r obj_table esize n behavior is_sp =
     bindc (move_prod_head r is_sp n behavior) (\<lambda>(n, prod_head, prod_next, free_entries, r).
       if n = 0 then Inr (n, free_entries - n, r)
       else
         bindc (enqueue_elems r prod_head obj_table esize n) (\<lambda>r.
         bindc (update_tail (r_prod r) prod_head prod_next is_sp) (\<lambda>ht.
           Inr (n, free_entries - n, r\<lparr>r_prod := ht\<rparr>))))"

text \<open>The dequeues return the object table too: the cells of the caller's array.\<close>

definition do_dequeue_elem ::
  "rte_ring \<Rightarrow> u32 list \<Rightarrow> u32 \<Rightarrow> u32 \<Rightarrow> rte_ring_queue_behavior \<Rightarrow> bool \<Rightarrow>
     (u32 \<times> u32 \<times> u32 list \<times> rte_ring) cres"
where
  "do_dequeue_elem r obj_table esize n behavior is_sc =
     bindc (move_cons_head r is_sc n behavior) (\<lambda>(n, cons_head, cons_next, entries, r).
       if n = 0 then Inr (n, entries - n, obj_table, r)
       else
         bindc (dequeue_elems r cons_head obj_table esize n) (\<lambda>obj_table.
         bindc (update_tail (r_cons r) cons_head cons_next is_sc) (\<lambda>ht.
           Inr (n, entries - n, obj_table, r\<lparr>r_cons := ht\<rparr>))))"

section \<open>The C11 variant of the same three helpers\<close>

text \<open>
  \<open>__atomic_compare_exchange_n(p, &expected, desired)\<close>: on failure the current value is
  written to \<open>expected\<close> and the loop goes on with it.  Here \<open>old_head\<close> was loaded from the
  same cell, so a single thread succeeds in the first round.
\<close>

definition update_tail_c11 :: "rte_ring_headtail \<Rightarrow> u32 \<Rightarrow> u32 \<Rightarrow> bool \<Rightarrow> rte_ring_headtail cres" where
  "update_tail_c11 ht old_val new_val single =
     (if \<not> single \<and> ht_tail ht \<noteq> old_val then Inl Spins
      else Inr (ht\<lparr>ht_tail := new_val\<rparr>))"

definition move_prod_head_c11 ::
  "rte_ring \<Rightarrow> bool \<Rightarrow> u32 \<Rightarrow> rte_ring_queue_behavior \<Rightarrow> (u32 \<times> u32 \<times> u32 \<times> u32 \<times> rte_ring) cres"
where
  "move_prod_head_c11 r is_sp n behavior =
     (let old_head = ht_head (r_prod r);
          cons_tail = ht_tail (r_cons r);
          free_entries = r_capacity r + cons_tail - old_head;
          n = ring_limit behavior n free_entries;
          new_head = old_head + n
      in if n = 0 then Inr (0, old_head, new_head, free_entries, r)
         else
           let (success, h, old_head') = (if is_sp then (True, new_head, old_head)
                 else atomic_compare_exchange (ht_head (r_prod r)) old_head new_head)
           in if success
              then Inr (n, old_head', new_head, free_entries, r\<lparr>r_prod := (r_prod r)\<lparr>ht_head := h\<rparr>\<rparr>)
              else Inl Spins)"

definition move_cons_head_c11 ::
  "rte_ring \<Rightarrow> bool \<Rightarrow> u32 \<Rightarrow> rte_ring_queue_behavior \<Rightarrow> (u32 \<times> u32 \<times> u32 \<times> u32 \<times> rte_ring) cres"
where
  "move_cons_head_c11 r is_sc n behavior =
     (let old_head = ht_head (r_cons r);
          prod_tail = ht_tail (r_prod r);
          entries = prod_tail - old_head;
          n = ring_limit behavior n entries;
          new_head = old_head + n
      in if n = 0 then Inr (0, old_head, new_head, entries, r)
         else
           let (success, h, old_head') = (if is_sc then (True, new_head, old_head)
                 else atomic_compare_exchange (ht_head (r_cons r)) old_head new_head)
           in if success
              then Inr (n, old_head', new_head, entries, r\<lparr>r_cons := (r_cons r)\<lparr>ht_head := h\<rparr>\<rparr>)
              else Inl Spins)"

section \<open>Head/tail sync\<close>

definition hts_update_tail :: "rte_ring_headtail \<Rightarrow> u32 \<Rightarrow> u32 \<Rightarrow> rte_ring_headtail" where
  "hts_update_tail ht old_tail num = (let tail = old_tail + num in ht\<lparr>ht_tail := tail\<rparr>)"

text \<open>The position pair \<open>p\<close> is (head, tail); the loop reloads it from \<open>ht\<close> until both agree.\<close>

definition hts_head_wait :: "rte_ring_headtail \<Rightarrow> u32 \<times> u32 \<Rightarrow> (u32 \<times> u32) cres" where
  "hts_head_wait ht p =
     (if fst p = snd p then Inr p
      else if ht_head ht = ht_tail ht then Inr (ht_head ht, ht_tail ht)
      else Inl Spins)"

definition hts_move_prod_head ::
  "rte_ring \<Rightarrow> u32 \<Rightarrow> rte_ring_queue_behavior \<Rightarrow> (u32 \<times> u32 \<times> u32 \<times> rte_ring) cres"
where
  "hts_move_prod_head r num behavior =
     (let op = (ht_head (r_prod r), ht_tail (r_prod r)) in
      bindc (hts_head_wait (r_prod r) op) (\<lambda>op.
        let free_entries = r_capacity r + ht_tail (r_cons r) - fst op;
            n = ring_limit behavior num free_entries
        in if n = 0 then Inr (n, fst op, free_entries, r)
           else
             let np = (fst op + n, snd op);
                 (success, cell, op') =
                   atomic_compare_exchange (ht_head (r_prod r), ht_tail (r_prod r)) op np
             in if success
                then Inr (n, fst op', free_entries,
                       r\<lparr>r_prod := (r_prod r)\<lparr>ht_head := fst cell, ht_tail := snd cell\<rparr>\<rparr>)
                else Inl Spins))"

definition hts_move_cons_head ::
  "rte_ring \<Rightarrow> u32 \<Rightarrow> rte_ring_queue_behavior \<Rightarrow> (u32 \<times> u32 \<times> u32 \<times> rte_ring) cres"
where
  "hts_move_cons_head r num behavior =
     (let op = (ht_head (r_cons r), ht_tail (r_cons r)) in
      bindc (hts_head_wait (r_cons r) op) (\<lambda>op.
        let entries = ht_tail (r_prod r) - fst op;
            n = ring_limit behavior num entries
        in if n = 0 then Inr (n, fst op, entries, r)
           else
             let np = (fst op + n, snd op);
                 (success, cell, op') =
                   atomic_compare_exchange (ht_head (r_cons r), ht_tail (r_cons r)) op np
             in if success
                then Inr (n, fst op', entries,
                       r\<lparr>r_cons := (r_cons r)\<lparr>ht_head := fst cell, ht_tail := snd cell\<rparr>\<rparr>)
                else Inl Spins))"

definition do_hts_enqueue_elem ::
  "rte_ring \<Rightarrow> u32 list \<Rightarrow> u32 \<Rightarrow> u32 \<Rightarrow> rte_ring_queue_behavior \<Rightarrow> (u32 \<times> u32 \<times> rte_ring) cres"
where
  "do_hts_enqueue_elem r obj_table esize n behavior =
     bindc (hts_move_prod_head r n behavior) (\<lambda>(n, head, free, r).
       if n \<noteq> 0
       then bindc (enqueue_elems r head obj_table esize n) (\<lambda>r.
              Inr (n, free - n, r\<lparr>r_prod := hts_update_tail (r_prod r) head n\<rparr>))
       else Inr (n, free - n, r))"

definition do_hts_dequeue_elem ::
  "rte_ring \<Rightarrow> u32 list \<Rightarrow> u32 \<Rightarrow> u32 \<Rightarrow> rte_ring_queue_behavior \<Rightarrow>
     (u32 \<times> u32 \<times> u32 list \<times> rte_ring) cres"
where
  "do_hts_dequeue_elem r obj_table esize n behavior =
     bindc (hts_move_cons_head r n behavior) (\<lambda>(n, head, entries, r).
       if n \<noteq> 0
       then bindc (dequeue_elems r head obj_table esize n) (\<lambda>obj_table.
              Inr (n, entries - n, obj_table, r\<lparr>r_cons := hts_update_tail (r_cons r) head n\<rparr>))
       else Inr (n, entries - n, obj_table, r))"

section \<open>Relaxed tail sync\<close>

text \<open>
  The tail pair is (\<open>tail.val.cnt\<close>, \<open>tail.val.pos\<close>) = (\<open>ht_head\<close>, \<open>ht_tail\<close>) by offset, the
  head pair (\<open>ht_rts_cnt\<close>, \<open>ht_rts_pos\<close>).
\<close>

definition rts_update_tail :: "rte_ring_headtail \<Rightarrow> rte_ring_headtail cres" where
  "rts_update_tail ht =
     (let ot = (ht_head ht, ht_tail ht);
          h = (ht_rts_cnt ht, ht_rts_pos ht);
          cnt = fst ot + 1;
          nt = (cnt, if cnt = fst h then snd h else snd ot);
          (success, cell, ot') = atomic_compare_exchange (ht_head ht, ht_tail ht) ot nt
      in if success then Inr (ht\<lparr>ht_head := fst cell, ht_tail := snd cell\<rparr>) else Inl Spins)"

definition rts_head_wait :: "rte_ring_headtail \<Rightarrow> u32 \<times> u32 \<Rightarrow> (u32 \<times> u32) cres" where
  "rts_head_wait ht h =
     (let max = ht_htd_max ht in
      if snd h - ht_tail ht > max
      then if ht_rts_pos ht - ht_tail ht > max then Inl Spins
           else Inr (ht_rts_cnt ht, ht_rts_pos ht)
      else Inr h)"

definition rts_move_prod_head ::
  "rte_ring \<Rightarrow> u32 \<Rightarrow> rte_ring_queue_behavior \<Rightarrow> (u32 \<times> u32 \<times> u32 \<times> rte_ring) cres"
where
  "rts_move_prod_head r num behavior =
     (let oh = (ht_rts_cnt (r_prod r), ht_rts_pos (r_prod r)) in
      bindc (rts_head_wait (r_prod r) oh) (\<lambda>oh.
        let free_entries = r_capacity r + ht_tail (r_cons r) - snd oh;
            n = ring_limit behavior num free_entries
        in if n = 0 then Inr (n, snd oh, free_entries, r)
           else
             let nh = (fst oh + 1, snd oh + n);
                 (success, cell, oh') =
                   atomic_compare_exchange (ht_rts_cnt (r_prod r), ht_rts_pos (r_prod r)) oh nh
             in if success
                then Inr (n, snd oh', free_entries,
                       r\<lparr>r_prod := (r_prod r)\<lparr>ht_rts_cnt := fst cell, ht_rts_pos := snd cell\<rparr>\<rparr>)
                else Inl Spins))"

definition rts_move_cons_head ::
  "rte_ring \<Rightarrow> u32 \<Rightarrow> rte_ring_queue_behavior \<Rightarrow> (u32 \<times> u32 \<times> u32 \<times> rte_ring) cres"
where
  "rts_move_cons_head r num behavior =
     (let oh = (ht_rts_cnt (r_cons r), ht_rts_pos (r_cons r)) in
      bindc (rts_head_wait (r_cons r) oh) (\<lambda>oh.
        let entries = ht_tail (r_prod r) - snd oh;
            n = ring_limit behavior num entries
        in if n = 0 then Inr (n, snd oh, entries, r)
           else
             let nh = (fst oh + 1, snd oh + n);
                 (success, cell, oh') =
                   atomic_compare_exchange (ht_rts_cnt (r_cons r), ht_rts_pos (r_cons r)) oh nh
             in if success
                then Inr (n, snd oh', entries,
                       r\<lparr>r_cons := (r_cons r)\<lparr>ht_rts_cnt := fst cell, ht_rts_pos := snd cell\<rparr>\<rparr>)
                else Inl Spins))"

definition do_rts_enqueue_elem ::
  "rte_ring \<Rightarrow> u32 list \<Rightarrow> u32 \<Rightarrow> u32 \<Rightarrow> rte_ring_queue_behavior \<Rightarrow> (u32 \<times> u32 \<times> rte_ring) cres"
where
  "do_rts_enqueue_elem r obj_table esize n behavior =
     bindc (rts_move_prod_head r n behavior) (\<lambda>(n, head, free, r).
       if n \<noteq> 0
       then bindc (enqueue_elems r head obj_table esize n) (\<lambda>r.
            bindc (rts_update_tail (r_prod r)) (\<lambda>ht. Inr (n, free - n, r\<lparr>r_prod := ht\<rparr>)))
       else Inr (n, free - n, r))"

definition do_rts_dequeue_elem ::
  "rte_ring \<Rightarrow> u32 list \<Rightarrow> u32 \<Rightarrow> u32 \<Rightarrow> rte_ring_queue_behavior \<Rightarrow>
     (u32 \<times> u32 \<times> u32 list \<times> rte_ring) cres"
where
  "do_rts_dequeue_elem r obj_table esize n behavior =
     bindc (rts_move_cons_head r n behavior) (\<lambda>(n, head, entries, r).
       if n \<noteq> 0
       then bindc (dequeue_elems r head obj_table esize n) (\<lambda>obj_table.
            bindc (rts_update_tail (r_cons r)) (\<lambda>ht. Inr (n, entries - n, obj_table, r\<lparr>r_cons := ht\<rparr>)))
       else Inr (n, entries - n, obj_table, r))"

section \<open>Invariant and abstract contents\<close>

text \<open>
  Between operations no slot is reserved: in RTS mode the head pair equals the tail pair, in
  the other modes head and tail agree.  The cells between the two tails are the contents.
\<close>

definition ht_quiet :: "rte_ring_headtail \<Rightarrow> bool" where
  "ht_quiet ht \<longleftrightarrow>
     (if ht_sync_type ht = RTE_RING_SYNC_MT_RTS
      then ht_rts_pos ht = ht_tail ht \<and> ht_rts_cnt ht = ht_head ht
      else ht_head ht = ht_tail ht)"

definition ring_used :: "rte_ring \<Rightarrow> u32" where
  "ring_used r = ht_tail (r_prod r) - ht_tail (r_cons r)"

definition ring_inv :: "nat \<Rightarrow> rte_ring \<Rightarrow> bool" where
  "ring_inv k r \<longleftrightarrow> ring_shape k r \<and> r_capacity r \<le> r_mask r \<and>
     ht_quiet (r_prod r) \<and> ht_quiet (r_cons r) \<and> ring_used r \<le> r_capacity r"

definition ring_start :: "nat \<Rightarrow> rte_ring \<Rightarrow> nat" where
  "ring_start k r = k * (unat (ht_tail (r_cons r)) mod unat (r_size r))"

definition ring_cells :: "nat \<Rightarrow> rte_ring \<Rightarrow> u32 list" where
  "ring_cells k r = circ_read (r_mem r) (ring_start k r) (k * unat (ring_used r))"

lemma ring_limit_le: "ring_limit b n a \<le> n" "ring_limit b n a \<le> a"
  by (auto simp: ring_limit_def)

lemma ring_limit_fixed: "ring_limit RTE_RING_QUEUE_FIXED n a = (if n \<le> a then n else 0)"
  by (auto simp: ring_limit_def)

lemma ring_limit_variable: "ring_limit RTE_RING_QUEUE_VARIABLE n a = min n a"
  by (auto simp: ring_limit_def min_def)

lemma inv_bounds:
  assumes "ring_inv k r"
  obtains s where "s < 30" and "unat (r_size r) = 2 ^ s"
    and "unat (ring_used r) \<le> unat (r_capacity r)" and "unat (r_capacity r) < unat (r_size r)"
    and "0 < k" and "length (r_mem r) = k * unat (r_size r)"
proof -
  have shape: "ring_shape k r" using assms by (simp add: ring_inv_def)
  then obtain s where s: "s < 30" "unat (r_size r) = 2 ^ s" "r_size r = 2 ^ s" "r_mask r = 2 ^ s - 1"
    by (rule shape_size) blast
  have "unat (r_mask r) = 2 ^ s - 1"
    using s by (simp add: unat_minus_one)
  then have "unat (r_capacity r) \<le> 2 ^ s - 1" using assms by (simp add: ring_inv_def word_le_nat_alt)
  moreover have "(0::nat) < 2 ^ s" by simp
  ultimately have "unat (r_capacity r) < unat (r_size r)" using s(2) by linarith
  then show thesis
    using that[of s] s assms shape by (simp add: ring_inv_def ring_shape_def word_le_nat_alt)
qed

lemma scaled_mod: "k * ((a mod n + b) mod n) = (k * (a mod n) + k * b) mod (k * n)" for k :: nat
  by (simp only: mult_mod_right[symmetric] distrib_left[symmetric])

lemma ring_shape_update [simp]:
  "ring_shape k (r\<lparr>r_cons := c\<rparr>) = ring_shape k r"
  "ring_shape k (r\<lparr>r_prod := p\<rparr>) = ring_shape k r"
  "length m = length (r_mem r) \<Longrightarrow> ring_shape k (r\<lparr>r_mem := m\<rparr>) = ring_shape k r"
  by (simp_all add: ring_shape_def)

lemma tail_index:
  assumes "ring_inv k r"
  shows "k * (unat (ht_tail (r_prod r)) mod unat (r_size r)) =
    (ring_start k r + k * unat (ring_used r)) mod length (r_mem r)"
proof -
  obtain s where s: "s < 30" "unat (r_size r) = 2 ^ s" "length (r_mem r) = k * unat (r_size r)"
    using assms by (rule inv_bounds) blast
  have "ht_tail (r_prod r) = ht_tail (r_cons r) + ring_used r" by (simp add: ring_used_def)
  then have "unat (ht_tail (r_prod r)) mod 2 ^ s =
      (unat (ht_tail (r_cons r)) + unat (ring_used r)) mod 2 ^ s"
    using s(1) by (simp only:) (simp add: unat_add_mod_exp)
  also have "\<dots> = (unat (ht_tail (r_cons r)) mod 2 ^ s + unat (ring_used r)) mod 2 ^ s"
    by (simp add: mod_simps)
  finally show ?thesis
    using s by (simp only: ring_start_def scaled_mod)
qed

lemma start_less:
  assumes "ring_inv k r"
  shows "ring_start k r < length (r_mem r)"
  using assms by (rule inv_bounds) (simp add: ring_start_def)

lemma enqueue_effect:
  assumes inv: "ring_inv k r" and m: "m \<le> r_capacity r - ring_used r"
    and obj: "k * unat m \<le> length obj"
    and tail: "ht_tail p = ht_tail (r_prod r) + m" and quiet: "ht_quiet p"
    and r': "r' = r\<lparr>r_mem := circ_write (r_mem r) (k * (unat (ht_tail (r_prod r)) mod unat (r_size r)))
                     (take (k * unat m) obj), r_prod := p\<rparr>"
  shows "ring_inv k r'" and "ring_cells k r' = ring_cells k r @ take (k * unat m) obj"
    and "ring_used r' = ring_used r + m"
proof -
  obtain s where s: "unat (ring_used r) \<le> unat (r_capacity r)" "unat (r_capacity r) < unat (r_size r)"
      "0 < k" "length (r_mem r) = k * unat (r_size r)"
    using inv by (rule inv_bounds) blast
  have used: "ring_used r' = ring_used r + m" by (simp add: r' ring_used_def tail)
  then show "ring_used r' = ring_used r + m" .
  have "unat m \<le> unat (r_capacity r) - unat (ring_used r)"
    using m s(1) by (simp add: word_le_nat_alt unat_sub_le)
  then have sum: "unat (ring_used r) + unat m \<le> unat (r_capacity r)" using s(1) by simp
  have nat: "unat (ring_used r + m) = unat (ring_used r) + unat m"
    using le_less_trans[OF sum unat_u32_lt] by (intro unat_add_no_wrap) simp
  show "ring_inv k r'"
    using inv quiet sum nat used by (simp add: ring_inv_def r' word_le_nat_alt)
  have "k * unat (ring_used r) + k * unat m \<le> k * unat (r_size r)"
    using sum s(2) by (simp flip: distrib_left)
  then have "circ_read (circ_write (r_mem r) ((ring_start k r + k * unat (ring_used r)) mod length (r_mem r))
        (take (k * unat m) obj)) (ring_start k r) (k * unat (ring_used r) + length (take (k * unat m) obj)) =
      circ_read (r_mem r) (ring_start k r) (k * unat (ring_used r)) @ take (k * unat m) obj"
    using obj s(4) by (intro circ_read_after_write start_less[OF inv]) simp
  then show "ring_cells k r' = ring_cells k r @ take (k * unat m) obj"
    using obj unfolding ring_cells_def used nat
    by (simp add: r' tail_index[OF inv] ring_start_def distrib_left min_absorb1)
qed

lemma dequeue_effect:
  assumes inv: "ring_inv k r" and m: "m \<le> ring_used r"
    and tail: "ht_tail c = ht_tail (r_cons r) + m" and quiet: "ht_quiet c"
    and r': "r' = r\<lparr>r_cons := c\<rparr>"
  shows "ring_inv k r'" and "ring_cells k r = circ_read (r_mem r) (ring_start k r) (k * unat m) @ ring_cells k r'"
    and "ring_used r' = ring_used r - m"
proof -
  obtain s where s: "s < 30" "unat (r_size r) = 2 ^ s" "0 < k" "length (r_mem r) = k * unat (r_size r)"
    using inv by (rule inv_bounds) blast
  have used: "ring_used r' = ring_used r - m" by (simp add: r' ring_used_def tail)
  then show "ring_used r' = ring_used r - m" .
  have nat: "unat (ring_used r - m) = unat (ring_used r) - unat m" using m by (rule unat_sub_le)
  have le: "unat m \<le> unat (ring_used r)" using m by (simp add: word_le_nat_alt)
  show "ring_inv k r'"
    using inv quiet used nat by (auto simp: ring_inv_def r' word_le_nat_alt)
  have start: "ring_start k r' = (ring_start k r + k * unat m) mod length (r_mem r)"
  proof -
    have "unat (ht_tail c) mod 2 ^ s = (unat (ht_tail (r_cons r)) mod 2 ^ s + unat m) mod 2 ^ s"
      using s(1) by (simp add: tail unat_add_mod_exp mod_simps)
    then show ?thesis
      using s by (simp add: ring_start_def r' scaled_mod)
  qed
  have "k * unat (ring_used r) = k * unat m + k * unat (ring_used r')"
    using le by (simp add: used nat flip: distrib_left)
  then show "ring_cells k r = circ_read (r_mem r) (ring_start k r) (k * unat m) @ ring_cells k r'"
    by (simp add: ring_cells_def start circ_read_append) (simp add: r')
qed

section \<open>Every scheme implements the same bounded queue\<close>

text \<open>
  What an enqueue of \<open>n\<close> elements from \<open>obj\<close> and a dequeue into \<open>obj\<close> promise, whatever the
  scheme: the number of elements moved is \<open>n\<close> limited by the free (used) entries, the third
  component is what is left of them, the contents grow at the end (shrink at the front) by
  exactly these elements, and the configuration of the ring stays.
\<close>

definition same_ring :: "rte_ring \<Rightarrow> rte_ring \<Rightarrow> bool" where
  "same_ring r r' \<longleftrightarrow> r_name r' = r_name r \<and> r_flags r' = r_flags r \<and> r_memzone r' = r_memzone r \<and>
     r_size r' = r_size r \<and> r_mask r' = r_mask r \<and> r_capacity r' = r_capacity r \<and>
     ht_sync_type (r_prod r') = ht_sync_type (r_prod r) \<and> ht_htd_max (r_prod r') = ht_htd_max (r_prod r) \<and>
     ht_sync_type (r_cons r') = ht_sync_type (r_cons r) \<and> ht_htd_max (r_cons r') = ht_htd_max (r_cons r)"

definition enq_spec ::
  "nat \<Rightarrow> rte_ring_queue_behavior \<Rightarrow> rte_ring \<Rightarrow> u32 list \<Rightarrow> u32 \<Rightarrow> (u32 \<times> u32 \<times> rte_ring) cres \<Rightarrow> bool"
where
  "enq_spec k b r obj n res \<longleftrightarrow>
     (let free = r_capacity r - ring_used r; m = ring_limit b n free in
      \<exists>r'. res = Inr (m, free - m, r') \<and> ring_inv k r' \<and>
        ring_cells k r' = ring_cells k r @ take (k * unat m) obj \<and> ring_used r' = ring_used r + m \<and>
        same_ring r r')"

definition deq_spec ::
  "nat \<Rightarrow> rte_ring_queue_behavior \<Rightarrow> rte_ring \<Rightarrow> u32 list \<Rightarrow> u32 \<Rightarrow>
     (u32 \<times> u32 \<times> u32 list \<times> rte_ring) cres \<Rightarrow> bool"
where
  "deq_spec k b r obj n res \<longleftrightarrow>
     (let avail = ring_used r; m = ring_limit b n avail in
      \<exists>r' xs. res = Inr (m, avail - m, xs @ drop (k * unat m) obj, r') \<and> length xs = k * unat m \<and>
        ring_cells k r = xs @ ring_cells k r' \<and> ring_inv k r' \<and> ring_used r' = ring_used r - m \<and>
        same_ring r r')"

lemma enq_specI:
  assumes inv: "ring_inv k r" and obj: "k * unat n \<le> length obj"
    and m: "m = ring_limit b n (r_capacity r - ring_used r)"
    and zero: "m = 0 \<Longrightarrow> res = Inr (0, r_capacity r - ring_used r, r)"
    and pos: "m \<noteq> 0 \<Longrightarrow> \<exists>p. ht_tail p = ht_tail (r_prod r) + m \<and> ht_quiet p \<and>
        ht_sync_type p = ht_sync_type (r_prod r) \<and> ht_htd_max p = ht_htd_max (r_prod r) \<and>
        res = Inr (m, r_capacity r - ring_used r - m,
          r\<lparr>r_mem := circ_write (r_mem r) (k * (unat (ht_tail (r_prod r)) mod unat (r_size r)))
                       (take (k * unat m) obj), r_prod := p\<rparr>)"
  shows "enq_spec k b r obj n res"
proof (cases "m = 0")
  case True
  with zero inv m[symmetric] show ?thesis by (simp add: enq_spec_def Let_def same_ring_def)
next
  case False
  then obtain p where p: "ht_tail p = ht_tail (r_prod r) + m" "ht_quiet p"
      "ht_sync_type p = ht_sync_type (r_prod r)" "ht_htd_max p = ht_htd_max (r_prod r)"
      "res = Inr (m, r_capacity r - ring_used r - m,
        r\<lparr>r_mem := circ_write (r_mem r) (k * (unat (ht_tail (r_prod r)) mod unat (r_size r)))
                     (take (k * unat m) obj), r_prod := p\<rparr>)" (is "_ = Inr (_, _, ?r)")
    using pos by blast
  have "k * unat m \<le> k * unat n" using m ring_limit_le(1)[of b n] by (simp add: word_le_nat_alt)
  then have "k * unat m \<le> length obj" using obj by (rule le_trans)
  moreover have "m \<le> r_capacity r - ring_used r" using m ring_limit_le(2) by simp
  ultimately have "ring_inv k ?r" "ring_cells k ?r = ring_cells k r @ take (k * unat m) obj"
      "ring_used ?r = ring_used r + m"
    using enqueue_effect[OF inv _ _ p(1,2) refl] by blast+
  moreover have "same_ring r ?r" using p(3,4) by (simp add: same_ring_def)
  ultimately show ?thesis using p(5) m by (auto simp: enq_spec_def Let_def)
qed

lemma deq_specI:
  assumes inv: "ring_inv k r" and obj: "k * unat n \<le> length obj"
    and m: "m = ring_limit b n (ring_used r)"
    and zero: "m = 0 \<Longrightarrow> res = Inr (0, ring_used r, obj, r)"
    and pos: "m \<noteq> 0 \<Longrightarrow> \<exists>c. ht_tail c = ht_tail (r_cons r) + m \<and> ht_quiet c \<and>
        ht_sync_type c = ht_sync_type (r_cons r) \<and> ht_htd_max c = ht_htd_max (r_cons r) \<and>
        res = Inr (m, ring_used r - m,
          circ_read (r_mem r) (ring_start k r) (k * unat m) @ drop (k * unat m) obj, r\<lparr>r_cons := c\<rparr>)"
  shows "deq_spec k b r obj n res"
proof (cases "m = 0")
  case True
  with zero inv m[symmetric] show ?thesis by (simp add: deq_spec_def Let_def same_ring_def)
next
  case False
  then obtain c where c: "ht_tail c = ht_tail (r_cons r) + m" "ht_quiet c"
      "ht_sync_type c = ht_sync_type (r_cons r)" "ht_htd_max c = ht_htd_max (r_cons r)"
      "res = Inr (m, ring_used r - m,
        circ_read (r_mem r) (ring_start k r) (k * unat m) @ drop (k * unat m) obj, r\<lparr>r_cons := c\<rparr>)"
    using pos by blast
  have "m \<le> ring_used r" using m ring_limit_le(2) by simp
  note eff = dequeue_effect[OF inv this c(1,2) refl]
  have "same_ring r (r\<lparr>r_cons := c\<rparr>)" using c(3,4) by (simp add: same_ring_def)
  with eff c(5) m show ?thesis
    unfolding deq_spec_def Let_def
    by (intro exI[of _ "r\<lparr>r_cons := c\<rparr>"] exI[of _ "circ_read (r_mem r) (ring_start k r) (k * unat m)"]) simp
qed

lemma granted_le_size:
  assumes "ring_inv k r"
  shows "ring_limit b n (r_capacity r - ring_used r) \<le> r_size r" and "ring_limit b n (ring_used r) \<le> r_size r"
proof -
  obtain s where s: "unat (ring_used r) \<le> unat (r_capacity r)" "unat (r_capacity r) < unat (r_size r)"
    using assms by (rule inv_bounds) blast
  then have "unat (r_capacity r - ring_used r) \<le> unat (r_size r)"
    by (simp add: unat_sub_le word_le_nat_alt)
  then show "ring_limit b n (r_capacity r - ring_used r) \<le> r_size r"
    using ring_limit_le(2)[of b n "r_capacity r - ring_used r"] by (simp add: word_le_nat_alt)
  show "ring_limit b n (ring_used r) \<le> r_size r"
    using ring_limit_le(2)[of b n "ring_used r"] s by (simp add: word_le_nat_alt)
qed

lemma granted_le_obj:
  assumes "k * unat n \<le> length obj"
  shows "k * unat (ring_limit b n a) \<le> length obj"
proof -
  have "k * unat (ring_limit b n a) \<le> k * unat n"
    using ring_limit_le(1)[of b n a] by (simp add: word_le_nat_alt)
  then show ?thesis using assms by (rule le_trans)
qed

lemma enqueue_elems_granted:
  assumes "ring_inv k r" and "unat esize = 4 * k" and "k * unat n \<le> length obj"
    and "m = ring_limit b n (r_capacity r - ring_used r)"
  shows "enqueue_elems (r\<lparr>r_prod := p\<rparr>) h obj esize m =
    Inr (r\<lparr>r_prod := p, r_mem := circ_write (r_mem r) (k * (unat h mod unat (r_size r))) (take (k * unat m) obj)\<rparr>)"
  using enqueue_elems_circ[of k "r\<lparr>r_prod := p\<rparr>" esize m obj h] assms
    granted_le_size(1)[OF assms(1)] granted_le_obj[OF assms(3)]
  by (simp add: ring_inv_def)

lemma dequeue_elems_granted:
  assumes "ring_inv k r" and "unat esize = 4 * k" and "k * unat n \<le> length obj"
    and "m = ring_limit b n (ring_used r)" and "h = ht_tail (r_cons r)"
  shows "dequeue_elems (r\<lparr>r_cons := c\<rparr>) h obj esize m =
    Inr (circ_read (r_mem r) (ring_start k r) (k * unat m) @ drop (k * unat m) obj)"
  using dequeue_elems_circ[of k "r\<lparr>r_cons := c\<rparr>" esize m obj h] assms
    granted_le_size(2)[OF assms(1)] granted_le_obj[OF assms(3)]
  by (simp add: ring_inv_def ring_start_def)

lemma quiet_head:
  "ht_quiet ht \<Longrightarrow> ht_sync_type ht \<noteq> RTE_RING_SYNC_MT_RTS \<Longrightarrow> ht_head ht = ht_tail ht"
  by (simp add: ht_quiet_def)

lemma quiet_rts:
  assumes "ht_quiet ht" and "ht_sync_type ht = RTE_RING_SYNC_MT_RTS"
  shows "ht_rts_pos ht = ht_tail ht" and "ht_rts_cnt ht = ht_head ht"
  using assms by (simp_all add: ht_quiet_def)

lemma inv_quiet:
  assumes "ring_inv k r"
  shows "ht_quiet (r_prod r)" and "ht_quiet (r_cons r)"
  using assms by (simp_all add: ring_inv_def)

lemma free_entries_eq:
  "r_capacity r + ht_tail (r_cons r) - ht_tail (r_prod r) = r_capacity r - ring_used r"
  "ht_tail (r_prod r) - ht_tail (r_cons r) = ring_used r"
  by (simp_all add: ring_used_def)

lemmas generic_ops = do_enqueue_elem_def do_dequeue_elem_def move_prod_head_def move_cons_head_def
  rte_atomic32_cmpset_eq update_tail_def Let_def
lemmas hts_ops = do_hts_enqueue_elem_def do_hts_dequeue_elem_def hts_move_prod_head_def
  hts_move_cons_head_def hts_head_wait_def hts_update_tail_def atomic_compare_exchange_def Let_def
lemmas rts_ops = do_rts_enqueue_elem_def do_rts_dequeue_elem_def rts_move_prod_head_def
  rts_move_cons_head_def rts_head_wait_def rts_update_tail_def atomic_compare_exchange_def Let_def

lemma do_enqueue_elem_spec:
  assumes inv: "ring_inv k r" and es: "unat esize = 4 * k" and obj: "k * unat n \<le> length obj"
    and mode: "ht_sync_type (r_prod r) \<noteq> RTE_RING_SYNC_MT_RTS"
  shows "enq_spec k b r obj n (do_enqueue_elem r obj esize n b sp)"
proof (rule enq_specI[OF inv obj refl], goal_cases zero pos)
  case zero
  then show ?case by (simp add: generic_ops free_entries_eq quiet_head[OF inv_quiet(1)[OF inv] mode])
next
  case pos
  let ?m = "ring_limit b n (r_capacity r - ring_used r)"
  note head = quiet_head[OF inv_quiet(1)[OF inv] mode]
  from pos show ?case
    using mode enqueue_elems_granted[OF inv es obj refl]
    by (intro exI[of _ "(r_prod r)\<lparr>ht_head := ht_tail (r_prod r) + ?m, ht_tail := ht_tail (r_prod r) + ?m\<rparr>"])
       (simp add: generic_ops free_entries_eq head ht_quiet_def)
qed

lemma do_dequeue_elem_spec:
  assumes inv: "ring_inv k r" and es: "unat esize = 4 * k" and obj: "k * unat n \<le> length obj"
    and mode: "ht_sync_type (r_cons r) \<noteq> RTE_RING_SYNC_MT_RTS"
  shows "deq_spec k b r obj n (do_dequeue_elem r obj esize n b sc)"
proof (rule deq_specI[OF inv obj refl], goal_cases zero pos)
  case zero
  then show ?case by (simp add: generic_ops free_entries_eq quiet_head[OF inv_quiet(2)[OF inv] mode])
next
  case pos
  let ?m = "ring_limit b n (ring_used r)"
  note head = quiet_head[OF inv_quiet(2)[OF inv] mode]
  from pos show ?case
    using mode dequeue_elems_granted[OF inv es obj refl refl]
    by (intro exI[of _ "(r_cons r)\<lparr>ht_head := ht_tail (r_cons r) + ?m, ht_tail := ht_tail (r_cons r) + ?m\<rparr>"])
       (simp add: generic_ops free_entries_eq head ht_quiet_def)
qed

lemma do_hts_enqueue_elem_spec:
  assumes inv: "ring_inv k r" and es: "unat esize = 4 * k" and obj: "k * unat n \<le> length obj"
    and mode: "ht_sync_type (r_prod r) \<noteq> RTE_RING_SYNC_MT_RTS"
  shows "enq_spec k b r obj n (do_hts_enqueue_elem r obj esize n b)"
proof (rule enq_specI[OF inv obj refl], goal_cases zero pos)
  case zero
  then show ?case by (simp add: hts_ops free_entries_eq quiet_head[OF inv_quiet(1)[OF inv] mode])
next
  case pos
  let ?m = "ring_limit b n (r_capacity r - ring_used r)"
  note head = quiet_head[OF inv_quiet(1)[OF inv] mode]
  from pos show ?case
    using mode enqueue_elems_granted[OF inv es obj refl]
    by (intro exI[of _ "(r_prod r)\<lparr>ht_head := ht_tail (r_prod r) + ?m, ht_tail := ht_tail (r_prod r) + ?m\<rparr>"])
       (simp add: hts_ops free_entries_eq head ht_quiet_def)
qed

lemma do_hts_dequeue_elem_spec:
  assumes inv: "ring_inv k r" and es: "unat esize = 4 * k" and obj: "k * unat n \<le> length obj"
    and mode: "ht_sync_type (r_cons r) \<noteq> RTE_RING_SYNC_MT_RTS"
  shows "deq_spec k b r obj n (do_hts_dequeue_elem r obj esize n b)"
proof (rule deq_specI[OF inv obj refl], goal_cases zero pos)
  case zero
  then show ?case by (simp add: hts_ops free_entries_eq quiet_head[OF inv_quiet(2)[OF inv] mode])
next
  case pos
  let ?m = "ring_limit b n (ring_used r)"
  note head = quiet_head[OF inv_quiet(2)[OF inv] mode]
  from pos show ?case
    using mode dequeue_elems_granted[OF inv es obj refl refl]
    by (intro exI[of _ "(r_cons r)\<lparr>ht_head := ht_tail (r_cons r) + ?m, ht_tail := ht_tail (r_cons r) + ?m\<rparr>"])
       (simp add: hts_ops free_entries_eq head ht_quiet_def)
qed

lemma do_rts_enqueue_elem_spec:
  assumes inv: "ring_inv k r" and es: "unat esize = 4 * k" and obj: "k * unat n \<le> length obj"
    and mode: "ht_sync_type (r_prod r) = RTE_RING_SYNC_MT_RTS"
  shows "enq_spec k b r obj n (do_rts_enqueue_elem r obj esize n b)"
proof (rule enq_specI[OF inv obj refl], goal_cases zero pos)
  case zero
  then show ?case by (simp add: rts_ops free_entries_eq quiet_rts[OF inv_quiet(1)[OF inv] mode])
next
  case pos
  let ?m = "ring_limit b n (r_capacity r - ring_used r)"
  note head = quiet_rts[OF inv_quiet(1)[OF inv] mode]
  from pos show ?case
    using mode enqueue_elems_granted[OF inv es obj refl]
    by (intro exI[of _ "(r_prod r)\<lparr>ht_head := ht_head (r_prod r) + 1, ht_tail := ht_tail (r_prod r) + ?m,
          ht_rts_cnt := ht_head (r_prod r) + 1, ht_rts_pos := ht_tail (r_prod r) + ?m\<rparr>"])
       (simp add: rts_ops free_entries_eq head ht_quiet_def)
qed

lemma do_rts_dequeue_elem_spec:
  assumes inv: "ring_inv k r" and es: "unat esize = 4 * k" and obj: "k * unat n \<le> length obj"
    and mode: "ht_sync_type (r_cons r) = RTE_RING_SYNC_MT_RTS"
  shows "deq_spec k b r obj n (do_rts_dequeue_elem r obj esize n b)"
proof (rule deq_specI[OF inv obj refl], goal_cases zero pos)
  case zero
  then show ?case by (simp add: rts_ops free_entries_eq quiet_rts[OF inv_quiet(2)[OF inv] mode])
next
  case pos
  let ?m = "ring_limit b n (ring_used r)"
  note head = quiet_rts[OF inv_quiet(2)[OF inv] mode]
  from pos show ?case
    using mode dequeue_elems_granted[OF inv es obj refl refl]
    by (intro exI[of _ "(r_cons r)\<lparr>ht_head := ht_head (r_cons r) + 1, ht_tail := ht_tail (r_cons r) + ?m,
          ht_rts_cnt := ht_head (r_cons r) + 1, ht_rts_pos := ht_tail (r_cons r) + ?m\<rparr>"])
       (simp add: rts_ops free_entries_eq head ht_quiet_def)
qed

text \<open>The C11 helpers compute what the generic helpers compute.\<close>

lemma c11_helpers:
  "update_tail_c11 ht old new single = update_tail ht old new single"
  "move_prod_head_c11 r sp n b = move_prod_head r sp n b"
  "move_cons_head_c11 r sc n b = move_cons_head r sc n b"
  by (simp_all add: update_tail_c11_def update_tail_def move_prod_head_c11_def move_prod_head_def
      move_cons_head_c11_def move_cons_head_def atomic_compare_exchange_def rte_atomic32_cmpset_eq Let_def)

end
