(* ===== verification/Ring_Api.thy ===== *)
theory Ring_Api
  imports Ring_Elem
begin

text \<open>
  The public operations of the ring: \<^verbatim>\<open>rte_ring_elem.h\<close> (elements of any size),
  \<^verbatim>\<open>rte_ring_hts.h\<close> and \<^verbatim>\<open>rte_ring_rts.h\<close> (the two other schemes) and
  \<^verbatim>\<open>rte_ring.h\<close> (pointers, and the queries).  Bulk operations move all \<open>n\<close> elements or none,
  burst operations as many as fit.

  An out-parameter that a caller may pass as NULL is always returned; a caller that passes NULL
  drops it.  A pointer is a 64-bit word, stored as two cells in little-endian order.
\<close>

section \<open>Error codes\<close>

definition ENOENT :: int where "ENOENT = 2"
definition EINVAL :: int where "EINVAL = 22"
definition ENOSPC :: int where "ENOSPC = 28"
definition ENAMETOOLONG :: int where "ENAMETOOLONG = 36"
definition ENOTSUP :: int where "ENOTSUP = 95"
definition ENOBUFS :: int where "ENOBUFS = 105"

type_synonym enq_res = "(u32 \<times> u32 \<times> rte_ring) cres"
type_synonym deq_res = "(u32 \<times> u32 \<times> u32 list \<times> rte_ring) cres"

section \<open>Elements of any size\<close>

definition rte_ring_mp_enqueue_bulk_elem :: "rte_ring \<Rightarrow> u32 list \<Rightarrow> u32 \<Rightarrow> u32 \<Rightarrow> enq_res" where
  "rte_ring_mp_enqueue_bulk_elem r obj_table esize n =
     do_enqueue_elem r obj_table esize n RTE_RING_QUEUE_FIXED (is_single RTE_RING_SYNC_MT)"

definition rte_ring_sp_enqueue_bulk_elem :: "rte_ring \<Rightarrow> u32 list \<Rightarrow> u32 \<Rightarrow> u32 \<Rightarrow> enq_res" where
  "rte_ring_sp_enqueue_bulk_elem r obj_table esize n =
     do_enqueue_elem r obj_table esize n RTE_RING_QUEUE_FIXED (is_single RTE_RING_SYNC_ST)"

definition rte_ring_mc_dequeue_bulk_elem :: "rte_ring \<Rightarrow> u32 list \<Rightarrow> u32 \<Rightarrow> u32 \<Rightarrow> deq_res" where
  "rte_ring_mc_dequeue_bulk_elem r obj_table esize n =
     do_dequeue_elem r obj_table esize n RTE_RING_QUEUE_FIXED (is_single RTE_RING_SYNC_MT)"

definition rte_ring_sc_dequeue_bulk_elem :: "rte_ring \<Rightarrow> u32 list \<Rightarrow> u32 \<Rightarrow> u32 \<Rightarrow> deq_res" where
  "rte_ring_sc_dequeue_bulk_elem r obj_table esize n =
     do_dequeue_elem r obj_table esize n RTE_RING_QUEUE_FIXED (is_single RTE_RING_SYNC_ST)"

definition rte_ring_mp_hts_enqueue_bulk_elem :: "rte_ring \<Rightarrow> u32 list \<Rightarrow> u32 \<Rightarrow> u32 \<Rightarrow> enq_res" where
  "rte_ring_mp_hts_enqueue_bulk_elem r obj_table esize n =
     do_hts_enqueue_elem r obj_table esize n RTE_RING_QUEUE_FIXED"

definition rte_ring_mc_hts_dequeue_bulk_elem :: "rte_ring \<Rightarrow> u32 list \<Rightarrow> u32 \<Rightarrow> u32 \<Rightarrow> deq_res" where
  "rte_ring_mc_hts_dequeue_bulk_elem r obj_table esize n =
     do_hts_dequeue_elem r obj_table esize n RTE_RING_QUEUE_FIXED"

definition rte_ring_mp_rts_enqueue_bulk_elem :: "rte_ring \<Rightarrow> u32 list \<Rightarrow> u32 \<Rightarrow> u32 \<Rightarrow> enq_res" where
  "rte_ring_mp_rts_enqueue_bulk_elem r obj_table esize n =
     do_rts_enqueue_elem r obj_table esize n RTE_RING_QUEUE_FIXED"

definition rte_ring_mc_rts_dequeue_bulk_elem :: "rte_ring \<Rightarrow> u32 list \<Rightarrow> u32 \<Rightarrow> u32 \<Rightarrow> deq_res" where
  "rte_ring_mc_rts_dequeue_bulk_elem r obj_table esize n =
     do_rts_dequeue_elem r obj_table esize n RTE_RING_QUEUE_FIXED"

definition rte_ring_mp_enqueue_burst_elem :: "rte_ring \<Rightarrow> u32 list \<Rightarrow> u32 \<Rightarrow> u32 \<Rightarrow> enq_res" where
  "rte_ring_mp_enqueue_burst_elem r obj_table esize n =
     do_enqueue_elem r obj_table esize n RTE_RING_QUEUE_VARIABLE (is_single RTE_RING_SYNC_MT)"

definition rte_ring_sp_enqueue_burst_elem :: "rte_ring \<Rightarrow> u32 list \<Rightarrow> u32 \<Rightarrow> u32 \<Rightarrow> enq_res" where
  "rte_ring_sp_enqueue_burst_elem r obj_table esize n =
     do_enqueue_elem r obj_table esize n RTE_RING_QUEUE_VARIABLE (is_single RTE_RING_SYNC_ST)"

definition rte_ring_mc_dequeue_burst_elem :: "rte_ring \<Rightarrow> u32 list \<Rightarrow> u32 \<Rightarrow> u32 \<Rightarrow> deq_res" where
  "rte_ring_mc_dequeue_burst_elem r obj_table esize n =
     do_dequeue_elem r obj_table esize n RTE_RING_QUEUE_VARIABLE (is_single RTE_RING_SYNC_MT)"

definition rte_ring_sc_dequeue_burst_elem :: "rte_ring \<Rightarrow> u32 list \<Rightarrow> u32 \<Rightarrow> u32 \<Rightarrow> deq_res" where
  "rte_ring_sc_dequeue_burst_elem r obj_table esize n =
     do_dequeue_elem r obj_table esize n RTE_RING_QUEUE_VARIABLE (is_single RTE_RING_SYNC_ST)"

definition rte_ring_mp_hts_enqueue_burst_elem :: "rte_ring \<Rightarrow> u32 list \<Rightarrow> u32 \<Rightarrow> u32 \<Rightarrow> enq_res" where
  "rte_ring_mp_hts_enqueue_burst_elem r obj_table esize n =
     do_hts_enqueue_elem r obj_table esize n RTE_RING_QUEUE_VARIABLE"

definition rte_ring_mc_hts_dequeue_burst_elem :: "rte_ring \<Rightarrow> u32 list \<Rightarrow> u32 \<Rightarrow> u32 \<Rightarrow> deq_res" where
  "rte_ring_mc_hts_dequeue_burst_elem r obj_table esize n =
     do_hts_dequeue_elem r obj_table esize n RTE_RING_QUEUE_VARIABLE"

definition rte_ring_mp_rts_enqueue_burst_elem :: "rte_ring \<Rightarrow> u32 list \<Rightarrow> u32 \<Rightarrow> u32 \<Rightarrow> enq_res" where
  "rte_ring_mp_rts_enqueue_burst_elem r obj_table esize n =
     do_rts_enqueue_elem r obj_table esize n RTE_RING_QUEUE_VARIABLE"

definition rte_ring_mc_rts_dequeue_burst_elem :: "rte_ring \<Rightarrow> u32 list \<Rightarrow> u32 \<Rightarrow> u32 \<Rightarrow> deq_res" where
  "rte_ring_mc_rts_dequeue_burst_elem r obj_table esize n =
     do_rts_dequeue_elem r obj_table esize n RTE_RING_QUEUE_VARIABLE"

definition rte_ring_enqueue_bulk_elem :: "rte_ring \<Rightarrow> u32 list \<Rightarrow> u32 \<Rightarrow> u32 \<Rightarrow> enq_res" where
  "rte_ring_enqueue_bulk_elem r obj_table esize n =
     (case ht_sync_type (r_prod r) of
          RTE_RING_SYNC_MT \<Rightarrow> rte_ring_mp_enqueue_bulk_elem r obj_table esize n
        | RTE_RING_SYNC_ST \<Rightarrow> rte_ring_sp_enqueue_bulk_elem r obj_table esize n
        | RTE_RING_SYNC_MT_RTS \<Rightarrow> rte_ring_mp_rts_enqueue_bulk_elem r obj_table esize n
        | RTE_RING_SYNC_MT_HTS \<Rightarrow> rte_ring_mp_hts_enqueue_bulk_elem r obj_table esize n)"

definition rte_ring_dequeue_bulk_elem :: "rte_ring \<Rightarrow> u32 list \<Rightarrow> u32 \<Rightarrow> u32 \<Rightarrow> deq_res" where
  "rte_ring_dequeue_bulk_elem r obj_table esize n =
     (case ht_sync_type (r_cons r) of
          RTE_RING_SYNC_MT \<Rightarrow> rte_ring_mc_dequeue_bulk_elem r obj_table esize n
        | RTE_RING_SYNC_ST \<Rightarrow> rte_ring_sc_dequeue_bulk_elem r obj_table esize n
        | RTE_RING_SYNC_MT_RTS \<Rightarrow> rte_ring_mc_rts_dequeue_bulk_elem r obj_table esize n
        | RTE_RING_SYNC_MT_HTS \<Rightarrow> rte_ring_mc_hts_dequeue_bulk_elem r obj_table esize n)"

definition rte_ring_enqueue_burst_elem :: "rte_ring \<Rightarrow> u32 list \<Rightarrow> u32 \<Rightarrow> u32 \<Rightarrow> enq_res" where
  "rte_ring_enqueue_burst_elem r obj_table esize n =
     (case ht_sync_type (r_prod r) of
          RTE_RING_SYNC_MT \<Rightarrow> rte_ring_mp_enqueue_burst_elem r obj_table esize n
        | RTE_RING_SYNC_ST \<Rightarrow> rte_ring_sp_enqueue_burst_elem r obj_table esize n
        | RTE_RING_SYNC_MT_RTS \<Rightarrow> rte_ring_mp_rts_enqueue_burst_elem r obj_table esize n
        | RTE_RING_SYNC_MT_HTS \<Rightarrow> rte_ring_mp_hts_enqueue_burst_elem r obj_table esize n)"

definition rte_ring_dequeue_burst_elem :: "rte_ring \<Rightarrow> u32 list \<Rightarrow> u32 \<Rightarrow> u32 \<Rightarrow> deq_res" where
  "rte_ring_dequeue_burst_elem r obj_table esize n =
     (case ht_sync_type (r_cons r) of
          RTE_RING_SYNC_MT \<Rightarrow> rte_ring_mc_dequeue_burst_elem r obj_table esize n
        | RTE_RING_SYNC_ST \<Rightarrow> rte_ring_sc_dequeue_burst_elem r obj_table esize n
        | RTE_RING_SYNC_MT_RTS \<Rightarrow> rte_ring_mc_rts_dequeue_burst_elem r obj_table esize n
        | RTE_RING_SYNC_MT_HTS \<Rightarrow> rte_ring_mc_hts_dequeue_burst_elem r obj_table esize n)"

text \<open>One element: 0 on success, a negative error otherwise.\<close>

definition rte_ring_mp_enqueue_elem :: "rte_ring \<Rightarrow> u32 list \<Rightarrow> u32 \<Rightarrow> (int \<times> rte_ring) cres" where
  "rte_ring_mp_enqueue_elem r obj esize =
     bindc (rte_ring_mp_enqueue_bulk_elem r obj esize 1)
       (\<lambda>(n, _, r). Inr (if n \<noteq> 0 then 0 else - ENOBUFS, r))"

definition rte_ring_sp_enqueue_elem :: "rte_ring \<Rightarrow> u32 list \<Rightarrow> u32 \<Rightarrow> (int \<times> rte_ring) cres" where
  "rte_ring_sp_enqueue_elem r obj esize =
     bindc (rte_ring_sp_enqueue_bulk_elem r obj esize 1)
       (\<lambda>(n, _, r). Inr (if n \<noteq> 0 then 0 else - ENOBUFS, r))"

definition rte_ring_enqueue_elem :: "rte_ring \<Rightarrow> u32 list \<Rightarrow> u32 \<Rightarrow> (int \<times> rte_ring) cres" where
  "rte_ring_enqueue_elem r obj esize =
     bindc (rte_ring_enqueue_bulk_elem r obj esize 1)
       (\<lambda>(n, _, r). Inr (if n \<noteq> 0 then 0 else - ENOBUFS, r))"

definition rte_ring_mc_dequeue_elem :: "rte_ring \<Rightarrow> u32 list \<Rightarrow> u32 \<Rightarrow> (int \<times> u32 list \<times> rte_ring) cres" where
  "rte_ring_mc_dequeue_elem r obj_p esize =
     bindc (rte_ring_mc_dequeue_bulk_elem r obj_p esize 1)
       (\<lambda>(n, _, obj_p, r). Inr (if n \<noteq> 0 then 0 else - ENOENT, obj_p, r))"

definition rte_ring_sc_dequeue_elem :: "rte_ring \<Rightarrow> u32 list \<Rightarrow> u32 \<Rightarrow> (int \<times> u32 list \<times> rte_ring) cres" where
  "rte_ring_sc_dequeue_elem r obj_p esize =
     bindc (rte_ring_sc_dequeue_bulk_elem r obj_p esize 1)
       (\<lambda>(n, _, obj_p, r). Inr (if n \<noteq> 0 then 0 else - ENOENT, obj_p, r))"

definition rte_ring_dequeue_elem :: "rte_ring \<Rightarrow> u32 list \<Rightarrow> u32 \<Rightarrow> (int \<times> u32 list \<times> rte_ring) cres" where
  "rte_ring_dequeue_elem r obj_p esize =
     bindc (rte_ring_dequeue_bulk_elem r obj_p esize 1)
       (\<lambda>(n, _, obj_p, r). Inr (if n \<noteq> 0 then 0 else - ENOENT, obj_p, r))"

section \<open>Pointers\<close>

definition ptr_cells :: "u64 \<Rightarrow> u32 list" where
  "ptr_cells p = [ucast p, ucast (drop_bit 32 p)]"

definition ptrs_cells :: "u64 list \<Rightarrow> u32 list" where
  "ptrs_cells ps = concat (map ptr_cells ps)"

fun cells_ptrs :: "u32 list \<Rightarrow> u64 list" where
  "cells_ptrs (lo # hi # cs) = (ucast lo OR push_bit 32 (ucast hi)) # cells_ptrs cs"
| "cells_ptrs _ = []"

definition SIZEOF_PTR :: u32 where "SIZEOF_PTR = 8"

type_synonym deq_ptr_res = "(u32 \<times> u32 \<times> u64 list \<times> rte_ring) cres"

text \<open>The table of pointers a dequeue leaves, read back from its cells.\<close>

definition deq_ptrs :: "deq_res \<Rightarrow> deq_ptr_res" where
  "deq_ptrs m = bindc m (\<lambda>(n, available, cs, r). Inr (n, available, cells_ptrs cs, r))"

definition rte_ring_mp_enqueue_bulk :: "rte_ring \<Rightarrow> u64 list \<Rightarrow> u32 \<Rightarrow> enq_res" where
  "rte_ring_mp_enqueue_bulk r obj_table n =
     rte_ring_mp_enqueue_bulk_elem r (ptrs_cells obj_table) SIZEOF_PTR n"

definition rte_ring_sp_enqueue_bulk :: "rte_ring \<Rightarrow> u64 list \<Rightarrow> u32 \<Rightarrow> enq_res" where
  "rte_ring_sp_enqueue_bulk r obj_table n =
     rte_ring_sp_enqueue_bulk_elem r (ptrs_cells obj_table) SIZEOF_PTR n"

definition rte_ring_enqueue_bulk :: "rte_ring \<Rightarrow> u64 list \<Rightarrow> u32 \<Rightarrow> enq_res" where
  "rte_ring_enqueue_bulk r obj_table n =
     rte_ring_enqueue_bulk_elem r (ptrs_cells obj_table) SIZEOF_PTR n"

definition rte_ring_mp_hts_enqueue_bulk :: "rte_ring \<Rightarrow> u64 list \<Rightarrow> u32 \<Rightarrow> enq_res" where
  "rte_ring_mp_hts_enqueue_bulk r obj_table n =
     rte_ring_mp_hts_enqueue_bulk_elem r (ptrs_cells obj_table) SIZEOF_PTR n"

definition rte_ring_mp_rts_enqueue_bulk :: "rte_ring \<Rightarrow> u64 list \<Rightarrow> u32 \<Rightarrow> enq_res" where
  "rte_ring_mp_rts_enqueue_bulk r obj_table n =
     rte_ring_mp_rts_enqueue_bulk_elem r (ptrs_cells obj_table) SIZEOF_PTR n"

definition rte_ring_mc_dequeue_bulk :: "rte_ring \<Rightarrow> u64 list \<Rightarrow> u32 \<Rightarrow> deq_ptr_res" where
  "rte_ring_mc_dequeue_bulk r obj_table n =
     deq_ptrs (rte_ring_mc_dequeue_bulk_elem r (ptrs_cells obj_table) SIZEOF_PTR n)"

definition rte_ring_sc_dequeue_bulk :: "rte_ring \<Rightarrow> u64 list \<Rightarrow> u32 \<Rightarrow> deq_ptr_res" where
  "rte_ring_sc_dequeue_bulk r obj_table n =
     deq_ptrs (rte_ring_sc_dequeue_bulk_elem r (ptrs_cells obj_table) SIZEOF_PTR n)"

definition rte_ring_dequeue_bulk :: "rte_ring \<Rightarrow> u64 list \<Rightarrow> u32 \<Rightarrow> deq_ptr_res" where
  "rte_ring_dequeue_bulk r obj_table n =
     deq_ptrs (rte_ring_dequeue_bulk_elem r (ptrs_cells obj_table) SIZEOF_PTR n)"

definition rte_ring_mc_hts_dequeue_bulk :: "rte_ring \<Rightarrow> u64 list \<Rightarrow> u32 \<Rightarrow> deq_ptr_res" where
  "rte_ring_mc_hts_dequeue_bulk r obj_table n =
     deq_ptrs (rte_ring_mc_hts_dequeue_bulk_elem r (ptrs_cells obj_table) SIZEOF_PTR n)"

definition rte_ring_mc_rts_dequeue_bulk :: "rte_ring \<Rightarrow> u64 list \<Rightarrow> u32 \<Rightarrow> deq_ptr_res" where
  "rte_ring_mc_rts_dequeue_bulk r obj_table n =
     deq_ptrs (rte_ring_mc_rts_dequeue_bulk_elem r (ptrs_cells obj_table) SIZEOF_PTR n)"

definition rte_ring_mp_enqueue_burst :: "rte_ring \<Rightarrow> u64 list \<Rightarrow> u32 \<Rightarrow> enq_res" where
  "rte_ring_mp_enqueue_burst r obj_table n =
     rte_ring_mp_enqueue_burst_elem r (ptrs_cells obj_table) SIZEOF_PTR n"

definition rte_ring_sp_enqueue_burst :: "rte_ring \<Rightarrow> u64 list \<Rightarrow> u32 \<Rightarrow> enq_res" where
  "rte_ring_sp_enqueue_burst r obj_table n =
     rte_ring_sp_enqueue_burst_elem r (ptrs_cells obj_table) SIZEOF_PTR n"

definition rte_ring_enqueue_burst :: "rte_ring \<Rightarrow> u64 list \<Rightarrow> u32 \<Rightarrow> enq_res" where
  "rte_ring_enqueue_burst r obj_table n =
     rte_ring_enqueue_burst_elem r (ptrs_cells obj_table) SIZEOF_PTR n"

definition rte_ring_mp_hts_enqueue_burst :: "rte_ring \<Rightarrow> u64 list \<Rightarrow> u32 \<Rightarrow> enq_res" where
  "rte_ring_mp_hts_enqueue_burst r obj_table n =
     rte_ring_mp_hts_enqueue_burst_elem r (ptrs_cells obj_table) SIZEOF_PTR n"

definition rte_ring_mp_rts_enqueue_burst :: "rte_ring \<Rightarrow> u64 list \<Rightarrow> u32 \<Rightarrow> enq_res" where
  "rte_ring_mp_rts_enqueue_burst r obj_table n =
     rte_ring_mp_rts_enqueue_burst_elem r (ptrs_cells obj_table) SIZEOF_PTR n"

definition rte_ring_mc_dequeue_burst :: "rte_ring \<Rightarrow> u64 list \<Rightarrow> u32 \<Rightarrow> deq_ptr_res" where
  "rte_ring_mc_dequeue_burst r obj_table n =
     deq_ptrs (rte_ring_mc_dequeue_burst_elem r (ptrs_cells obj_table) SIZEOF_PTR n)"

definition rte_ring_sc_dequeue_burst :: "rte_ring \<Rightarrow> u64 list \<Rightarrow> u32 \<Rightarrow> deq_ptr_res" where
  "rte_ring_sc_dequeue_burst r obj_table n =
     deq_ptrs (rte_ring_sc_dequeue_burst_elem r (ptrs_cells obj_table) SIZEOF_PTR n)"

definition rte_ring_dequeue_burst :: "rte_ring \<Rightarrow> u64 list \<Rightarrow> u32 \<Rightarrow> deq_ptr_res" where
  "rte_ring_dequeue_burst r obj_table n =
     deq_ptrs (rte_ring_dequeue_burst_elem r (ptrs_cells obj_table) SIZEOF_PTR n)"

definition rte_ring_mc_hts_dequeue_burst :: "rte_ring \<Rightarrow> u64 list \<Rightarrow> u32 \<Rightarrow> deq_ptr_res" where
  "rte_ring_mc_hts_dequeue_burst r obj_table n =
     deq_ptrs (rte_ring_mc_hts_dequeue_burst_elem r (ptrs_cells obj_table) SIZEOF_PTR n)"

definition rte_ring_mc_rts_dequeue_burst :: "rte_ring \<Rightarrow> u64 list \<Rightarrow> u32 \<Rightarrow> deq_ptr_res" where
  "rte_ring_mc_rts_dequeue_burst r obj_table n =
     deq_ptrs (rte_ring_mc_rts_dequeue_burst_elem r (ptrs_cells obj_table) SIZEOF_PTR n)"

definition rte_ring_mp_enqueue :: "rte_ring \<Rightarrow> u64 \<Rightarrow> (int \<times> rte_ring) cres" where
  "rte_ring_mp_enqueue r obj =
     rte_ring_mp_enqueue_elem r (ptr_cells obj) SIZEOF_PTR"

definition rte_ring_sp_enqueue :: "rte_ring \<Rightarrow> u64 \<Rightarrow> (int \<times> rte_ring) cres" where
  "rte_ring_sp_enqueue r obj =
     rte_ring_sp_enqueue_elem r (ptr_cells obj) SIZEOF_PTR"

definition rte_ring_enqueue :: "rte_ring \<Rightarrow> u64 \<Rightarrow> (int \<times> rte_ring) cres" where
  "rte_ring_enqueue r obj =
     rte_ring_enqueue_elem r (ptr_cells obj) SIZEOF_PTR"

definition rte_ring_mc_dequeue :: "rte_ring \<Rightarrow> u64 \<Rightarrow> (int \<times> u64 \<times> rte_ring) cres" where
  "rte_ring_mc_dequeue r obj_p =
     bindc (rte_ring_mc_dequeue_elem r (ptr_cells obj_p) SIZEOF_PTR)
       (\<lambda>(ret, cs, r). Inr (ret, hd (cells_ptrs cs), r))"

definition rte_ring_sc_dequeue :: "rte_ring \<Rightarrow> u64 \<Rightarrow> (int \<times> u64 \<times> rte_ring) cres" where
  "rte_ring_sc_dequeue r obj_p =
     bindc (rte_ring_sc_dequeue_elem r (ptr_cells obj_p) SIZEOF_PTR)
       (\<lambda>(ret, cs, r). Inr (ret, hd (cells_ptrs cs), r))"

definition rte_ring_dequeue :: "rte_ring \<Rightarrow> u64 \<Rightarrow> (int \<times> u64 \<times> rte_ring) cres" where
  "rte_ring_dequeue r obj_p =
     bindc (rte_ring_dequeue_elem r (ptr_cells obj_p) SIZEOF_PTR)
       (\<lambda>(ret, cs, r). Inr (ret, hd (cells_ptrs cs), r))"

section \<open>Queries\<close>

definition rte_ring_count :: "rte_ring \<Rightarrow> u32" where
  "rte_ring_count r =
     (let prod_tail = ht_tail (r_prod r); cons_tail = ht_tail (r_cons r);
          count = (prod_tail - cons_tail) AND r_mask r
      in if count > r_capacity r then r_capacity r else count)"

definition rte_ring_free_count :: "rte_ring \<Rightarrow> u32" where
  "rte_ring_free_count r = r_capacity r - rte_ring_count r"

definition rte_ring_full :: "rte_ring \<Rightarrow> bool" where
  "rte_ring_full r \<longleftrightarrow> rte_ring_free_count r = 0"

definition rte_ring_empty :: "rte_ring \<Rightarrow> bool" where
  "rte_ring_empty r \<longleftrightarrow> ht_tail (r_cons r) = ht_tail (r_prod r)"

definition rte_ring_get_size :: "rte_ring \<Rightarrow> u32" where
  "rte_ring_get_size r = r_size r"

definition rte_ring_get_capacity :: "rte_ring \<Rightarrow> u32" where
  "rte_ring_get_capacity r = r_capacity r"

definition rte_ring_get_prod_sync_type :: "rte_ring \<Rightarrow> rte_ring_sync_type" where
  "rte_ring_get_prod_sync_type r = ht_sync_type (r_prod r)"

definition rte_ring_is_prod_single :: "rte_ring \<Rightarrow> bool" where
  "rte_ring_is_prod_single r \<longleftrightarrow> rte_ring_get_prod_sync_type r = RTE_RING_SYNC_ST"

definition rte_ring_get_cons_sync_type :: "rte_ring \<Rightarrow> rte_ring_sync_type" where
  "rte_ring_get_cons_sync_type r = ht_sync_type (r_cons r)"

definition rte_ring_is_cons_single :: "rte_ring \<Rightarrow> bool" where
  "rte_ring_is_cons_single r \<longleftrightarrow> rte_ring_get_cons_sync_type r = RTE_RING_SYNC_ST"

section \<open>Head/tail distance of RTS rings\<close>

definition rte_ring_get_prod_htd_max :: "rte_ring \<Rightarrow> u32" where
  "rte_ring_get_prod_htd_max r =
     (if ht_sync_type (r_prod r) = RTE_RING_SYNC_MT_RTS then ht_htd_max (r_prod r) else - 1)"

definition rte_ring_set_prod_htd_max :: "rte_ring \<Rightarrow> u32 \<Rightarrow> int \<times> rte_ring" where
  "rte_ring_set_prod_htd_max r v =
     (if ht_sync_type (r_prod r) \<noteq> RTE_RING_SYNC_MT_RTS then (- ENOTSUP, r)
      else (0, r\<lparr>r_prod := (r_prod r)\<lparr>ht_htd_max := v\<rparr>\<rparr>))"

definition rte_ring_get_cons_htd_max :: "rte_ring \<Rightarrow> u32" where
  "rte_ring_get_cons_htd_max r =
     (if ht_sync_type (r_cons r) = RTE_RING_SYNC_MT_RTS then ht_htd_max (r_cons r) else - 1)"

definition rte_ring_set_cons_htd_max :: "rte_ring \<Rightarrow> u32 \<Rightarrow> int \<times> rte_ring" where
  "rte_ring_set_cons_htd_max r v =
     (if ht_sync_type (r_cons r) \<noteq> RTE_RING_SYNC_MT_RTS then (- ENOTSUP, r)
      else (0, r\<lparr>r_cons := (r_cons r)\<lparr>ht_htd_max := v\<rparr>\<rparr>))"

end
