(* ===== verification/Bounded_Queue.thy ===== *)
theory Bounded_Queue
  imports Prelude
begin

text \<open>
  The contract of a bounded first-in first-out queue, as the users of the ring rely on it, and
  what follows from it for any sequence of operations.

  \<open>enq\<close> and \<open>deq\<close> return an error code (0 on success) and the new state, as the C functions
  do.  \<open>q_run\<close> runs a sequence of operations, \<open>list_run\<close> is the same sequence on a list that
  holds at most \<open>cap\<close> elements.
\<close>

section \<open>Sequences of operations\<close>

datatype 'a qop = Put 'a | Get

datatype 'a qout = Stored | Refused | Got 'a | Nothing

fun q_run ::
  "('r \<Rightarrow> 'a \<Rightarrow> (int \<times> 'r) cres) \<Rightarrow> ('r \<Rightarrow> (int \<times> 'a \<times> 'r) cres) \<Rightarrow> 'a qop list \<Rightarrow> 'r \<Rightarrow>
     ('a qout list \<times> 'r) cres"
where
  "q_run enq deq [] r = Inr ([], r)"
| "q_run enq deq (Put x # ops) r =
     bindc (enq r x) (\<lambda>(e, r).
     bindc (q_run enq deq ops r) (\<lambda>(os, r). Inr ((if e = 0 then Stored else Refused) # os, r)))"
| "q_run enq deq (Get # ops) r =
     bindc (deq r) (\<lambda>(e, x, r).
     bindc (q_run enq deq ops r) (\<lambda>(os, r). Inr ((if e = 0 then Got x else Nothing) # os, r)))"

fun list_run :: "nat \<Rightarrow> 'a qop list \<Rightarrow> 'a list \<Rightarrow> 'a qout list \<times> 'a list" where
  "list_run cap [] q = ([], q)"
| "list_run cap (Put x # ops) q =
     (if length q < cap
      then let (os, q') = list_run cap ops (q @ [x]) in (Stored # os, q')
      else let (os, q') = list_run cap ops q in (Refused # os, q'))"
| "list_run cap (Get # ops) q =
     (case q of [] \<Rightarrow> let (os, q') = list_run cap ops [] in (Nothing # os, q')
      | x # xs \<Rightarrow> let (os, q') = list_run cap ops xs in (Got x # os, q'))"

definition got :: "'a qout list \<Rightarrow> 'a list" where
  "got os = concat (map (\<lambda>out. case out of Got x \<Rightarrow> [x] | _ \<Rightarrow> []) os)"

lemma got_simps [simp]:
  "got [] = []" "got (Stored # os) = got os" "got (Refused # os) = got os"
  "got (Nothing # os) = got os" "got (Got x # os) = x # got os"
  by (simp_all add: got_def)

fun stored :: "'a qop list \<Rightarrow> 'a qout list \<Rightarrow> 'a list" where
  "stored (Put x # ops) (Stored # os) = x # stored ops os"
| "stored (_ # ops) (_ # os) = stored ops os"
| "stored _ _ = []"

lemma list_run_conserves:
  "list_run cap ops q = (os, q') \<Longrightarrow> q @ stored ops os = got os @ q'"
proof (induction cap ops q arbitrary: os q' rule: list_run.induct)
  case (2 cap x ops q)
  then show ?case by (auto simp: Let_def split: if_splits prod.splits)
next
  case (3 cap ops q)
  then show ?case by (auto simp: Let_def split: list.splits prod.splits)
qed simp

lemma list_run_bounded:
  "list_run cap ops q = (os, q') \<Longrightarrow> length q \<le> cap \<Longrightarrow> length q' \<le> cap"
proof (induction cap ops q arbitrary: os q' rule: list_run.induct)
  case (2 cap x ops q)
  then show ?case by (auto simp: Let_def split: if_splits prod.splits)
next
  case (3 cap ops q)
  then show ?case by (auto simp: Let_def split: list.splits prod.splits)
qed simp

lemma list_run_puts:
  "length q + length xs \<le> cap \<Longrightarrow>
     list_run cap (map Put xs @ ops) q =
       (let (os, q') = list_run cap ops (q @ xs) in (map (\<lambda>_. Stored) xs @ os, q'))"
  by (induction xs arbitrary: q) (simp_all add: Let_def split: prod.split)

lemma list_run_gets: "list_run cap (map (\<lambda>_. Get) xs) (xs @ q) = (map Got xs, q)"
  by (induction xs) simp_all

section \<open>The contract\<close>

locale bounded_queue =
  fixes inv :: "'r \<Rightarrow> bool"
    and contents :: "'r \<Rightarrow> 'a list"
    and capacity :: "'r \<Rightarrow> nat"
    and enq :: "'r \<Rightarrow> 'a \<Rightarrow> (int \<times> 'r) cres"
    and deq :: "'r \<Rightarrow> (int \<times> 'a \<times> 'r) cres"
  assumes within: "inv r \<Longrightarrow> length (contents r) \<le> capacity r"
    and enq_room: "inv r \<Longrightarrow> length (contents r) < capacity r \<Longrightarrow>
      \<exists>r'. enq r x = Inr (0, r') \<and> inv r' \<and> contents r' = contents r @ [x] \<and> capacity r' = capacity r"
    and enq_full: "inv r \<Longrightarrow> length (contents r) = capacity r \<Longrightarrow>
      \<exists>e r'. enq r x = Inr (e, r') \<and> e \<noteq> 0 \<and> inv r' \<and> contents r' = contents r \<and> capacity r' = capacity r"
    and deq_some: "inv r \<Longrightarrow> contents r = x # xs \<Longrightarrow>
      \<exists>r'. deq r = Inr (0, x, r') \<and> inv r' \<and> contents r' = xs \<and> capacity r' = capacity r"
    and deq_none: "inv r \<Longrightarrow> contents r = [] \<Longrightarrow>
      \<exists>e y r'. deq r = Inr (e, y, r') \<and> e \<noteq> 0 \<and> inv r' \<and> contents r' = [] \<and> capacity r' = capacity r"
begin

lemma run_refines:
  assumes "inv r"
  shows "\<exists>os r'. q_run enq deq ops r = Inr (os, r') \<and> inv r' \<and> capacity r' = capacity r \<and>
    list_run (capacity r) ops (contents r) = (os, contents r')"
  using assms
proof (induction ops arbitrary: r)
  case (Cons opr ops)
  show ?case
  proof (cases opr)
    case (Put x)
    show ?thesis
    proof (cases "length (contents r) < capacity r")
      case True
      obtain r' where "enq r x = Inr (0, r')" "inv r'" "contents r' = contents r @ [x]" "capacity r' = capacity r"
        using enq_room[OF Cons.prems True] by blast
      with Cons.IH[of r'] True Put show ?thesis by auto
    next
      case False
      then have "length (contents r) = capacity r" using within[OF Cons.prems] by simp
      from enq_full[OF Cons.prems this] obtain e r' where
        "enq r x = Inr (e, r')" "e \<noteq> 0" "inv r'" "contents r' = contents r" "capacity r' = capacity r"
        by blast
      with Cons.IH[of r'] False Put show ?thesis by auto
    qed
  next
    case Get
    show ?thesis
    proof (cases "contents r")
      case Nil
      from deq_none[OF Cons.prems this] obtain e y r' where
        "deq r = Inr (e, y, r')" "e \<noteq> 0" "inv r'" "contents r' = []" "capacity r' = capacity r"
        by blast
      with Cons.IH[of r'] Nil Get show ?thesis by auto
    next
      case (Cons x xs)
      from deq_some[OF Cons.prems this] obtain r' where
        "deq r = Inr (0, x, r')" "inv r'" "contents r' = xs" "capacity r' = capacity r"
        by blast
      with Cons.IH[of r'] Cons Get show ?thesis by auto
    qed
  qed
qed simp

lemma run_conserves:
  assumes "inv r" and "q_run enq deq ops r = Inr (os, r')"
  shows "contents r @ stored ops os = got os @ contents r'" and "length (contents r') \<le> capacity r"
proof -
  from run_refines[OF assms(1), of ops] assms(2)
  have run: "list_run (capacity r) ops (contents r) = (os, contents r')" by auto
  then show "contents r @ stored ops os = got os @ contents r'" by (rule list_run_conserves)
  show "length (contents r') \<le> capacity r" using run within[OF assms(1)] by (rule list_run_bounded)
qed

lemma fifo:
  assumes "inv r" and "contents r = []" and "length xs \<le> capacity r"
  shows "\<exists>r'. q_run enq deq (map Put xs @ map (\<lambda>_. Get) xs) r =
    Inr (map (\<lambda>_. Stored) xs @ map Got xs, r') \<and> inv r' \<and> contents r' = []"
proof -
  have "list_run (capacity r) (map Put xs @ map (\<lambda>_. Get) xs) [] =
      (map (\<lambda>_. Stored) xs @ map Got xs, [])"
    using list_run_puts[of "[]" xs "capacity r" "map (\<lambda>_. Get) xs"] list_run_gets[of "capacity r" xs "[]"]
      assms(3) by simp
  with run_refines[OF assms(1), of "map Put xs @ map (\<lambda>_. Get) xs"] assms(2) show ?thesis by auto
qed

end

end
