(* ===== verification/Ring_Queue.thy ===== *)
theory Ring_Queue
  imports Ring_Api Bounded_Queue
begin

text \<open>
  The public operations implement a bounded first-in first-out queue.  First for cells: the
  dispatching operations meet \<open>enq_spec\<close> and \<open>deq_spec\<close> in every synchronisation mode.  Then
  for pointers: \<open>ring_ptrs\<close> is the sequence of pointers a ring holds, and the ring with
  \<open>rte_ring_enqueue\<close> and \<open>rte_ring_dequeue\<close> is an instance of the locale \<open>bounded_queue\<close>.
\<close>

section \<open>Operations on elements\<close>

lemmas bulk_burst_defs =
  rte_ring_mp_enqueue_bulk_elem_def rte_ring_sp_enqueue_bulk_elem_def
  rte_ring_mp_hts_enqueue_bulk_elem_def rte_ring_mp_rts_enqueue_bulk_elem_def
  rte_ring_mp_enqueue_burst_elem_def rte_ring_sp_enqueue_burst_elem_def
  rte_ring_mp_hts_enqueue_burst_elem_def rte_ring_mp_rts_enqueue_burst_elem_def
  rte_ring_mc_dequeue_bulk_elem_def rte_ring_sc_dequeue_bulk_elem_def
  rte_ring_mc_hts_dequeue_bulk_elem_def rte_ring_mc_rts_dequeue_bulk_elem_def
  rte_ring_mc_dequeue_burst_elem_def rte_ring_sc_dequeue_burst_elem_def
  rte_ring_mc_hts_dequeue_burst_elem_def rte_ring_mc_rts_dequeue_burst_elem_def

lemma enqueue_bulk_elem_spec:
  assumes "ring_inv k r" and "unat esize = 4 * k" and "k * unat n \<le> length obj"
  shows "enq_spec k RTE_RING_QUEUE_FIXED r obj n (rte_ring_enqueue_bulk_elem r obj esize n)"
  by (cases "ht_sync_type (r_prod r)")
     (simp_all add: rte_ring_enqueue_bulk_elem_def bulk_burst_defs assms do_enqueue_elem_spec
        do_hts_enqueue_elem_spec do_rts_enqueue_elem_spec)

lemma enqueue_burst_elem_spec:
  assumes "ring_inv k r" and "unat esize = 4 * k" and "k * unat n \<le> length obj"
  shows "enq_spec k RTE_RING_QUEUE_VARIABLE r obj n (rte_ring_enqueue_burst_elem r obj esize n)"
  by (cases "ht_sync_type (r_prod r)")
     (simp_all add: rte_ring_enqueue_burst_elem_def bulk_burst_defs assms do_enqueue_elem_spec
        do_hts_enqueue_elem_spec do_rts_enqueue_elem_spec)

lemma dequeue_bulk_elem_spec:
  assumes "ring_inv k r" and "unat esize = 4 * k" and "k * unat n \<le> length obj"
  shows "deq_spec k RTE_RING_QUEUE_FIXED r obj n (rte_ring_dequeue_bulk_elem r obj esize n)"
  by (cases "ht_sync_type (r_cons r)")
     (simp_all add: rte_ring_dequeue_bulk_elem_def bulk_burst_defs assms do_dequeue_elem_spec
        do_hts_dequeue_elem_spec do_rts_dequeue_elem_spec)

lemma dequeue_burst_elem_spec:
  assumes "ring_inv k r" and "unat esize = 4 * k" and "k * unat n \<le> length obj"
  shows "deq_spec k RTE_RING_QUEUE_VARIABLE r obj n (rte_ring_dequeue_burst_elem r obj esize n)"
  by (cases "ht_sync_type (r_cons r)")
     (simp_all add: rte_ring_dequeue_burst_elem_def bulk_burst_defs assms do_dequeue_elem_spec
        do_hts_dequeue_elem_spec do_rts_dequeue_elem_spec)

lemma count_eq_used:
  assumes "ring_inv k r"
  shows "rte_ring_count r = ring_used r"
proof -
  have shape: "ring_shape k r" using assms by (simp add: ring_inv_def)
  obtain s where s: "unat (ring_used r) \<le> unat (r_capacity r)" "unat (r_capacity r) < unat (r_size r)"
    using assms by (rule inv_bounds) blast
  have "unat (ring_used r AND r_mask r) = unat (ring_used r)"
    using s by (simp add: shape_index(1)[OF shape])
  then have "ring_used r AND r_mask r = ring_used r" by (simp add: word_unat_eq_iff)
  then show ?thesis
    using s by (simp add: rte_ring_count_def Let_def free_entries_eq word_less_nat_alt)
qed

section \<open>Pointers as pairs of cells\<close>

lemma length_ptr_cells [simp]: "length (ptr_cells p) = 2"
  by (simp add: ptr_cells_def)

lemma ptrs_cells_simps [simp]:
  "ptrs_cells [] = []" "ptrs_cells (p # ps) = ptr_cells p @ ptrs_cells ps"
  "ptrs_cells (ps @ qs) = ptrs_cells ps @ ptrs_cells qs"
  by (simp_all add: ptrs_cells_def)

lemma length_ptrs_cells [simp]: "length (ptrs_cells ps) = 2 * length ps"
  by (induction ps) simp_all

lemma halves_join: "ucast (ucast (p :: u64) :: u32) OR push_bit 32 (ucast (ucast (drop_bit 32 p) :: u32)) = p"
  by (rule bit_word_eqI) (auto simp: bit_simps)

lemma cells_ptrs_ptr [simp]: "cells_ptrs (ptr_cells p @ cs) = p # cells_ptrs cs"
  by (simp add: ptr_cells_def halves_join)

lemma cells_ptrs_append [simp]: "cells_ptrs (ptrs_cells ps @ cs) = ps @ cells_ptrs cs"
  by (induction ps) simp_all

lemma join_halves:
  "ucast (ucast (lo :: u32) OR push_bit 32 (ucast (hi :: u32)) :: u64) = lo"
  "ucast (drop_bit 32 (ucast (lo :: u32) OR push_bit 32 (ucast (hi :: u32)) :: u64)) = hi"
  by (rule bit_word_eqI; auto simp: bit_simps dest: bit_imp_le_length)+

lemma ptr_cells_join: "ptr_cells (ucast lo OR push_bit 32 (ucast hi)) = [lo, hi]"
  by (simp only: ptr_cells_def join_halves)

lemma ptrs_cells_cells_ptrs: "even (length cs) \<Longrightarrow> ptrs_cells (cells_ptrs cs) = cs"
  by (induction cs rule: cells_ptrs.induct) (simp_all add: ptr_cells_join)

lemma length_cells_ptrs [simp]: "length (cells_ptrs cs) = length cs div 2"
  by (induction cs rule: cells_ptrs.induct) simp_all

lemma cells_ptrs_append_even:
  "even (length xs) \<Longrightarrow> cells_ptrs (xs @ ys) = cells_ptrs xs @ cells_ptrs ys"
  using cells_ptrs_append[of "cells_ptrs xs" ys] by (simp add: ptrs_cells_cells_ptrs)

lemma take_ptrs_cells: "take (2 * m) (ptrs_cells ps) = ptrs_cells (take m ps)"
proof (induction ps arbitrary: m)
  case (Cons p ps)
  then show ?case by (cases m) simp_all
qed simp

lemma drop_ptrs_cells: "drop (2 * m) (ptrs_cells ps) = ptrs_cells (drop m ps)"
proof (induction ps arbitrary: m)
  case (Cons p ps)
  then show ?case by (cases m) simp_all
qed simp

definition ring_ptrs :: "rte_ring \<Rightarrow> u64 list" where
  "ring_ptrs r = cells_ptrs (ring_cells 2 r)"

lemma length_ring_ptrs [simp]: "length (ring_ptrs r) = unat (ring_used r)"
  by (simp add: ring_ptrs_def ring_cells_def)

lemma ptr_size [simp]: "unat SIZEOF_PTR = 4 * 2"
  by (simp add: SIZEOF_PTR_def)

section \<open>The ring of pointers is a bounded queue\<close>

text \<open>The pointer operations, from the cell specifications.\<close>

lemma enqueue_bulk_ptrs:
  assumes "ring_inv 2 r" and "unat n \<le> length ps"
  defines "m \<equiv> (if n \<le> r_capacity r - ring_used r then n else 0)"
  obtains r' where "rte_ring_enqueue_bulk r ps n = Inr (m, r_capacity r - ring_used r - m, r')"
    and "ring_inv 2 r'" and "ring_ptrs r' = ring_ptrs r @ take (unat m) ps" and "same_ring r r'"
    and "ring_used r' = ring_used r + m"
proof -
  have "enq_spec 2 RTE_RING_QUEUE_FIXED r (ptrs_cells ps) n (rte_ring_enqueue_bulk r ps n)"
    using assms enqueue_bulk_elem_spec[of 2 r SIZEOF_PTR n "ptrs_cells ps"]
    by (simp add: rte_ring_enqueue_bulk_def)
  then obtain r' where "rte_ring_enqueue_bulk r ps n = Inr (m, r_capacity r - ring_used r - m, r')"
      "ring_inv 2 r'" "ring_cells 2 r' = ring_cells 2 r @ ptrs_cells (take (unat m) ps)"
      "same_ring r r'" "ring_used r' = ring_used r + m"
    by (auto simp: enq_spec_def Let_def ring_limit_fixed m_def take_ptrs_cells)
  with that show thesis
    using cells_ptrs_append[of "take (unat m) ps" "[]"]
    by (simp add: ring_ptrs_def cells_ptrs_append_even ring_cells_def)
qed

lemma dequeue_bulk_ptrs:
  assumes "ring_inv 2 r" and "unat n \<le> length ps"
  defines "m \<equiv> (if n \<le> ring_used r then n else 0)"
  obtains r' where "rte_ring_dequeue_bulk r ps n =
      Inr (m, ring_used r - m, take (unat m) (ring_ptrs r) @ drop (unat m) ps, r')"
    and "ring_inv 2 r'" and "ring_ptrs r' = drop (unat m) (ring_ptrs r)" and "same_ring r r'"
    and "ring_used r' = ring_used r - m"
proof -
  have "deq_spec 2 RTE_RING_QUEUE_FIXED r (ptrs_cells ps) n
      (rte_ring_dequeue_bulk_elem r (ptrs_cells ps) SIZEOF_PTR n)"
    using assms by (intro dequeue_bulk_elem_spec) simp_all
  then obtain r' xs where *: "rte_ring_dequeue_bulk_elem r (ptrs_cells ps) SIZEOF_PTR n =
        Inr (m, ring_used r - m, xs @ ptrs_cells (drop (unat m) ps), r')"
      "length xs = 2 * unat m" "ring_cells 2 r = xs @ ring_cells 2 r'" "ring_inv 2 r'"
      "same_ring r r'" "ring_used r' = ring_used r - m"
    by (auto simp: deq_spec_def Let_def ring_limit_fixed m_def drop_ptrs_cells)
  have split: "ring_ptrs r = cells_ptrs xs @ ring_ptrs r'"
    using *(2,3) by (simp add: ring_ptrs_def cells_ptrs_append_even)
  have "rte_ring_dequeue_bulk r ps n =
      Inr (m, ring_used r - m, take (unat m) (ring_ptrs r) @ drop (unat m) ps, r')"
    using * cells_ptrs_append[of "drop (unat m) ps" "[]"]
    by (simp add: rte_ring_dequeue_bulk_def deq_ptrs_def cells_ptrs_append_even split)
  with that * split show thesis by simp
qed

lemma enqueue_via_bulk:
  "rte_ring_enqueue r p =
     bindc (rte_ring_enqueue_bulk r [p] 1) (\<lambda>(n, _, r). Inr (if n \<noteq> 0 then 0 else - ENOBUFS, r))"
  by (simp add: rte_ring_enqueue_def rte_ring_enqueue_elem_def rte_ring_enqueue_bulk_def)

lemma dequeue_via_bulk:
  "rte_ring_dequeue r p =
     bindc (rte_ring_dequeue_bulk r [p] 1)
       (\<lambda>(n, _, ps, r). Inr (if n \<noteq> 0 then 0 else - ENOENT, hd ps, r))"
  by (cases "rte_ring_dequeue_bulk_elem r (ptr_cells p) SIZEOF_PTR 1")
     (auto simp: rte_ring_dequeue_def rte_ring_dequeue_elem_def rte_ring_dequeue_bulk_def deq_ptrs_def)

lemma used_within: "ring_inv k r \<Longrightarrow> unat (ring_used r) \<le> unat (r_capacity r)"
  by (simp add: ring_inv_def word_le_nat_alt)

lemma room_iff:
  assumes "ring_inv k r"
  shows "1 \<le> r_capacity r - ring_used r \<longleftrightarrow> unat (ring_used r) < unat (r_capacity r)"
  using used_within[OF assms] by (auto simp: word_le_nat_alt unat_sub_le)

interpretation ptr_ring: bounded_queue "ring_inv 2" ring_ptrs "\<lambda>r. unat (r_capacity r)"
  rte_ring_enqueue "\<lambda>r. rte_ring_dequeue r 0"
proof (unfold_locales, goal_cases within room full some none)
  case (within r)
  then show ?case by (simp add: used_within)
next
  case (room r x)
  obtain r' where "rte_ring_enqueue_bulk r [x] 1 = Inr (1, r_capacity r - ring_used r - 1, r')"
      "ring_inv 2 r'" "ring_ptrs r' = ring_ptrs r @ [x]" "same_ring r r'"
    using room room_iff[OF room(1)] by (elim enqueue_bulk_ptrs[of r 1 "[x]"]) auto
  then show ?case by (auto simp: enqueue_via_bulk same_ring_def)
next
  case (full r x)
  obtain r' where "rte_ring_enqueue_bulk r [x] 1 = Inr (0, r_capacity r - ring_used r, r')"
      "ring_inv 2 r'" "ring_ptrs r' = ring_ptrs r" "same_ring r r'"
    using full room_iff[OF full(1)] by (elim enqueue_bulk_ptrs[of r 1 "[x]"]) auto
  then show ?case by (auto simp: enqueue_via_bulk same_ring_def ENOBUFS_def)
next
  case (some r x xs)
  have "ring_used r \<noteq> 0" using arg_cong[OF some(2), of length] by auto
  then have "1 \<le> ring_used r" by (simp add: word_le_nat_alt Suc_le_eq unat_gt_0)
  then obtain r' where "rte_ring_dequeue_bulk r [0] 1 = Inr (1, ring_used r - 1, [x], r')"
      "ring_inv 2 r'" "ring_ptrs r' = xs" "same_ring r r'"
    using some by (elim dequeue_bulk_ptrs[of r 1 "[0]"]) auto
  then show ?case by (auto simp: dequeue_via_bulk same_ring_def)
next
  case (none r)
  have "unat (ring_used r) = 0" using arg_cong[OF none(2), of length] by simp
  then have "ring_used r = 0" by (simp add: unat_eq_0)
  then obtain r' where "rte_ring_dequeue_bulk r [0] 1 = Inr (0, 0, [0], r')"
      "ring_inv 2 r'" "ring_ptrs r' = []" "same_ring r r'"
    using none by (elim dequeue_bulk_ptrs[of r 1 "[0]"]) auto
  then show ?case by (auto simp: dequeue_via_bulk same_ring_def ENOENT_def)
qed

end
