(* ===== verification/Ring_Init.thy ===== *)
theory Ring_Init
  imports Ring_Queue
begin

text \<open>
  \<^verbatim>\<open>src/rte_lib/ring/rte_ring.c\<close>: sizes, initialisation, reset, and the list of rings
  (create, free, lookup).

  The zones and the list entries come from the memory manager, which is not part of the
  sources: \<open>zmalloc\<close>, \<open>reserve\<close> and \<open>mz_free\<close> are parameters of the functions that call it, on
  a state of the manager of arbitrary type.  \<open>reserve\<close> returns the zone, the address of the
  structure and the cells of the zone behind the structure; the elements are the first
  \<open>count * esize / 4\<close> of them, the rest is padding to the cache line.  The locks around the list are not modelled, as every
  function takes them for its whole access.
\<close>

section \<open>Constants\<close>

definition RING_F_SP_ENQ :: u32 where "RING_F_SP_ENQ = 0x0001"
definition RING_F_SC_DEQ :: u32 where "RING_F_SC_DEQ = 0x0002"
definition RING_F_EXACT_SZ :: u32 where "RING_F_EXACT_SZ = 0x0004"
definition RTE_RING_SZ_MASK :: u32 where "RTE_RING_SZ_MASK = 0x7fffffff"
definition RING_F_MP_RTS_ENQ :: u32 where "RING_F_MP_RTS_ENQ = 0x0008"
definition RING_F_MC_RTS_DEQ :: u32 where "RING_F_MC_RTS_DEQ = 0x0010"
definition RING_F_MP_HTS_ENQ :: u32 where "RING_F_MP_HTS_ENQ = 0x0020"
definition RING_F_MC_HTS_DEQ :: u32 where "RING_F_MC_HTS_DEQ = 0x0040"

definition RING_F_MASK :: u32 where
  "RING_F_MASK = RING_F_SP_ENQ OR RING_F_SC_DEQ OR RING_F_EXACT_SZ OR RING_F_MP_RTS_ENQ OR
     RING_F_MC_RTS_DEQ OR RING_F_MP_HTS_ENQ OR RING_F_MC_HTS_DEQ"

lemmas ring_flag_defs = RING_F_SP_ENQ_def RING_F_SC_DEQ_def RING_F_EXACT_SZ_def RING_F_MP_RTS_ENQ_def
  RING_F_MC_RTS_DEQ_def RING_F_MP_HTS_ENQ_def RING_F_MC_HTS_DEQ_def

definition POWEROF2 :: "u32 \<Rightarrow> bool" where
  "POWEROF2 x \<longleftrightarrow> ((x - 1) AND x) = 0"

definition HTD_MAX_DEF :: u32 where "HTD_MAX_DEF = 8"

text \<open>
  \<open>RTE_MEMZONE_NAMESIZE\<close> is 32, \<open>RTE_RING_MZ_PREFIX\<close> is \<open>"RG_"\<close>, so \<open>RTE_RING_NAMESIZE\<close> is
  32 - 4 + 1.  With its cache-line aligned members \<open>struct rte_ring\<close> takes six lines of 64
  bytes.
\<close>

definition RTE_MEMZONE_NAMESIZE :: nat where "RTE_MEMZONE_NAMESIZE = 32"
definition RTE_RING_MZ_PREFIX :: string where "RTE_RING_MZ_PREFIX = ''RG_''"
definition RTE_RING_NAMESIZE :: nat where
  "RTE_RING_NAMESIZE = RTE_MEMZONE_NAMESIZE - (length RTE_RING_MZ_PREFIX + 1) + 1"
definition RTE_CACHE_LINE_SIZE :: nat where "RTE_CACHE_LINE_SIZE = 64"
definition SIZEOF_RTE_RING :: nat where "SIZEOF_RTE_RING = 6 * RTE_CACHE_LINE_SIZE"

section \<open>Memory size\<close>

text \<open>The product \<open>count * esize\<close> is computed in 32 bits before it is widened.\<close>

definition rte_ring_get_memsize_elem :: "u32 \<Rightarrow> u32 \<Rightarrow> int" where
  "rte_ring_get_memsize_elem esize count =
     (if esize mod 4 \<noteq> 0 then - EINVAL
      else if \<not> POWEROF2 count \<or> count > RTE_RING_SZ_MASK then - EINVAL
      else
        let sz = of_nat SIZEOF_RTE_RING + ucast (count * esize) :: u64
        in sint (RTE_ALIGN sz (of_nat RTE_CACHE_LINE_SIZE)))"

definition rte_ring_get_memsize :: "u32 \<Rightarrow> int" where
  "rte_ring_get_memsize count = rte_ring_get_memsize_elem SIZEOF_PTR count"

section \<open>Reset\<close>

definition reset_headtail :: "rte_ring_headtail \<Rightarrow> rte_ring_headtail" where
  "reset_headtail ht =
     (case ht_sync_type ht of
        RTE_RING_SYNC_MT \<Rightarrow> ht\<lparr>ht_head := 0, ht_tail := 0\<rparr>
      | RTE_RING_SYNC_ST \<Rightarrow> ht\<lparr>ht_head := 0, ht_tail := 0\<rparr>
      | RTE_RING_SYNC_MT_RTS \<Rightarrow> ht\<lparr>ht_rts_cnt := 0, ht_rts_pos := 0, ht_head := 0, ht_tail := 0\<rparr>
      | RTE_RING_SYNC_MT_HTS \<Rightarrow> ht\<lparr>ht_head := 0, ht_tail := 0\<rparr>)"

definition rte_ring_reset :: "rte_ring \<Rightarrow> rte_ring" where
  "rte_ring_reset r = r\<lparr>r_prod := reset_headtail (r_prod r), r_cons := reset_headtail (r_cons r)\<rparr>"

section \<open>Initialisation\<close>

text \<open>One of the two switches: which mode the flags of one side select, if they select one.\<close>

definition sync_of :: "u32 \<Rightarrow> u32 \<Rightarrow> u32 \<Rightarrow> u32 \<Rightarrow> rte_ring_sync_type option" where
  "sync_of v single rts hts =
     (if v = 0 then Some RTE_RING_SYNC_MT
      else if v = single then Some RTE_RING_SYNC_ST
      else if v = rts then Some RTE_RING_SYNC_MT_RTS
      else if v = hts then Some RTE_RING_SYNC_MT_HTS
      else None)"

text \<open>The result code and the two out-parameters, which keep their values when not assigned.\<close>

definition get_sync_type ::
  "u32 \<Rightarrow> rte_ring_sync_type \<Rightarrow> rte_ring_sync_type \<Rightarrow> int \<times> rte_ring_sync_type \<times> rte_ring_sync_type"
where
  "get_sync_type flags prod_st cons_st =
     (let prod_st_flags = RING_F_SP_ENQ OR RING_F_MP_RTS_ENQ OR RING_F_MP_HTS_ENQ;
          cons_st_flags = RING_F_SC_DEQ OR RING_F_MC_RTS_DEQ OR RING_F_MC_HTS_DEQ
      in case sync_of (flags AND prod_st_flags) RING_F_SP_ENQ RING_F_MP_RTS_ENQ RING_F_MP_HTS_ENQ of
           None \<Rightarrow> (- EINVAL, prod_st, cons_st)
         | Some p \<Rightarrow>
           (case sync_of (flags AND cons_st_flags) RING_F_SC_DEQ RING_F_MC_RTS_DEQ RING_F_MC_HTS_DEQ of
              None \<Rightarrow> (- EINVAL, p, cons_st)
            | Some c \<Rightarrow> (0, p, c)))"

definition zero_headtail :: rte_ring_headtail where
  "zero_headtail = \<lparr>ht_head = 0, ht_tail = 0, ht_sync_type = RTE_RING_SYNC_MT, ht_htd_max = 0,
     ht_rts_cnt = 0, ht_rts_pos = 0\<rparr>"

text \<open>\<open>memset(r, 0, sizeof( *r))\<close>; the elements behind the structure stay.\<close>

definition zero_ring :: "u32 list \<Rightarrow> rte_ring" where
  "zero_ring mem = \<lparr>r_name = [], r_flags = 0, r_memzone = None, r_size = 0, r_mask = 0, r_capacity = 0,
     r_prod = zero_headtail, r_cons = zero_headtail, r_mem = mem\<rparr>"

text \<open>\<open>strlcpy\<close>: the copied prefix and the length of the source.\<close>

definition strlcpy :: "string \<Rightarrow> nat \<Rightarrow> string \<times> nat" where
  "strlcpy src sz = (take (sz - 1) src, length src)"

definition rte_ring_init :: "rte_ring \<Rightarrow> string \<Rightarrow> u32 \<Rightarrow> u32 \<Rightarrow> int \<times> rte_ring" where
  "rte_ring_init r name count flags =
     (if flags AND NOT RING_F_MASK \<noteq> 0 then (- EINVAL, r)
      else
        let r = zero_ring (r_mem r);
            (nm, ret) = strlcpy name RTE_RING_NAMESIZE;
            r = r\<lparr>r_name := nm\<rparr>
        in if ret \<ge> RTE_RING_NAMESIZE then (- ENAMETOOLONG, r)
           else
             let r = r\<lparr>r_flags := flags\<rparr>;
                 (ret, p, c) = get_sync_type flags (ht_sync_type (r_prod r)) (ht_sync_type (r_cons r));
                 r = r\<lparr>r_prod := (r_prod r)\<lparr>ht_sync_type := p\<rparr>, r_cons := (r_cons r)\<lparr>ht_sync_type := c\<rparr>\<rparr>
             in if ret \<noteq> 0 then (ret, r)
                else if flags AND RING_F_EXACT_SZ = 0 \<and> (\<not> POWEROF2 count \<or> count > RTE_RING_SZ_MASK)
                then (- EINVAL, r)
                else
                  let r = (if flags AND RING_F_EXACT_SZ \<noteq> 0
                           then r\<lparr>r_size := rte_align32pow2 (count + 1),
                                  r_mask := rte_align32pow2 (count + 1) - 1, r_capacity := count\<rparr>
                           else r\<lparr>r_size := count, r_mask := count - 1, r_capacity := count - 1\<rparr>);
                      r = (if flags AND RING_F_MP_RTS_ENQ \<noteq> 0
                           then snd (rte_ring_set_prod_htd_max r (r_capacity r div HTD_MAX_DEF)) else r);
                      r = (if flags AND RING_F_MC_RTS_DEQ \<noteq> 0
                           then snd (rte_ring_set_cons_htd_max r (r_capacity r div HTD_MAX_DEF)) else r)
                  in (0, r))"

section \<open>The list of rings\<close>

text \<open>
  \<open>rl_list\<close> is the tail queue: the \<open>data\<close> pointers of its entries in order.  \<open>rl_ring\<close> is the
  memory: the ring at an address.  \<open>rl_mm\<close> is the state of the memory manager.
\<close>

record 'm ring_list =
  rl_list :: "nat list"
  rl_ring :: "nat \<Rightarrow> rte_ring"
  rl_mm :: 'm

definition rte_ring_create_elem ::
  "('m \<Rightarrow> bool \<times> 'm) \<Rightarrow> ('m \<Rightarrow> string \<Rightarrow> int \<Rightarrow> int \<Rightarrow> (nat \<times> nat \<times> u32 list) option \<times> 'm) \<Rightarrow> ('m \<Rightarrow> 'm) \<Rightarrow>
     string \<Rightarrow> u32 \<Rightarrow> u32 \<Rightarrow> int \<Rightarrow> u32 \<Rightarrow> 'm ring_list \<Rightarrow> nat option \<times> 'm ring_list"
where
  "rte_ring_create_elem zmalloc reserve te_free name esize count socket_id flags st =
     (let requested_count = count;
          count = (if flags AND RING_F_EXACT_SZ \<noteq> 0 then rte_align32pow2 (count + 1) else count);
          ring_size = rte_ring_get_memsize_elem esize count
      in if ring_size < 0 then (None, st)
         else
           let mz_name = RTE_RING_MZ_PREFIX @ name
           in if length mz_name \<ge> RTE_MEMZONE_NAMESIZE then (None, st)
              else
                let (te, mm) = zmalloc (rl_mm st)
                in if \<not> te then (None, st\<lparr>rl_mm := mm\<rparr>)
                   else
                     (case reserve mm mz_name ring_size socket_id of
                        (None, mm) \<Rightarrow> (None, st\<lparr>rl_mm := te_free mm\<rparr>)
                      | (Some (mz, r, cells), mm) \<Rightarrow>
                          let ring = snd (rte_ring_init ((rl_ring st r)\<lparr>r_mem := take (unat (count * esize) div 4) cells\<rparr>)
                                       name requested_count flags)
                          in (Some r, st\<lparr>rl_mm := mm, rl_list := rl_list st @ [r],
                                         rl_ring := (rl_ring st)(r := ring\<lparr>r_memzone := Some mz\<rparr>)\<rparr>)))"

definition rte_ring_create ::
  "('m \<Rightarrow> bool \<times> 'm) \<Rightarrow> ('m \<Rightarrow> string \<Rightarrow> int \<Rightarrow> int \<Rightarrow> (nat \<times> nat \<times> u32 list) option \<times> 'm) \<Rightarrow> ('m \<Rightarrow> 'm) \<Rightarrow>
     string \<Rightarrow> u32 \<Rightarrow> int \<Rightarrow> u32 \<Rightarrow> 'm ring_list \<Rightarrow> nat option \<times> 'm ring_list"
where
  "rte_ring_create zmalloc reserve te_free name count socket_id flags st =
     rte_ring_create_elem zmalloc reserve te_free name SIZEOF_PTR count socket_id flags st"

definition rte_ring_free ::
  "('m \<Rightarrow> nat \<Rightarrow> int \<times> 'm) \<Rightarrow> ('m \<Rightarrow> 'm) \<Rightarrow> nat option \<Rightarrow> 'm ring_list \<Rightarrow> 'm ring_list"
where
  "rte_ring_free mz_free te_free r st =
     (case r of None \<Rightarrow> st
      | Some r \<Rightarrow>
        (case r_memzone (rl_ring st r) of None \<Rightarrow> st
         | Some mz \<Rightarrow>
           (let (ret, mm) = mz_free (rl_mm st) mz; st = st\<lparr>rl_mm := mm\<rparr>
            in if ret \<noteq> 0 then st
               else if r \<notin> set (rl_list st) then st
               else st\<lparr>rl_list := remove1 r (rl_list st), rl_mm := te_free (rl_mm st)\<rparr>)))"

definition rte_ring_lookup :: "string \<Rightarrow> 'm ring_list \<Rightarrow> nat option" where
  "rte_ring_lookup name st =
     List.find (\<lambda>r. take RTE_RING_NAMESIZE name = take RTE_RING_NAMESIZE (r_name (rl_ring st r)))
       (rl_list st)"

section \<open>Lemmas\<close>

definition requested_size :: "u32 \<Rightarrow> u32 \<Rightarrow> u32" where
  "requested_size count flags =
     (if flags AND RING_F_EXACT_SZ \<noteq> 0 then rte_align32pow2 (count + 1) else count)"

definition requested_capacity :: "u32 \<Rightarrow> u32 \<Rightarrow> u32" where
  "requested_capacity count flags = (if flags AND RING_F_EXACT_SZ \<noteq> 0 then count else count - 1)"

text \<open>The arguments \<open>rte_ring_init\<close> accepts for a ring that can hold something.\<close>

definition init_args :: "string \<Rightarrow> u32 \<Rightarrow> u32 \<Rightarrow> bool" where
  "init_args name count flags \<longleftrightarrow>
     flags AND NOT RING_F_MASK = 0 \<and> length name < RTE_RING_NAMESIZE \<and>
     fst (get_sync_type flags RTE_RING_SYNC_MT RTE_RING_SYNC_MT) = 0 \<and>
     (if flags AND RING_F_EXACT_SZ \<noteq> 0 then count < 2 ^ 31
      else RTE_IS_POWER_OF_2 count \<and> count \<le> RTE_RING_SZ_MASK)"

lemma init_result:
  assumes "init_args name count flags"
    and "get_sync_type flags RTE_RING_SYNC_MT RTE_RING_SYNC_MT = (e, p, c)"
  shows "\<exists>hp hc. rte_ring_init r name count flags = (0,
    \<lparr>r_name = name, r_flags = flags, r_memzone = None, r_size = requested_size count flags,
     r_mask = requested_size count flags - 1, r_capacity = requested_capacity count flags,
     r_prod = zero_headtail\<lparr>ht_sync_type := p, ht_htd_max := hp\<rparr>,
     r_cons = zero_headtail\<lparr>ht_sync_type := c, ht_htd_max := hc\<rparr>, r_mem = r_mem r\<rparr>)"
proof -
  have len: "length name < RTE_RING_NAMESIZE" and e: "e = 0" and mask: "flags AND NOT RING_F_MASK = 0"
    using assms by (auto simp: init_args_def)
  have pow: "POWEROF2 count \<and> \<not> count > RTE_RING_SZ_MASK" if "flags AND RING_F_EXACT_SZ = 0"
    using assms(1) that by (auto simp: init_args_def RTE_IS_POWER_OF_2_def POWEROF2_def not_less)
  have take: "take (RTE_RING_NAMESIZE - Suc 0) name = name" using len by simp
  show ?thesis
    using len pow assms(2)
    by (cases "flags AND RING_F_EXACT_SZ = 0"; cases "flags AND RING_F_MP_RTS_ENQ = 0";
        cases "flags AND RING_F_MC_RTS_DEQ = 0"; cases p; cases c)
       (simp_all add: rte_ring_init_def mask e zero_ring_def zero_headtail_def strlcpy_def take
          requested_size_def requested_capacity_def rte_ring_set_prod_htd_max_def
          rte_ring_set_cons_htd_max_def)
qed

lemma requested_size_pow2:
  assumes "init_args name count flags"
  shows "RTE_IS_POWER_OF_2 (requested_size count flags)"
    and "requested_capacity count flags \<le> requested_size count flags - 1"
proof -
  show pow: "RTE_IS_POWER_OF_2 (requested_size count flags)"
  proof (cases "flags AND RING_F_EXACT_SZ = 0")
    case True
    with assms show ?thesis by (simp add: init_args_def requested_size_def)
  next
    case False
    then have c: "count < 2 ^ 31" using assms by (simp add: init_args_def)
    then have "count + 1 \<noteq> 0" "count + 1 \<le> 2 ^ 31"
      by (auto simp: word_less_nat_alt word_le_nat_alt unat_Suc_word[OF c] unat_eq_0[symmetric] simp del: unat_eq_0)
    then obtain n where "n < 32" "rte_align32pow2 (count + 1) = 2 ^ n"
      using align32pow2_word by blast
    with False show ?thesis
      using and_decr_eq_0_iff[of "2 ^ n :: u32"] by (auto simp: requested_size_def RTE_IS_POWER_OF_2_def)
  qed
  show "requested_capacity count flags \<le> requested_size count flags - 1"
  proof (cases "flags AND RING_F_EXACT_SZ = 0")
    case False
    then have c: "count < 2 ^ 31" using assms by (simp add: init_args_def)
    then have "count + 1 \<noteq> 0" "count + 1 \<le> 2 ^ 31"
      by (auto simp: word_less_nat_alt word_le_nat_alt unat_Suc_word[OF c] unat_eq_0[symmetric] simp del: unat_eq_0)
    then obtain n where n: "n < 32" "rte_align32pow2 (count + 1) = 2 ^ n" "unat (count + 1) \<le> 2 ^ n"
      using align32pow2_word by blast
    then have "unat count \<le> 2 ^ n - 1" using unat_Suc_word[OF c] by simp
    then show ?thesis
      using False n by (simp add: requested_size_def requested_capacity_def word_le_nat_alt unat_minus_one)
  qed (simp add: requested_size_def requested_capacity_def)
qed

lemma init_inv:
  assumes args: "init_args name count flags" and k: "0 < k"
    and mem: "length (r_mem r) = k * unat (requested_size count flags)"
    and bound: "k * unat (requested_size count flags) < 2 ^ 30"
  obtains r' where "rte_ring_init r name count flags = (0, r')" and "ring_inv k r'"
    and "ring_cells k r' = []" and "r_capacity r' = requested_capacity count flags"
    and "r_name r' = name"
    and "get_sync_type flags RTE_RING_SYNC_MT RTE_RING_SYNC_MT =
      (0, ht_sync_type (r_prod r'), ht_sync_type (r_cons r'))"
proof -
  obtain p c where st: "get_sync_type flags RTE_RING_SYNC_MT RTE_RING_SYNC_MT = (0, p, c)"
    using args by (cases "get_sync_type flags RTE_RING_SYNC_MT RTE_RING_SYNC_MT") (auto simp: init_args_def)
  from init_result[OF args st, of r] obtain hp hc where i: "rte_ring_init r name count flags = (0,
      \<lparr>r_name = name, r_flags = flags, r_memzone = None, r_size = requested_size count flags,
       r_mask = requested_size count flags - 1, r_capacity = requested_capacity count flags,
       r_prod = zero_headtail\<lparr>ht_sync_type := p, ht_htd_max := hp\<rparr>,
       r_cons = zero_headtail\<lparr>ht_sync_type := c, ht_htd_max := hc\<rparr>, r_mem = r_mem r\<rparr>)" (is "_ = (0, ?r)")
    by blast
  have "ring_inv k ?r"
    using requested_size_pow2[OF args] k mem bound
    by (simp add: ring_inv_def ring_shape_def ring_used_def ht_quiet_def zero_headtail_def)
  then show thesis
    using that[OF i] st by (simp add: ring_cells_def circ_read_def ring_used_def zero_headtail_def)
qed

lemma reset_quiet: "ht_quiet (reset_headtail ht)" "ht_tail (reset_headtail ht) = 0"
  "ht_sync_type (reset_headtail ht) = ht_sync_type ht" "ht_htd_max (reset_headtail ht) = ht_htd_max ht"
  by (cases "ht_sync_type ht"; simp add: reset_headtail_def ht_quiet_def)+

lemma reset_inv:
  assumes "ring_inv k r"
  shows "ring_inv k (rte_ring_reset r)" and "ring_cells k (rte_ring_reset r) = []"
  using assms
  by (simp_all add: ring_inv_def rte_ring_reset_def reset_quiet ring_used_def ring_cells_def circ_read_def)

end
