(* ===== verification/Ring_Correct.thy ===== *)
theory Ring_Correct
  imports Ring_Init
begin

text \<open>
  The correctness statements of the ring, with a small ring on which each is instantiated.
  \<open>demo_ring k flags\<close> is a ring of four slots of \<open>k\<close> cells as \<open>rte_ring_init\<close> leaves it.
\<close>

definition demo_ring :: "nat \<Rightarrow> u32 \<Rightarrow> rte_ring" where
  "demo_ring k flags = snd (rte_ring_init (zero_ring (replicate (k * 4) 0)) ''demo'' 4 flags)"

lemma demo_args: "init_args ''demo'' 4 0" "init_args ''demo'' 4 RING_F_MP_RTS_ENQ"
    "init_args ''demo'' 4 (RING_F_MP_HTS_ENQ OR RING_F_MC_RTS_DEQ)"
  by code_simp+

lemma demo_request: "requested_size 4 0 = 4" "requested_capacity 4 0 = 3"
  by (simp_all add: requested_size_def requested_capacity_def)

lemma demo_ring_inv:
  assumes "init_args ''demo'' 4 flags" and "requested_size 4 flags = 4" and "0 < k" and "k < 1000"
  shows "ring_inv k (demo_ring k flags)" and "ring_cells k (demo_ring k flags) = []"
    and "r_capacity (demo_ring k flags) = requested_capacity 4 flags"
proof -
  obtain r' where "rte_ring_init (zero_ring (replicate (k * 4) 0)) ''demo'' 4 flags = (0, r')"
      "ring_inv k r'" "ring_cells k r' = []" "r_capacity r' = requested_capacity 4 flags"
    using assms
    by (elim init_inv[of "''demo''" 4 flags k "zero_ring (replicate (k * 4) 0)"]) (auto simp: zero_ring_def)
  then show "ring_inv k (demo_ring k flags)" "ring_cells k (demo_ring k flags) = []"
      "r_capacity (demo_ring k flags) = requested_capacity 4 flags"
    by (simp_all add: demo_ring_def)
qed

lemmas demo_plain = demo_ring_inv[OF demo_args(1) demo_request(1)]

definition demo_full :: "nat \<Rightarrow> u32 \<Rightarrow> u32 list \<Rightarrow> rte_ring" where
  "demo_full k flags cells = snd (snd (projr (rte_ring_enqueue_bulk_elem (demo_ring k flags) cells (of_nat (4 * k)) 3)))"

lemma demo_used: "ring_inv k r \<Longrightarrow> ring_cells k r = [] \<Longrightarrow> rte_ring_count r = 0"
  using inv_bounds[of k r] count_eq_used[of k r]
  by (auto simp: ring_cells_def circ_read_def unat_eq_0)

lemma demo_full_inv:
  assumes "0 < k" and "k < 1000" and "length cells = k * 3"
  shows "ring_inv k (demo_full k 0 cells)" and "ring_cells k (demo_full k 0 cells) = cells"
    and "ring_used (demo_full k 0 cells) = 3"
proof -
  note d = demo_plain[OF assms(1,2)]
  have free: "r_capacity (demo_ring k 0) - ring_used (demo_ring k 0) = 3" "ring_used (demo_ring k 0) = 0"
    using d demo_used[OF d(1,2)] by (simp_all add: count_eq_used demo_request)
  have "unat (of_nat (4 * k) :: u32) = 4 * k" using assms(2) by (simp only: unat_of_nat) simp
  from enqueue_bulk_elem_spec[OF d(1) this, of 3 cells] assms(3) free d
  obtain r' where "rte_ring_enqueue_bulk_elem (demo_ring k 0) cells (of_nat (4 * k)) 3 = Inr (3, 0, r')"
      "ring_inv k r'" "ring_cells k r' = cells" "ring_used r' = 3"
    by (auto simp: enq_spec_def Let_def ring_limit_fixed)
  then show "ring_inv k (demo_full k 0 cells)" "ring_cells k (demo_full k 0 cells) = cells"
      "ring_used (demo_full k 0 cells) = 3"
    by (simp_all add: demo_full_def)
qed

section \<open>Bulk and burst operations\<close>

text \<open>C1: A bulk enqueue of n elements, in whatever synchronisation mode the producer side has,
  appends exactly the first n elements of the object table to the contents when n does not exceed
  the free entries, and otherwise moves nothing; it returns n or 0 and the entries left free.\<close>

theorem enqueue_bulk_appends:
  assumes "ring_inv k r" and "unat esize = 4 * k" and "k * unat n \<le> length obj"
  shows "\<exists>r'. rte_ring_enqueue_bulk_elem r obj esize n =
      (if n \<le> rte_ring_free_count r then Inr (n, rte_ring_free_count r - n, r')
       else Inr (0, rte_ring_free_count r, r')) \<and>
    ring_inv k r' \<and> same_ring r r' \<and>
    ring_cells k r' = (if n \<le> rte_ring_free_count r then ring_cells k r @ take (k * unat n) obj
                       else ring_cells k r)"
  using enqueue_bulk_elem_spec[OF assms]
  by (auto simp: enq_spec_def Let_def ring_limit_fixed rte_ring_free_count_def count_eq_used[OF assms(1)])

theorem enqueue_bulk_appends_witness:
  "\<exists>r'. rte_ring_enqueue_bulk_elem (demo_ring 1 0) [7, 8, 9] 4 2 = Inr (2, 1, r') \<and> ring_cells 1 r' = [7, 8]"
  using enqueue_bulk_appends[of 1 "demo_ring 1 0" 4 2 "[7, 8, 9]"] demo_plain[of 1]
  by (auto simp: rte_ring_free_count_def demo_used demo_request)

text \<open>C2: A bulk dequeue of n elements removes exactly the first n elements of the contents and
  leaves them, in order, at the start of the object table, when there are n; otherwise it moves
  nothing.  It returns n or 0 and the entries left in the ring.\<close>

theorem dequeue_bulk_removes:
  assumes "ring_inv k r" and "unat esize = 4 * k" and "k * unat n \<le> length obj"
  shows "\<exists>r'. rte_ring_dequeue_bulk_elem r obj esize n =
      (if n \<le> rte_ring_count r
       then Inr (n, rte_ring_count r - n, take (k * unat n) (ring_cells k r) @ drop (k * unat n) obj, r')
       else Inr (0, rte_ring_count r, obj, r')) \<and>
    ring_inv k r' \<and> same_ring r r' \<and>
    ring_cells k r' = (if n \<le> rte_ring_count r then drop (k * unat n) (ring_cells k r) else ring_cells k r)"
  using dequeue_bulk_elem_spec[OF assms]
  by (auto simp: deq_spec_def Let_def ring_limit_fixed count_eq_used[OF assms(1)])

theorem dequeue_bulk_removes_witness:
  "\<exists>r'. rte_ring_dequeue_bulk_elem (demo_full 1 0 [7, 8, 9]) [0, 0] 4 2 = Inr (2, 1, [7, 8], r') \<and>
     ring_cells 1 r' = [9]"
  using dequeue_bulk_removes[of 1 "demo_full 1 0 [7, 8, 9]" 4 2 "[0, 0]"] demo_full_inv[of 1 "[7, 8, 9]"]
  by (auto simp: count_eq_used)

text \<open>A burst enqueue appends as many elements as fit and a burst dequeue removes as many as
  there are, up to n: the count returned is the minimum.\<close>

theorem burst_moves_minimum:
  assumes "ring_inv k r" and "unat esize = 4 * k" and "k * unat n \<le> length obj"
  shows "(\<exists>r'. rte_ring_enqueue_burst_elem r obj esize n =
      Inr (min n (rte_ring_free_count r), rte_ring_free_count r - min n (rte_ring_free_count r), r') \<and>
    ring_inv k r' \<and> same_ring r r' \<and>
    ring_cells k r' = ring_cells k r @ take (k * unat (min n (rte_ring_free_count r))) obj) \<and>
    (\<exists>r'. rte_ring_dequeue_burst_elem r obj esize n =
      Inr (min n (rte_ring_count r), rte_ring_count r - min n (rte_ring_count r),
        take (k * unat (min n (rte_ring_count r))) (ring_cells k r) @
        drop (k * unat (min n (rte_ring_count r))) obj, r') \<and>
    ring_inv k r' \<and> same_ring r r' \<and>
    ring_cells k r' = drop (k * unat (min n (rte_ring_count r))) (ring_cells k r))"
  using enqueue_burst_elem_spec[OF assms] dequeue_burst_elem_spec[OF assms]
  by (auto simp: enq_spec_def deq_spec_def Let_def ring_limit_variable rte_ring_free_count_def
      count_eq_used[OF assms(1)])

theorem burst_moves_minimum_witness:
  "\<exists>r'. rte_ring_enqueue_burst_elem (demo_ring 1 0) [6, 7, 8, 9, 10] 4 5 = Inr (3, 0, r') \<and> ring_cells 1 r' = [6, 7, 8]"
  using burst_moves_minimum[of 1 "demo_ring 1 0" 4 5 "[6, 7, 8, 9, 10]"] demo_plain[of 1]
  by (auto simp: rte_ring_free_count_def demo_used demo_request)

section \<open>The ring of pointers as a queue\<close>

text \<open>C8: Any sequence of single pointer enqueues and dequeues on a ring, in any synchronisation
  mode and at any position of its 32-bit indices, terminates without fault and gives the same
  results as on a list bounded by the capacity: refused exactly when full, nothing exactly when
  empty, otherwise first in, first out.\<close>

theorem pointer_ring_refines_list:
  assumes "ring_inv 2 r"
  shows "\<exists>os r'. q_run rte_ring_enqueue (\<lambda>r. rte_ring_dequeue r 0) ops r = Inr (os, r') \<and> ring_inv 2 r' \<and>
    list_run (unat (r_capacity r)) ops (ring_ptrs r) = (os, ring_ptrs r')"
  using ptr_ring.run_refines[OF assms] by blast

theorem pointer_ring_refines_list_witness:
  "\<exists>r'. q_run rte_ring_enqueue (\<lambda>r. rte_ring_dequeue r 0) [Put 5, Get, Get] (demo_ring 2 0) =
     Inr ([Stored, Got 5, Nothing], r') \<and> ring_ptrs r' = []"
  using pointer_ring_refines_list[of "demo_ring 2 0" "[Put 5, Get, Get]"] demo_plain[of 2]
  by (auto simp: ring_ptrs_def demo_request)

text \<open>No pointer is lost, duplicated or reordered: after any sequence of operations, what the
  ring held followed by what was stored is what was taken out followed by what it holds now, and
  it never holds more than its capacity.\<close>

theorem pointer_ring_conserves:
  assumes "ring_inv 2 r"
    and "q_run rte_ring_enqueue (\<lambda>r. rte_ring_dequeue r 0) ops r = Inr (os, r')"
  shows "ring_ptrs r @ stored ops os = got os @ ring_ptrs r' \<and> length (ring_ptrs r') \<le> unat (r_capacity r)"
  using ptr_ring.run_conserves[OF assms] by simp

theorem pointer_ring_conserves_witness:
  "\<exists>os r'. q_run rte_ring_enqueue (\<lambda>r. rte_ring_dequeue r 0) [Put 5, Put 6, Get] (demo_ring 2 0) = Inr (os, r') \<and>
     stored [Put 5, Put 6, Get] os = got os @ ring_ptrs r'"
proof -
  have inv: "ring_inv 2 (demo_ring 2 0)" and nil: "ring_ptrs (demo_ring 2 0) = []"
    using demo_plain[of 2] by (simp_all add: ring_ptrs_def)
  obtain os r' where run: "q_run rte_ring_enqueue (\<lambda>r. rte_ring_dequeue r 0) [Put 5, Put 6, Get] (demo_ring 2 0) = Inr (os, r')"
    using ptr_ring.run_refines[OF inv] by blast
  from pointer_ring_conserves[OF inv run] nil run show ?thesis by simp
qed

section \<open>Copy loops, helper variants and queries\<close>

text \<open>C25: The unrolled copy loops, for elements of 8, 16 and any other multiple of 4 bytes and for every
  position of the head, write n elements to the slots from head modulo size on, wrapping at the end
  of the ring, never touch another cell, and never leave the arrays.\<close>

theorem enqueue_copy_is_circular:
  assumes "ring_shape k r" and "unat esize = 4 * k" and "n \<le> r_size r" and "k * unat n \<le> length obj"
  shows "\<exists>mem. enqueue_elems r h obj esize n = Inr (r\<lparr>r_mem := mem\<rparr>) \<and> length mem = length (r_mem r) \<and>
    (\<forall>i < k * unat n. mem ! ((k * (unat h mod unat (r_size r)) + i) mod length mem) = obj ! i) \<and>
    (\<forall>p < length mem. (\<forall>i < k * unat n. p \<noteq> (k * (unat h mod unat (r_size r)) + i) mod length mem) \<longrightarrow>
       mem ! p = r_mem r ! p)"
proof -
  let ?s = "k * (unat h mod unat (r_size r))" and ?xs = "take (k * unat n) obj"
  let ?m = "circ_write (r_mem r) ?s ?xs"
  obtain e where e: "unat (r_size r) = 2 ^ e" using assms(1) by (rule shape_size) blast
  have k: "0 < k" and L: "length (r_mem r) = k * unat (r_size r)" using assms(1) by (auto simp: ring_shape_def)
  have s: "?s < length (r_mem r)" using k e by (simp add: L)
  have xs: "length ?xs = k * unat n" using assms(4) by simp
  have "k * unat n \<le> length (r_mem r)" using assms(3) by (simp add: L word_le_nat_alt)
  then have "circ_read (circ_write (r_mem r) ((?s + 0) mod length (r_mem r)) ?xs) ?s (0 + length ?xs) =
      circ_read (r_mem r) ?s 0 @ ?xs"
    using xs by (intro circ_read_after_write s) simp
  then have rd: "circ_read ?m ?s (k * unat n) = ?xs" using s xs by (simp add: circ_read_def)
  have "?m ! ((?s + i) mod length ?m) = obj ! i" if "i < k * unat n" for i
    using arg_cong[OF rd, of "\<lambda>l. l ! i"] that by simp
  moreover have "?m ! p = r_mem r ! p"
    if "p < length ?m" "\<forall>i < k * unat n. p \<noteq> (?s + i) mod length ?m" for p
  proof -
    let ?t = "(p + length (r_mem r) - ?s) mod length (r_mem r)"
    have p: "p < length (r_mem r)" using that(1) by simp
    have "(?s + ?t) mod length (r_mem r) = p"
      using s p by (cases "?s \<le> p") (simp_all add: circ_offset)
    then have "\<not> ?t < k * unat n" using that(2) by (metis length_circ_write)
    then show ?thesis using p xs by (simp add: nth_circ_write Let_def)
  qed
  ultimately show ?thesis
    using enqueue_elems_circ[OF assms] by (intro exI[of _ ?m]) simp
qed

theorem enqueue_copy_is_circular_witness:
  "\<exists>mem. enqueue_elems (demo_ring 1 0) 6 [7, 8, 9] 4 3 = Inr ((demo_ring 1 0)\<lparr>r_mem := mem\<rparr>) \<and> mem ! 0 = 9"
proof -
  have shape: "ring_shape 1 (demo_ring 1 0)" using demo_plain(1)[of 1] by (simp add: ring_inv_def)
  have "rte_ring_get_size (demo_ring 1 0) = 4" by code_simp
  then have sz: "r_size (demo_ring 1 0) = 4" by (simp add: rte_ring_get_size_def)
  then have len: "length (r_mem (demo_ring 1 0)) = 4" using shape by (simp add: ring_shape_def)
  have "unat (4::u32) = 4 * 1" "(3::u32) \<le> r_size (demo_ring 1 0)" "1 * unat (3::u32) \<le> length [7, 8, 9 :: u32]"
    by (simp_all add: sz[simplified])
  from enqueue_copy_is_circular[OF shape this, of 6]
  obtain mem where m: "enqueue_elems (demo_ring 1 0) 6 [7, 8, 9] 4 3 = Inr ((demo_ring 1 0)\<lparr>r_mem := mem\<rparr>)"
      "length mem = 4" "\<forall>i < 3. mem ! ((2 + i) mod 4) = [7, 8, 9] ! i"
    by (auto simp: sz[simplified] len[simplified])
  from m(3)[rule_format, of 2] m(1) show ?thesis by (intro exI[of _ mem]) simp
qed

text \<open>The helpers of the C11 header compute exactly what the helpers of the generic header compute.\<close>

theorem c11_equals_generic:
  "update_tail_c11 ht old new single = update_tail ht old new single \<and>
   move_prod_head_c11 r sp n b = move_prod_head r sp n b \<and>
   move_cons_head_c11 r sc n b = move_cons_head r sc n b"
  by (simp add: c11_helpers)

text \<open>Count, free count, full and empty describe the contents of the ring, at any position of the
  32-bit indices.\<close>

theorem queries_describe_contents:
  assumes "ring_inv k r"
  shows "k * unat (rte_ring_count r) = length (ring_cells k r) \<and>
    unat (rte_ring_count r) + unat (rte_ring_free_count r) = unat (rte_ring_get_capacity r) \<and>
    (rte_ring_empty r \<longleftrightarrow> ring_cells k r = []) \<and>
    (rte_ring_full r \<longleftrightarrow> length (ring_cells k r) = k * unat (rte_ring_get_capacity r))"
proof -
  obtain s where s: "unat (ring_used r) \<le> unat (r_capacity r)" "0 < k"
    using assms by (rule inv_bounds) blast
  have len: "length (ring_cells k r) = k * unat (ring_used r)" by (simp add: ring_cells_def)
  have free: "unat (rte_ring_free_count r) = unat (r_capacity r) - unat (ring_used r)"
    using s by (simp add: rte_ring_free_count_def count_eq_used[OF assms] unat_sub_le word_le_nat_alt)
  have "rte_ring_empty r \<longleftrightarrow> unat (ring_used r) = 0"
    by (auto simp: rte_ring_empty_def ring_used_def unat_eq_0)
  also have "\<dots> \<longleftrightarrow> ring_cells k r = []" using s(2) len by auto
  finally have emp: "rte_ring_empty r \<longleftrightarrow> ring_cells k r = []" .
  have "rte_ring_full r \<longleftrightarrow> unat (rte_ring_free_count r) = 0" by (simp add: rte_ring_full_def unat_eq_0)
  then have "rte_ring_full r \<longleftrightarrow> unat (ring_used r) = unat (r_capacity r)" using free s(1) by auto
  then show ?thesis
    using emp len free s by (simp add: count_eq_used[OF assms] rte_ring_get_capacity_def)
qed

theorem queries_describe_contents_witness:
  "rte_ring_full (demo_full 1 0 [7, 8, 9]) \<and> \<not> rte_ring_empty (demo_full 1 0 [7, 8, 9]) \<and>
   unat (rte_ring_count (demo_full 1 0 [7, 8, 9])) = 3"
proof -
  have "rte_ring_get_capacity (demo_full 1 0 [7, 8, 9]) = 3" by code_simp
  then show ?thesis
    using queries_describe_contents[of 1 "demo_full 1 0 [7, 8, 9]"] demo_full_inv[of 1 "[7, 8, 9]"] by simp
qed

end
