(* ===== verification/Ring_Lifecycle.thy ===== *)
theory Ring_Lifecycle
  imports Ring_Correct
begin

text \<open>
  Correctness of the functions of \<^verbatim>\<open>rte_ring.c\<close>: the memory size, initialisation and reset,
  and the list of rings.
\<close>

section \<open>Memory size\<close>

lemma align_ceil_nat:
  assumes "a < LENGTH('a)" and "unat x + 2 ^ a \<le> 2 ^ LENGTH('a)"
  shows "unat (RTE_ALIGN (x :: 'a::len word) (2 ^ a)) = (unat x + (2 ^ a - 1)) div 2 ^ a * 2 ^ a"
proof -
  have pos: "(0::nat) < 2 ^ a" by simp
  have one: "unat (2 ^ a - 1 :: 'a word) = 2 ^ a - 1" using assms(1) by (simp add: unat_minus_one)
  have "unat x + unat (2 ^ a - 1 :: 'a word) < 2 ^ LENGTH('a)"
    unfolding one using assms(2) pos by linarith
  then have "unat (x + (2 ^ a - 1)) = unat x + (2 ^ a - 1)"
    by (simp add: unat_add_no_wrap one)
  then show ?thesis
    by (simp add: RTE_ALIGN_def RTE_ALIGN_CEIL_def unat_align_floor minus_mod_eq_div_mult)
qed

lemma memsize_value:
  assumes "esize mod 4 = 0" and "RTE_IS_POWER_OF_2 count" and "count \<le> RTE_RING_SZ_MASK"
    and "unat count * unat esize < 2 ^ 32"
  shows "rte_ring_get_memsize_elem esize count = int ((384 + unat count * unat esize + 63) div 64 * 64)"
proof -
  let ?n = "unat count * unat esize"
  let ?sz = "of_nat SIZEOF_RTE_RING + ucast (count * esize) :: u64"
  have "unat (count * esize) = ?n" using assms(4) by (simp add: unat_mult_no_wrap)
  then have u: "unat (ucast (count * esize) :: u64) = ?n" by (simp add: unat_ucast_wider)
  have sz: "unat ?sz = 384 + ?n"
    using assms(4) u by (subst unat_add_no_wrap) (simp_all add: SIZEOF_RTE_RING_def RTE_CACHE_LINE_SIZE_def)
  have line: "(of_nat RTE_CACHE_LINE_SIZE :: u64) = 2 ^ 6" by (simp add: RTE_CACHE_LINE_SIZE_def)
  have al: "unat (RTE_ALIGN ?sz (2 ^ 6)) = (384 + ?n + 63) div 64 * 64"
    using align_ceil_nat[of 6 ?sz] assms(4) sz by simp
  have "(384 + ?n + 63) div 64 * 64 \<le> 384 + ?n + 63" by (rule div_times_less_eq_dividend)
  then have "unat (RTE_ALIGN ?sz (2 ^ 6)) < 2 ^ 63" using al assms(4) by simp
  then have "sint (RTE_ALIGN ?sz (2 ^ 6)) = int (unat (RTE_ALIGN ?sz (2 ^ 6)))"
    by (intro sint_small) simp
  then have val: "sint (RTE_ALIGN ?sz (2 ^ 6)) = int ((384 + ?n + 63) div 64 * 64)" by (simp only: al)
  have "POWEROF2 count" "\<not> RTE_RING_SZ_MASK < count"
    using assms by (simp_all add: POWEROF2_def RTE_IS_POWER_OF_2_def not_less)
  then show ?thesis using assms(1) val by (simp only: rte_ring_get_memsize_elem_def line Let_def) simp
qed

text \<open>The memory size of a ring is the structure's 384 bytes plus count elements of esize bytes,
  rounded up to a cache line: enough for all elements, and less than a line more, as long as the
  32-bit product of count and esize does not wrap.\<close>

theorem memsize_fits:
  assumes "esize mod 4 = 0" and "RTE_IS_POWER_OF_2 count" and "count \<le> RTE_RING_SZ_MASK"
    and "unat count * unat esize < 2 ^ 32"
  shows "int (384 + unat count * unat esize) \<le> rte_ring_get_memsize_elem esize count \<and>
    rte_ring_get_memsize_elem esize count < int (384 + unat count * unat esize + 64) \<and>
    64 dvd rte_ring_get_memsize_elem esize count"
proof -
  let ?m = "384 + unat count * unat esize"
  have "?m \<le> (?m + 63) div 64 * 64" "(?m + 63) div 64 * 64 < ?m + 64"
    using div_mult_mod_eq[of "?m + 63" 64] mod_less_divisor[of 64 "?m + 63"] by linarith+
  then show ?thesis
    unfolding memsize_value[OF assms] by (auto simp only: of_nat_less_iff of_nat_le_iff) simp
qed

theorem memsize_fits_witness:
  "(396 :: int) \<le> rte_ring_get_memsize_elem 12 1 \<and> rte_ring_get_memsize_elem 12 1 = 448"
  using memsize_fits[of 12 1] by (simp add: RTE_IS_POWER_OF_2_def RTE_RING_SZ_MASK_def) code_simp

text \<open>When the product of count and esize reaches 2^32 the size wraps: a ring of 2^30 elements of 4
  bytes is given 384 bytes, the structure alone.\<close>

theorem memsize_wraps: "rte_ring_get_memsize_elem 4 (2 ^ 30) = 384"
  by code_simp

section \<open>Initialisation and reset\<close>



text \<open>Resetting a ring in use empties it and keeps it usable, in every synchronisation mode.\<close>

theorem ring_reset_empties:
  assumes "ring_inv k r"
  shows "ring_inv k (rte_ring_reset r) \<and> ring_cells k (rte_ring_reset r) = [] \<and>
    rte_ring_count (rte_ring_reset r) = 0 \<and> rte_ring_free_count (rte_ring_reset r) = r_capacity r"
  using reset_inv[OF assms] count_eq_used[OF reset_inv(1)[OF assms]]
  by (simp add: rte_ring_free_count_def rte_ring_reset_def ring_used_def reset_quiet)

theorem ring_reset_empties_witness:
  "ring_cells 1 (demo_full 1 0 [7, 8, 9]) = [7, 8, 9] \<and>
   ring_cells 1 (rte_ring_reset (demo_full 1 0 [7, 8, 9])) = []"
  using ring_reset_empties[of 1 "demo_full 1 0 [7, 8, 9]"] demo_full_inv[of 1 "[7, 8, 9]"] by simp

text \<open>A count of 0 passes the power-of-two test of the initialisation: the ring has no slot but a
  capacity of 2^32 - 1, and the first enqueue writes behind the structure.\<close>

theorem ring_init_accepts_zero:
  "\<exists>r'. rte_ring_init (zero_ring []) ''r'' 0 0 = (0, r') \<and> r_size r' = 0 \<and> r_capacity r' = - 1 \<and>
    rte_ring_enqueue r' p = Inl OutOfBounds"
proof -
  let ?r = "(zero_ring [])\<lparr>r_name := ''r'', r_mask := - 1, r_capacity := - 1\<rparr>"
  have "rte_ring_init (zero_ring []) ''r'' 0 0 = (0, ?r)"
    by (simp add: rte_ring_init_def zero_ring_def zero_headtail_def strlcpy_def get_sync_type_def
        sync_of_def POWEROF2_def RTE_RING_NAMESIZE_def RTE_MEMZONE_NAMESIZE_def RTE_RING_MZ_PREFIX_def)
  moreover have "rte_ring_enqueue ?r p = Inl OutOfBounds"
    by (simp add: rte_ring_enqueue_def rte_ring_enqueue_elem_def rte_ring_enqueue_bulk_elem_def
        rte_ring_mp_enqueue_bulk_elem_def zero_ring_def zero_headtail_def generic_ops ring_limit_def
        is_single_def enqueue_elems_def enqueue_elems_64_def SIZEOF_PTR_def ring_copy_def
        wrap_loop.simps rest_loop.simps copy_elem_def)
  ultimately show ?thesis by (simp add: zero_ring_def)
qed

section \<open>The list of rings\<close>

lemma create_ok:
  assumes "rte_ring_create_elem zmalloc reserve te_free name esize count sid flags st = (Some r, st')"
  obtains mm mz cells mm' where "zmalloc (rl_mm st) = (True, mm)"
    and "reserve mm (RTE_RING_MZ_PREFIX @ name) (rte_ring_get_memsize_elem esize (requested_size count flags)) sid =
      (Some (mz, r, cells), mm')"
    and "length name < RTE_RING_NAMESIZE"
    and "0 \<le> rte_ring_get_memsize_elem esize (requested_size count flags)"
    and "st' = st\<lparr>rl_mm := mm', rl_list := rl_list st @ [r],
      rl_ring := (rl_ring st)(r := (snd (rte_ring_init
        ((rl_ring st r)\<lparr>r_mem := take (unat (requested_size count flags * esize) div 4) cells\<rparr>)
        name count flags))\<lparr>r_memzone := Some mz\<rparr>)\<rparr>"
proof -
  obtain te mm where z: "zmalloc (rl_mm st) = (te, mm)" by (cases "zmalloc (rl_mm st)")
  obtain res mm' where v: "reserve mm (RTE_RING_MZ_PREFIX @ name)
      (rte_ring_get_memsize_elem esize (requested_size count flags)) sid = (res, mm')"
    by (cases "reserve mm (RTE_RING_MZ_PREFIX @ name)
      (rte_ring_get_memsize_elem esize (requested_size count flags)) sid")
  show thesis
    using assms z v that
    by (cases res)
       (auto simp: rte_ring_create_elem_def Let_def requested_size_def[symmetric] RTE_RING_MZ_PREFIX_def
          RTE_RING_NAMESIZE_def RTE_MEMZONE_NAMESIZE_def split: if_splits)
qed

lemma requested_bytes:
  assumes "unat esize = 4 * k" and "k * unat (requested_size count flags) < 2 ^ 30"
  shows "unat (requested_size count flags) * unat esize < 2 ^ 32"
    and "unat (requested_size count flags * esize) div 4 = k * unat (requested_size count flags)"
proof -
  have eq: "unat (requested_size count flags) * unat esize = 4 * (k * unat (requested_size count flags))"
    using assms(1) by simp
  show b: "unat (requested_size count flags) * unat esize < 2 ^ 32"
    unfolding eq using assms(2) by simp
  show "unat (requested_size count flags * esize) div 4 = k * unat (requested_size count flags)"
    using unat_mult_no_wrap[of "requested_size count flags" esize] b eq by simp
qed

lemma memzone_inv [simp]: "ring_inv k (r\<lparr>r_memzone := z\<rparr>) = ring_inv k r"
    "ring_cells k (r\<lparr>r_memzone := z\<rparr>) = ring_cells k r"
  by (simp_all add: ring_inv_def ring_shape_def ring_used_def ring_cells_def ring_start_def)

lemma lookup_last:
  assumes "length name < RTE_RING_NAMESIZE" and "r_name (rl_ring st r) = name"
    and "\<forall>x \<in> set xs. r_name (rl_ring st x) \<noteq> name" and "rl_list st = xs @ [r]"
  shows "rte_ring_lookup name st = Some r"
proof -
  have neq: "name \<noteq> take RTE_RING_NAMESIZE (r_name (rl_ring st x))" if "x \<in> set xs" for x
  proof
    assume eq: "name = take RTE_RING_NAMESIZE (r_name (rl_ring st x))"
    then have "length (r_name (rl_ring st x)) < RTE_RING_NAMESIZE"
      using assms(1) arg_cong[OF eq, of length] by (simp add: min_def split: if_splits)
    with eq have "r_name (rl_ring st x) = name" by simp
    with assms(3) that show False by blast
  qed
  then have "List.find (\<lambda>x. name = take RTE_RING_NAMESIZE (r_name (rl_ring st x))) xs = None"
    by (auto simp: find_None_iff)
  moreover have "List.find P (xs @ [r]) = (case List.find P xs of None \<Rightarrow> (if P r then Some r else None) | Some y \<Rightarrow> Some y)"
    for P by (induction xs) auto
  ultimately show ?thesis
    using assms by (simp add: rte_ring_lookup_def)
qed

text \<open>C20: Creating a ring from valid arguments, when the memory manager grants at least the bytes asked
  for, gives an empty ring with the requested capacity that a lookup of its name then finds; the
  other rings stay as they are.\<close>

theorem ring_create_valid:
  assumes create: "rte_ring_create_elem zmalloc reserve te_free name esize count sid flags st = (Some r, st')"
    and args: "init_args name count flags" and es: "unat esize = 4 * k" and k: "0 < k"
    and bound: "k * unat (requested_size count flags) < 2 ^ 30"
    and grants: "\<And>mm nm len s mz a cells mm'. reserve mm nm len s = (Some (mz, a, cells), mm') \<Longrightarrow>
      len \<le> int (SIZEOF_RTE_RING + 4 * length cells)"
    and fresh: "\<forall>x \<in> set (rl_list st). x \<noteq> r \<and> r_name (rl_ring st x) \<noteq> name"
  shows "ring_inv k (rl_ring st' r) \<and> ring_cells k (rl_ring st' r) = [] \<and>
    r_capacity (rl_ring st' r) = requested_capacity count flags \<and>
    rte_ring_lookup name st' = Some r \<and> (\<forall>x. x \<noteq> r \<longrightarrow> rl_ring st' x = rl_ring st x)"
proof -
  let ?sz = "requested_size count flags"
  obtain mm mz cells mm' where c: "reserve mm (RTE_RING_MZ_PREFIX @ name) (rte_ring_get_memsize_elem esize ?sz) sid =
      (Some (mz, r, cells), mm')" "length name < RTE_RING_NAMESIZE"
      "st' = st\<lparr>rl_mm := mm', rl_list := rl_list st @ [r],
        rl_ring := (rl_ring st)(r := (snd (rte_ring_init
          ((rl_ring st r)\<lparr>r_mem := take (unat (?sz * esize) div 4) cells\<rparr>) name count flags))\<lparr>r_memzone := Some mz\<rparr>)\<rparr>"
    using create by (rule create_ok) blast
  note req = requested_bytes[OF es bound]
  have "unat ?sz \<le> k * unat ?sz" using k by simp
  then have "unat ?sz < 2 ^ 30" using bound by (rule le_less_trans)
  then have small: "?sz \<le> RTE_RING_SZ_MASK" by (simp add: RTE_RING_SZ_MASK_def word_le_nat_alt)
  have "esize mod 4 = 0" using es by (simp add: word_unat_eq_iff unat_mod)
  then have "rte_ring_get_memsize_elem esize ?sz = int ((384 + unat ?sz * unat esize + 63) div 64 * 64)"
    using requested_size_pow2(1)[OF args] small req(1) by (rule memsize_value)
  then have "(384 + unat ?sz * unat esize + 63) div 64 * 64 \<le> 384 + 4 * length cells"
    using grants[OF c(1)] by (simp only: of_nat_le_iff) (simp add: SIZEOF_RTE_RING_def RTE_CACHE_LINE_SIZE_def)
  then have enough: "k * unat ?sz \<le> length cells"
    using div_mult_mod_eq[of "384 + unat ?sz * unat esize + 63" 64]
      mod_less_divisor[of 64 "384 + unat ?sz * unat esize + 63"] es by (simp add: algebra_simps)
  let ?r = "(rl_ring st r)\<lparr>r_mem := take (unat (?sz * esize) div 4) cells\<rparr>"
  have "length (r_mem ?r) = k * unat ?sz" using enough req(2) by simp
  from init_inv[OF args k this bound] obtain r' where r': "rte_ring_init ?r name count flags = (0, r')"
      "ring_inv k r'" "ring_cells k r' = []" "r_capacity r' = requested_capacity count flags" "r_name r' = name"
    by metis
  then have ring: "rl_ring st' r = r'\<lparr>r_memzone := Some mz\<rparr>" by (simp add: c(3))
  have "\<forall>x \<in> set (rl_list st). r_name (rl_ring st' x) \<noteq> name" using fresh by (simp add: c(3))
  moreover have "r_name (rl_ring st' r) = name" "rl_list st' = rl_list st @ [r]"
    using ring r'(5) by (simp_all add: c(3))
  ultimately have "rte_ring_lookup name st' = Some r" using lookup_last[OF c(2)] by blast
  then show ?thesis using r' ring by (simp add: c(3))
qed

text \<open>A memory manager that hands out consecutive addresses, for the examples.\<close>

definition demo_reserve :: "nat \<Rightarrow> string \<Rightarrow> int \<Rightarrow> int \<Rightarrow> (nat \<times> nat \<times> u32 list) option \<times> nat" where
  "demo_reserve n nm len s = (Some (n, n, replicate (nat len) 0), n + 1)"

definition demo_list :: "nat ring_list" where
  "demo_list = \<lparr>rl_list = [], rl_ring = (\<lambda>_. zero_ring []), rl_mm = 7\<rparr>"

theorem ring_create_valid_witness:
  "\<exists>st'. rte_ring_create_elem (\<lambda>m. (True, m)) demo_reserve id ''a'' 4 8 0 0 demo_list = (Some 7, st') \<and>
     ring_inv 1 (rl_ring st' 7) \<and> r_capacity (rl_ring st' 7) = 7 \<and> rte_ring_lookup ''a'' st' = Some 7"
proof -
  have args: "init_args ''a'' 8 0" and req: "requested_size 8 0 = 8" "requested_capacity 8 0 = 7"
    and sz: "rte_ring_get_memsize_elem 4 8 = 448"
    by code_simp+
  obtain st' where st': "rte_ring_create_elem (\<lambda>m. (True, m)) demo_reserve id ''a'' 4 8 0 0 demo_list = (Some 7, st')"
    by (simp add: rte_ring_create_elem_def demo_reserve_def demo_list_def sz RTE_RING_MZ_PREFIX_def
        RTE_MEMZONE_NAMESIZE_def)
  have grants: "len \<le> int (SIZEOF_RTE_RING + 4 * length cells)"
    if "demo_reserve mm nm len s = (Some (mz, a, cells), mm')" for mm nm len s mz a cells mm'
    using that by (auto simp: demo_reserve_def)
  show ?thesis
    using ring_create_valid[OF st' args, of 1, OF _ _ _ grants] st' req by (simp add: demo_list_def)
qed

text \<open>Freeing a ring whose zone the memory manager takes back removes exactly this ring from the list,
  in order, and no lookup returns it any more; without a zone, or when the manager refuses, the list
  stays as it is.\<close>

theorem ring_free_unlinks:
  assumes "distinct (rl_list st)"
  shows "(r_memzone (rl_ring st r) = Some mz \<and> mz_free (rl_mm st) mz = (0, mm) \<longrightarrow>
      rl_list (rte_ring_free mz_free te_free (Some r) st) = filter (\<lambda>x. x \<noteq> r) (rl_list st) \<and>
      rte_ring_lookup name (rte_ring_free mz_free te_free (Some r) st) \<noteq> Some r) \<and>
    (r_memzone (rl_ring st r) = None \<or> fst (mz_free (rl_mm st) (the (r_memzone (rl_ring st r)))) \<noteq> 0 \<longrightarrow>
      rl_list (rte_ring_free mz_free te_free (Some r) st) = rl_list st)"
proof -
  have free: "rl_list (rte_ring_free mz_free te_free (Some r) st) = filter (\<lambda>x. x \<noteq> r) (rl_list st)"
    if "r_memzone (rl_ring st r) = Some mz" "mz_free (rl_mm st) mz = (0, mm)"
    using that assms by (auto simp: rte_ring_free_def Let_def distinct_remove1_removeAll removeAll_filter_not_eq
        intro!: filter_True[symmetric] filter_cong)
  have "rte_ring_lookup name s \<noteq> Some r" if "rl_list s = filter (\<lambda>x. x \<noteq> r) (rl_list st)" for s :: "'a ring_list"
    using that by (auto simp: rte_ring_lookup_def find_Some_iff in_set_conv_nth[symmetric] dest: nth_mem)
  moreover have "r_memzone (rl_ring st r) = None \<or> fst (mz_free (rl_mm st) (the (r_memzone (rl_ring st r)))) \<noteq> 0 \<Longrightarrow>
      rl_list (rte_ring_free mz_free te_free (Some r) st) = rl_list st"
    by (auto simp: rte_ring_free_def Let_def split: option.splits prod.splits)
  ultimately show ?thesis using free by blast
qed

theorem ring_free_unlinks_witness:
  "rl_list (rte_ring_free (\<lambda>m z. (0, m)) id (Some 3)
     \<lparr>rl_list = [2, 3, 4], rl_ring = (\<lambda>_. (zero_ring [])\<lparr>r_memzone := Some 1\<rparr>), rl_mm = (0::nat)\<rparr>) = [2, 4]"
  using ring_free_unlinks[of "\<lparr>rl_list = [2, 3, 4], rl_ring = (\<lambda>_. (zero_ring [])\<lparr>r_memzone := Some 1\<rparr>), rl_mm = (0::nat)\<rparr>"
      3 1 "\<lambda>m z. (0, m)" 0 id "[]"]
  by simp

text \<open>The creation ignores the result of the initialisation: with an unknown flag it still links and
  returns a ring, whose structure was never written.\<close>

theorem ring_create_ignores_init_error:
  "\<exists>st'. rte_ring_create_elem (\<lambda>m. (True, m)) demo_reserve id ''a'' 4 8 0 0x80 demo_list = (Some 7, st') \<and>
     fst (rte_ring_init r ''a'' 8 0x80) = - EINVAL \<and> r_size (rl_ring st' 7) = 0 \<and> rl_list st' = [7]"
proof -
  have sz: "rte_ring_get_memsize_elem 4 8 = 448" and fl: "0x80 AND NOT RING_F_MASK \<noteq> 0"
      "0x80 AND RING_F_EXACT_SZ = 0" by code_simp+
  then show ?thesis
    by (simp add: rte_ring_create_elem_def demo_reserve_def demo_list_def RTE_RING_MZ_PREFIX_def
        RTE_MEMZONE_NAMESIZE_def rte_ring_init_def zero_ring_def)
qed

end
