(* ===== verification/Ring_Peek.thy ===== *)
theory Ring_Peek
  imports Ring_Correct
begin

text \<open>
  The two-step operations of \<^verbatim>\<open>rte_ring_peek.h\<close>, \<^verbatim>\<open>rte_ring_peek_elem_pvt.h\<close> and
  \<^verbatim>\<open>rte_ring_peek_zc.h\<close>: \<open>start\<close> reserves slots (and copies them out for a dequeue),
  \<open>finish\<close> commits as many of them as wanted.  They work on single-thread and HTS sides;
  on the others \<open>RTE_ASSERT(0)\<close> is compiled out, and nothing is moved.

  A zero-copy \<open>start\<close> returns the zones of the reserved slots; pointers into the ring are cell
  offsets from \<open>&r[1]\<close>.
\<close>

section \<open>Helpers\<close>

definition st_get_tail :: "rte_ring_headtail \<Rightarrow> u32 \<Rightarrow> u32 \<times> u32" where
  "st_get_tail ht num =
     (let h = ht_head ht; t = ht_tail ht; n = h - t; num = (if n \<ge> num then num else 0)
      in (num, t))"

definition st_set_head_tail :: "rte_ring_headtail \<Rightarrow> u32 \<Rightarrow> u32 \<Rightarrow> rte_ring_headtail" where
  "st_set_head_tail ht tail num = (let pos = tail + num in ht\<lparr>ht_head := pos, ht_tail := pos\<rparr>)"

definition hts_get_tail :: "rte_ring_headtail \<Rightarrow> u32 \<Rightarrow> u32 \<times> u32" where
  "hts_get_tail ht num =
     (let p = (ht_head ht, ht_tail ht); n = fst p - snd p; num = (if n \<ge> num then num else 0)
      in (num, snd p))"

definition hts_set_head_tail :: "rte_ring_headtail \<Rightarrow> u32 \<Rightarrow> u32 \<Rightarrow> rte_ring_headtail" where
  "hts_set_head_tail ht tail num =
     (let head = tail + num; p = (head, head) in ht\<lparr>ht_head := fst p, ht_tail := snd p\<rparr>)"

definition do_enqueue_start ::
  "rte_ring \<Rightarrow> u32 \<Rightarrow> rte_ring_queue_behavior \<Rightarrow> (u32 \<times> u32 \<times> rte_ring) cres"
where
  "do_enqueue_start r n behavior =
     bindc (case ht_sync_type (r_prod r) of
              RTE_RING_SYNC_ST \<Rightarrow>
                bindc (move_prod_head r (is_single RTE_RING_SYNC_ST) n behavior)
                  (\<lambda>(n, head, nxt, free, r). Inr (n, free, r))
            | RTE_RING_SYNC_MT_HTS \<Rightarrow>
                bindc (hts_move_prod_head r n behavior) (\<lambda>(n, head, free, r). Inr (n, free, r))
            | _ \<Rightarrow> Inr (0, 0, r))
       (\<lambda>(n, free, r). Inr (n, free - n, r))"

definition do_dequeue_start ::
  "rte_ring \<Rightarrow> u32 list \<Rightarrow> u32 \<Rightarrow> u32 \<Rightarrow> rte_ring_queue_behavior \<Rightarrow>
     (u32 \<times> u32 \<times> u32 list \<times> rte_ring) cres"
where
  "do_dequeue_start r obj_table esize n behavior =
     bindc (case ht_sync_type (r_cons r) of
              RTE_RING_SYNC_ST \<Rightarrow>
                bindc (move_cons_head r (is_single RTE_RING_SYNC_ST) n behavior)
                  (\<lambda>(n, head, nxt, avail, r). Inr (n, head, avail, r))
            | RTE_RING_SYNC_MT_HTS \<Rightarrow> hts_move_cons_head r n behavior
            | _ \<Rightarrow> Inr (0, 0, 0, r))
       (\<lambda>(n, head, avail, r).
          bindc (if n \<noteq> 0 then dequeue_elems r head obj_table esize n else Inr obj_table)
            (\<lambda>obj_table. Inr (n, avail - n, obj_table, r)))"

section \<open>Peek operations\<close>

definition rte_ring_enqueue_bulk_elem_start :: "rte_ring \<Rightarrow> u32 \<Rightarrow> enq_res" where
  "rte_ring_enqueue_bulk_elem_start r n =
     do_enqueue_start r n RTE_RING_QUEUE_FIXED"

definition rte_ring_enqueue_bulk_start :: "rte_ring \<Rightarrow> u32 \<Rightarrow> enq_res" where
  "rte_ring_enqueue_bulk_start r n =
     rte_ring_enqueue_bulk_elem_start r n"

definition rte_ring_dequeue_bulk_elem_start :: "rte_ring \<Rightarrow> u32 list \<Rightarrow> u32 \<Rightarrow> u32 \<Rightarrow> deq_res" where
  "rte_ring_dequeue_bulk_elem_start r obj_table esize n =
     do_dequeue_start r obj_table esize n RTE_RING_QUEUE_FIXED"

definition rte_ring_dequeue_bulk_start :: "rte_ring \<Rightarrow> u64 list \<Rightarrow> u32 \<Rightarrow> deq_ptr_res" where
  "rte_ring_dequeue_bulk_start r obj_table n =
     deq_ptrs (rte_ring_dequeue_bulk_elem_start r (ptrs_cells obj_table) SIZEOF_PTR n)"

definition rte_ring_enqueue_burst_elem_start :: "rte_ring \<Rightarrow> u32 \<Rightarrow> enq_res" where
  "rte_ring_enqueue_burst_elem_start r n =
     do_enqueue_start r n RTE_RING_QUEUE_VARIABLE"

definition rte_ring_enqueue_burst_start :: "rte_ring \<Rightarrow> u32 \<Rightarrow> enq_res" where
  "rte_ring_enqueue_burst_start r n =
     rte_ring_enqueue_burst_elem_start r n"

definition rte_ring_dequeue_burst_elem_start :: "rte_ring \<Rightarrow> u32 list \<Rightarrow> u32 \<Rightarrow> u32 \<Rightarrow> deq_res" where
  "rte_ring_dequeue_burst_elem_start r obj_table esize n =
     do_dequeue_start r obj_table esize n RTE_RING_QUEUE_VARIABLE"

definition rte_ring_dequeue_burst_start :: "rte_ring \<Rightarrow> u64 list \<Rightarrow> u32 \<Rightarrow> deq_ptr_res" where
  "rte_ring_dequeue_burst_start r obj_table n =
     deq_ptrs (rte_ring_dequeue_burst_elem_start r (ptrs_cells obj_table) SIZEOF_PTR n)"

definition rte_ring_enqueue_elem_finish :: "rte_ring \<Rightarrow> u32 list \<Rightarrow> u32 \<Rightarrow> u32 \<Rightarrow> rte_ring cres" where
  "rte_ring_enqueue_elem_finish r obj_table esize n =
     (case ht_sync_type (r_prod r) of
        RTE_RING_SYNC_ST \<Rightarrow>
          (let (n, tail) = st_get_tail (r_prod r) n in
           bindc (if n \<noteq> 0 then enqueue_elems r tail obj_table esize n else Inr r)
             (\<lambda>r. Inr (r\<lparr>r_prod := st_set_head_tail (r_prod r) tail n\<rparr>)))
      | RTE_RING_SYNC_MT_HTS \<Rightarrow>
          (let (n, tail) = hts_get_tail (r_prod r) n in
           bindc (if n \<noteq> 0 then enqueue_elems r tail obj_table esize n else Inr r)
             (\<lambda>r. Inr (r\<lparr>r_prod := hts_set_head_tail (r_prod r) tail n\<rparr>)))
      | _ \<Rightarrow> Inr r)"

definition rte_ring_enqueue_finish :: "rte_ring \<Rightarrow> u64 list \<Rightarrow> u32 \<Rightarrow> rte_ring cres" where
  "rte_ring_enqueue_finish r obj_table n =
     rte_ring_enqueue_elem_finish r (ptrs_cells obj_table) SIZEOF_PTR n"

definition rte_ring_dequeue_elem_finish :: "rte_ring \<Rightarrow> u32 \<Rightarrow> rte_ring" where
  "rte_ring_dequeue_elem_finish r n =
     (case ht_sync_type (r_cons r) of
        RTE_RING_SYNC_ST \<Rightarrow>
          (let (n, tail) = st_get_tail (r_cons r) n
           in r\<lparr>r_cons := st_set_head_tail (r_cons r) tail n\<rparr>)
      | RTE_RING_SYNC_MT_HTS \<Rightarrow>
          (let (n, tail) = hts_get_tail (r_cons r) n
           in r\<lparr>r_cons := hts_set_head_tail (r_cons r) tail n\<rparr>)
      | _ \<Rightarrow> r)"

definition rte_ring_dequeue_finish :: "rte_ring \<Rightarrow> u32 \<Rightarrow> rte_ring" where
  "rte_ring_dequeue_finish r n = rte_ring_dequeue_elem_finish r n"

section \<open>Zero-copy operations\<close>

record rte_ring_zc_data =
  zc_ptr1 :: u32
  zc_ptr2 :: "u32 option"
  zc_n1 :: u32

definition get_elem_addr :: "rte_ring \<Rightarrow> u32 \<Rightarrow> u32 \<Rightarrow> u32 \<Rightarrow> rte_ring_zc_data" where
  "get_elem_addr r head esize num =
     (let scale = esize div 4; idx = head AND r_mask r; nr_idx = idx * scale
      in if idx + num > r_size r
         then \<lparr>zc_ptr1 = nr_idx, zc_ptr2 = Some 0, zc_n1 = r_size r - idx\<rparr>
         else \<lparr>zc_ptr1 = nr_idx, zc_ptr2 = None, zc_n1 = num\<rparr>)"

text \<open>On a side of another mode the functions return before they write \<open>zcd\<close> and \<open>free_space\<close>.\<close>

definition do_enqueue_zc_elem_start ::
  "rte_ring \<Rightarrow> u32 \<Rightarrow> u32 \<Rightarrow> rte_ring_queue_behavior \<Rightarrow> rte_ring_zc_data \<Rightarrow> u32 \<Rightarrow>
     (u32 \<times> rte_ring_zc_data \<times> u32 \<times> rte_ring) cres"
where
  "do_enqueue_zc_elem_start r esize n behavior zcd free_space =
     (case ht_sync_type (r_prod r) of
        RTE_RING_SYNC_ST \<Rightarrow>
          bindc (move_prod_head r (is_single RTE_RING_SYNC_ST) n behavior)
            (\<lambda>(n, head, nxt, free, r). Inr (n, get_elem_addr r head esize n, free - n, r))
      | RTE_RING_SYNC_MT_HTS \<Rightarrow>
          bindc (hts_move_prod_head r n behavior)
            (\<lambda>(n, head, free, r). Inr (n, get_elem_addr r head esize n, free - n, r))
      | _ \<Rightarrow> Inr (0, zcd, free_space, r))"

definition do_dequeue_zc_elem_start ::
  "rte_ring \<Rightarrow> u32 \<Rightarrow> u32 \<Rightarrow> rte_ring_queue_behavior \<Rightarrow> rte_ring_zc_data \<Rightarrow> u32 \<Rightarrow>
     (u32 \<times> rte_ring_zc_data \<times> u32 \<times> rte_ring) cres"
where
  "do_dequeue_zc_elem_start r esize n behavior zcd available =
     (case ht_sync_type (r_cons r) of
        RTE_RING_SYNC_ST \<Rightarrow>
          bindc (move_cons_head r (is_single RTE_RING_SYNC_ST) n behavior)
            (\<lambda>(n, head, nxt, avail, r). Inr (n, get_elem_addr r head esize n, avail - n, r))
      | RTE_RING_SYNC_MT_HTS \<Rightarrow>
          bindc (hts_move_cons_head r n behavior)
            (\<lambda>(n, head, avail, r). Inr (n, get_elem_addr r head esize n, avail - n, r))
      | _ \<Rightarrow> Inr (0, zcd, available, r))"

definition rte_ring_enqueue_zc_bulk_elem_start :: "rte_ring \<Rightarrow> u32 \<Rightarrow> u32 \<Rightarrow> rte_ring_zc_data \<Rightarrow> u32 \<Rightarrow>
     (u32 \<times> rte_ring_zc_data \<times> u32 \<times> rte_ring) cres" where
  "rte_ring_enqueue_zc_bulk_elem_start r esize n zcd free_space =
     do_enqueue_zc_elem_start r esize n RTE_RING_QUEUE_FIXED zcd free_space"

definition rte_ring_enqueue_zc_bulk_start :: "rte_ring \<Rightarrow> u32 \<Rightarrow> rte_ring_zc_data \<Rightarrow> u32 \<Rightarrow>
     (u32 \<times> rte_ring_zc_data \<times> u32 \<times> rte_ring) cres" where
  "rte_ring_enqueue_zc_bulk_start r n zcd free_space =
     rte_ring_enqueue_zc_bulk_elem_start r SIZEOF_PTR n zcd free_space"

definition rte_ring_enqueue_zc_burst_elem_start :: "rte_ring \<Rightarrow> u32 \<Rightarrow> u32 \<Rightarrow> rte_ring_zc_data \<Rightarrow> u32 \<Rightarrow>
     (u32 \<times> rte_ring_zc_data \<times> u32 \<times> rte_ring) cres" where
  "rte_ring_enqueue_zc_burst_elem_start r esize n zcd free_space =
     do_enqueue_zc_elem_start r esize n RTE_RING_QUEUE_VARIABLE zcd free_space"

definition rte_ring_enqueue_zc_burst_start :: "rte_ring \<Rightarrow> u32 \<Rightarrow> rte_ring_zc_data \<Rightarrow> u32 \<Rightarrow>
     (u32 \<times> rte_ring_zc_data \<times> u32 \<times> rte_ring) cres" where
  "rte_ring_enqueue_zc_burst_start r n zcd free_space =
     rte_ring_enqueue_zc_burst_elem_start r SIZEOF_PTR n zcd free_space"

definition rte_ring_dequeue_zc_bulk_elem_start :: "rte_ring \<Rightarrow> u32 \<Rightarrow> u32 \<Rightarrow> rte_ring_zc_data \<Rightarrow> u32 \<Rightarrow>
     (u32 \<times> rte_ring_zc_data \<times> u32 \<times> rte_ring) cres" where
  "rte_ring_dequeue_zc_bulk_elem_start r esize n zcd available =
     do_dequeue_zc_elem_start r esize n RTE_RING_QUEUE_FIXED zcd available"

definition rte_ring_dequeue_zc_bulk_start :: "rte_ring \<Rightarrow> u32 \<Rightarrow> rte_ring_zc_data \<Rightarrow> u32 \<Rightarrow>
     (u32 \<times> rte_ring_zc_data \<times> u32 \<times> rte_ring) cres" where
  "rte_ring_dequeue_zc_bulk_start r n zcd available =
     rte_ring_dequeue_zc_bulk_elem_start r SIZEOF_PTR n zcd available"

definition rte_ring_dequeue_zc_burst_elem_start :: "rte_ring \<Rightarrow> u32 \<Rightarrow> u32 \<Rightarrow> rte_ring_zc_data \<Rightarrow> u32 \<Rightarrow>
     (u32 \<times> rte_ring_zc_data \<times> u32 \<times> rte_ring) cres" where
  "rte_ring_dequeue_zc_burst_elem_start r esize n zcd available =
     do_dequeue_zc_elem_start r esize n RTE_RING_QUEUE_VARIABLE zcd available"

definition rte_ring_dequeue_zc_burst_start :: "rte_ring \<Rightarrow> u32 \<Rightarrow> rte_ring_zc_data \<Rightarrow> u32 \<Rightarrow>
     (u32 \<times> rte_ring_zc_data \<times> u32 \<times> rte_ring) cres" where
  "rte_ring_dequeue_zc_burst_start r n zcd available =
     rte_ring_dequeue_zc_burst_elem_start r SIZEOF_PTR n zcd available"

definition rte_ring_enqueue_zc_elem_finish :: "rte_ring \<Rightarrow> u32 \<Rightarrow> rte_ring" where
  "rte_ring_enqueue_zc_elem_finish r n =
     (case ht_sync_type (r_prod r) of
        RTE_RING_SYNC_ST \<Rightarrow>
          (let (n, tail) = st_get_tail (r_prod r) n
           in r\<lparr>r_prod := st_set_head_tail (r_prod r) tail n\<rparr>)
      | RTE_RING_SYNC_MT_HTS \<Rightarrow>
          (let (n, tail) = hts_get_tail (r_prod r) n
           in r\<lparr>r_prod := hts_set_head_tail (r_prod r) tail n\<rparr>)
      | _ \<Rightarrow> r)"

definition rte_ring_enqueue_zc_finish :: "rte_ring \<Rightarrow> u32 \<Rightarrow> rte_ring" where
  "rte_ring_enqueue_zc_finish r n = rte_ring_enqueue_zc_elem_finish r n"

definition rte_ring_dequeue_zc_elem_finish :: "rte_ring \<Rightarrow> u32 \<Rightarrow> rte_ring" where
  "rte_ring_dequeue_zc_elem_finish r n =
     (case ht_sync_type (r_cons r) of
        RTE_RING_SYNC_ST \<Rightarrow>
          (let (n, tail) = st_get_tail (r_cons r) n
           in r\<lparr>r_cons := st_set_head_tail (r_cons r) tail n\<rparr>)
      | RTE_RING_SYNC_MT_HTS \<Rightarrow>
          (let (n, tail) = hts_get_tail (r_cons r) n
           in r\<lparr>r_cons := hts_set_head_tail (r_cons r) tail n\<rparr>)
      | _ \<Rightarrow> r)"

definition rte_ring_dequeue_zc_finish :: "rte_ring \<Rightarrow> u32 \<Rightarrow> rte_ring" where
  "rte_ring_dequeue_zc_finish r n = rte_ring_dequeue_elem_finish r n"

section \<open>Correctness\<close>

text \<open>The modes that support peeking.\<close>

definition peekable :: "rte_ring_headtail \<Rightarrow> bool" where
  "peekable ht \<longleftrightarrow> ht_sync_type ht = RTE_RING_SYNC_ST \<or> ht_sync_type ht = RTE_RING_SYNC_MT_HTS"

lemmas peek_ops = do_enqueue_start_def do_dequeue_start_def rte_ring_enqueue_elem_finish_def
  rte_ring_dequeue_elem_finish_def rte_ring_enqueue_zc_elem_finish_def rte_ring_dequeue_zc_elem_finish_def
  st_get_tail_def hts_get_tail_def st_set_head_tail_def hts_set_head_tail_def is_single_def

lemma enqueue_start_reserves:
  assumes "ring_inv k r" and "peekable (r_prod r)"
    and m_def: "m = ring_limit b n (r_capacity r - ring_used r)"
  shows "do_enqueue_start r n b = Inr (m, r_capacity r - ring_used r - m,
    r\<lparr>r_prod := (r_prod r)\<lparr>ht_head := ht_tail (r_prod r) + m\<rparr>\<rparr>)"
proof -
  have mode: "ht_sync_type (r_prod r) \<noteq> RTE_RING_SYNC_MT_RTS" using assms(2) by (auto simp: peekable_def)
  note head = quiet_head[OF inv_quiet(1)[OF assms(1)] mode]
  show ?thesis
  proof (cases "m = 0")
    case True
    have same: "r\<lparr>r_prod := (r_prod r)\<lparr>ht_head := ht_tail (r_prod r)\<rparr>\<rparr> = r"
      by (simp flip: head)
    show ?thesis
      using assms(2) True head same
      by (auto simp: peekable_def peek_ops generic_ops hts_ops free_entries_eq m_def[symmetric])
  next
    case False
    with assms(2) head show ?thesis
      by (auto simp: peekable_def peek_ops generic_ops hts_ops free_entries_eq m_def[symmetric])
  qed
qed

lemma enqueue_finish_commits:
  assumes inv: "ring_inv k r" and pk: "peekable (r_prod r)" and es: "unat esize = 4 * k"
    and m: "m \<le> r_capacity r - ring_used r" and c: "c \<le> m" and obj: "k * unat c \<le> length obj"
  defines "r1 \<equiv> r\<lparr>r_prod := (r_prod r)\<lparr>ht_head := ht_tail (r_prod r) + m\<rparr>\<rparr>"
  shows "\<exists>r'. rte_ring_enqueue_elem_finish r1 obj esize c = Inr r' \<and> ring_inv k r' \<and>
    ring_cells k r' = ring_cells k r @ take (k * unat c) obj"
proof -
  let ?p = "(r_prod r)\<lparr>ht_head := ht_tail (r_prod r) + c, ht_tail := ht_tail (r_prod r) + c\<rparr>"
  let ?mem = "circ_write (r_mem r) (k * (unat (ht_tail (r_prod r)) mod unat (r_size r))) (take (k * unat c) obj)"
  let ?r = "r\<lparr>r_mem := ?mem, r_prod := ?p\<rparr>"
  have le: "c \<le> r_capacity r - ring_used r" using c m by (rule order_trans)
  have "unat (r_capacity r - ring_used r) \<le> unat (r_size r)"
    using inv by (rule inv_bounds) (simp add: unat_sub_le word_le_nat_alt)
  then have sz: "c \<le> r_size r" using le by (simp add: word_le_nat_alt)
  have quiet: "ht_quiet ?p" using pk by (auto simp: peekable_def ht_quiet_def)
  note eff = enqueue_effect[OF inv le obj _ quiet refl]
  have shape: "ring_shape k r1" using inv by (simp add: ring_inv_def r1_def)
  have copy: "enqueue_elems r1 (ht_tail (r_prod r)) obj esize c = Inr (r1\<lparr>r_mem := ?mem\<rparr>)"
    using enqueue_elems_circ[OF shape es _ obj, of "ht_tail (r_prod r)"] sz by (simp add: r1_def)
  have zero: "c = 0 \<Longrightarrow> ?mem = r_mem r"
    using start_less[OF inv] by (intro nth_equalityI) (auto simp: nth_circ_write Let_def)
  have "rte_ring_enqueue_elem_finish r1 obj esize c = Inr ?r"
  proof (cases "c = 0")
    case True
    then have r: "?r = r\<lparr>r_prod := ?p\<rparr>" using zero by simp
    from True pk show ?thesis unfolding r by (auto simp: peekable_def peek_ops r1_def)
  next
    case False
    with copy pk c show ?thesis by (auto simp: peekable_def peek_ops r1_def Let_def)
  qed
  with eff show ?thesis by simp
qed

text \<open>C22: A two-step enqueue: start reserves as many slots as the one-step operation would take and leaves
  the contents unchanged, and finish with any smaller count c appends exactly the first c objects
  and gives the other slots back.\<close>

theorem peek_enqueue_commits:
  assumes "ring_inv k r" and "peekable (r_prod r)" and "unat esize = 4 * k"
    and "c \<le> ring_limit b n (r_capacity r - ring_used r)" and "k * unat c \<le> length obj"
  shows "\<exists>m free r1 r2. do_enqueue_start r n b = Inr (m, free, r1) \<and>
    m = ring_limit b n (rte_ring_free_count r) \<and> free = rte_ring_free_count r - m \<and>
    ring_cells k r1 = ring_cells k r \<and>
    rte_ring_enqueue_elem_finish r1 obj esize c = Inr r2 \<and> ring_inv k r2 \<and>
    ring_cells k r2 = ring_cells k r @ take (k * unat c) obj"
proof -
  have used: "rte_ring_free_count r = r_capacity r - ring_used r"
    by (simp add: rte_ring_free_count_def count_eq_used[OF assms(1)])
  have cells: "ring_cells k (r\<lparr>r_prod := (r_prod r)\<lparr>ht_head := h\<rparr>\<rparr>) = ring_cells k r" for h
    by (simp add: ring_cells_def ring_start_def ring_used_def)
  show ?thesis
    using enqueue_start_reserves[OF assms(1,2) refl]
      enqueue_finish_commits[OF assms(1-3) ring_limit_le(2) assms(4,5)] cells
    by (auto simp: used)
qed

theorem peek_enqueue_commits_witness:
  "\<exists>m free r1 r2. do_enqueue_start (demo_ring 1 RING_F_SP_ENQ) 3 RTE_RING_QUEUE_FIXED = Inr (m, free, r1) \<and> m = 3 \<and>
     rte_ring_enqueue_elem_finish r1 [5, 6] 4 2 = Inr r2 \<and> ring_cells 1 r2 = [5, 6]"
proof -
  have args: "init_args ''demo'' 4 RING_F_SP_ENQ" and req: "requested_size 4 RING_F_SP_ENQ = 4"
    and cap: "requested_capacity 4 RING_F_SP_ENQ = 3"
    and st: "rte_ring_is_prod_single (demo_ring 1 RING_F_SP_ENQ)"
    by code_simp+
  note d = demo_ring_inv[OF args req, of 1, simplified]
  have free: "rte_ring_free_count (demo_ring (Suc 0) RING_F_SP_ENQ) = 3"
    using demo_used[OF d(1,2)] d(3) cap by (simp add: rte_ring_free_count_def)
  have pk: "peekable (r_prod (demo_ring (Suc 0) RING_F_SP_ENQ))"
    using st by (simp add: peekable_def rte_ring_is_prod_single_def rte_ring_get_prod_sync_type_def)
  have used: "r_capacity (demo_ring (Suc 0) RING_F_SP_ENQ) - ring_used (demo_ring (Suc 0) RING_F_SP_ENQ) = 3"
    using free by (simp add: rte_ring_free_count_def count_eq_used[OF d(1)])
  have "(2::u32) \<le> ring_limit RTE_RING_QUEUE_FIXED 3 3" by (simp add: ring_limit_def)
  then show ?thesis
    using peek_enqueue_commits[OF d(1) pk, of 4 2 RTE_RING_QUEUE_FIXED 3 "[5, 6]"] d(2) free used
    by (auto simp: ring_limit_def)
qed

lemma dequeue_start_copies:
  assumes "ring_inv k r" and "peekable (r_cons r)" and es: "unat esize = 4 * k" and obj: "k * unat n \<le> length obj"
    and m_def: "m = ring_limit b n (ring_used r)"
  shows "do_dequeue_start r obj esize n b = Inr (m, ring_used r - m,
    take (k * unat m) (ring_cells k r) @ drop (k * unat m) obj,
    r\<lparr>r_cons := (r_cons r)\<lparr>ht_head := ht_tail (r_cons r) + m\<rparr>\<rparr>)"
proof -
  have mode: "ht_sync_type (r_cons r) \<noteq> RTE_RING_SYNC_MT_RTS" using assms(2) by (auto simp: peekable_def)
  note head = quiet_head[OF inv_quiet(2)[OF assms(1)] mode]
  note copy = dequeue_elems_granted[OF assms(1) es obj m_def refl]
  have "m \<le> ring_used r" by (simp add: m_def ring_limit_le)
  then have "k * unat m \<le> k * unat (ring_used r)" by (simp add: word_le_nat_alt)
  then have pre: "take (k * unat m) (ring_cells k r) = circ_read (r_mem r) (ring_start k r) (k * unat m)"
    by (simp add: ring_cells_def circ_read_def take_map min_absorb1)
  show ?thesis
  proof (cases "m = 0")
    case True
    have same: "r\<lparr>r_cons := (r_cons r)\<lparr>ht_head := ht_tail (r_cons r)\<rparr>\<rparr> = r"
      by (simp flip: head)
    show ?thesis
      using assms(2) True head same
      by (auto simp: peekable_def peek_ops generic_ops hts_ops free_entries_eq m_def[symmetric])
  next
    case False
    with assms(2) head copy show ?thesis
      by (auto simp: peekable_def peek_ops generic_ops hts_ops free_entries_eq m_def[symmetric] pre)
  qed
qed

lemma dequeue_finish_removes:
  assumes inv: "ring_inv k r" and pk: "peekable (r_cons r)" and m: "m \<le> ring_used r" and c: "c \<le> m"
  defines "r1 \<equiv> r\<lparr>r_cons := (r_cons r)\<lparr>ht_head := ht_tail (r_cons r) + m\<rparr>\<rparr>"
  shows "ring_inv k (rte_ring_dequeue_elem_finish r1 c)"
    and "ring_cells k (rte_ring_dequeue_elem_finish r1 c) = drop (k * unat c) (ring_cells k r)"
proof -
  let ?c = "(r_cons r)\<lparr>ht_head := ht_tail (r_cons r) + c, ht_tail := ht_tail (r_cons r) + c\<rparr>"
  have le: "c \<le> ring_used r" using c m by (rule order_trans)
  have quiet: "ht_quiet ?c" using pk by (auto simp: peekable_def ht_quiet_def)
  have fin: "rte_ring_dequeue_elem_finish r1 c = r\<lparr>r_cons := ?c\<rparr>"
    using pk c by (auto simp: peekable_def peek_ops r1_def Let_def)
  note eff = dequeue_effect[OF inv le _ quiet fin]
  show "ring_inv k (rte_ring_dequeue_elem_finish r1 c)" using eff(1) by simp
  show "ring_cells k (rte_ring_dequeue_elem_finish r1 c) = drop (k * unat c) (ring_cells k r)"
    using eff(2) by simp
qed

text \<open>The small ring with a single consumer, holding three cells.\<close>

definition demo_sc :: rte_ring where
  "demo_sc = (let r = demo_full 1 0 [7, 8, 9] in r\<lparr>r_cons := (r_cons r)\<lparr>ht_sync_type := RTE_RING_SYNC_ST\<rparr>\<rparr>)"

lemma demo_sc:
  "ring_inv 1 demo_sc" "peekable (r_cons demo_sc)" "ring_cells 1 demo_sc = [7, 8, 9]" "ring_used demo_sc = 3"
proof -
  have "rte_ring_get_cons_sync_type (demo_full 1 0 [7, 8, 9]) = RTE_RING_SYNC_MT" by code_simp
  then have st: "ht_sync_type (r_cons (demo_full (Suc 0) 0 [7, 8, 9])) \<noteq> RTE_RING_SYNC_MT_RTS"
    by (simp add: rte_ring_get_cons_sync_type_def)
  note d = demo_full_inv[of 1 "[7, 8, 9]", simplified]
  show "ring_inv 1 demo_sc"
    using d(1) st by (auto simp: demo_sc_def Let_def ring_inv_def ring_used_def ht_quiet_def)
  show "peekable (r_cons demo_sc)" by (simp add: demo_sc_def Let_def peekable_def)
  show "ring_cells 1 demo_sc = [7, 8, 9]" "ring_used demo_sc = 3"
    using d(2,3) by (simp_all add: demo_sc_def Let_def ring_cells_def ring_start_def ring_used_def)
qed

text \<open>C23: A two-step dequeue: start copies the first elements to the table without removing them, and
  finish with any smaller count c removes exactly the first c elements; a finish with 0 aborts and
  leaves the ring as it was.\<close>

theorem peek_dequeue_commits:
  assumes "ring_inv k r" and "peekable (r_cons r)" and "unat esize = 4 * k" and "k * unat n \<le> length obj"
    and "c \<le> ring_limit b n (ring_used r)"
  shows "\<exists>m avail obj' r1. do_dequeue_start r obj esize n b = Inr (m, avail, obj', r1) \<and>
    m = ring_limit b n (rte_ring_count r) \<and> avail = rte_ring_count r - m \<and>
    take (k * unat m) obj' = take (k * unat m) (ring_cells k r) \<and>
    ring_inv k (rte_ring_dequeue_elem_finish r1 c) \<and>
    ring_cells k (rte_ring_dequeue_elem_finish r1 c) = drop (k * unat c) (ring_cells k r)"
proof -
  let ?m = "ring_limit b n (ring_used r)"
  have "k * unat ?m \<le> k * unat (ring_used r)" using ring_limit_le(2)[of b n "ring_used r"] by (simp add: word_le_nat_alt)
  then have "take (k * unat ?m) (take (k * unat ?m) (ring_cells k r) @ drop (k * unat ?m) obj) =
      take (k * unat ?m) (ring_cells k r)"
    by (simp add: ring_cells_def)
  then show ?thesis
    using dequeue_start_copies[OF assms(1-4) refl]
      dequeue_finish_removes[OF assms(1,2) ring_limit_le(2) assms(5)]
    by (simp add: count_eq_used[OF assms(1)])
qed


theorem peek_dequeue_commits_witness:
  "\<exists>m avail obj' r1. do_dequeue_start demo_sc [0, 0] 4 2 RTE_RING_QUEUE_FIXED = Inr (m, avail, obj', r1) \<and> m = 2 \<and>
     take 2 obj' = [7, 8] \<and> ring_cells 1 (rte_ring_dequeue_elem_finish r1 1) = [8, 9]"
proof -
  have lim: "(1::u32) \<le> ring_limit RTE_RING_QUEUE_FIXED 2 (ring_used demo_sc)"
    by (simp add: ring_limit_def demo_sc(4))
  from peek_dequeue_commits[OF demo_sc(1,2), of 4 2 "[0, 0]" 1 RTE_RING_QUEUE_FIXED] lim
  show ?thesis by (auto simp: count_eq_used[OF demo_sc(1)] demo_sc(3)[simplified] demo_sc(4) ring_limit_def)
qed


end
