(* ===== verification/Ring_Reserve.thy ===== *)
theory Ring_Reserve
  imports Prelude "HOL-Library.Multiset"
begin

text \<open>
  What every synchronisation mode of the ring promises to the threads that use it: a ring of
  reservations, with unbounded positions and no words.

  A producer reserves the next positions, writes its elements one at a time into their slots and
  then publishes; a consumer reserves published positions, reads their slots and then releases
  them.  The two sides of a ring differ only in what bounds them, so most of the state is a
  function of the side.  The point up to which a side is published may move, when a thread ends,
  to any position that no other thread of the side still holds: all the way, as the default and
  the head/tail sync modes do, or not at all, as relaxed tail sync does while others are at work.

  The theory \<open>Ring_Threads\<close> shows that the threads of all modes do nothing else.
\<close>

section \<open>States and steps\<close>

datatype side = Producer | Consumer

text \<open>Side, first position, number of positions, how many of them are copied, the elements.\<close>

datatype 'a hold = Hold side nat nat nat "'a list"

record 'a rr =
  rr_log :: "'a list"
  rr_res :: "side \<Rightarrow> nat"
  rr_pub :: "side \<Rightarrow> nat"
  rr_mem :: "'a list"
  rr_hold :: "nat \<Rightarrow> 'a hold option"
  rr_out :: "'a list"
  rr_pos :: "nat list"

text \<open>The first position a side may not reserve yet.\<close>

fun rr_bound :: "nat \<Rightarrow> (side \<Rightarrow> nat) \<Rightarrow> side \<Rightarrow> nat" where
  "rr_bound cap pub Producer = pub Consumer + cap"
| "rr_bound cap pub Consumer = pub Producer"

fun handed_out :: "side \<Rightarrow> 'b list \<Rightarrow> 'b list" where
  "handed_out Producer xs = []"
| "handed_out Consumer xs = xs"

inductive rr_step :: "nat \<Rightarrow> (nat \<Rightarrow> nat) \<Rightarrow> 'a rr \<Rightarrow> 'a rr \<Rightarrow> bool" for cap sl where
  reserve_p: "rr_hold s t = None \<Longrightarrow> xs \<noteq> [] \<Longrightarrow> rr_res s Producer + length xs \<le> rr_bound cap (rr_pub s) Producer \<Longrightarrow>
    rr_step cap sl s (s\<lparr>rr_log := rr_log s @ xs, rr_res := (rr_res s)(Producer := rr_res s Producer + length xs),
      rr_hold := (rr_hold s)(t \<mapsto> Hold Producer (rr_res s Producer) (length xs) 0 xs)\<rparr>)"
| reserve_c: "rr_hold s t = None \<Longrightarrow> 0 < n \<Longrightarrow> rr_res s Consumer + n \<le> rr_bound cap (rr_pub s) Consumer \<Longrightarrow>
    rr_step cap sl s (s\<lparr>rr_res := (rr_res s)(Consumer := rr_res s Consumer + n),
      rr_hold := (rr_hold s)(t \<mapsto> Hold Consumer (rr_res s Consumer) n 0 [])\<rparr>)"
| store: "rr_hold s t = Some (Hold Producer g n i xs) \<Longrightarrow> i < n \<Longrightarrow>
    rr_step cap sl s (s\<lparr>rr_mem := (rr_mem s)[sl (g + i) := xs ! i],
      rr_hold := (rr_hold s)(t \<mapsto> Hold Producer g n (i + 1) xs)\<rparr>)"
| fetch: "rr_hold s t = Some (Hold Consumer g n i xs) \<Longrightarrow> i < n \<Longrightarrow>
    rr_step cap sl s (s\<lparr>rr_hold := (rr_hold s)(t \<mapsto> Hold Consumer g n (i + 1) (xs @ [rr_mem s ! sl (g + i)]))\<rparr>)"
| publish: "rr_hold s t = Some (Hold d g n n xs) \<Longrightarrow> rr_pub s d \<le> p \<Longrightarrow> p \<le> rr_res s d \<Longrightarrow>
    (\<And>t' g' n' i' xs'. t' \<noteq> t \<Longrightarrow> rr_hold s t' = Some (Hold d g' n' i' xs') \<Longrightarrow> p \<le> g') \<Longrightarrow>
    rr_step cap sl s (s\<lparr>rr_pub := (rr_pub s)(d := p), rr_hold := (rr_hold s)(t := None),
      rr_out := rr_out s @ handed_out d xs, rr_pos := rr_pos s @ handed_out d [g ..< g + n]\<rparr>)"

section \<open>Invariant\<close>

definition rr_bounds :: "nat \<Rightarrow> 'a rr \<Rightarrow> bool" where
  "rr_bounds cap s \<longleftrightarrow> rr_res s Producer = length (rr_log s) \<and>
     (\<forall>d. rr_pub s d \<le> rr_res s d \<and> rr_res s d \<le> rr_bound cap (rr_pub s) d)"

fun hold_ok :: "'a list \<Rightarrow> (side \<Rightarrow> nat) \<Rightarrow> (side \<Rightarrow> nat) \<Rightarrow> 'a hold \<Rightarrow> bool" where
  "hold_ok log res pub (Hold d g n i xs) \<longleftrightarrow> pub d \<le> g \<and> g + n \<le> res d \<and> 0 < n \<and> i \<le> n \<and>
     xs = take (case d of Producer \<Rightarrow> n | Consumer \<Rightarrow> i) (drop g log)"

definition rr_holds :: "'a rr \<Rightarrow> bool" where
  "rr_holds s \<longleftrightarrow> (\<forall>t h. rr_hold s t = Some h \<longrightarrow> hold_ok (rr_log s) (rr_res s) (rr_pub s) h)"

text \<open>Position \<open>j\<close> is held on side \<open>d\<close> by thread \<open>t\<close>; or held by a producer and not yet written.\<close>

fun covers :: "'a hold option \<Rightarrow> side \<Rightarrow> nat \<Rightarrow> bool" where
  "covers None e j \<longleftrightarrow> False"
| "covers (Some (Hold d g n i xs)) e j \<longleftrightarrow> e = d \<and> g \<le> j \<and> j < g + n"

fun to_write :: "'a hold option \<Rightarrow> nat \<Rightarrow> bool" where
  "to_write (Some (Hold Producer g n i xs)) j \<longleftrightarrow> g + i \<le> j \<and> j < g + n"
| "to_write _ j \<longleftrightarrow> False"

definition holds_pos :: "(nat \<Rightarrow> 'a hold option) \<Rightarrow> nat \<Rightarrow> side \<Rightarrow> nat \<Rightarrow> bool" where
  "holds_pos hold t d j \<longleftrightarrow> covers (hold t) d j"

definition unwritten :: "(nat \<Rightarrow> 'a hold option) \<Rightarrow> nat \<Rightarrow> bool" where
  "unwritten hold j \<longleftrightarrow> (\<exists>t. to_write (hold t) j)"

definition rr_disjoint :: "(nat \<Rightarrow> 'a hold option) \<Rightarrow> bool" where
  "rr_disjoint hold \<longleftrightarrow> (\<forall>t t' d j. holds_pos hold t d j \<longrightarrow> holds_pos hold t' d j \<longrightarrow> t = t')"

definition rr_stored :: "(nat \<Rightarrow> nat) \<Rightarrow> 'a rr \<Rightarrow> bool" where
  "rr_stored sl s \<longleftrightarrow> (\<forall>j. rr_pub s Consumer \<le> j \<longrightarrow> j < rr_res s Producer \<longrightarrow> \<not> unwritten (rr_hold s) j \<longrightarrow>
     rr_mem s ! sl j = rr_log s ! j)"

text \<open>Every reserved position of the consumers is held by a thread or was handed out once.\<close>

definition rr_output :: "'a rr \<Rightarrow> bool" where
  "rr_output s \<longleftrightarrow> rr_out s = map ((!) (rr_log s)) (rr_pos s) \<and> distinct (rr_pos s) \<and>
     (\<forall>j. j < rr_res s Consumer \<longleftrightarrow> j \<in> set (rr_pos s) \<or> (\<exists>t. holds_pos (rr_hold s) t Consumer j)) \<and>
     (\<forall>j t. j \<in> set (rr_pos s) \<longrightarrow> \<not> holds_pos (rr_hold s) t Consumer j)"

definition rr_inv :: "nat \<Rightarrow> (nat \<Rightarrow> nat) \<Rightarrow> nat \<Rightarrow> 'a rr \<Rightarrow> bool" where
  "rr_inv cap sl len s \<longleftrightarrow> length (rr_mem s) = len \<and> rr_bounds cap s \<and> rr_holds s \<and>
     rr_disjoint (rr_hold s) \<and> rr_stored sl s \<and> rr_output s"

lemmas rr_parts = rr_bounds_def rr_holds_def rr_stored_def rr_output_def

section \<open>Every step keeps the invariant\<close>

lemma all_side: "(\<forall>d. P d) \<longleftrightarrow> P Producer \<and> P Consumer"
  by (metis side.exhaust)

lemma holds_pos_upd [simp]:
  "holds_pos (hold(t := h)) t' d j \<longleftrightarrow> (if t' = t then covers h d j else holds_pos hold t' d j)"
  by (simp add: holds_pos_def)

lemma holds_pos_same:
  assumes "covers h d = covers (hold t) d"
  shows "holds_pos (hold(t := h)) t' d = holds_pos hold t' d"
  using assms by (intro ext) (simp add: holds_pos_def)

lemma unwritten_upd: "unwritten (hold(t := h)) j \<longleftrightarrow> to_write h j \<or> (\<exists>t'. t' \<noteq> t \<and> to_write (hold t') j)"
  unfolding unwritten_def by (metis fun_upd_apply)

lemma unwritten_at:
  assumes "to_write h j = to_write (hold t) j"
  shows "unwritten (hold(t := h)) j = unwritten hold j"
  using assms unfolding unwritten_def by (metis fun_upd_apply)

lemma unwritten_same:
  assumes "to_write h = to_write (hold t)"
  shows "unwritten (hold(t := h)) = unwritten hold"
  using assms by (intro ext unwritten_at) simp

lemma to_write_covers: "to_write h j \<Longrightarrow> covers h Producer j"
  by (cases "(h, j)" rule: to_write.cases) auto

lemma rr_bounds_of:
  assumes "rr_inv cap sl len s"
  shows "rr_res s Producer = length (rr_log s)" and "rr_pub s d \<le> rr_res s d"
    and "rr_res s Producer \<le> rr_pub s Consumer + cap" and "rr_res s Consumer \<le> rr_pub s Producer"
  using assms by (auto simp: rr_inv_def rr_bounds_def all_side) (cases d; simp)

lemma rr_hold_of:
  assumes "rr_inv cap sl len s" and "rr_hold s t = Some h"
  shows "hold_ok (rr_log s) (rr_res s) (rr_pub s) h"
  using assms by (simp add: rr_inv_def rr_holds_def)

lemma covers_cases:
  obtains "h = None" | d g n i xs where "h = Some (Hold d g n i xs)"
  by (metis hold.exhaust option.exhaust)

text \<open>A reservation starts where the side ends, so it overlaps no other.\<close>

lemma holds_below:
  assumes "rr_inv cap sl len s" and "holds_pos (rr_hold s) t d j"
  shows "j < rr_res s d" and "rr_pub s d \<le> j"
  using assms(2) rr_hold_of[OF assms(1), of t] by (cases "rr_hold s t" rule: covers_cases; auto simp: holds_pos_def)+

lemma disjoint_fresh:
  assumes "rr_inv cap sl len s" and "h = Hold d (rr_res s d) n 0 xs"
  shows "rr_disjoint ((rr_hold s)(t \<mapsto> h))"
proof -
  have "rr_disjoint (rr_hold s)" using assms(1) by (simp add: rr_inv_def)
  moreover have "\<not> (holds_pos (rr_hold s) t' d j \<and> rr_res s d \<le> j)" for t' j
    using holds_below(1)[OF assms(1)] by (meson not_le)
  ultimately show ?thesis
    unfolding rr_disjoint_def assms(2) by (auto split: if_splits)
qed

text \<open>A step of a thread on its own positions keeps the shape of its hold.\<close>

lemma disjoint_same:
  assumes "rr_disjoint hold" and "hold t = Some (Hold d g n i xs)"
  shows "rr_disjoint (hold(t \<mapsto> Hold d g n i' xs'))"
proof -
  have "holds_pos (hold(t \<mapsto> Hold d g n i' xs')) t' = holds_pos hold t'" for t'
    using assms(2) by (intro ext, subst holds_pos_same) auto
  then show ?thesis using assms(1) by (simp add: rr_disjoint_def)
qed

lemma disjoint_drop: "rr_disjoint hold \<Longrightarrow> rr_disjoint (hold(t := None))"
  by (auto simp: rr_disjoint_def)

lemma rr_output_of:
  assumes "rr_inv cap sl len s"
  shows "rr_out s = map ((!) (rr_log s)) (rr_pos s)" and "distinct (rr_pos s)"
    and "j < rr_res s Consumer \<longleftrightarrow> j \<in> set (rr_pos s) \<or> (\<exists>t. holds_pos (rr_hold s) t Consumer j)"
    and "j \<in> set (rr_pos s) \<Longrightarrow> \<not> holds_pos (rr_hold s) t Consumer j"
  using assms unfolding rr_inv_def rr_output_def by blast+

lemma rr_res_log:
  assumes "rr_inv cap sl len s"
  shows "rr_res s d \<le> length (rr_log s)"
  using rr_bounds_of[OF assms] rr_bounds_of(2)[OF assms, of Producer] by (cases d) auto

lemma hold_ok_append:
  assumes "hold_ok log res pub h" and "\<And>d. res d \<le> length log" and "\<And>d. res d \<le> res' d"
  shows "hold_ok (log @ ys) res' pub h"
proof (cases h)
  case (Hold d g n i xs)
  then show ?thesis using assms(1) assms(2,3)[of d] by (cases d) auto
qed

lemma output_append:
  assumes inv: "rr_inv cap sl len s"
  shows "rr_out s = map ((!) (rr_log s @ ys)) (rr_pos s)"
proof -
  have "rr_out s = map ((!) (rr_log s)) (rr_pos s)" "\<forall>j \<in> set (rr_pos s). j < length (rr_log s)"
    using inv rr_res_log[OF inv, of Consumer] by (auto simp: rr_inv_def rr_output_def dest: less_le_trans)
  then show ?thesis by (auto simp: nth_append)
qed

lemma step_reserve_p:
  assumes inv: "rr_inv cap sl len s" and t: "rr_hold s t = None" and xs: "xs \<noteq> []"
    and room: "rr_res s Producer + length xs \<le> rr_pub s Consumer + cap"
  shows "rr_inv cap sl len (s\<lparr>rr_log := rr_log s @ xs, rr_res := (rr_res s)(Producer := rr_res s Producer + length xs),
      rr_hold := (rr_hold s)(t \<mapsto> Hold Producer (rr_res s Producer) (length xs) 0 xs)\<rparr>)" (is "rr_inv cap sl len ?s")
proof -
  note b = rr_bounds_of[OF inv]
  let ?hold = "(rr_hold s)(t \<mapsto> Hold Producer (rr_res s Producer) (length xs) 0 xs)"
  have cons: "holds_pos ?hold t' Consumer = holds_pos (rr_hold s) t' Consumer" for t'
    using t by (intro holds_pos_same ext) auto
  have "rr_bounds cap ?s" using b(1,4) b(2)[of Producer] b(2)[of Consumer] room by (auto simp: rr_bounds_def all_side)
  moreover have "rr_holds ?s"
    unfolding rr_holds_def
  proof (intro allI impI)
    fix t' h assume h: "rr_hold ?s t' = Some h"
    show "hold_ok (rr_log ?s) (rr_res ?s) (rr_pub ?s) h"
    proof (cases "t' = t")
      case True
      then show ?thesis using h b(1) b(2)[of Producer] xs by auto
    next
      case False
      then show ?thesis using h hold_ok_append[OF rr_hold_of[OF inv] rr_res_log[OF inv]] by simp
    qed
  qed
  moreover have "rr_stored sl ?s"
    unfolding rr_stored_def
  proof (intro allI impI)
    fix j assume j: "rr_pub ?s Consumer \<le> j" "j < rr_res ?s Producer" "\<not> unwritten (rr_hold ?s) j"
    then have "\<not> rr_res s Producer \<le> j" by (auto simp: unwritten_upd)
    moreover have "\<not> unwritten (rr_hold s) j"
      using j(3) t unfolding unwritten_def by (auto simp: unwritten_upd) (metis to_write.simps(2))
    ultimately show "rr_mem ?s ! sl j = rr_log ?s ! j"
      using inv j(1) b(1) by (simp add: rr_inv_def rr_stored_def nth_append)
  qed
  moreover have "rr_output ?s"
    using inv cons output_append[OF inv, of xs] by (simp add: rr_inv_def rr_output_def)
  ultimately show ?thesis
    using inv disjoint_fresh[OF inv refl, of t Producer "length xs" xs] by (simp add: rr_inv_def)
qed

lemma step_reserve_c:
  assumes inv: "rr_inv cap sl len s" and t: "rr_hold s t = None" and n: "0 < n"
    and room: "rr_res s Consumer + n \<le> rr_pub s Producer"
  shows "rr_inv cap sl len (s\<lparr>rr_res := (rr_res s)(Consumer := rr_res s Consumer + n),
      rr_hold := (rr_hold s)(t \<mapsto> Hold Consumer (rr_res s Consumer) n 0 [])\<rparr>)" (is "rr_inv cap sl len ?s")
proof -
  note b = rr_bounds_of[OF inv]
  let ?hold = "(rr_hold s)(t \<mapsto> Hold Consumer (rr_res s Consumer) n 0 [])"
  have prod: "unwritten ?hold = unwritten (rr_hold s)"
    using t by (intro unwritten_same ext) auto
  have cons: "holds_pos ?hold t' Consumer j \<longleftrightarrow> holds_pos (rr_hold s) t' Consumer j \<or>
      (t' = t \<and> rr_res s Consumer \<le> j \<and> j < rr_res s Consumer + n)" for t' j
    using t by (auto simp: holds_pos_def)
  have "rr_bounds cap ?s" using b(1,3) b(2)[of Producer] b(2)[of Consumer] room by (auto simp: rr_bounds_def all_side)
  moreover have "rr_holds ?s"
    unfolding rr_holds_def
  proof (intro allI impI)
    fix t' h assume h: "rr_hold ?s t' = Some h"
    show "hold_ok (rr_log ?s) (rr_res ?s) (rr_pub ?s) h"
    proof (cases "t' = t")
      case True
      then show ?thesis using h b(2)[of Consumer] n by auto
    next
      case False
      then show ?thesis
        using h hold_ok_append[OF rr_hold_of[OF inv] rr_res_log[OF inv], of t' h _ "[]"] by simp
    qed
  qed
  moreover have "rr_output ?s"
  proof -
    note out = rr_output_of[OF inv]
    have "j < rr_res s Consumer + n \<longleftrightarrow> j \<in> set (rr_pos s) \<or> (\<exists>t'. holds_pos ?hold t' Consumer j)" for j
      unfolding cons using out(3)[of j] by auto
    moreover have "\<not> holds_pos ?hold t' Consumer j" if "j \<in> set (rr_pos s)" for t' j
      unfolding cons using that out(3)[of j] out(4)[OF that] by auto
    ultimately show ?thesis using out(1,2) by (simp add: rr_output_def)
  qed
  ultimately show ?thesis
    using inv prod disjoint_fresh[OF inv refl, of t Consumer n "[]"] by (simp add: rr_inv_def rr_stored_def)
qed

lemma step_publish:
  assumes inv: "rr_inv cap sl len s" and t: "rr_hold s t = Some (Hold d g n n xs)"
    and p: "rr_pub s d \<le> p" "p \<le> rr_res s d"
    and others: "\<And>t' g' n' i' xs'. t' \<noteq> t \<Longrightarrow> rr_hold s t' = Some (Hold d g' n' i' xs') \<Longrightarrow> p \<le> g'"
  shows "rr_inv cap sl len (s\<lparr>rr_pub := (rr_pub s)(d := p), rr_hold := (rr_hold s)(t := None),
      rr_out := rr_out s @ handed_out d xs, rr_pos := rr_pos s @ handed_out d [g ..< g + n]\<rparr>)"
    (is "rr_inv cap sl len ?s")
proof -
  note b = rr_bounds_of[OF inv]
  have ok: "g + n \<le> rr_res s d" "xs = take n (drop g (rr_log s))" using rr_hold_of[OF inv t] by (auto split: side.splits)
  have "rr_bounds cap ?s"
    using b(1,3,4) b(2)[of Producer] b(2)[of Consumer] p by (cases d) (auto simp: rr_bounds_def all_side)
  moreover have "rr_holds ?s"
    unfolding rr_holds_def
  proof (intro allI impI)
    fix t' h assume h: "rr_hold ?s t' = Some h"
    then have t': "t' \<noteq> t" "rr_hold s t' = Some h" by (auto split: if_splits)
    obtain d' g' n' i' xs' where [simp]: "h = Hold d' g' n' i' xs'" by (cases h)
    show "hold_ok (rr_log ?s) (rr_res ?s) (rr_pub ?s) h"
      using rr_hold_of[OF inv t'(2)] others[OF t'(1)] t'(2) by auto
  qed
  moreover have "rr_stored sl ?s"
  proof -
    have "unwritten ((rr_hold s)(t := None)) = unwritten (rr_hold s)"
      using t by (intro unwritten_same ext) (cases d; auto)
    then show ?thesis using inv p by (auto simp: rr_inv_def rr_stored_def)
  qed
  moreover have "rr_output ?s"
  proof (cases d)
    case Producer
    then have "holds_pos ((rr_hold s)(t := None)) t' Consumer = holds_pos (rr_hold s) t' Consumer" for t'
      using t by (intro holds_pos_same ext) auto
    then show ?thesis using inv Producer by (simp add: rr_inv_def rr_output_def)
  next
    case Consumer
    have own: "holds_pos (rr_hold s) t Consumer j \<longleftrightarrow> g \<le> j \<and> j < g + n" for j
      using t Consumer by (auto simp: holds_pos_def)
    have xs: "xs = map ((!) (rr_log s)) [g ..< g + n]"
      using ok rr_res_log[OF inv, of d] by (intro nth_equalityI) auto
    have dis: "t' = t" if "holds_pos (rr_hold s) t Consumer j" "holds_pos (rr_hold s) t' Consumer j" for t' j
      using that inv unfolding rr_inv_def rr_disjoint_def by blast
    note out = rr_output_of[OF inv]
    have "distinct (rr_pos s @ [g ..< g + n])" using out(2) out(4)[of _ t] own by (auto simp: disjoint_iff)
    moreover have "j < rr_res s Consumer \<longleftrightarrow> j \<in> set (rr_pos s @ [g ..< g + n]) \<or>
        (\<exists>t'. holds_pos ((rr_hold s)(t := None)) t' Consumer j)" for j
      unfolding out(3) using own by auto metis+
    moreover have "\<not> holds_pos ((rr_hold s)(t := None)) t' Consumer j" if "j \<in> set (rr_pos s @ [g ..< g + n])" for j t'
      using that out(4)[of j t'] own[of j] dis[of j t'] by auto
    ultimately show ?thesis using Consumer out(1) xs by (simp add: rr_output_def del: upt_Suc)
  qed
  ultimately show ?thesis using inv disjoint_drop[of "rr_hold s" t] by (simp add: rr_inv_def)
qed

text \<open>
  The interface to the slots: \<open>sl\<close> maps a position to its slot, and positions less than the
  capacity apart have different slots.
\<close>

locale slotting =
  fixes ok :: "'c \<Rightarrow> bool" and sl :: "'c \<Rightarrow> nat \<Rightarrow> nat" and cap len :: "'c \<Rightarrow> nat"
  assumes sl_less: "ok c \<Longrightarrow> sl c j < len c"
    and sl_inj: "ok c \<Longrightarrow> i \<noteq> j \<Longrightarrow> lo \<le> i \<Longrightarrow> lo \<le> j \<Longrightarrow> i < lo + cap c \<Longrightarrow> j < lo + cap c \<Longrightarrow> sl c i \<noteq> sl c j"
begin

lemma step_store:
  assumes c: "ok c" and inv: "rr_inv (cap c) (sl c) (len c) s"
    and t: "rr_hold s t = Some (Hold Producer g n i xs)" and i: "i < n"
  shows "rr_inv (cap c) (sl c) (len c) (s\<lparr>rr_mem := (rr_mem s)[sl c (g + i) := xs ! i],
      rr_hold := (rr_hold s)(t \<mapsto> Hold Producer g n (i + 1) xs)\<rparr>)" (is "rr_inv _ _ _ ?s")
proof -
  note b = rr_bounds_of[OF inv]
  let ?hold = "(rr_hold s)(t \<mapsto> Hold Producer g n (i + 1) xs)"
  have h: "rr_pub s Producer \<le> g" "g + n \<le> rr_res s Producer" "xs = take n (drop g (rr_log s))"
    using rr_hold_of[OF inv t] by auto
  have len: "length (rr_mem s) = len c" using inv by (simp add: rr_inv_def)
  have cons: "holds_pos ?hold t' d = holds_pos (rr_hold s) t' d" for t' d
    using t by (intro holds_pos_same ext) auto
  have "rr_stored (sl c) ?s"
    unfolding rr_stored_def
  proof (intro allI impI)
    fix j assume j: "rr_pub ?s Consumer \<le> j" "j < rr_res ?s Producer" "\<not> unwritten (rr_hold ?s) j"
    show "rr_mem ?s ! sl c j = rr_log ?s ! j"
    proof (cases "j = g + i")
      case True
      then show ?thesis using h i sl_less[OF c] len b(1) by simp
    next
      case False
      then have "sl c j \<noteq> sl c (g + i)"
        using j b(2)[of Consumer] b(3,4) h i by (intro sl_inj[OF c, of _ _ "rr_pub s Consumer"]) auto
      moreover have "unwritten ?hold j = unwritten (rr_hold s) j"
        using False t by (intro unwritten_at) auto
      ultimately show ?thesis using inv j by (simp add: rr_inv_def rr_stored_def)
    qed
  qed
  moreover have "rr_holds ?s" using inv rr_hold_of[OF inv t] i by (simp add: rr_inv_def rr_holds_def)
  ultimately show ?thesis
    using inv cons disjoint_same[of "rr_hold s" t Producer g n i xs, OF _ t, of "i + 1" xs]
    by (simp add: rr_inv_def rr_bounds_def rr_output_def)
qed

lemma step_fetch:
  assumes c: "ok c" and inv: "rr_inv (cap c) (sl c) (len c) s"
    and t: "rr_hold s t = Some (Hold Consumer g n i xs)" and i: "i < n"
  shows "rr_inv (cap c) (sl c) (len c)
      (s\<lparr>rr_hold := (rr_hold s)(t \<mapsto> Hold Consumer g n (i + 1) (xs @ [rr_mem s ! sl c (g + i)]))\<rparr>)" (is "rr_inv _ _ _ ?s")
proof -
  note b = rr_bounds_of[OF inv]
  let ?h = "Hold Consumer g n (i + 1) (xs @ [rr_mem s ! sl c (g + i)])"
  let ?hold = "(rr_hold s)(t \<mapsto> ?h)"
  have h: "rr_pub s Consumer \<le> g" "g + n \<le> rr_res s Consumer" "xs = take i (drop g (rr_log s))"
    using rr_hold_of[OF inv t] by auto
  have cons: "holds_pos ?hold t' d = holds_pos (rr_hold s) t' d" for t' d
    using t by (intro holds_pos_same ext) auto
  have prod: "unwritten ?hold = unwritten (rr_hold s)"
    using t by (intro unwritten_same ext) auto
  have "\<not> unwritten (rr_hold s) (g + i)"
    using holds_below(2)[OF inv] b(4) h i unfolding unwritten_def holds_pos_def
    by (metis add_less_cancel_left leD less_le_trans to_write_covers)
  then have "rr_mem s ! sl c (g + i) = rr_log s ! (g + i)"
    using inv h i b(4) b(2)[of Producer] by (simp add: rr_inv_def rr_stored_def)
  moreover have "take (i + 1) (drop g (rr_log s)) = xs @ [rr_log s ! (g + i)]"
    using h i rr_res_log[OF inv, of Consumer] take_Suc_conv_app_nth[of i "drop g (rr_log s)"] by simp
  ultimately have "hold_ok (rr_log s) (rr_res s) (rr_pub s) ?h"
    using rr_hold_of[OF inv t] i by simp
  then have "rr_holds ?s" using inv by (simp add: rr_inv_def rr_holds_def)
  then show ?thesis
    using inv cons prod disjoint_same[of "rr_hold s" t Consumer g n i xs, OF _ t]
    by (simp add: rr_inv_def rr_bounds_def rr_output_def rr_stored_def)
qed

theorem rr_step_inv:
  assumes "rr_step (cap c) (sl c) s s'" and "ok c" and "rr_inv (cap c) (sl c) (len c) s"
  shows "rr_inv (cap c) (sl c) (len c) s'"
  using assms
proof (induction rule: rr_step.induct)
  case (reserve_p s t xs)
  then show ?case by (intro step_reserve_p) auto
next
  case (reserve_c s t n)
  then show ?case by (intro step_reserve_c) auto
next
  case (store s t g n i xs)
  then show ?case by (intro step_store) auto
next
  case (fetch s t g n i xs)
  then show ?case by (intro step_fetch) auto
next
  case (publish s t d g n xs p)
  then show ?case by (intro step_publish) auto
qed

lemma rr_steps_inv:
  assumes "(rr_step (cap c) (sl c))\<^sup>*\<^sup>* s s'" and "ok c" and "rr_inv (cap c) (sl c) (len c) s"
  shows "rr_inv (cap c) (sl c) (len c) s'"
  using assms by (induction rule: rtranclp_induct) (auto intro: rr_step_inv)

text \<open>No two threads work on one slot, whichever sides they are on.\<close>

lemma slots_exclusive:
  assumes c: "ok c" and inv: "rr_inv (cap c) (sl c) (len c) s"
    and i: "holds_pos (rr_hold s) t d i" and j: "holds_pos (rr_hold s) t' d' j" and "t \<noteq> t'"
  shows "sl c i \<noteq> sl c j"
proof -
  note b = rr_bounds_of[OF inv]
  have "i \<noteq> j"
  proof (cases "d = d'")
    case True
    then show ?thesis using inv i j \<open>t \<noteq> t'\<close> unfolding rr_inv_def rr_disjoint_def by blast
  next
    case False
    then show ?thesis
      using holds_below[OF inv i] holds_below[OF inv j] b(4) by (cases d; cases d') auto
  qed
  moreover have "rr_pub s Consumer \<le> i" "i < rr_pub s Consumer + cap c"
    using holds_below[OF inv i] b(2)[of Consumer] b(2)[of Producer] b(3,4) by (cases d; simp)+
  moreover have "rr_pub s Consumer \<le> j" "j < rr_pub s Consumer + cap c"
    using holds_below[OF inv j] b(2)[of Consumer] b(2)[of Producer] b(3,4) by (cases d'; simp)+
  ultimately show ?thesis by (intro sl_inj[OF c, of _ _ "rr_pub s Consumer"])
qed

end

text \<open>
  When no thread is at work, the elements handed out and those still in the ring are, together,
  exactly the elements enqueued.
\<close>

lemma rr_exactly_once:
  assumes inv: "rr_inv cap sl len s" and "\<And>t. rr_hold s t = None"
  shows "mset (rr_out s) = mset (take (rr_res s Consumer) (rr_log s))"
proof -
  have out: "rr_out s = map ((!) (rr_log s)) (rr_pos s)" "distinct (rr_pos s)"
    and pos: "j < rr_res s Consumer \<longleftrightarrow> j \<in> set (rr_pos s)" for j
    using inv assms(2) by (simp_all add: rr_inv_def rr_output_def holds_pos_def)
  have "set (rr_pos s) = set [0 ..< rr_res s Consumer]" unfolding set_eq_iff by (simp flip: pos)
  then have "mset (rr_pos s) = mset [0 ..< rr_res s Consumer]"
    using out(2) set_eq_iff_mset_eq_distinct distinct_upt by blast
  then have "mset (rr_out s) = mset (map ((!) (rr_log s)) [0 ..< rr_res s Consumer])"
    using out(1) by (simp only: mset_map)
  also have "map ((!) (rr_log s)) [0 ..< rr_res s Consumer] = take (rr_res s Consumer) (rr_log s)"
    using rr_res_log[OF inv, of Consumer] by (intro nth_equalityI) auto
  finally show ?thesis .
qed

end
