(* ===== verification/Ring_Positions.thy ===== *)
theory Ring_Positions
  imports Ring_Elem Ring_Reserve
begin

text \<open>
  The 32-bit indices of the ring as unbounded positions.  Position \<open>j\<close> has the index \<open>base + j\<close>
  modulo \<open>2^32\<close> and the slot that the mask leaves of the index.  Two positions closer than the capacity
  have different slots, which is the interface \<open>slotting\<close> of the ring of reservations.
\<close>

definition pos_word :: "u32 \<Rightarrow> nat \<Rightarrow> u32" where
  "pos_word base j = base + of_nat j"

definition slot :: "u32 \<Rightarrow> u32 \<Rightarrow> nat \<Rightarrow> nat" where
  "slot base msk j = unat (pos_word base j AND msk)"

text \<open>A ring's geometry: base index, capacity, mask, number of slots.\<close>

record geometry =
  geo_base :: u32
  geo_capacity :: u32
  geo_mask :: u32
  geo_slots :: nat

definition geo_ok :: "'z geometry_scheme \<Rightarrow> bool" where
  "geo_ok c \<longleftrightarrow> (\<exists>e < 32. geo_mask c = 2 ^ e - 1 \<and> geo_slots c = 2 ^ e \<and> unat (geo_capacity c) < 2 ^ e)"

definition geo_slot :: "'z geometry_scheme \<Rightarrow> nat \<Rightarrow> nat" where
  "geo_slot c = slot (geo_base c) (geo_mask c)"

lemma pos_word_eq:
  assumes "pos_word base a = pos_word base b" and "a \<le> b" and "b - a < 2 ^ 32"
  shows "a = b"
proof -
  have "of_nat (b - a) = (0 :: u32)" using assms(1,2) by (simp add: pos_word_def of_nat_diff)
  then have "unat (of_nat (b - a) :: u32) = 0" by (simp only: unat_0)
  then have "(b - a) mod 2 ^ 32 = 0" by (simp only: unat_of_nat) simp
  with assms(2,3) show ?thesis by simp
qed

lemma pos_word_inj:
  assumes "pos_word base a = pos_word base b" and "a < 2 ^ 32" and "b < 2 ^ 32"
  shows "a = b"
proof (cases "a \<le> b")
  case True
  then show ?thesis using pos_word_eq[OF assms(1)] le_less_trans[OF diff_le_self assms(3)] by blast
next
  case False
  then show ?thesis
    using pos_word_eq[OF assms(1)[symmetric]] le_less_trans[OF diff_le_self assms(2)] nat_le_linear by metis
qed

lemma pos_word_add: "pos_word base g + of_nat i = pos_word base (g + i)"
  by (simp add: pos_word_def)

lemma pos_word_add_word: "pos_word base g + n = pos_word base (g + unat n)"
  by (simp add: pos_word_def)

lemma pos_word_Suc: "pos_word base g + 1 = pos_word base (Suc g)"
  by (simp add: pos_word_def)

lemma pos_word_0 [simp]: "pos_word base 0 = base"
  by (simp add: pos_word_def)

lemma pos_word_diff:
  assumes "g \<le> j" and "j - g < 2 ^ 32"
  shows "unat (pos_word base j - pos_word base g) = j - g"
proof -
  have "pos_word base j - pos_word base g = of_nat (j - g)"
    using assms(1) by (simp only: pos_word_def of_nat_diff) simp
  with assms(2) show ?thesis by (simp only: unat_of_nat) simp
qed

lemma slot_mod:
  assumes "msk = 2 ^ e - 1" and "e < 32"
  shows "slot base msk j = (unat base + j) mod 2 ^ e"
proof -
  have "slot base msk j = unat (base + of_nat j) mod 2 ^ e"
    by (simp add: slot_def pos_word_def assms(1) unat_and_exp)
  also have "\<dots> = (unat base + unat (of_nat j :: u32)) mod 2 ^ e"
    using assms(2) by (simp add: unat_add_mod_exp)
  also have "\<dots> = (unat base + j) mod 2 ^ e"
  proof -
    have "(2::nat) ^ e dvd 2 ^ 32" using assms(2) by (intro le_imp_power_dvd) simp
    then have "unat (of_nat j :: u32) mod 2 ^ e = j mod 2 ^ e"
      by (simp add: unat_of_nat mod_mod_cancel)
    then show ?thesis by (metis mod_add_right_eq)
  qed
  finally show ?thesis .
qed

lemma mod_inj_window:
  fixes b :: nat
  assumes "(b + i) mod n = (b + j) mod n" and "i < j" and "j < i + n"
  shows False
proof -
  have "n dvd (b + j) - (b + i)" using assms(1) mod_eq_dvd_iff_nat[of "b + i" "b + j" n] assms(2) by simp
  then have "n dvd j - i" by simp
  moreover have "0 < j - i" "j - i < n" using assms(2,3) by linarith+
  ultimately show False using nat_dvd_not_less by blast
qed

interpretation ring_slots:
  slotting "geo_ok :: 'z geometry_scheme \<Rightarrow> bool" geo_slot "\<lambda>c. unat (geo_capacity c)" geo_slots
proof
  fix c :: "'z geometry_scheme" and j assume "geo_ok c"
  then show "geo_slot c j < geo_slots c" by (auto simp: geo_ok_def geo_slot_def slot_mod)
next
  fix c :: "'z geometry_scheme" and i j lo
  assume c: "geo_ok c" and ij: "i \<noteq> j" "lo \<le> i" "lo \<le> j" "i < lo + unat (geo_capacity c)" "j < lo + unat (geo_capacity c)"
  show "geo_slot c i \<noteq> geo_slot c j"
  proof
    assume eq: "geo_slot c i = geo_slot c j"
    obtain e where e: "e < 32" "geo_mask c = 2 ^ e - 1" "unat (geo_capacity c) < 2 ^ e"
      using c by (auto simp: geo_ok_def)
    have "(unat (geo_base c) + i) mod 2 ^ e = (unat (geo_base c) + j) mod 2 ^ e"
      using eq slot_mod[OF e(2,1)] by (simp add: geo_slot_def)
    with ij e show False
      using mod_inj_window[of "unat (geo_base c)" i "2 ^ e" j] mod_inj_window[of "unat (geo_base c)" j "2 ^ e" i]
      by (cases "i < j") auto
  qed
qed

end
