(* ===== verification/Ring_Threads.thy ===== *)
theory Ring_Threads
  imports Ring_Positions
begin

text \<open>
  Interleavings of any number of producers and consumers on one ring, each side in any of its
  synchronisation modes (\<^verbatim>\<open>rte_ring_generic_pvt.h\<close>, \<^verbatim>\<open>rte_ring_hts_elem_pvt.h\<close>,
  \<^verbatim>\<open>rte_ring_rts_elem_pvt.h\<close>, \<^verbatim>\<open>rte_ring_elem_pvt.h\<close>).

  The shared memory accesses of the enqueue and dequeue functions are the atomic steps: load the head
  (in the HTS and RTS modes wait as their \<open>head_wait\<close> does), load the opposite tail and compute \<open>n\<close>,
  move the head by a compare-and-set, copy one element at a time, update the tail.  A wait that does
  not end leaves the state as it is.  Memory is sequentially consistent, which is what the barriers of
  the source are for, and the compare-and-set is one step, as its documentation says (the assembly of
  \<open>rte_atomic32_cmpset\<close> lacks the lock prefix, see \<open>Rte_Atomic\<close>).  A single mode side (ST) has one thread, as its
  documentation demands.

  A slot holds one element.  The fields from \<open>rt_log\<close> on and the numbers of type \<open>nat\<close> in a program
  counter other than the copy index are ghosts, on which no step depends: the elements reserved by producers so
  far, in the order in which the head moved; the unbounded positions behind the indices and the
  counters; the elements handed out and their positions, in the order in which consumers end.
\<close>

section \<open>States\<close>

record 'a call =
  cl_side :: side
  cl_tab :: "'a list"
  cl_num :: u32
  cl_beh :: rte_ring_queue_behavior

text \<open>
  A pair of words is a loaded head cell (head and tail in HTS mode, count and position in RTS mode) or tail cell.  After
  \<open>Cas\<close> the thread has reserved \<open>n\<close> positions from \<open>g\<close> on.
\<close>

datatype 'a pc =
    Idle
  | Load "'a call"
  | Wait "'a call" "u32 \<times> u32" nat
  | Check "'a call" "u32 \<times> u32" nat
  | Cas "'a call" u32 "u32 \<times> u32" nat
  | Copy "'a call" u32 u32 nat nat
  | Tail "'a call" u32 u32 nat
  | TailHead "'a call" u32 nat "u32 \<times> u32" nat
  | TailCas "'a call" u32 nat "u32 \<times> u32" nat "u32 \<times> u32" nat nat

record 'a rt =
  rt_ht :: "side \<Rightarrow> rte_ring_headtail"
  rt_mem :: "'a list"
  rt_pc :: "nat \<Rightarrow> 'a pc"
  rt_log :: "'a list"
  rt_res :: "side \<Rightarrow> nat"
  rt_pub :: "side \<Rightarrow> nat"
  rt_begun :: "side \<Rightarrow> nat"
  rt_ended :: "side \<Rightarrow> nat"
  rt_out :: "'a list"
  rt_pos :: "nat list"

text \<open>
  The fixed parts of a ring: its geometry, whose base index is a ghost, the counters of the RTS mode at the
  start, a ghost too, and the thread of a single mode side.
\<close>

record rt_conf = geometry +
  cf_count :: "side \<Rightarrow> u32"
  cf_sole :: "side \<Rightarrow> nat"

datatype 'a action = Begin nat "'a call" | Go nat

section \<open>Steps\<close>

abbreviation is_rts :: "rte_ring_headtail \<Rightarrow> bool" where
  "is_rts ht \<equiv> ht_sync_type ht = RTE_RING_SYNC_MT_RTS"

abbreviation is_hts :: "rte_ring_headtail \<Rightarrow> bool" where
  "is_hts ht \<equiv> ht_sync_type ht = RTE_RING_SYNC_MT_HTS"

abbreviation is_st :: "rte_ring_headtail \<Rightarrow> bool" where
  "is_st ht \<equiv> ht_sync_type ht = RTE_RING_SYNC_ST"

text \<open>The cell that the head loads read, and the position in it.\<close>

definition head_cell :: "rte_ring_headtail \<Rightarrow> u32 \<times> u32" where
  "head_cell ht = (if is_rts ht then (ht_rts_cnt ht, ht_rts_pos ht) else (ht_head ht, ht_tail ht))"

definition cell_pos :: "rte_ring_headtail \<Rightarrow> u32 \<times> u32 \<Rightarrow> u32" where
  "cell_pos ht p = (if is_rts ht then snd p else fst p)"

text \<open>One round of \<open>__rte_ring_hts_head_wait\<close> and \<open>__rte_ring_rts_head_wait\<close>: must the thread reload?\<close>

definition head_wait :: "rte_ring_headtail \<Rightarrow> u32 \<times> u32 \<Rightarrow> bool" where
  "head_wait ht p =
     (case ht_sync_type ht of
        RTE_RING_SYNC_MT_HTS \<Rightarrow> fst p \<noteq> snd p
      | RTE_RING_SYNC_MT_RTS \<Rightarrow> snd p - ht_tail ht > ht_htd_max ht
      | _ \<Rightarrow> False)"

fun avail_entries :: "rt_conf \<Rightarrow> (side \<Rightarrow> rte_ring_headtail) \<Rightarrow> side \<Rightarrow> u32 \<Rightarrow> u32" where
  "avail_entries cf hts Producer old = geo_capacity cf + ht_tail (hts Consumer) - old"
| "avail_entries cf hts Consumer old = ht_tail (hts Producer) - old"

text \<open>The attempt to move the head by \<open>n\<close>.\<close>

definition head_move :: "rte_ring_headtail \<Rightarrow> u32 \<times> u32 \<Rightarrow> u32 \<Rightarrow> bool \<times> rte_ring_headtail" where
  "head_move ht oh n =
     (case ht_sync_type ht of
        RTE_RING_SYNC_ST \<Rightarrow> (True, ht\<lparr>ht_head := fst oh + n\<rparr>)
      | RTE_RING_SYNC_MT \<Rightarrow>
          (let (success, h) = rte_atomic32_cmpset (ht_head ht) (fst oh) (fst oh + n)
           in (success, ht\<lparr>ht_head := h\<rparr>))
      | RTE_RING_SYNC_MT_HTS \<Rightarrow>
          (let (success, cell, op) = atomic_compare_exchange (ht_head ht, ht_tail ht) oh (fst oh + n, snd oh)
           in (success, ht\<lparr>ht_head := fst cell, ht_tail := snd cell\<rparr>))
      | RTE_RING_SYNC_MT_RTS \<Rightarrow>
          (let (success, cell, op) = atomic_compare_exchange (ht_rts_cnt ht, ht_rts_pos ht) oh (fst oh + 1, snd oh + n)
           in (success, ht\<lparr>ht_rts_cnt := fst cell, ht_rts_pos := snd cell\<rparr>)))"

definition upd_pc :: "nat \<Rightarrow> 'a pc \<Rightarrow> 'a rt \<Rightarrow> 'a rt" where
  "upd_pc t p s = s\<lparr>rt_pc := (rt_pc s)(t := p)\<rparr>"

definition upd_ht :: "side \<Rightarrow> rte_ring_headtail \<Rightarrow> 'a rt \<Rightarrow> 'a rt" where
  "upd_ht d ht s = s\<lparr>rt_ht := (rt_ht s)(d := ht)\<rparr>"

text \<open>The head has moved: the ghosts of a reservation.\<close>

definition reserved :: "'a call \<Rightarrow> u32 \<Rightarrow> 'a rt \<Rightarrow> 'a rt" where
  "reserved c n s =
     (let d = cl_side c in
      s\<lparr>rt_log := rt_log s @ (case d of Producer \<Rightarrow> take (unat n) (cl_tab c) | Consumer \<Rightarrow> []),
        rt_res := (rt_res s)(d := rt_res s d + unat n), rt_begun := (rt_begun s)(d := rt_begun s d + 1)\<rparr>)"

text \<open>The tail update of thread \<open>t\<close> is done and the call returns: the ghosts, with the tail at position \<open>p\<close>.\<close>

definition return_call :: "nat \<Rightarrow> 'a call \<Rightarrow> u32 \<Rightarrow> nat \<Rightarrow> nat \<Rightarrow> 'a rt \<Rightarrow> 'a rt" where
  "return_call t c n g p s =
     (let d = cl_side c in
      upd_pc t Idle (s\<lparr>rt_pub := (rt_pub s)(d := p), rt_ended := (rt_ended s)(d := rt_ended s d + 1),
        rt_out := rt_out s @ handed_out d (cl_tab c), rt_pos := rt_pos s @ handed_out d [g ..< g + unat n]\<rparr>))"

definition copy_step :: "rt_conf \<Rightarrow> nat \<Rightarrow> 'a call \<Rightarrow> u32 \<Rightarrow> u32 \<Rightarrow> nat \<Rightarrow> nat \<Rightarrow> 'a rt \<Rightarrow> 'a rt" where
  "copy_step cf t c n head i g s =
     (let idx = unat ((head + of_nat i) AND geo_mask cf) in
      case cl_side c of
        Producer \<Rightarrow> upd_pc t (Copy c n head (i + 1) g) (s\<lparr>rt_mem := (rt_mem s)[idx := cl_tab c ! i]\<rparr>)
      | Consumer \<Rightarrow> upd_pc t (Copy (c\<lparr>cl_tab := cl_tab c @ [rt_mem s ! idx]\<rparr>) n head (i + 1) g) s)"

text \<open>The step of \<open>update_tail\<close>; in RTS mode it is the first load of its loop.\<close>

definition tail_step :: "nat \<Rightarrow> 'a call \<Rightarrow> u32 \<Rightarrow> u32 \<Rightarrow> nat \<Rightarrow> 'a rt \<Rightarrow> 'a rt" where
  "tail_step t c n head g s =
     (let d = cl_side c; ht = rt_ht s d in
      case ht_sync_type ht of
        RTE_RING_SYNC_MT_RTS \<Rightarrow> upd_pc t (TailHead c n g (ht_head ht, ht_tail ht) (rt_ended s d)) s
      | RTE_RING_SYNC_MT_HTS \<Rightarrow> return_call t c n g (g + unat n) (upd_ht d (hts_update_tail ht head n) s)
      | _ \<Rightarrow> (case update_tail ht head (head + n) (is_st ht) of
                Inl _ \<Rightarrow> s
              | Inr ht' \<Rightarrow> return_call t c n g (g + unat n) (upd_ht d ht' s)))"

definition tail_cas_step ::
  "nat \<Rightarrow> 'a call \<Rightarrow> u32 \<Rightarrow> nat \<Rightarrow> u32 \<times> u32 \<Rightarrow> nat \<Rightarrow> u32 \<times> u32 \<Rightarrow> nat \<Rightarrow> nat \<Rightarrow> 'a rt \<Rightarrow> 'a rt"
where
  "tail_cas_step t c n g ot k h hk hg s =
     (let d = cl_side c; ht = rt_ht s d;
          nt = (fst ot + 1, if fst ot + 1 = fst h then snd h else snd ot);
          (success, cell, ot') = atomic_compare_exchange (ht_head ht, ht_tail ht) ot nt
      in if success
         then return_call t c n g (if fst ot + 1 = fst h then hg else rt_pub s d)
                (upd_ht d (ht\<lparr>ht_head := fst cell, ht_tail := snd cell\<rparr>) s)
         else upd_pc t (TailHead c n g ot' (rt_ended s d)) s)"

definition rt_go :: "rt_conf \<Rightarrow> nat \<Rightarrow> 'a rt \<Rightarrow> 'a rt" where
  "rt_go cf t s =
     (case rt_pc s t of
        Idle \<Rightarrow> s
      | Load c \<Rightarrow>
          (let d = cl_side c; ht = rt_ht s d; oh = head_cell ht in
           upd_pc t (if is_rts ht \<or> is_hts ht then Wait c oh (rt_res s d) else Check c oh (rt_res s d)) s)
      | Wait c oh g \<Rightarrow> upd_pc t (if head_wait (rt_ht s (cl_side c)) oh then Load c else Check c oh g) s
      | Check c oh g \<Rightarrow>
          (let d = cl_side c; avail = avail_entries cf (rt_ht s) d (cell_pos (rt_ht s d) oh);
               n = ring_limit (cl_beh c) (cl_num c) avail
           in upd_pc t (if n = 0 then Idle else Cas c n oh g) s)
      | Cas c n oh g \<Rightarrow>
          (let d = cl_side c; ht = rt_ht s d; (success, ht') = head_move ht oh n in
           if success then upd_pc t (Copy c n (cell_pos ht oh) 0 g) (reserved c n (upd_ht d ht' s))
           else upd_pc t (if is_rts ht \<or> is_hts ht then Wait c (head_cell ht) (rt_res s d) else Load c) s)
      | Copy c n head i g \<Rightarrow>
          (if i < unat n then copy_step cf t c n head i g s else upd_pc t (Tail c n head g) s)
      | Tail c n head g \<Rightarrow> tail_step t c n head g s
      | TailHead c n g ot k \<Rightarrow>
          (let d = cl_side c in
           upd_pc t (TailCas c n g ot k (head_cell (rt_ht s d)) (rt_begun s d) (rt_res s d)) s)
      | TailCas c n g ot k h hk hg \<Rightarrow> tail_cas_step t c n g ot k h hk hg s)"

text \<open>A caller passes a table with at least \<open>num\<close> elements to enqueue; a dequeue's table fills from empty.\<close>

fun call_ok :: "'a call \<Rightarrow> bool" where
  "call_ok c \<longleftrightarrow> (case cl_side c of Producer \<Rightarrow> unat (cl_num c) \<le> length (cl_tab c) | Consumer \<Rightarrow> cl_tab c = [])"

fun rt_act :: "rt_conf \<Rightarrow> 'a action \<Rightarrow> 'a rt \<Rightarrow> 'a rt" where
  "rt_act cf (Begin t c) s =
     (if rt_pc s t = Idle \<and> call_ok c \<and> (is_st (rt_ht s (cl_side c)) \<longrightarrow> t = cf_sole cf (cl_side c))
      then upd_pc t (Load c) s else s)"
| "rt_act cf (Go t) s = rt_go cf t s"

fun rt_run :: "rt_conf \<Rightarrow> 'a action list \<Rightarrow> 'a rt \<Rightarrow> 'a rt" where
  "rt_run cf [] s = s"
| "rt_run cf (a # acts) s = rt_run cf acts (rt_act cf a s)"

text \<open>A ring at rest, with its contents: positions count from the consumer tail.\<close>

fun ring_side :: "rte_ring \<Rightarrow> side \<Rightarrow> rte_ring_headtail" where
  "ring_side r Producer = r_prod r"
| "ring_side r Consumer = r_cons r"

definition ring_conf :: "rte_ring \<Rightarrow> (side \<Rightarrow> nat) \<Rightarrow> rt_conf" where
  "ring_conf r sole = \<lparr>geo_base = ht_tail (r_cons r), geo_capacity = r_capacity r, geo_mask = r_mask r,
     geo_slots = unat (r_size r), cf_count = (\<lambda>d. ht_head (ring_side r d)), cf_sole = sole\<rparr>"

definition rt_start :: "rte_ring \<Rightarrow> 'a list \<Rightarrow> 'a rt" where
  "rt_start r mem =
     (let used = unat (ring_used r); pos = (\<lambda>d. case d of Producer \<Rightarrow> used | Consumer \<Rightarrow> 0)
      in \<lparr>rt_ht = ring_side r, rt_mem = mem, rt_pc = (\<lambda>_. Idle),
          rt_log = map (\<lambda>j. mem ! slot (ht_tail (r_cons r)) (r_mask r) j) [0 ..< used],
          rt_res = pos, rt_pub = pos, rt_begun = (\<lambda>_. 0), rt_ended = (\<lambda>_. 0), rt_out = [], rt_pos = []\<rparr>)"

end
