(* ===== verification/Ring_Threads_Inv.thy ===== *)
theory Ring_Threads_Inv
  imports Ring_Threads
begin

text \<open>
  The invariant of the interleavings of \<open>Ring_Threads\<close>.  It has two parts: what is copied where is the
  invariant of the ring of reservations, for the abstraction \<open>rt_abs\<close>; the words of heads, tails and
  counters stand for the positions, which is stated on the \<open>view\<close> of a state.  The last two sections show
  what a reservation and the end of a call do to the second part, in every mode.
\<close>

section \<open>Abstraction to reservations\<close>

definition hold_at :: "'a call \<Rightarrow> nat \<Rightarrow> u32 \<Rightarrow> nat \<Rightarrow> 'a hold" where
  "hold_at c g n i = Hold (cl_side c) g (unat n) i
     (case cl_side c of Producer \<Rightarrow> take (unat n) (cl_tab c) | Consumer \<Rightarrow> cl_tab c)"

fun hold_of :: "'a pc \<Rightarrow> 'a hold option" where
  "hold_of (Copy c n head i g) = Some (hold_at c g n i)"
| "hold_of (Tail c n head g) = Some (hold_at c g n (unat n))"
| "hold_of (TailHead c n g ot k) = Some (hold_at c g n (unat n))"
| "hold_of (TailCas c n g ot k h hk hg) = Some (hold_at c g n (unat n))"
| "hold_of _ = None"

definition rt_abs :: "'a rt \<Rightarrow> 'a rr" where
  "rt_abs s = \<lparr>rr_log = rt_log s, rr_res = rt_res s, rr_pub = rt_pub s, rr_mem = rt_mem s,
     rr_hold = (\<lambda>t. hold_of (rt_pc s t)), rr_out = rt_out s, rr_pos = rt_pos s\<rparr>"

section \<open>Invariant\<close>

text \<open>What the conditions on indices and counters depend on: the positions held, but not what is copied.\<close>

record rt_view =
  v_ht :: "side \<Rightarrow> rte_ring_headtail"
  v_res :: "side \<Rightarrow> nat"
  v_pub :: "side \<Rightarrow> nat"
  v_begun :: "side \<Rightarrow> nat"
  v_ended :: "side \<Rightarrow> nat"
  v_iv :: "nat \<Rightarrow> (side \<times> nat \<times> nat) option"

fun hold_iv :: "'a hold option \<Rightarrow> (side \<times> nat \<times> nat) option" where
  "hold_iv None = None"
| "hold_iv (Some (Hold d g n i xs)) = Some (d, g, n)"

definition view :: "'a rt \<Rightarrow> rt_view" where
  "view s = \<lparr>v_ht = rt_ht s, v_res = rt_res s, v_pub = rt_pub s, v_begun = rt_begun s, v_ended = rt_ended s,
     v_iv = (\<lambda>t. hold_iv (hold_of (rt_pc s t)))\<rparr>"

definition active :: "rt_view \<Rightarrow> side \<Rightarrow> nat set" where
  "active v d = {t. \<exists>g n. v_iv v t = Some (d, g, n)}"

abbreviation pos_at :: "rt_conf \<Rightarrow> nat \<Rightarrow> u32" where
  "pos_at cf \<equiv> pos_word (geo_base cf)"

abbreviation count_at :: "rt_conf \<Rightarrow> side \<Rightarrow> nat \<Rightarrow> u32" where
  "count_at cf d \<equiv> pos_word (cf_count cf d)"

text \<open>The head and tail words stand for the positions.\<close>

definition words_ok :: "rt_conf \<Rightarrow> rt_view \<Rightarrow> side \<Rightarrow> bool" where
  "words_ok cf v d \<longleftrightarrow>
     ht_tail (v_ht v d) = pos_at cf (v_pub v d) \<and> cell_pos (v_ht v d) (head_cell (v_ht v d)) = pos_at cf (v_res v d) \<and>
     (is_rts (v_ht v d) \<longrightarrow> ht_rts_cnt (v_ht v d) = count_at cf d (v_begun v d) \<and> ht_head (v_ht v d) = count_at cf d (v_ended v d))"

text \<open>The calls that have begun and not ended are those of the threads at work.\<close>

definition counts_ok :: "rt_view \<Rightarrow> side \<Rightarrow> bool" where
  "counts_ok v d \<longleftrightarrow> finite (active v d) \<and> v_begun v d = v_ended v d + card (active v d) \<and> v_begun v d \<le> v_res v d"

text \<open>
  What each mode adds: in RTS mode everything is published when no call is at work; in the other modes
  what is not published is held; in the ST and HTS modes one thread holds all of it.
\<close>

definition mode_ok :: "rt_conf \<Rightarrow> rt_view \<Rightarrow> side \<Rightarrow> bool" where
  "mode_ok cf v d \<longleftrightarrow>
     (is_rts (v_ht v d) \<longrightarrow> v_begun v d = v_ended v d \<longrightarrow> v_pub v d = v_res v d) \<and>
     (\<not> is_rts (v_ht v d) \<longrightarrow> (\<forall>j. v_pub v d \<le> j \<longrightarrow> j < v_res v d \<longrightarrow>
        (\<exists>t g n. v_iv v t = Some (d, g, n) \<and> g \<le> j \<and> j < g + n))) \<and>
     (is_st (v_ht v d) \<or> is_hts (v_ht v d) \<longrightarrow> (\<forall>t g n. v_iv v t = Some (d, g, n) \<longrightarrow> g = v_pub v d \<and> g + n = v_res v d)) \<and>
     (is_st (v_ht v d) \<longrightarrow> (\<forall>t \<in> active v d. t = cf_sole cf d))"

definition side_ok :: "rt_conf \<Rightarrow> rt_view \<Rightarrow> side \<Rightarrow> bool" where
  "side_ok cf v d \<longleftrightarrow> words_ok cf v d \<and> counts_ok v d \<and> mode_ok cf v d"

definition user_ok :: "rt_conf \<Rightarrow> rt_view \<Rightarrow> nat \<Rightarrow> side \<Rightarrow> bool" where
  "user_ok cf v t d \<longleftrightarrow> (is_st (v_ht v d) \<longrightarrow> t = cf_sole cf d)"

definition loaded :: "rt_conf \<Rightarrow> rt_view \<Rightarrow> side \<Rightarrow> u32 \<times> u32 \<Rightarrow> nat \<Rightarrow> bool" where
  "loaded cf v d oh g \<longleftrightarrow> cell_pos (v_ht v d) oh = pos_at cf g \<and> g \<le> v_res v d \<and> (is_st (v_ht v d) \<longrightarrow> g = v_res v d)"

text \<open>No other thread of the side holds a position below \<open>p\<close>.\<close>

definition clear_below :: "rt_view \<Rightarrow> side \<Rightarrow> nat \<Rightarrow> nat \<Rightarrow> bool" where
  "clear_below v d t p \<longleftrightarrow> (\<forall>t' g n. t' \<noteq> t \<longrightarrow> v_iv v t' = Some (d, g, n) \<longrightarrow> p \<le> g)"

fun pc_ok :: "rt_conf \<Rightarrow> rt_view \<Rightarrow> nat \<Rightarrow> 'a pc \<Rightarrow> bool" where
  "pc_ok cf v t Idle \<longleftrightarrow> True"
| "pc_ok cf v t (Load c) \<longleftrightarrow> call_ok c \<and> user_ok cf v t (cl_side c)"
| "pc_ok cf v t (Wait c oh g) \<longleftrightarrow> call_ok c \<and> user_ok cf v t (cl_side c) \<and> loaded cf v (cl_side c) oh g"
| "pc_ok cf v t (Check c oh g) \<longleftrightarrow> call_ok c \<and> user_ok cf v t (cl_side c) \<and> loaded cf v (cl_side c) oh g \<and>
     (is_hts (v_ht v (cl_side c)) \<longrightarrow> fst oh = snd oh)"
| "pc_ok cf v t (Cas c n oh g) \<longleftrightarrow> call_ok c \<and> user_ok cf v t (cl_side c) \<and> loaded cf v (cl_side c) oh g \<and>
     (is_hts (v_ht v (cl_side c)) \<longrightarrow> fst oh = snd oh) \<and> n \<noteq> 0 \<and> n \<le> cl_num c \<and>
     g + unat n \<le> rr_bound (unat (geo_capacity cf)) (v_pub v) (cl_side c)"
| "pc_ok cf v t (Copy c n head i g) \<longleftrightarrow> head = pos_at cf g"
| "pc_ok cf v t (Tail c n head g) \<longleftrightarrow> head = pos_at cf g"
| "pc_ok cf v t (TailHead c n g ot k) \<longleftrightarrow> (let d = cl_side c in
     is_rts (v_ht v d) \<and> fst ot = count_at cf d k \<and> k \<le> v_ended v d)"
| "pc_ok cf v t (TailCas c n g ot k h hk hg) \<longleftrightarrow> (let d = cl_side c in
     is_rts (v_ht v d) \<and> fst ot = count_at cf d k \<and> k \<le> v_ended v d \<and>
     fst h = count_at cf d hk \<and> snd h = pos_at cf hg \<and> hk \<le> v_begun v d \<and> hg \<le> v_res v d \<and>
     (hk = v_begun v d \<longrightarrow> hg = v_res v d) \<and>
     (k = v_ended v d \<longrightarrow> k < hk \<and> (hk = k + 1 \<longrightarrow> v_pub v d \<le> hg \<and> clear_below v d t hg)))"

definition rt_inv :: "rt_conf \<Rightarrow> 'a rt \<Rightarrow> bool" where
  "rt_inv cf s \<longleftrightarrow> rr_inv (unat (geo_capacity cf)) (geo_slot cf) (geo_slots cf) (rt_abs s) \<and>
     (\<forall>d. side_ok cf (view s) d) \<and> (\<forall>t. pc_ok cf (view s) t (rt_pc s t)) \<and>
     (\<not> is_rts (rt_ht s Consumer) \<longrightarrow> rt_pos s = [0 ..< rt_pub s Consumer])"

definition rt_window :: "rt_conf \<Rightarrow> 'a rt \<Rightarrow> bool" where
  "rt_window cf s \<longleftrightarrow> length (rt_log s) + unat (geo_capacity cf) < 2 ^ 32"

section \<open>Facts of the invariant\<close>

lemma view_upd_pc:
  "view (upd_pc t p s) = (view s)\<lparr>v_iv := (v_iv (view s))(t := hold_iv (hold_of p))\<rparr>"
  by (auto simp: view_def upd_pc_def fun_eq_iff)

lemma abs_upd_pc: "rt_abs (upd_pc t p s) = (rt_abs s)\<lparr>rr_hold := (rr_hold (rt_abs s))(t := hold_of p)\<rparr>"
  by (auto simp: rt_abs_def upd_pc_def fun_eq_iff)

lemma rt_upd [simp]:
  "rt_pc (upd_pc t p s) = (rt_pc s)(t := p)" "rt_ht (upd_pc t p s) = rt_ht s" "rt_pos (upd_pc t p s) = rt_pos s"
  "rt_pub (upd_pc t p s) = rt_pub s" "rt_log (upd_pc t p s) = rt_log s" "rt_pc (upd_ht d ht s) = rt_pc s"
  "rt_log (upd_ht d ht s) = rt_log s"
  by (simp_all add: upd_pc_def upd_ht_def)

lemma iv_Some: "hold_iv h = Some (d, g, n) \<longleftrightarrow> (\<exists>i xs. h = Some (Hold d g n i xs))"
  by (cases h rule: hold_iv.cases) auto

lemma iv_cong: "hold_iv h = hold_iv h' \<Longrightarrow> covers h = covers h'"
  by (cases h rule: hold_iv.cases; cases h' rule: hold_iv.cases) (auto simp: fun_eq_iff)

lemma iv_hold_at [simp]: "hold_iv (Some (hold_at c g n i)) = Some (cl_side c, g, unat n)"
  by (simp add: hold_at_def)

lemma inv_parts:
  assumes "rt_inv cf s"
  shows "rr_inv (unat (geo_capacity cf)) (geo_slot cf) (geo_slots cf) (rt_abs s)"
    and "side_ok cf (view s) d" and "pc_ok cf (view s) t (rt_pc s t)"
    and "\<not> is_rts (rt_ht s Consumer) \<Longrightarrow> rt_pos s = [0 ..< rt_pub s Consumer]"
  using assms by (auto simp: rt_inv_def)

text \<open>The bounds of the positions, and the window in which no index repeats.\<close>

lemma inv_positions:
  assumes "rt_inv cf s" and "rt_window cf s"
  shows "v_pub (view s) d \<le> v_res (view s) d"
    and "v_res (view s) d \<le> rr_bound (unat (geo_capacity cf)) (v_pub (view s)) d"
    and "v_res (view s) d < 2 ^ 32" and "v_begun (view s) d < 2 ^ 32" and "v_ended (view s) d \<le> v_begun (view s) d"
    and "rr_bound (unat (geo_capacity cf)) (v_pub (view s)) d < 2 ^ 32"
proof -
  note inv = inv_parts(1)[OF assms(1)]
  note b = rr_bounds_of[OF inv, unfolded rt_abs_def, simplified] and l = rr_res_log[OF inv, unfolded rt_abs_def, simplified]
  have c: "counts_ok (view s) d" using inv_parts(2)[OF assms(1), of d] by (simp add: side_ok_def)
  show "v_pub (view s) d \<le> v_res (view s) d" using b(2) by (simp add: view_def)
  show "v_res (view s) d \<le> rr_bound (unat (geo_capacity cf)) (v_pub (view s)) d"
    using b(3,4) by (cases d) (simp_all add: view_def)
  show r: "v_res (view s) d < 2 ^ 32" using l[of d] assms(2) by (simp add: view_def rt_window_def)
  show "v_begun (view s) d < 2 ^ 32" "v_ended (view s) d \<le> v_begun (view s) d"
    using c r by (simp_all add: counts_ok_def)
  show "rr_bound (unat (geo_capacity cf)) (v_pub (view s)) d < 2 ^ 32"
    using l[of Consumer] l[of Producer] b(2)[of Consumer] b(2)[of Producer] assms(2)
    by (cases d) (simp_all add: view_def rt_window_def)
qed

lemma inv_iv:
  assumes "rt_inv cf s" and "v_iv (view s) t = Some (d, g, n)"
  shows "v_pub (view s) d \<le> g" and "g + n \<le> v_res (view s) d" and "0 < n"
proof -
  obtain i xs where "hold_of (rt_pc s t) = Some (Hold d g n i xs)"
    using assms(2) by (auto simp: view_def iv_Some)
  then have "hold_ok (rt_log s) (rt_res s) (rt_pub s) (Hold d g n i xs)"
    using rr_hold_of[OF inv_parts(1)[OF assms(1)], of t] by (simp add: rt_abs_def)
  then show "v_pub (view s) d \<le> g" "g + n \<le> v_res (view s) d" "0 < n" by (simp_all add: view_def)
qed

lemma inv_iv_disjoint:
  assumes "rt_inv cf s" and "v_iv (view s) t = Some (d, g, n)" and "v_iv (view s) t' = Some (d, g', n')" and "t \<noteq> t'"
  shows "g + n \<le> g' \<or> g' + n' \<le> g"
proof (rule ccontr)
  assume "\<not> (g + n \<le> g' \<or> g' + n' \<le> g)"
  then have "covers (hold_of (rt_pc s t)) d (max g g')" "covers (hold_of (rt_pc s t')) d (max g g')"
    using assms(2,3) inv_iv(3)[OF assms(1,2)] inv_iv(3)[OF assms(1,3)] by (auto simp: view_def iv_Some)
  moreover have "rr_disjoint (rr_hold (rt_abs s))" using inv_parts(1)[OF assms(1)] by (simp add: rr_inv_def)
  ultimately show False using \<open>t \<noteq> t'\<close> unfolding rr_disjoint_def holds_pos_def by (auto simp: rt_abs_def)
qed

text \<open>A step that changes neither indices nor what is held.\<close>

lemma inv_same_view:
  assumes inv: "rt_inv cf s" and "view s' = view s"
    and "rr_inv (unat (geo_capacity cf)) (geo_slot cf) (geo_slots cf) (rt_abs s')"
    and "\<And>t'. t' \<noteq> t \<Longrightarrow> rt_pc s' t' = rt_pc s t'" and "pc_ok cf (view s) t (rt_pc s' t)" and "rt_pos s' = rt_pos s"
  shows "rt_inv cf s'"
proof -
  have "rt_ht s' = rt_ht s" "rt_pub s' = rt_pub s" using assms(2) by (simp_all add: view_def)
  moreover have "pc_ok cf (view s) t' (rt_pc s' t')" for t'
    using inv_parts(3)[OF inv, of t'] assms(4)[of t'] assms(5) by (cases "t' = t") auto
  ultimately show ?thesis using assms(2,3,6) inv by (simp add: rt_inv_def)
qed

lemma inv_local:
  assumes inv: "rt_inv cf s" and h: "hold_of p = hold_of (rt_pc s t)" and "pc_ok cf (view s) t p"
  shows "rt_inv cf (upd_pc t p s)" and "rt_abs (upd_pc t p s) = rt_abs s"
proof -
  have "v_iv (view s) t = hold_iv (hold_of p)" "rr_hold (rt_abs s) t = hold_of p" using h by (simp_all add: view_def rt_abs_def)
  then have v: "view (upd_pc t p s) = view s" and a: "rt_abs (upd_pc t p s) = rt_abs s"
    by (simp_all add: view_upd_pc abs_upd_pc fun_upd_idem)
  show "rt_abs (upd_pc t p s) = rt_abs s" by (fact a)
  show "rt_inv cf (upd_pc t p s)"
    using inv v by (rule inv_same_view[where t = t]) (use a inv_parts(1)[OF inv] assms(3) in auto)
qed

section \<open>A reservation\<close>

definition v_reserve :: "nat \<Rightarrow> side \<Rightarrow> nat \<Rightarrow> rte_ring_headtail \<Rightarrow> rt_view \<Rightarrow> rt_view" where
  "v_reserve t d n ht v = v\<lparr>v_ht := (v_ht v)(d := ht), v_res := (v_res v)(d := v_res v d + n),
     v_begun := (v_begun v)(d := v_begun v d + 1), v_iv := (v_iv v)(t \<mapsto> (d, v_res v d, n))\<rparr>"

text \<open>What a successful move of the head does, in every mode.\<close>

definition moves_head :: "rte_ring_headtail \<Rightarrow> u32 \<Rightarrow> rte_ring_headtail \<Rightarrow> bool" where
  "moves_head ht n ht' \<longleftrightarrow> ht_sync_type ht' = ht_sync_type ht \<and> ht_tail ht' = ht_tail ht \<and>
     cell_pos ht' (head_cell ht') = cell_pos ht (head_cell ht) + n \<and>
     (is_rts ht \<longrightarrow> ht_rts_cnt ht' = ht_rts_cnt ht + 1 \<and> ht_head ht' = ht_head ht)"

lemma head_move_success:
  assumes "head_move ht oh n = (True, ht')" and "is_st ht \<Longrightarrow> fst oh = ht_head ht"
  shows "moves_head ht n ht'" and "cell_pos ht oh = cell_pos ht (head_cell ht)"
    and "is_hts ht \<Longrightarrow> oh = (ht_head ht, ht_tail ht)"
  using assms
  by (cases "ht_sync_type ht";
      auto simp: head_move_def moves_head_def cell_pos_def head_cell_def rte_atomic32_cmpset_eq
        atomic_compare_exchange_def Let_def split: if_splits)+

lemma words_reserve:
  assumes "words_ok cf v d" and "moves_head (v_ht v d) n ht"
  shows "words_ok cf (v_reserve t d (unat n) ht v) d"
  using assms by (auto simp: words_ok_def moves_head_def v_reserve_def Let_def pos_word_add_word pos_word_Suc)

lemma active_reserve: "v_iv v t = None \<Longrightarrow> active (v_reserve t d n ht v) d' = (if d' = d then insert t (active v d) else active v d')"
  by (auto simp: active_def v_reserve_def)

lemma counts_reserve:
  assumes "counts_ok v d'" and "v_iv v t = None" and "0 < n"
  shows "counts_ok (v_reserve t d n ht v) d'"
proof -
  have "t \<notin> active v d'" using assms(2) by (simp add: active_def)
  then show ?thesis using assms by (auto simp: counts_ok_def active_reserve[OF assms(2)]) (simp_all add: v_reserve_def)
qed

text \<open>In the ST and HTS modes nothing is held when a reservation succeeds.\<close>

lemma mode_reserve:
  assumes m: "mode_ok cf v d" and t: "v_iv v t = None" and c: "counts_ok v d" and "0 < n"
    and ht: "ht_sync_type ht = ht_sync_type (v_ht v d)" and p: "v_pub v d \<le> v_res v d"
    and st: "is_st (v_ht v d) \<Longrightarrow> t = cf_sole cf d"
    and serial: "is_st (v_ht v d) \<or> is_hts (v_ht v d) \<Longrightarrow> active v d = {}"
  shows "mode_ok cf (v_reserve t d n ht v) d"
proof -
  let ?v = "v_reserve t d n ht v"
  have s: "v_ht ?v d = ht" "v_pub ?v = v_pub v" "v_res ?v d = v_res v d + n" "v_begun ?v d = v_begun v d + 1"
    "v_ended ?v = v_ended v" "v_iv ?v = (v_iv v)(t \<mapsto> (d, v_res v d, n))"
    by (simp_all add: v_reserve_def)
  have tile: "\<exists>t' g m. v_iv ?v t' = Some (d, g, m) \<and> g \<le> j \<and> j < g + m"
    if nr: "\<not> is_rts ht" and j: "v_pub v d \<le> j" "j < v_res v d + n" for j
  proof (cases "j < v_res v d")
    case True
    then obtain t' g k where "v_iv v t' = Some (d, g, k)" "g \<le> j" "j < g + k"
      using m nr ht j(1) by (auto simp: mode_ok_def)
    then show ?thesis using t s(6) by (intro exI[of _ t'] exI[of _ g] exI[of _ k]) auto
  next
    case False
    then show ?thesis using j s(6) by (intro exI[of _ t] exI[of _ "v_res v d"] exI[of _ n]) auto
  qed
  have "v_pub v d = v_res v d" if "is_st ht \<or> is_hts ht"
  proof -
    have "active v d = {}" "\<not> is_rts (v_ht v d)" using serial that ht by auto
    then have "\<not> (v_pub v d \<le> j \<and> j < v_res v d)" for j
      using m by (auto simp: mode_ok_def active_def)
    from this[of "v_pub v d"] p show ?thesis by simp
  qed
  moreover have "v_ended v d \<le> v_begun v d" using c by (simp add: counts_ok_def)
  ultimately show ?thesis
    using tile serial st ht unfolding mode_ok_def active_reserve[OF t] s Let_def
    by (auto simp: active_def split: if_splits)
qed

lemma side_reserve_other:
  assumes "side_ok cf v d'" and "d' \<noteq> d" and "v_iv v t = None"
  shows "side_ok cf (v_reserve t d n ht v) d'"
proof -
  let ?v = "v_reserve t d n ht v"
  have iv: "v_iv ?v t' = Some (d', g, m) \<longleftrightarrow> v_iv v t' = Some (d', g, m)" for t' g m
    using assms(2,3) by (auto simp: v_reserve_def)
  have "active ?v d' = active v d'" using assms by (simp add: active_reserve)
  then show ?thesis
    using assms(1,2) unfolding side_ok_def words_ok_def counts_ok_def mode_ok_def iv by (simp add: v_reserve_def)
qed

lemma pc_reserve_other:
  assumes "pc_ok cf v t' q" and "t' \<noteq> t" and ht: "ht_sync_type ht = ht_sync_type (v_ht v d)" and t: "v_iv v t = None"
    and "user_ok cf v t d"
  shows "pc_ok cf (v_reserve t d n ht v) t' q"
proof -
  let ?v = "v_reserve t d n ht v"
  have sync: "ht_sync_type (v_ht ?v d') = ht_sync_type (v_ht v d')" for d' using ht by (simp add: v_reserve_def)
  then have cell: "cell_pos (v_ht ?v d') oh = cell_pos (v_ht v d') oh" for d' oh by (simp add: cell_pos_def)
  have ld: "loaded cf ?v d' oh g" if "loaded cf v d' oh g" "user_ok cf v t' d'" for d' oh g
    using that assms(2,5) unfolding loaded_def cell user_ok_def sync by (auto simp: v_reserve_def)
  have us: "user_ok cf ?v t' d' = user_ok cf v t' d'" for d' by (simp add: user_ok_def sync)
  have s: "v_pub ?v = v_pub v" "v_ended ?v = v_ended v" by (simp_all add: v_reserve_def)
  have cb: "clear_below ?v d' t' p" if "clear_below v d' t' p" "p \<le> v_res v d'" for d' p
    using that t by (auto simp: clear_below_def v_reserve_def)
  show ?thesis
  proof (cases q)
    case (TailCas c m g ot k h hk hg)
    then show ?thesis
      using assms(1) cb[of "cl_side c" hg] sync[of "cl_side c"]
      by (auto simp: Let_def s) (auto simp: v_reserve_def split: if_splits)
  qed (use assms(1) ld us sync s in \<open>auto simp: Let_def\<close>)
qed

section \<open>The end of a call\<close>

definition v_publish :: "nat \<Rightarrow> side \<Rightarrow> nat \<Rightarrow> rte_ring_headtail \<Rightarrow> rt_view \<Rightarrow> rt_view" where
  "v_publish t d p ht v = v\<lparr>v_ht := (v_ht v)(d := ht), v_pub := (v_pub v)(d := p),
     v_ended := (v_ended v)(d := v_ended v d + 1), v_iv := (v_iv v)(t := None)\<rparr>"

text \<open>What the store to the tail does, in every mode, when it puts the tail at the word \<open>w\<close>.\<close>

definition moves_tail :: "rte_ring_headtail \<Rightarrow> u32 \<Rightarrow> rte_ring_headtail \<Rightarrow> bool" where
  "moves_tail ht w ht' \<longleftrightarrow> ht_sync_type ht' = ht_sync_type ht \<and> ht_tail ht' = w \<and>
     (if is_rts ht then ht_head ht' = ht_head ht + 1 \<and> ht_rts_cnt ht' = ht_rts_cnt ht \<and> ht_rts_pos ht' = ht_rts_pos ht
      else ht_head ht' = ht_head ht)"

lemma words_publish:
  assumes "words_ok cf v d" and "moves_tail (v_ht v d) (pos_at cf p) ht"
  shows "words_ok cf (v_publish t d p ht v) d"
  using assms by (auto simp: words_ok_def moves_tail_def v_publish_def pos_word_Suc cell_pos_def head_cell_def split: if_splits)

lemma active_publish: "active (v_publish t d p ht v) d' = active v d' - {t}"
  by (auto simp: active_def v_publish_def)

lemma counts_publish:
  assumes "counts_ok v d" and "t \<in> active v d"
  shows "counts_ok (v_publish t d p ht v) d"
proof -
  have "0 < card (active v d)" "card (active v d - {t}) = card (active v d) - 1"
    using assms by (auto simp: counts_ok_def card_gt_0_iff)
  then show ?thesis using assms by (auto simp: counts_ok_def active_publish) (simp_all add: v_publish_def)
qed

lemma mode_publish:
  assumes m: "mode_ok cf v d" and t: "v_iv v t = Some (d, g, n)"
    and ht: "ht_sync_type ht = ht_sync_type (v_ht v d)"
    and rts: "is_rts ht \<Longrightarrow> v_begun v d = v_ended v d + 1 \<Longrightarrow> p = v_res v d"
    and other: "\<not> is_rts ht \<Longrightarrow> v_pub v d = g \<and> p = g + n"
    and dis: "\<And>t' g' n'. t' \<noteq> t \<Longrightarrow> v_iv v t' = Some (d, g', n') \<Longrightarrow> v_pub v d \<le> g' \<and> 0 < n' \<and> (g + n \<le> g' \<or> g' + n' \<le> g)"
  shows "mode_ok cf (v_publish t d p ht v) d"
proof -
  let ?v = "v_publish t d p ht v"
  have s: "v_ht ?v d = ht" "v_pub ?v d = p" "v_res ?v = v_res v" "v_begun ?v = v_begun v"
    "v_ended ?v d = v_ended v d + 1" "v_iv ?v = (v_iv v)(t := None)"
    by (simp_all add: v_publish_def)
  have tile: "\<exists>t' g' n'. v_iv ?v t' = Some (d, g', n') \<and> g' \<le> j \<and> j < g' + n'"
    if nr: "\<not> is_rts ht" and j: "p \<le> j" "j < v_res v d" for j
  proof -
    have "v_pub v d \<le> j" using other[OF nr] j by simp
    then obtain t' g' n' where h: "v_iv v t' = Some (d, g', n')" "g' \<le> j" "j < g' + n'"
      using m nr ht j(2) by (auto simp: mode_ok_def)
    then have "t' \<noteq> t" using t other[OF nr] j by auto
    with h s(6) show ?thesis by auto
  qed
  have none: "v_iv ?v t' \<noteq> Some (d, g', n')" if "is_st ht \<or> is_hts ht" for t' g' n'
  proof
    assume "v_iv ?v t' = Some (d, g', n')"
    then have h: "t' \<noteq> t" "v_iv v t' = Some (d, g', n')" using s(6) by (auto split: if_splits)
    have "g' = v_pub v d" "g = v_pub v d" "g' + n' = v_res v d" "g + n = v_res v d"
      using m that ht h(2) t by (auto simp: mode_ok_def)
    with dis[OF h] show False by auto
  qed
  then have "active ?v d = {}" if "is_st ht \<or> is_hts ht" using that by (simp add: active_def)
  then show ?thesis
    using tile none rts unfolding mode_ok_def s(1-5) by simp
qed

lemma side_publish_other:
  assumes "side_ok cf v d'" and "d' \<noteq> d" and "v_iv v t = Some (d, g, n)"
  shows "side_ok cf (v_publish t d p ht v) d'"
proof -
  let ?v = "v_publish t d p ht v"
  have iv: "v_iv ?v t' = Some (d', g', m) \<longleftrightarrow> v_iv v t' = Some (d', g', m)" for t' g' m
    using assms(2,3) by (auto simp: v_publish_def)
  have "active ?v d' = active v d'" using iv by (simp add: active_def)
  then show ?thesis
    using assms(1,2) unfolding side_ok_def words_ok_def counts_ok_def mode_ok_def iv by (simp add: v_publish_def)
qed

lemma bound_mono: "pub d \<le> p \<Longrightarrow> x \<le> rr_bound cap pub d' \<Longrightarrow> x \<le> rr_bound cap (pub(d := p)) d'"
  by (cases d'; cases d) auto

lemma pc_publish_other:
  assumes "pc_ok cf v t' q" and ht: "ht_sync_type ht = ht_sync_type (v_ht v d)" and "v_pub v d \<le> p"
  shows "pc_ok cf (v_publish t d p ht v) t' q"
proof -
  let ?v = "v_publish t d p ht v"
  have sync: "ht_sync_type (v_ht ?v d') = ht_sync_type (v_ht v d')" for d' using ht by (simp add: v_publish_def)
  then have cell: "cell_pos (v_ht ?v d') oh = cell_pos (v_ht v d') oh" for d' oh by (simp add: cell_pos_def)
  have s: "v_res ?v = v_res v" "v_begun ?v = v_begun v" "v_pub ?v = (v_pub v)(d := p)" by (simp_all add: v_publish_def)
  have ld: "loaded cf ?v d' oh g = loaded cf v d' oh g" for d' oh g
    unfolding loaded_def cell sync s ..
  have us: "user_ok cf ?v t' d' = user_ok cf v t' d'" for d' by (simp add: user_ok_def sync)
  have cb: "clear_below ?v d' t' x" if "clear_below v d' t' x" for d' x
    using that by (auto simp: clear_below_def v_publish_def split: if_splits)
  show ?thesis
  proof (cases q)
    case (TailHead c m g ot k)
    then show ?thesis using assms(1) sync by (auto simp: Let_def) (auto simp: v_publish_def)
  next
    case (TailCas c m g ot k h hk hg)
    then show ?thesis
      using assms(1) cb[of "cl_side c" hg] sync[of "cl_side c"]
      by (auto simp: Let_def s) (auto simp: v_publish_def split: if_splits)
  qed (use assms(1) ld us sync s bound_mono[of "v_pub v" d p, OF assms(3)] in \<open>auto simp: Let_def\<close>)
qed

end
