(* ===== verification/Ring_Threads_Sim.thy ===== *)
theory Ring_Threads_Sim
  imports Ring_Threads_Inv
begin

text \<open>
  The refinement: every step of a thread keeps the invariant and is a step of the ring of reservations
  or none (a load, a failed compare-and-set, a wait).
\<close>

section \<open>Every step is a step of the reservations, or none\<close>

definition simulates :: "rt_conf \<Rightarrow> 'a rt \<Rightarrow> 'a rt \<Rightarrow> bool" where
  "simulates cf s s' \<longleftrightarrow> rt_inv cf s' \<and>
     (rt_abs s' = rt_abs s \<or> rr_step (unat (geo_capacity cf)) (geo_slot cf) (rt_abs s) (rt_abs s'))"

lemma sim_local:
  assumes "rt_inv cf s" and "hold_of p = hold_of (rt_pc s t)" and "pc_ok cf (view s) t p"
  shows "simulates cf s (upd_pc t p s)"
  using inv_local[OF assms] by (simp add: simulates_def)

lemma sim_step:
  assumes inv: "rt_inv cf s" and geo: "geo_ok cf"
    and step: "rr_step (unat (geo_capacity cf)) (geo_slot cf) (rt_abs s) (rt_abs s')"
    and "\<And>d. side_ok cf (view s') d" and "\<And>t. pc_ok cf (view s') t (rt_pc s' t)"
    and "\<not> is_rts (rt_ht s' Consumer) \<Longrightarrow> rt_pos s' = [0 ..< rt_pub s' Consumer]"
  shows "simulates cf s s'"
  using ring_slots.rr_step_inv[OF step geo inv_parts(1)[OF inv]] assms(3-6) by (simp add: simulates_def rt_inv_def)

lemma call_table: "call_ok c \<Longrightarrow> n \<le> cl_num c \<Longrightarrow> cl_side c = Producer \<Longrightarrow> length (take (unat n) (cl_tab c)) = unat n"
  by (simp add: word_le_nat_alt)

lemma reserve_abs:
  assumes pc: "hold_of (rt_pc s t) = None" and c: "call_ok c" "n \<le> cl_num c" "n \<noteq> 0"
    and g: "g = rt_res s (cl_side c)" and room: "g + unat n \<le> rr_bound cap (rt_pub s) (cl_side c)"
  shows "rr_step cap sl (rt_abs s) (rt_abs (upd_pc t (Copy c n head 0 g) (reserved c n (upd_ht d ht s))))"
proof (cases "cl_side c")
  case Producer
  let ?xs = "take (unat n) (cl_tab c)"
  have len: "length ?xs = unat n" using call_table[OF c(1,2) Producer] .
  have "rr_hold (rt_abs s) t = None" using pc by (simp add: rt_abs_def)
  moreover have "?xs \<noteq> []" using len c(3) by (metis length_0_conv unat_eq_0)
  moreover have "rr_res (rt_abs s) Producer + length ?xs \<le> rr_bound cap (rr_pub (rt_abs s)) Producer"
    using room g Producer len by (simp add: rt_abs_def)
  ultimately have "rr_step cap sl (rt_abs s) ((rt_abs s)\<lparr>rr_log := rr_log (rt_abs s) @ ?xs,
      rr_res := (rr_res (rt_abs s))(Producer := rr_res (rt_abs s) Producer + length ?xs),
      rr_hold := (rr_hold (rt_abs s))(t \<mapsto> Hold Producer (rr_res (rt_abs s) Producer) (length ?xs) 0 ?xs)\<rparr>)"
    by (rule reserve_p)
  also have "(\<dots>) = rt_abs (upd_pc t (Copy c n head 0 g) (reserved c n (upd_ht d ht s)))"
    using Producer g len by (auto simp: rt_abs_def upd_pc_def upd_ht_def reserved_def hold_at_def Let_def fun_eq_iff)
  finally show ?thesis .
next
  case Consumer
  have "rr_hold (rt_abs s) t = None" using pc by (simp add: rt_abs_def)
  moreover have "0 < unat n" using c(3) by (simp add: unat_gt_0)
  moreover have "rr_res (rt_abs s) Consumer + unat n \<le> rr_bound cap (rr_pub (rt_abs s)) Consumer"
    using room g Consumer by (simp add: rt_abs_def)
  ultimately have "rr_step cap sl (rt_abs s)
      ((rt_abs s)\<lparr>rr_res := (rr_res (rt_abs s))(Consumer := rr_res (rt_abs s) Consumer + unat n),
      rr_hold := (rr_hold (rt_abs s))(t \<mapsto> Hold Consumer (rr_res (rt_abs s) Consumer) (unat n) 0 [])\<rparr>)"
    by (rule reserve_c)
  also have "(\<dots>) = rt_abs (upd_pc t (Copy c n head 0 g) (reserved c n (upd_ht d ht s)))"
    using Consumer g c(1) by (auto simp: rt_abs_def upd_pc_def upd_ht_def reserved_def hold_at_def Let_def fun_eq_iff)
  finally show ?thesis .
qed

lemma view_reserve:
  assumes "g = rt_res s (cl_side c)"
  shows "view (upd_pc t (Copy c n head 0 g) (reserved c n (upd_ht (cl_side c) ht s))) =
     v_reserve t (cl_side c) (unat n) ht (view s)"
  using assms by (simp add: view_upd_pc) (auto simp: view_def v_reserve_def reserved_def upd_ht_def Let_def)

lemma loaded_current:
  assumes inv: "rt_inv cf s" and win: "rt_window cf s" and ld: "loaded cf (view s) d oh g"
    and ok: "head_move (rt_ht s d) oh n = (True, ht)"
  shows "g = rt_res s d" and "moves_head (rt_ht s d) n ht" and "is_hts (rt_ht s d) \<Longrightarrow> oh = (ht_head (rt_ht s d), ht_tail (rt_ht s d))"
proof -
  note p = inv_positions[OF inv win]
  have w: "cell_pos (rt_ht s d) (head_cell (rt_ht s d)) = pos_at cf (rt_res s d)"
    using inv_parts(2)[OF inv, of d] by (simp add: side_ok_def words_ok_def view_def)
  have l: "cell_pos (rt_ht s d) oh = pos_at cf g" "g \<le> rt_res s d" "is_st (rt_ht s d) \<Longrightarrow> g = rt_res s d"
    using ld by (simp_all add: loaded_def view_def)
  have st: "fst oh = ht_head (rt_ht s d)" if "is_st (rt_ht s d)"
    using that l w by (simp add: cell_pos_def head_cell_def)
  note h = head_move_success[OF ok st]
  show "moves_head (rt_ht s d) n ht" by (rule h(1))
  show "is_hts (rt_ht s d) \<Longrightarrow> oh = (ht_head (rt_ht s d), ht_tail (rt_ht s d))" by (rule h(3))
  have "pos_at cf g = pos_at cf (rt_res s d)" using h(2) l(1) w by simp
  then show "g = rt_res s d"
    using pos_word_inj l(2) p(3)[of d] by (metis (no_types, lifting) le_less_trans rt_view.select_convs(2) view_def)
qed

lemma sim_reserve:
  assumes inv: "rt_inv cf s" and win: "rt_window cf s" and geo: "geo_ok cf" and pc: "rt_pc s t = Cas c n oh g"
    and ok: "head_move (rt_ht s (cl_side c)) oh n = (True, ht)"
  shows "simulates cf s (upd_pc t (Copy c n (cell_pos (rt_ht s (cl_side c)) oh) 0 g) (reserved c n (upd_ht (cl_side c) ht s)))"
    (is "simulates cf s ?s")
proof -
  let ?d = "cl_side c" and ?v = "view s"
  note p = inv_positions[OF inv win, of ?d]
  have q: "call_ok c" "user_ok cf ?v t ?d" "loaded cf ?v ?d oh g" "is_hts (v_ht ?v ?d) \<longrightarrow> fst oh = snd oh" "n \<noteq> 0"
      "n \<le> cl_num c" "g + unat n \<le> rr_bound (unat (geo_capacity cf)) (v_pub ?v) ?d"
    using inv_parts(3)[OF inv, of t] pc by simp_all
  note cur = loaded_current[OF inv win q(3) ok]
  have vht: "v_ht ?v = rt_ht s" "v_res ?v = rt_res s" "v_pub ?v = rt_pub s" by (simp_all add: view_def)
  have t: "v_iv ?v t = None" using pc by (simp add: view_def)
  have n: "0 < unat n" using q(5) by (simp add: unat_gt_0)
  have sd: "side_ok cf ?v d" for d by (rule inv_parts(2)[OF inv])
  have sync: "ht_sync_type ht = ht_sync_type (v_ht ?v ?d)" using cur(2) by (simp add: moves_head_def vht)
  have serial: "active ?v ?d = {}" if "is_st (v_ht ?v ?d) \<or> is_hts (v_ht ?v ?d)"
  proof (cases "is_hts (v_ht ?v ?d)")
    case True
    then have "ht_head (rt_ht s ?d) = ht_tail (rt_ht s ?d)" using cur(3) q(4) by (simp add: vht)
    then have "pos_at cf (v_res ?v ?d) = pos_at cf (v_pub ?v ?d)"
      using sd[of ?d] True by (simp add: side_ok_def words_ok_def cell_pos_def head_cell_def vht)
    then have "v_res ?v ?d = v_pub ?v ?d" using p(1,3) by (intro pos_word_inj) auto
    then show ?thesis using inv_iv[OF inv] by (fastforce simp: active_def)
  next
    case False
    with that have "\<forall>u \<in> active ?v ?d. u = t"
      using sd[of ?d] q(2) unfolding side_ok_def mode_ok_def user_ok_def by blast
    moreover have "t \<notin> active ?v ?d" using t by (simp add: active_def)
    ultimately show ?thesis by (metis all_not_in_conv)
  qed
  have v: "view ?s = v_reserve t ?d (unat n) ht ?v" by (rule view_reserve[OF cur(1)])
  have "side_ok cf (view ?s) d" for d
  proof (cases "d = ?d")
    case True
    then show ?thesis unfolding v True
      using sd[of ?d] words_reserve counts_reserve[OF _ t n] mode_reserve[OF _ t _ n sync p(1) _ serial] cur(2) q(2)
      by (simp add: side_ok_def vht user_ok_def)
  next
    case False
    then show ?thesis unfolding v using sd[of d] t by (intro side_reserve_other)
  qed
  moreover have "pc_ok cf (view ?s) t' (rt_pc ?s t')" for t'
  proof (cases "t' = t")
    case True
    then show ?thesis using q(3) by (simp add: loaded_def vht)
  next
    case False
    then show ?thesis unfolding v
      using pc_reserve_other[OF inv_parts(3)[OF inv] False sync t q(2)] by (simp add: reserved_def Let_def)
  qed
  moreover have "rr_step (unat (geo_capacity cf)) (geo_slot cf) (rt_abs s) (rt_abs ?s)"
    using pc q(1,5-7) cur(1) by (intro reserve_abs) (simp_all add: vht)
  moreover have "rt_pos ?s = [0 ..< rt_pub ?s Consumer]" if "\<not> is_rts (rt_ht ?s Consumer)"
    using inv_parts(4)[OF inv] that sync by (auto simp: reserved_def upd_ht_def Let_def vht split: if_splits)
  ultimately show ?thesis using inv geo by (intro sim_step)
qed

lemma return_abs:
  assumes pc: "hold_of (rt_pc s t) = Some (hold_at c g n (unat n))"
    and p: "rt_pub s (cl_side c) \<le> p" "p \<le> rt_res s (cl_side c)" and clear: "clear_below (view s) (cl_side c) t p"
  shows "rr_step cap sl (rt_abs s) (rt_abs (return_call t c n g p (upd_ht d ht s)))"
proof -
  let ?d = "cl_side c"
  let ?xs = "case ?d of Producer \<Rightarrow> take (unat n) (cl_tab c) | Consumer \<Rightarrow> cl_tab c"
  have "rr_hold (rt_abs s) t = Some (Hold ?d g (unat n) (unat n) ?xs)" using pc by (simp add: rt_abs_def hold_at_def)
  moreover have "p \<le> g'" if "t' \<noteq> t" "rr_hold (rt_abs s) t' = Some (Hold ?d g' n' i' xs')" for t' g' n' i' xs'
    using clear that by (simp add: clear_below_def view_def rt_abs_def)
  ultimately have "rr_step cap sl (rt_abs s) ((rt_abs s)\<lparr>rr_pub := (rr_pub (rt_abs s))(?d := p),
      rr_hold := (rr_hold (rt_abs s))(t := None), rr_out := rr_out (rt_abs s) @ handed_out ?d ?xs,
      rr_pos := rr_pos (rt_abs s) @ handed_out ?d [g ..< g + unat n]\<rparr>)"
    using p by (intro publish) (auto simp: rt_abs_def)
  also have "(\<dots>) = rt_abs (return_call t c n g p (upd_ht d ht s))"
    by (cases ?d) (auto simp: rt_abs_def return_call_def upd_pc_def upd_ht_def Let_def fun_eq_iff)
  finally show ?thesis .
qed

lemma sim_return:
  assumes inv: "rt_inv cf s" and win: "rt_window cf s" and geo: "geo_ok cf"
    and pc: "hold_of (rt_pc s t) = Some (hold_at c g n (unat n))" and d: "d = cl_side c"
    and ht: "moves_tail (rt_ht s d) (pos_at cf p) ht" and p: "rt_pub s d \<le> p" "p \<le> rt_res s d"
    and clear: "clear_below (view s) d t p"
    and rts: "is_rts ht \<Longrightarrow> rt_begun s d = rt_ended s d + 1 \<Longrightarrow> p = rt_res s d"
    and other: "\<not> is_rts ht \<Longrightarrow> rt_pub s d = g \<and> p = g + unat n"
  shows "simulates cf s (return_call t c n g p (upd_ht d ht s))" (is "simulates cf s ?s")
proof -
  let ?v = "view s"
  have vs: "v_ht ?v = rt_ht s" "v_res ?v = rt_res s" "v_pub ?v = rt_pub s" "v_begun ?v = rt_begun s" "v_ended ?v = rt_ended s"
    by (simp_all add: view_def)
  have t: "v_iv ?v t = Some (d, g, unat n)" using pc d by (simp add: view_def)
  have sync: "ht_sync_type ht = ht_sync_type (v_ht ?v d)" using ht by (simp add: moves_tail_def vs)
  have sd: "side_ok cf ?v d'" for d' by (rule inv_parts(2)[OF inv])
  have v: "view ?s = v_publish t d p ht ?v"
    using d by (auto simp: view_def v_publish_def return_call_def upd_ht_def upd_pc_def Let_def)
  have dis: "v_pub ?v d \<le> g' \<and> 0 < n' \<and> (g + unat n \<le> g' \<or> g' + n' \<le> g)"
    if "t' \<noteq> t" "v_iv ?v t' = Some (d, g', n')" for t' g' n'
    using inv_iv[OF inv that(2)] inv_iv_disjoint[OF inv t that(2) that(1)[symmetric]] by simp
  have "side_ok cf (view ?s) d'" for d'
  proof (cases "d' = d")
    case True
    have "mode_ok cf (v_publish t d p ht ?v) d"
      using sd[of d] rts other by (intro mode_publish[OF _ t sync _ _ dis]) (simp_all add: side_ok_def vs)
    moreover have "t \<in> active ?v d" using t by (simp add: active_def)
    ultimately show ?thesis unfolding v True
      using sd[of d] words_publish counts_publish ht by (simp add: side_ok_def vs)
  next
    case False
    then show ?thesis unfolding v using sd[of d'] t by (intro side_publish_other)
  qed
  moreover have "pc_ok cf (view ?s) t' (rt_pc ?s t')" for t'
    unfolding v using pc_publish_other[OF inv_parts(3)[OF inv, of t'] sync, of p] p
    by (simp add: return_call_def Let_def vs)
  moreover have "rr_step (unat (geo_capacity cf)) (geo_slot cf) (rt_abs s) (rt_abs ?s)"
    using pc p clear unfolding d by (intro return_abs)
  moreover have "rt_pos ?s = [0 ..< rt_pub ?s Consumer]" if "\<not> is_rts (rt_ht ?s Consumer)"
  proof (cases d)
    case Producer
    then show ?thesis using inv_parts(4)[OF inv] that d by (simp add: return_call_def upd_ht_def Let_def)
  next
    case Consumer
    then have "\<not> is_rts ht" using that d by (simp add: return_call_def upd_ht_def Let_def)
    then show ?thesis
      using other inv_parts(4)[OF inv] sync Consumer d upt_add_eq_append[of 0 g "unat n"]
      by (simp add: return_call_def upd_ht_def Let_def vs)
  qed
  ultimately show ?thesis using inv geo by (intro sim_step)
qed

text \<open>The tail update in the ST, MT and HTS modes: when it happens, the call is the first one not published.\<close>

lemma sim_tail_store:
  assumes inv: "rt_inv cf s" and win: "rt_window cf s" and geo: "geo_ok cf" and pc: "rt_pc s t = Tail c n head g"
    and d: "d = cl_side c" and nr: "\<not> is_rts (rt_ht s d)"
    and wait: "ht_sync_type (rt_ht s d) = RTE_RING_SYNC_MT \<Longrightarrow> ht_tail (rt_ht s d) = head"
  shows "simulates cf s (return_call t c n g (g + unat n) (upd_ht d ((rt_ht s d)\<lparr>ht_tail := head + n\<rparr>) s))"
proof -
  note pos = inv_positions[OF inv win, of d]
  have vs: "v_ht (view s) = rt_ht s" "v_res (view s) = rt_res s" "v_pub (view s) = rt_pub s" by (simp_all add: view_def)
  have t: "v_iv (view s) t = Some (d, g, unat n)" using pc d by (simp add: view_def)
  note iv = inv_iv[OF inv t, unfolded vs]
  have head: "head = pos_at cf g" using inv_parts(3)[OF inv, of t] pc by simp
  have sd: "side_ok cf (view s) d" by (rule inv_parts(2)[OF inv])
  have g: "rt_pub s d = g"
  proof (cases "ht_sync_type (rt_ht s d) = RTE_RING_SYNC_MT")
    case True
    have "pos_at cf (rt_pub s d) = pos_at cf g"
      using wait[OF True] head sd by (simp add: side_ok_def words_ok_def vs)
    then show ?thesis using iv(1,2) pos(3) by (intro pos_word_inj) (auto simp: vs)
  next
    case False
    then have "is_st (rt_ht s d) \<or> is_hts (rt_ht s d)" using nr by (cases "ht_sync_type (rt_ht s d)") auto
    then show ?thesis using sd t by (auto simp: side_ok_def mode_ok_def vs)
  qed
  have "clear_below (view s) d t (g + unat n)"
    unfolding clear_below_def
  proof (intro allI impI)
    fix t' g' n' assume h: "t' \<noteq> t" "v_iv (view s) t' = Some (d, g', n')"
    from inv_iv_disjoint[OF inv t h(2) h(1)[symmetric]] inv_iv[OF inv h(2)] g show "g + unat n \<le> g'" by (auto simp: vs)
  qed
  moreover have "moves_tail (rt_ht s d) (pos_at cf (g + unat n)) ((rt_ht s d)\<lparr>ht_tail := head + n\<rparr>)"
    using nr head by (simp add: moves_tail_def pos_word_add_word)
  ultimately show ?thesis
    using g iv nr pc d by (intro sim_return[OF inv win geo]) auto
qed

lemma sim_tail:
  assumes inv: "rt_inv cf s" and win: "rt_window cf s" and geo: "geo_ok cf" and pc: "rt_pc s t = Tail c n head g"
  shows "simulates cf s (tail_step t c n head g s)"
proof (cases "is_rts (rt_ht s (cl_side c))")
  case True
  moreover have "ht_head (rt_ht s (cl_side c)) = count_at cf (cl_side c) (rt_ended s (cl_side c))"
    using inv_parts(2)[OF inv, of "cl_side c"] True by (simp add: side_ok_def words_ok_def view_def)
  ultimately have "simulates cf s (upd_pc t (TailHead c n g (ht_head (rt_ht s (cl_side c)), ht_tail (rt_ht s (cl_side c)))
      (rt_ended s (cl_side c))) s)"
    using pc by (intro sim_local[OF inv]) (simp_all add: view_def Let_def)
  then show ?thesis using True by (simp add: tail_step_def Let_def)
next
  case False
  have stay: "simulates cf s s" using inv by (simp add: simulates_def)
  from sim_tail_store[OF inv win geo pc refl False] stay show ?thesis
    using False by (cases "ht_sync_type (rt_ht s (cl_side c))")
      (auto simp: tail_step_def update_tail_def hts_update_tail_def Let_def)
qed

text \<open>The two steps of the RTS tail update.\<close>

lemma sim_tail_head:
  assumes inv: "rt_inv cf s" and win: "rt_window cf s" and pc: "rt_pc s t = TailHead c n g ot k" and d: "d = cl_side c"
  shows "simulates cf s (upd_pc t (TailCas c n g ot k (head_cell (rt_ht s d)) (rt_begun s d) (rt_res s d)) s)"
proof (rule sim_local[OF inv])
  let ?v = "view s"
  have vs: "v_ht ?v = rt_ht s" "v_res ?v = rt_res s" "v_pub ?v = rt_pub s" "v_begun ?v = rt_begun s" "v_ended ?v = rt_ended s"
    by (simp_all add: view_def)
  have q: "is_rts (rt_ht s d)" "fst ot = count_at cf d k" "k \<le> rt_ended s d"
    using inv_parts(3)[OF inv, of t] pc d by (simp_all add: Let_def vs)
  have sd: "words_ok cf ?v d" "counts_ok ?v d" using inv_parts(2)[OF inv, of d] by (simp_all add: side_ok_def)
  have t: "t \<in> active ?v d" using pc d by (simp add: active_def view_def)
  then have "0 < card (active ?v d)" using sd(2) by (auto simp: counts_ok_def card_gt_0_iff)
  then have less: "rt_ended s d < rt_begun s d" using sd(2) by (simp add: counts_ok_def vs)
  have clear: "clear_below ?v d t (rt_res s d)" if "rt_begun s d = rt_ended s d + 1"
  proof -
    have "card (active ?v d) = 1" using that sd(2) by (simp add: counts_ok_def vs)
    then obtain u where "active ?v d = {u}" by (auto simp: card_1_singleton_iff)
    then have "t' = t" if "v_iv ?v t' = Some (d, g', n')" for t' g' n'
      using that t by (auto simp: active_def)
    then show ?thesis by (auto simp: clear_below_def)
  qed
  show "pc_ok cf ?v t (TailCas c n g ot k (head_cell (rt_ht s d)) (rt_begun s d) (rt_res s d))"
    using q sd(1) less clear inv_positions(1)[OF inv win, of d] d[symmetric]
    by (auto simp: Let_def vs words_ok_def head_cell_def cell_pos_def)
qed (use pc in simp)

lemma sim_tail_cas:
  assumes inv: "rt_inv cf s" and win: "rt_window cf s" and geo: "geo_ok cf" and pc: "rt_pc s t = TailCas c n g ot k h hk hg"
  shows "simulates cf s (tail_cas_step t c n g ot k h hk hg s)"
proof -
  let ?d = "cl_side c" and ?v = "view s"
  let ?ht = "rt_ht s ?d"
  note pos = inv_positions[OF inv win, of ?d]
  have vs: "v_ht ?v = rt_ht s" "v_res ?v = rt_res s" "v_pub ?v = rt_pub s" "v_begun ?v = rt_begun s" "v_ended ?v = rt_ended s"
    by (simp_all add: view_def)
  have q: "is_rts ?ht" "fst ot = count_at cf ?d k" "k \<le> rt_ended s ?d" "fst h = count_at cf ?d hk" "snd h = pos_at cf hg"
      "hk \<le> rt_begun s ?d" "hg \<le> rt_res s ?d" "hk = rt_begun s ?d \<Longrightarrow> hg = rt_res s ?d"
      "k = rt_ended s ?d \<Longrightarrow> k < hk" "k = rt_ended s ?d \<Longrightarrow> hk = k + 1 \<Longrightarrow> rt_pub s ?d \<le> hg \<and> clear_below ?v ?d t hg"
    using inv_parts(3)[OF inv, of t] pc by (simp_all add: Let_def vs)
  have w: "ht_tail ?ht = pos_at cf (rt_pub s ?d)" "ht_head ?ht = count_at cf ?d (rt_ended s ?d)"
    using inv_parts(2)[OF inv, of ?d] q(1) by (simp_all add: side_ok_def words_ok_def vs)
  show ?thesis
  proof (cases "(ht_head ?ht, ht_tail ?ht) = ot")
    case False
    have "simulates cf s (upd_pc t (TailHead c n g (ht_head ?ht, ht_tail ?ht) (rt_ended s ?d)) s)"
      using pc q(1) w by (intro sim_local[OF inv]) (simp_all add: Let_def vs)
    then show ?thesis using False by (simp add: tail_cas_step_def atomic_compare_exchange_def Let_def)
  next
    case True
    then have "count_at cf ?d (rt_ended s ?d) = count_at cf ?d k" using q(2) w(2) by auto
    then have k: "k = rt_ended s ?d" using q(3) pos(4,5) by (intro pos_word_inj[symmetric]) (auto simp: vs)
    have eq: "fst ot + 1 = fst h \<longleftrightarrow> hk = k + 1"
    proof
      assume "fst ot + 1 = fst h"
      then have "count_at cf ?d (Suc k) = count_at cf ?d hk" using q(2,4) by (simp add: pos_word_Suc)
      then have "Suc k = hk" using q(6) q(9)[OF k] pos(4) by (intro pos_word_inj) (auto simp: vs)
      then show "hk = k + 1" by simp
    qed (use q(2,4) in \<open>simp add: pos_word_Suc\<close>)
    define p where "p = (if hk = k + 1 then hg else rt_pub s ?d)"
    let ?ht' = "?ht\<lparr>ht_head := fst ot + 1, ht_tail := (if hk = k + 1 then snd h else snd ot)\<rparr>"
    have tail: "moves_tail ?ht (pos_at cf p) ?ht'"
      using q(1,5) True w(1) by (auto simp: moves_tail_def p_def)
    have clear: "clear_below ?v ?d t p"
      using q(10)[OF k] inv_iv(1)[OF inv] by (auto simp: p_def clear_below_def vs)
    have last: "p = rt_res s ?d" if "rt_begun s ?d = rt_ended s ?d + 1"
      using that q(6,8) q(9)[OF k] k by (auto simp: p_def)
    have "simulates cf s (return_call t c n g p (upd_ht ?d ?ht' s))"
      using pc tail clear last q(1,7) q(10)[OF k] pos(1) by (intro sim_return[OF inv win geo]) (auto simp: p_def vs)
    then show ?thesis
      using True eq by (auto simp: tail_cas_step_def atomic_compare_exchange_def Let_def p_def)
  qed
qed

lemma sim_load:
  assumes inv: "rt_inv cf s" and pc: "rt_pc s t = Load c \<or> rt_pc s t = Cas c n oh g" and d: "d = cl_side c"
  shows "simulates cf s (upd_pc t (Wait c (head_cell (rt_ht s d)) (rt_res s d)) s)"
    and "\<not> is_hts (rt_ht s d) \<Longrightarrow> simulates cf s (upd_pc t (Check c (head_cell (rt_ht s d)) (rt_res s d)) s)"
    and "simulates cf s (upd_pc t (Load c) s)"
proof -
  have "call_ok c" "user_ok cf (view s) t d" using inv_parts(3)[OF inv, of t] pc d by auto
  moreover have "loaded cf (view s) d (head_cell (rt_ht s d)) (rt_res s d)"
    using inv_parts(2)[OF inv, of d] by (simp add: loaded_def side_ok_def words_ok_def view_def)
  moreover have "hold_of (rt_pc s t) = None" using pc by auto
  ultimately show "simulates cf s (upd_pc t (Wait c (head_cell (rt_ht s d)) (rt_res s d)) s)"
    "\<not> is_hts (rt_ht s d) \<Longrightarrow> simulates cf s (upd_pc t (Check c (head_cell (rt_ht s d)) (rt_res s d)) s)"
    "simulates cf s (upd_pc t (Load c) s)"
    using d by (auto intro!: sim_local[OF inv] simp del: call_ok.simps) (simp add: view_def)
qed

lemma avail_bound:
  assumes inv: "rt_inv cf s" and win: "rt_window cf s" and g: "g \<le> rt_res s d"
  shows "unat (avail_entries cf (rt_ht s) d (pos_at cf g)) = rr_bound (unat (geo_capacity cf)) (rt_pub s) d - g"
proof -
  note pos = inv_positions[OF inv win, of d]
  have w: "ht_tail (rt_ht s d') = pos_at cf (rt_pub s d')" for d'
    using inv_parts(2)[OF inv, of d'] by (simp add: side_ok_def words_ok_def view_def)
  have "avail_entries cf (rt_ht s) d (pos_at cf g) = pos_at cf (rr_bound (unat (geo_capacity cf)) (rt_pub s) d) - pos_at cf g"
    by (cases d) (simp_all add: w pos_word_add_word[symmetric] add.commute)
  then show ?thesis
    using pos(2,6) g by (simp add: view_def pos_word_diff)
qed

lemma sim_check:
  assumes inv: "rt_inv cf s" and win: "rt_window cf s" and pc: "rt_pc s t = Check c oh g"
  shows "simulates cf s (rt_go cf t s)"
proof -
  let ?d = "cl_side c"
  let ?n = "ring_limit (cl_beh c) (cl_num c) (avail_entries cf (rt_ht s) ?d (cell_pos (rt_ht s ?d) oh))"
  have q: "call_ok c" "user_ok cf (view s) t ?d" "loaded cf (view s) ?d oh g" "is_hts (v_ht (view s) ?d) \<longrightarrow> fst oh = snd oh"
    using inv_parts(3)[OF inv, of t] pc by simp_all
  have l: "cell_pos (rt_ht s ?d) oh = pos_at cf g" "g \<le> rt_res s ?d" using q(3) by (simp_all add: loaded_def view_def)
  have "unat ?n \<le> rr_bound (unat (geo_capacity cf)) (rt_pub s) ?d - g"
    using ring_limit_le(2) avail_bound[OF inv win l(2)] l(1) by (metis word_le_nat_alt)
  moreover have "g \<le> rr_bound (unat (geo_capacity cf)) (rt_pub s) ?d"
    using l(2) inv_positions(2)[OF inv win, of ?d] by (simp add: view_def)
  ultimately have "g + unat ?n \<le> rr_bound (unat (geo_capacity cf)) (v_pub (view s)) ?d" by (simp add: view_def)
  then have "simulates cf s (upd_pc t (if ?n = 0 then Idle else Cas c ?n oh g) s)"
    using pc q ring_limit_le(1) by (auto intro!: sim_local[OF inv] simp del: call_ok.simps)
  then show ?thesis using pc by (simp add: rt_go_def Let_def)
qed

lemma sim_cas:
  assumes inv: "rt_inv cf s" and win: "rt_window cf s" and geo: "geo_ok cf" and pc: "rt_pc s t = Cas c n oh g"
  shows "simulates cf s (rt_go cf t s)"
proof (cases "head_move (rt_ht s (cl_side c)) oh n")
  case (Pair success ht)
  show ?thesis
  proof (cases success)
    case True
    then show ?thesis using sim_reserve[OF inv win geo pc] Pair pc by (simp add: rt_go_def Let_def)
  next
    case False
    then show ?thesis
      using sim_load(1,3)[OF inv disjI2[OF pc] refl] Pair pc by (simp add: rt_go_def Let_def)
  qed
qed

lemma copy_index: "unat ((pos_at cf g + of_nat i) AND geo_mask cf) = geo_slot cf (g + i)"
  by (simp add: geo_slot_def slot_def pos_word_add)

lemma sim_copy:
  assumes inv: "rt_inv cf s" and geo: "geo_ok cf" and pc: "rt_pc s t = Copy c n head i g" and i: "i < unat n"
  shows "simulates cf s (copy_step cf t c n head i g s)"
proof -
  have head: "head = pos_at cf g" using inv_parts(3)[OF inv, of t] pc by simp
  have hold: "rr_hold (rt_abs s) t = Some (hold_at c g n i)" using pc by (simp add: rt_abs_def)
  have step: "rr_step (unat (geo_capacity cf)) (geo_slot cf) (rt_abs s) (rt_abs (copy_step cf t c n head i g s))"
  proof (cases "cl_side c")
    case Producer
    have "rr_step (unat (geo_capacity cf)) (geo_slot cf) (rt_abs s)
       ((rt_abs s)\<lparr>rr_mem := (rr_mem (rt_abs s))[geo_slot cf (g + i) := take (unat n) (cl_tab c) ! i],
         rr_hold := (rr_hold (rt_abs s))(t \<mapsto> Hold Producer g (unat n) (i + 1) (take (unat n) (cl_tab c)))\<rparr>)"
      using hold Producer i by (intro store) (simp_all add: hold_at_def)
    then show ?thesis
      using Producer i by (simp add: copy_step_def Let_def head copy_index abs_upd_pc hold_at_def) (simp add: rt_abs_def)
  next
    case Consumer
    have "rr_step (unat (geo_capacity cf)) (geo_slot cf) (rt_abs s)
       ((rt_abs s)\<lparr>rr_hold := (rr_hold (rt_abs s))(t \<mapsto> Hold Consumer g (unat n) (i + 1)
          (cl_tab c @ [rr_mem (rt_abs s) ! geo_slot cf (g + i)]))\<rparr>)"
      using hold Consumer i by (intro fetch) (simp_all add: hold_at_def)
    then show ?thesis
      using Consumer by (simp add: copy_step_def Let_def head copy_index abs_upd_pc hold_at_def) (simp add: rt_abs_def)
  qed
  have v: "view (copy_step cf t c n head i g s) = view s"
    using pc by (cases "cl_side c") (auto simp: copy_step_def Let_def view_def upd_pc_def fun_eq_iff)
  have "rt_inv cf (copy_step cf t c n head i g s)"
    using inv v ring_slots.rr_step_inv[OF step geo inv_parts(1)[OF inv]]
    by (rule inv_same_view[where t = t]) (use head in \<open>auto simp: copy_step_def Let_def split: side.splits\<close>)
  then show ?thesis using step by (simp add: simulates_def)
qed

lemma sim_act:
  assumes inv: "rt_inv cf s" and win: "rt_window cf s" and geo: "geo_ok cf"
  shows "simulates cf s (rt_act cf a s)"
proof (cases a)
  case (Begin t c)
  moreover have "simulates cf s s" using inv by (simp add: simulates_def)
  ultimately show ?thesis
    using sim_local[OF inv, of "Load c" t] by (auto simp: user_ok_def view_def simp del: call_ok.simps)
next
  case (Go t)
  have stay: "simulates cf s s" using inv by (simp add: simulates_def)
  have "simulates cf s (rt_go cf t s)"
  proof (cases "rt_pc s t")
    case Idle
    then show ?thesis using stay by (simp add: rt_go_def)
  next
    case (Load c)
    then show ?thesis using sim_load[OF inv disjI1[OF Load] refl] by (simp add: rt_go_def Let_def)
  next
    case (Wait c oh g)
    then have "simulates cf s (upd_pc t (if head_wait (rt_ht s (cl_side c)) oh then Load c else Check c oh g) s)"
      using inv_parts(3)[OF inv, of t]
      by (auto intro!: sim_local[OF inv] simp: head_wait_def view_def split: rte_ring_sync_type.splits simp del: call_ok.simps)
    then show ?thesis using Wait by (simp add: rt_go_def)
  next
    case (Check c oh g)
    then show ?thesis using sim_check[OF inv win] by blast
  next
    case (Cas c n oh g)
    then show ?thesis using sim_cas[OF inv win geo] by blast
  next
    case (Copy c n head i g)
    moreover have "simulates cf s (upd_pc t (Tail c n head g) s)" if "i = unat n"
      using that Copy inv_parts(3)[OF inv, of t] by (intro sim_local[OF inv]) simp_all
    moreover have "i \<le> unat n"
      using rr_hold_of[OF inv_parts(1)[OF inv], of t] Copy by (simp add: rt_abs_def hold_at_def)
    ultimately show ?thesis using sim_copy[OF inv geo Copy] by (auto simp: rt_go_def)
  next
    case (Tail c n head g)
    then show ?thesis using sim_tail[OF inv win geo Tail] by (simp add: rt_go_def)
  next
    case (TailHead c n g ot k)
    then show ?thesis using sim_tail_head[OF inv win TailHead refl] by (simp add: rt_go_def Let_def)
  next
    case (TailCas c n g ot k h hk hg)
    then show ?thesis using sim_tail_cas[OF inv win geo TailCas] by (simp add: rt_go_def)
  qed
  then show ?thesis using Go by simp
qed

section \<open>Runs\<close>

lemma log_grows: "length (rt_log s) \<le> length (rt_log (rt_act cf a s))"
proof (cases a)
  case (Go t)
  then show ?thesis
    by (cases "rt_pc s t")
       (auto simp: rt_go_def copy_step_def tail_step_def tail_cas_step_def return_call_def reserved_def upd_pc_def upd_ht_def
         Let_def split: prod.splits side.splits sum.splits rte_ring_sync_type.splits)
qed simp

lemma log_grows_run: "length (rt_log s) \<le> length (rt_log (rt_run cf acts s))"
  by (induction acts arbitrary: s) (auto intro: le_trans[OF log_grows])

lemma run_inv:
  assumes "rt_inv cf s" and "geo_ok cf" and "rt_window cf (rt_run cf acts s)"
  shows "rt_inv cf (rt_run cf acts s) \<and>
    (rr_step (unat (geo_capacity cf)) (geo_slot cf))\<^sup>*\<^sup>* (rt_abs s) (rt_abs (rt_run cf acts s))"
  using assms
proof (induction acts arbitrary: s)
  case (Cons a acts)
  have "rt_window cf s"
    using Cons.prems(3) log_grows_run[of s cf "a # acts"] by (simp add: rt_window_def)
  note step = sim_act[OF Cons.prems(1) this Cons.prems(2), of a]
  then have "rt_inv cf (rt_act cf a s)" by (simp add: simulates_def)
  note rest = Cons.IH[OF this Cons.prems(2)]
  from step have "(rr_step (unat (geo_capacity cf)) (geo_slot cf))\<^sup>*\<^sup>* (rt_abs s) (rt_abs (rt_act cf a s))"
    by (auto simp: simulates_def)
  with rest Cons.prems(3) show ?case by auto
qed simp

end
