(* ===== verification/Ring_Threads_Correct.thy ===== *)
theory Ring_Threads_Correct
  imports Ring_Threads_Sim
begin

text \<open>
  The theorems on interleavings, for every run that starts from a ring satisfying the invariant of the
  sequential operations, in any combination of the modes of its two sides.  All of them hold as long as
  fewer than \<open>2^32\<close> less the capacity elements were enqueued, so that no index repeats while a thread sleeps.
\<close>

section \<open>The start\<close>

lemma conf_geo:
  assumes "ring_inv k r"
  shows "geo_ok (ring_conf r sole)"
proof -
  have shape: "ring_shape k r" and cap: "r_capacity r \<le> r_mask r" using assms by (simp_all add: ring_inv_def)
  obtain e where e: "e < 30" "unat (r_size r) = 2 ^ e" "r_mask r = 2 ^ e - 1" using shape by (rule shape_size) blast
  have "unat (r_mask r) = unat (r_size r) - 1"
    using shape e(2) unat_sub[of 1 "r_size r"] by (simp add: ring_shape_def word_le_nat_alt)
  moreover have "0 < (2 :: nat) ^ e" by simp
  ultimately have "unat (r_capacity r) < 2 ^ e" using cap e(2) unfolding word_le_nat_alt by linarith
  with e show ?thesis unfolding geo_ok_def ring_conf_def by (intro exI[of _ e]) simp
qed

lemma start_side:
  assumes "ring_inv k r"
  shows "side_ok (ring_conf r sole) (view (rt_start r mem)) d"
proof -
  have q: "ht_quiet (ring_side r d)" using assms by (cases d) (simp_all add: ring_inv_def)
  have "ht_tail (ring_side r d) = pos_word (ht_tail (r_cons r)) (case d of Producer \<Rightarrow> unat (ring_used r) | Consumer \<Rightarrow> 0)"
    by (cases d) (simp_all add: pos_word_def ring_used_def)
  moreover have "active (view (rt_start r mem)) d = {}" by (simp add: active_def view_def rt_start_def Let_def)
  ultimately show ?thesis
    using q by (auto simp: side_ok_def words_ok_def counts_ok_def mode_ok_def ring_conf_def ht_quiet_def
        cell_pos_def head_cell_def view_def rt_start_def Let_def split: if_splits)
qed

lemma start_abs:
  assumes "ring_inv k r" and "length mem = unat (r_size r)"
  shows "rr_inv (unat (r_capacity r)) (geo_slot (ring_conf r sole)) (unat (r_size r)) (rt_abs (rt_start r mem))"
proof -
  have "unat (ring_used r) \<le> unat (r_capacity r)" using assms(1) by (simp add: ring_inv_def word_le_nat_alt)
  then show ?thesis
    using assms(2) by (auto simp: rr_inv_def rr_bounds_def rr_holds_def rr_disjoint_def rr_stored_def rr_output_def holds_pos_def
        all_side rt_abs_def rt_start_def geo_slot_def ring_conf_def Let_def)
qed

lemma start_inv:
  assumes "ring_inv k r" and "length mem = unat (r_size r)"
  shows "rt_inv (ring_conf r sole) (rt_start r mem)"
proof -
  let ?cf = "ring_conf r sole"
  have "geo_capacity ?cf = r_capacity r" "geo_slots ?cf = unat (r_size r)" by (simp_all add: ring_conf_def)
  moreover have "rt_pc (rt_start r mem) t = Idle" "rt_pos (rt_start r mem) = []" "rt_pub (rt_start r mem) Consumer = 0" for t
    by (simp_all add: rt_start_def Let_def)
  ultimately show ?thesis
    using start_abs[OF assms, of sole] start_side[OF assms(1), of sole mem] by (simp add: rt_inv_def)
qed

text \<open>Runs from a ring at rest, and what is known after them.\<close>

abbreviation run_from :: "rte_ring \<Rightarrow> (side \<Rightarrow> nat) \<Rightarrow> 'a list \<Rightarrow> 'a action list \<Rightarrow> 'a rt" where
  "run_from r sole mem acts \<equiv> rt_run (ring_conf r sole) acts (rt_start r mem)"

lemma run_from_inv:
  assumes "ring_inv k r" and "length mem = unat (r_size r)"
    and "length (rt_log (run_from r sole mem acts)) + unat (r_capacity r) < 2 ^ 32"
  shows "rt_inv (ring_conf r sole) (run_from r sole mem acts)" and "rt_window (ring_conf r sole) (run_from r sole mem acts)"
    and "rr_inv (unat (r_capacity r)) (geo_slot (ring_conf r sole)) (unat (r_size r)) (rt_abs (run_from r sole mem acts))"
    and "(rr_step (unat (r_capacity r)) (geo_slot (ring_conf r sole)))\<^sup>*\<^sup>* (rt_abs (rt_start r mem)) (rt_abs (run_from r sole mem acts))"
proof -
  let ?cf = "ring_conf r sole"
  have c: "geo_capacity ?cf = r_capacity r" "geo_slots ?cf = unat (r_size r)" by (simp_all add: ring_conf_def)
  show w: "rt_window ?cf (run_from r sole mem acts)" using assms(3) by (simp add: rt_window_def c)
  note run = run_inv[OF start_inv[OF assms(1,2)] conf_geo[OF assms(1)] w]
  then show i: "rt_inv ?cf (run_from r sole mem acts)" by blast
  show "rr_inv (unat (r_capacity r)) (geo_slot ?cf) (unat (r_size r)) (rt_abs (run_from r sole mem acts))"
    using inv_parts(1)[OF i] by (simp add: c)
  show "(rr_step (unat (r_capacity r)) (geo_slot ?cf))\<^sup>*\<^sup>* (rt_abs (rt_start r mem)) (rt_abs (run_from r sole mem acts))"
    using run by (simp add: c)
qed

lemma sync_step: "ht_sync_type (rt_ht (rt_act cf a s) d) = ht_sync_type (rt_ht s d)"
proof (cases a)
  case (Go t)
  have m: "ht_sync_type (snd (head_move ht oh n)) = ht_sync_type ht" for ht oh n
    by (simp add: head_move_def Let_def split: rte_ring_sync_type.splits prod.splits)
  then have "head_move ht oh n = (b, ht') \<Longrightarrow> ht_sync_type ht' = ht_sync_type ht" for ht oh n b ht'
    by (metis snd_conv)
  then show ?thesis using Go
    by (cases "rt_pc s t")
       (auto simp: rt_go_def copy_step_def tail_step_def tail_cas_step_def return_call_def reserved_def upd_pc_def upd_ht_def
         update_tail_def hts_update_tail_def Let_def split: prod.splits side.splits sum.splits rte_ring_sync_type.splits if_splits)
qed (simp add: upd_pc_def)

lemma sync_run: "ht_sync_type (rt_ht (rt_run cf acts s) d) = ht_sync_type (rt_ht s d)"
  by (induction acts arbitrary: s) (simp_all add: sync_step)

lemma run_from_sync: "ht_sync_type (rt_ht (run_from r sole mem acts) d) = ht_sync_type (ring_side r d)"
  by (simp add: sync_run) (simp add: rt_start_def Let_def)

fun action_thread :: "'a action \<Rightarrow> nat" where
  "action_thread (Begin t c) = t"
| "action_thread (Go t) = t"

lemma pc_untouched: "t \<noteq> action_thread a \<Longrightarrow> rt_pc (rt_act cf a s) t = rt_pc s t"
proof (cases a)
  case (Go u)
  assume "t \<noteq> action_thread a"
  with Go show ?thesis
    by (cases "rt_pc s u")
       (auto simp: rt_go_def copy_step_def tail_step_def tail_cas_step_def return_call_def reserved_def upd_pc_def upd_ht_def
         Let_def split: prod.splits side.splits sum.splits rte_ring_sync_type.splits)
qed (simp add: upd_pc_def)

lemma pcs_untouched: "t \<notin> action_thread ` set acts \<Longrightarrow> rt_pc (rt_run cf acts s) t = rt_pc s t"
  by (induction acts arbitrary: s) (simp_all add: pc_untouched)

section \<open>Examples\<close>

text \<open>A ring of four slots, capacity three, whose indices are about to wrap around, in any two modes.\<close>

definition demo_ht :: "rte_ring_sync_type \<Rightarrow> rte_ring_headtail" where
  "demo_ht st = \<lparr>ht_head = - 1, ht_tail = - 1, ht_sync_type = st, ht_htd_max = 2, ht_rts_cnt = - 1, ht_rts_pos = - 1\<rparr>"

definition wrap_ring :: "rte_ring_sync_type \<Rightarrow> rte_ring_sync_type \<Rightarrow> rte_ring" where
  "wrap_ring p c = \<lparr>r_name = ''demo'', r_flags = 0, r_memzone = None, r_size = 4, r_mask = 3, r_capacity = 3,
     r_prod = demo_ht p, r_cons = demo_ht c, r_mem = [0, 0, 0, 0]\<rparr>"

lemma wrap_ring_inv: "ring_inv 1 (wrap_ring p c)"
proof -
  have "ht_quiet (demo_ht st)" for st by (simp add: ht_quiet_def demo_ht_def)
  moreover have "RTE_IS_POWER_OF_2 (4 :: u32)" by code_simp
  ultimately show ?thesis
    by (simp add: ring_inv_def ring_shape_def wrap_ring_def ring_used_def) (simp add: demo_ht_def)
qed

definition enq :: "nat list \<Rightarrow> nat call" where
  "enq xs = \<lparr>cl_side = Producer, cl_tab = xs, cl_num = of_nat (length xs), cl_beh = RTE_RING_QUEUE_FIXED\<rparr>"

definition deq :: "u32 \<Rightarrow> nat call" where
  "deq n = \<lparr>cl_side = Consumer, cl_tab = [], cl_num = n, cl_beh = RTE_RING_QUEUE_VARIABLE\<rparr>"

text \<open>Two producers compete for the head and finish in the other order; then two consumers do.\<close>

definition demo_sched :: "nat action list" where
  "demo_sched =
     [Begin 0 (enq [5]), Begin 1 (enq [6, 7]), Go 0, Go 1, Go 0, Go 1, Go 0, Go 1, Go 0, Go 1] @ replicate 14 (Go 1) @
     replicate 8 (Go 0) @ replicate 8 (Go 1) @
     [Begin 2 (deq 1), Begin 3 (deq 5), Go 2, Go 2, Go 2, Go 2] @ replicate 10 (Go 3) @ replicate 8 (Go 2) @ replicate 14 (Go 3)"

definition demo_run :: "rte_ring_sync_type \<Rightarrow> rte_ring_sync_type \<Rightarrow> nat rt" where
  "demo_run p c = run_from (wrap_ring p c) (\<lambda>_. 0) [0, 0, 0, 0] demo_sched"

lemma demo_length: "length [0, 0, 0, 0 :: nat] = unat (r_size (wrap_ring p c))"
  by (simp add: wrap_ring_def)

lemma demo_mixed:
  "rt_log (demo_run RTE_RING_SYNC_MT RTE_RING_SYNC_MT_HTS) = [5, 6, 7]"
  "rt_out (demo_run RTE_RING_SYNC_MT RTE_RING_SYNC_MT_HTS) = [5, 6, 7]"
  by code_simp+

lemma demo_relaxed:
  "rt_log (demo_run RTE_RING_SYNC_MT_RTS RTE_RING_SYNC_MT_RTS) = [5, 6, 7]"
  "rt_out (demo_run RTE_RING_SYNC_MT_RTS RTE_RING_SYNC_MT_RTS) = [6, 7, 5]"
  by code_simp+

section \<open>Order\<close>

lemma out_in_order:
  assumes "rt_inv cf s" and "\<not> is_rts (rt_ht s Consumer)"
  shows "rt_out s = take (rt_pub s Consumer) (rt_log s)"
proof -
  note inv = inv_parts(1)[OF assms(1)]
  have "rt_out s = map ((!) (rt_log s)) [0 ..< rt_pub s Consumer]"
    using rr_output_of(1)[OF inv] inv_parts(4)[OF assms] by (simp add: rt_abs_def)
  moreover have "rt_pub s Consumer \<le> length (rt_log s)"
    using rr_bounds_of(2)[OF inv, of Consumer] rr_res_log[OF inv, of Consumer] by (simp add: rt_abs_def)
  ultimately show ?thesis by (auto intro: nth_equalityI)
qed



section \<open>Slots\<close>

text \<open>Thread \<open>t\<close> has reserved position \<open>j\<close> on side \<open>d\<close> and its call has not ended.\<close>

definition owns :: "'a rt \<Rightarrow> nat \<Rightarrow> side \<Rightarrow> nat \<Rightarrow> bool" where
  "owns s t d j \<longleftrightarrow> covers (hold_of (rt_pc s t)) d j"





section \<open>At rest\<close>

text \<open>The elements between the two tails.\<close>

definition rt_contents :: "rt_conf \<Rightarrow> 'a rt \<Rightarrow> 'a list" where
  "rt_contents cf s = map (\<lambda>j. rt_mem s ! slot (ht_tail (rt_ht s Consumer)) (geo_mask cf) j)
     [0 ..< unat (ht_tail (rt_ht s Producer) - ht_tail (rt_ht s Consumer))]"

lemma rest_published:
  assumes inv: "rt_inv cf s" and win: "rt_window cf s" and rest: "\<And>t. hold_of (rt_pc s t) = None"
  shows "rt_pub s d = rt_res s d" and "ht_quiet (rt_ht s d)"
proof -
  have vs: "v_ht (view s) = rt_ht s" "v_res (view s) = rt_res s" "v_pub (view s) = rt_pub s"
    "v_begun (view s) = rt_begun s" "v_ended (view s) = rt_ended s" "v_iv (view s) = (\<lambda>_. None)"
    using rest by (simp_all add: view_def)
  have "active (view s) d = {}" by (simp add: active_def vs)
  then have c: "rt_begun s d = rt_ended s d" and m: "mode_ok cf (view s) d" and w: "words_ok cf (view s) d"
    using inv_parts(2)[OF inv, of d] by (simp_all add: side_ok_def counts_ok_def vs)
  show p: "rt_pub s d = rt_res s d"
  proof (cases "is_rts (rt_ht s d)")
    case True
    then show ?thesis using m c by (simp add: mode_ok_def vs)
  next
    case False
    then have "\<not> (rt_pub s d \<le> rt_pub s d \<and> rt_pub s d < rt_res s d)" using m by (simp add: mode_ok_def vs)
    then show ?thesis using inv_positions(1)[OF inv win, of d] by (simp add: vs)
  qed
  show "ht_quiet (rt_ht s d)" using w p c by (auto simp: words_ok_def ht_quiet_def cell_pos_def head_cell_def vs split: if_splits)
qed

lemma rest_contents:
  assumes inv: "rt_inv cf s" and win: "rt_window cf s" and rest: "\<And>t. hold_of (rt_pc s t) = None"
  shows "rt_contents cf s = drop (rt_res s Consumer) (rt_log s)"
proof -
  note r = inv_parts(1)[OF inv] and p = rest_published[OF assms]
  note b = rr_bounds_of[OF r, unfolded rt_abs_def, simplified]
  have w: "ht_tail (rt_ht s d) = pos_at cf (rt_res s d)" for d
    using inv_parts(2)[OF inv, of d] p by (simp add: side_ok_def words_ok_def view_def)
  have le: "rt_res s Consumer \<le> rt_res s Producer" using b(4) p by simp
  have "length (rt_log s) < 2 ^ 32" using win by (simp add: rt_window_def)
  then have "unat (ht_tail (rt_ht s Producer) - ht_tail (rt_ht s Consumer)) = rt_res s Producer - rt_res s Consumer"
    using le b(1) by (simp add: w pos_word_diff)
  moreover have "rt_mem s ! slot (ht_tail (rt_ht s Consumer)) (geo_mask cf) j = rt_log s ! (rt_res s Consumer + j)"
    if "j < rt_res s Producer - rt_res s Consumer" for j
  proof -
    have "slot (ht_tail (rt_ht s Consumer)) (geo_mask cf) j = geo_slot cf (rt_res s Consumer + j)"
      by (simp add: slot_def geo_slot_def w pos_word_def add.assoc)
    moreover have "\<not> unwritten (rr_hold (rt_abs s)) (rt_res s Consumer + j)"
      using rest by (simp add: unwritten_def rt_abs_def)
    ultimately show ?thesis
      using r that p by (simp add: rr_inv_def rr_stored_def rt_abs_def)
  qed
  ultimately show ?thesis
    using b(1) by (auto simp: rt_contents_def intro!: nth_equalityI)
qed



end
