(* ===== verification/Ring_Threads_Live.thy ===== *)
theory Ring_Threads_Live
  imports Ring_Threads_Correct
begin

text \<open>
  Progress.  A call that has made its reservation can always be completed: in the RTS mode by its own thread
  alone, in the other modes once the calls before it are.  So no reachable state is a deadlock, and on a
  ring at rest a call of one thread alone completes and does what the sequential operation does.
\<close>

section \<open>Completing a reservation\<close>

abbreviation tail_cell :: "rte_ring_headtail \<Rightarrow> u32 \<times> u32" where
  "tail_cell ht \<equiv> (ht_head ht, ht_tail ht)"

text \<open>How many steps of its thread a reserved call still needs, when it runs alone.\<close>

fun work :: "(side \<Rightarrow> rte_ring_headtail) \<Rightarrow> 'a pc \<Rightarrow> nat" where
  "work hts (Copy c n head i g) = 6 + (unat n - i)"
| "work hts (Tail c n head g) = 5"
| "work hts (TailHead c n g ot k) = (if ot = tail_cell (hts (cl_side c)) then 2 else 4)"
| "work hts (TailCas c n g ot k h hk hg) = (if ot = tail_cell (hts (cl_side c)) then 1 else 3)"
| "work hts _ = 0"

text \<open>No earlier call keeps thread \<open>t\<close> from moving the tail.\<close>

definition tail_ready :: "'a rt \<Rightarrow> nat \<Rightarrow> bool" where
  "tail_ready s t \<longleftrightarrow> (\<forall>d g n. hold_iv (hold_of (rt_pc s t)) = Some (d, g, n) \<longrightarrow> \<not> is_rts (rt_ht s d) \<longrightarrow> rt_pub s d = g)"

lemma return_fields [simp]:
  "rt_pc (return_call t c n g p s) = (rt_pc s)(t := Idle)" "rt_log (return_call t c n g p s) = rt_log s"
  "rt_res (return_call t c n g p s) = rt_res s"
  "rt_pos (return_call t c n g p s) = rt_pos s @ handed_out (cl_side c) [g ..< g + unat n]"
  by (simp_all add: return_call_def upd_pc_def Let_def)

text \<open>What a reserved call leaves alone until it ends, and what it has handed out then.\<close>

definition same_calls :: "'a rt \<Rightarrow> 'a rt \<Rightarrow> nat list \<Rightarrow> bool" where
  "same_calls s s' ps \<longleftrightarrow> rt_log s' = rt_log s \<and> rt_res s' = rt_res s \<and> rt_pos s' = rt_pos s @ ps"

lemma same_calls_trans: "same_calls s s' [] \<Longrightarrow> same_calls s' s'' ps \<Longrightarrow> same_calls s s'' ps"
  by (simp add: same_calls_def)

lemma solo_step:
  assumes inv: "rt_inv cf s" and h: "hold_iv (hold_of (rt_pc s t)) = Some (d, g, n)" and r: "tail_ready s t"
  shows "rt_pc (rt_go cf t s) t = Idle \<and> same_calls s (rt_go cf t s) (handed_out d [g ..< g + n]) \<or>
    same_calls s (rt_go cf t s) [] \<and> hold_iv (hold_of (rt_pc (rt_go cf t s) t)) = Some (d, g, n) \<and> tail_ready (rt_go cf t s) t \<and>
    work (rt_ht (rt_go cf t s)) (rt_pc (rt_go cf t s) t) < work (rt_ht s) (rt_pc s t)"
proof (cases "rt_pc s t")
  case (Copy c m head i g')
  then show ?thesis
    using h r by (cases "cl_side c") (auto simp: rt_go_def copy_step_def tail_ready_def same_calls_def upd_pc_def Let_def)
next
  case (Tail c m head g')
  have "head = pos_at cf g'" using inv_parts(3)[OF inv, of t] Tail by simp
  moreover have "ht_tail (rt_ht s (cl_side c)) = pos_at cf (rt_pub s (cl_side c))"
    using inv_parts(2)[OF inv, of "cl_side c"] by (simp add: side_ok_def words_ok_def view_def)
  ultimately show ?thesis
    using h r Tail by (cases "ht_sync_type (rt_ht s (cl_side c))")
      (auto simp: rt_go_def tail_step_def update_tail_def tail_ready_def same_calls_def upd_pc_def upd_ht_def Let_def)
next
  case (TailHead c m g' ot k)
  then show ?thesis using h r by (auto simp: rt_go_def tail_ready_def same_calls_def upd_pc_def Let_def)
next
  case (TailCas c m g' ot k h' hk hg)
  then show ?thesis
    using h r by (auto simp: rt_go_def tail_cas_step_def atomic_compare_exchange_def tail_ready_def same_calls_def upd_pc_def upd_ht_def Let_def)
qed (use h in auto)

lemma rt_run_append: "rt_run cf (xs @ ys) s = rt_run cf ys (rt_run cf xs s)"
  by (induction xs arbitrary: s) simp_all

lemma go_inv:
  assumes "rt_inv cf s" and "rt_window cf s" and "geo_ok cf"
  shows "rt_inv cf (rt_go cf t s)"
  using sim_act[OF assms, of "Go t"] by (simp add: simulates_def)

lemma solo_finish:
  assumes "rt_inv cf s" and "rt_window cf s" and "geo_ok cf"
    and "hold_iv (hold_of (rt_pc s t)) = Some (d, g, n)" and "tail_ready s t"
  shows "\<exists>m s'. s' = rt_run cf (replicate m (Go t)) s \<and> rt_pc s' t = Idle \<and> same_calls s s' (handed_out d [g ..< g + n])"
  using assms
proof (induction "work (rt_ht s) (rt_pc s t)" arbitrary: s rule: less_induct)
  case less
  let ?s = "rt_go cf t s"
  from solo_step[OF less.prems(1,4,5)] show ?case
  proof (elim disjE conjE)
    assume "rt_pc ?s t = Idle" "same_calls s ?s (handed_out d [g ..< g + n])"
    then show ?thesis by (intro exI[of _ 1] exI[of _ ?s]) simp
  next
    assume same: "same_calls s ?s []" and "hold_iv (hold_of (rt_pc ?s t)) = Some (d, g, n)" "tail_ready ?s t"
      "work (rt_ht ?s) (rt_pc ?s t) < work (rt_ht s) (rt_pc s t)"
    moreover have "rt_window cf ?s" using same less.prems(2) by (simp add: rt_window_def same_calls_def)
    ultimately obtain m s' where "s' = rt_run cf (replicate m (Go t)) ?s" "rt_pc s' t = Idle"
        "same_calls ?s s' (handed_out d [g ..< g + n])"
      using less.hyps go_inv[OF less.prems(1-3)] less.prems(3) by blast
    then show ?thesis using same_calls_trans[OF same] by (intro exI[of _ "Suc m"] exI[of _ s']) simp
  qed
qed

text \<open>Among the threads at work on a side there is always one that is not kept waiting.\<close>

lemma some_tail_ready:
  assumes inv: "rt_inv cf s" and h: "hold_iv (hold_of (rt_pc s t)) = Some (d, g, n)"
  shows "\<exists>u. hold_of (rt_pc s u) \<noteq> None \<and> tail_ready s u"
proof (cases "is_rts (rt_ht s d)")
  case True
  then show ?thesis using h by (intro exI[of _ t]) (auto simp: tail_ready_def iv_Some)
next
  case False
  have vs: "v_iv (view s) u = hold_iv (hold_of (rt_pc s u))" "v_pub (view s) = rt_pub s" "v_res (view s) = rt_res s" "v_ht (view s) = rt_ht s" for u
    by (simp_all add: view_def)
  have iv: "v_iv (view s) t = Some (d, g, n)" using h by (simp add: vs)
  have "rt_pub s d < rt_res s d" using inv_iv[OF inv iv] by (simp add: vs)
  then obtain u g' n' where u: "v_iv (view s) u = Some (d, g', n')" "g' \<le> rt_pub s d"
    using inv_parts(2)[OF inv, of d] False by (auto simp: side_ok_def mode_ok_def vs)
  then have "g' = rt_pub s d" using inv_iv(1)[OF inv u(1)] by (simp add: vs)
  then have "tail_ready s u" using u(1) by (simp add: tail_ready_def vs)
  moreover have "hold_of (rt_pc s u) \<noteq> None" using u(1) by (auto simp: vs iv_Some)
  ultimately show ?thesis by blast
qed

definition holders :: "'a rt \<Rightarrow> nat set" where
  "holders s = {t. hold_of (rt_pc s t) \<noteq> None}"

lemma holders_finite:
  assumes "rt_inv cf s"
  shows "finite (holders s)"
proof -
  have "finite (active (view s) d)" for d using inv_parts(2)[OF assms, of d] by (simp add: side_ok_def counts_ok_def)
  moreover have "holders s \<subseteq> active (view s) Producer \<union> active (view s) Consumer"
  proof
    fix t assume "t \<in> holders s"
    then obtain d g n i xs where "hold_of (rt_pc s t) = Some (Hold d g n i xs)"
      unfolding holders_def by (metis (mono_tags, lifting) hold.exhaust mem_Collect_eq option.exhaust)
    then show "t \<in> active (view s) Producer \<union> active (view s) Consumer"
      by (cases d) (auto simp: active_def view_def)
  qed
  ultimately show ?thesis by (meson finite_UnI finite_subset)
qed

lemma solo_others: "u \<noteq> t \<Longrightarrow> rt_pc (rt_run cf (replicate m (Go t)) s) u = rt_pc s u"
  by (rule pcs_untouched) auto

lemma drain:
  assumes "rt_inv cf s" and "rt_window cf s" and "geo_ok cf"
  shows "\<exists>ts. set ts \<subseteq> holders s \<and> holders (rt_run cf (map Go ts) s) = {} \<and> rt_log (rt_run cf (map Go ts) s) = rt_log s"
  using assms
proof (induction "card (holders s)" arbitrary: s rule: less_induct)
  case less
  show ?case
  proof (cases "holders s = {}")
    case True
    then show ?thesis by (intro exI[of _ "[]"]) simp
  next
    case False
    then obtain t h where "hold_of (rt_pc s t) = Some h" by (auto simp: holders_def)
    then obtain u where u: "hold_of (rt_pc s u) \<noteq> None" "tail_ready s u"
      using some_tail_ready[OF less.prems(1), of t] by (cases h) auto
    then obtain d g n where "hold_iv (hold_of (rt_pc s u)) = Some (d, g, n)"
      by (cases "hold_of (rt_pc s u)" rule: hold_iv.cases) auto
    then obtain m where m: "rt_pc (rt_run cf (replicate m (Go u)) s) u = Idle" "rt_log (rt_run cf (replicate m (Go u)) s) = rt_log s"
      using solo_finish[OF less.prems _ u(2)] unfolding same_calls_def by blast
    let ?s = "rt_run cf (replicate m (Go u)) s"
    have win: "rt_window cf ?s" using m(2) less.prems(2) by (simp add: rt_window_def)
    have inv: "rt_inv cf ?s" using run_inv[OF less.prems(1,3) win] by blast
    have hs: "holders ?s = holders s - {u}"
    proof (rule set_eqI)
      fix v show "v \<in> holders ?s \<longleftrightarrow> v \<in> holders s - {u}"
        using m(1) solo_others[of v u cf m s] by (cases "v = u") (auto simp: holders_def)
    qed
    have "card (holders ?s) < card (holders s)"
      unfolding hs using holders_finite[OF less.prems(1)] u(1) by (intro card_Diff1_less) (simp_all add: holders_def)
    then obtain ts where "set ts \<subseteq> holders ?s" "holders (rt_run cf (map Go ts) ?s) = {}" "rt_log (rt_run cf (map Go ts) ?s) = rt_log ?s"
      using less.hyps inv win less.prems(3) by blast
    then show ?thesis
      using m(2) hs u(1) by (intro exI[of _ "replicate m u @ ts"]) (auto simp: rt_run_append holders_def map_replicate)
  qed
qed



section \<open>A call on a ring at rest\<close>

lemma upd_pc_twice: "upd_pc t p (upd_pc t q s) = upd_pc t p s"
  by (simp add: upd_pc_def)

lemma solo_to_check:
  assumes q: "ht_quiet (rt_ht s (cl_side c))"
  shows "\<exists>m. rt_run cf (replicate m (Go t)) (upd_pc t (Load c) s) =
    upd_pc t (Check c (head_cell (rt_ht s (cl_side c))) (rt_res s (cl_side c))) s"
proof -
  let ?ht = "rt_ht s (cl_side c)" and ?g = "rt_res s (cl_side c)"
  have load: "rt_go cf t (upd_pc t (Load c) s) =
      upd_pc t (if is_rts ?ht \<or> is_hts ?ht then Wait c (head_cell ?ht) ?g else Check c (head_cell ?ht) ?g) s"
    by (simp add: rt_go_def Let_def upd_pc_def)
  have "\<not> head_wait ?ht (head_cell ?ht)"
    using q by (auto simp: head_wait_def head_cell_def ht_quiet_def split: rte_ring_sync_type.splits)
  then have wait: "rt_go cf t (upd_pc t (Wait c (head_cell ?ht) ?g) s) = upd_pc t (Check c (head_cell ?ht) ?g) s"
    by (simp add: rt_go_def) (simp add: upd_pc_def)
  show ?thesis
  proof (cases "is_rts ?ht \<or> is_hts ?ht")
    case True
    then show ?thesis using load wait by (intro exI[of _ 2]) (simp add: numeral_2_eq_2)
  next
    case False
    then show ?thesis using load by (intro exI[of _ 1]) simp
  qed
qed

lemma head_move_current: "\<exists>ht'. head_move ht (head_cell ht) n = (True, ht')"
  by (cases "ht_sync_type ht")
     (auto simp: head_move_def head_cell_def rte_atomic32_cmpset_eq atomic_compare_exchange_def Let_def)

text \<open>The number of entries a call may take when the ring is at rest.\<close>

definition rest_avail :: "rt_conf \<Rightarrow> 'a rt \<Rightarrow> side \<Rightarrow> nat" where
  "rest_avail cf s d = (case d of Producer \<Rightarrow> unat (geo_capacity cf) - length (rt_contents cf s) | Consumer \<Rightarrow> length (rt_contents cf s))"

lemma avail_at_rest:
  assumes inv: "rt_inv cf s" and win: "rt_window cf s" and rest: "\<And>t. hold_of (rt_pc s t) = None"
  shows "avail_entries cf (rt_ht s) d (cell_pos (rt_ht s d) (head_cell (rt_ht s d))) = of_nat (rest_avail cf s d)"
proof -
  note p = rest_published(1)[OF inv win rest] and b = rr_bounds_of[OF inv_parts(1)[OF inv], unfolded rt_abs_def, simplified]
  have len: "length (rt_contents cf s) = rt_res s Producer - rt_res s Consumer"
    using rest_contents[OF inv win rest] b(1) by simp
  have "cell_pos (rt_ht s d) (head_cell (rt_ht s d)) = pos_at cf (rt_res s d)"
    using inv_parts(2)[OF inv, of d] by (simp add: side_ok_def words_ok_def view_def)
  moreover have "unat (avail_entries cf (rt_ht s) d (pos_at cf (rt_res s d))) = rest_avail cf s d"
    using avail_bound[OF inv win order_refl, of d] p[of Producer] p[of Consumer] b(3,4) len by (cases d) (auto simp: rest_avail_def)
  ultimately have u: "unat (avail_entries cf (rt_ht s) d (cell_pos (rt_ht s d) (head_cell (rt_ht s d)))) = rest_avail cf s d" by simp
  show ?thesis by (simp flip: u)
qed

lemma run_keeps:
  assumes "rt_inv cf s" and "geo_ok cf" and "s' = rt_run cf acts s" and "length (rt_log s') + unat (geo_capacity cf) < 2 ^ 32"
  shows "rt_inv cf s'" and "rt_window cf s'"
  using run_inv[OF assms(1,2), of acts] assms(3,4) by (simp_all add: rt_window_def)

text \<open>After a reservation of \<open>n\<close> positions on a ring at rest, and the steps that complete it.\<close>

lemma solo_complete:
  assumes inv: "rt_inv cf s" and win: "rt_window cf s" and geo: "geo_ok cf" and rest: "\<And>u. hold_of (rt_pc s u) = None"
    and pc: "rt_pc s t = Cas c n (head_cell (rt_ht s (cl_side c))) (rt_res s (cl_side c))"
    and big: "length (rt_log s) + unat (cl_num c) + unat (geo_capacity cf) < 2 ^ 32"
  shows "\<exists>m s'. s' = rt_run cf (replicate m (Go t)) s \<and> rt_pc s' t = Idle \<and>
    rt_log s' = rt_log s @ (case cl_side c of Producer \<Rightarrow> take (unat n) (cl_tab c) | Consumer \<Rightarrow> []) \<and>
    rt_res s' = (rt_res s)(cl_side c := rt_res s (cl_side c) + unat n) \<and>
    rt_pos s' = rt_pos s @ handed_out (cl_side c) [rt_res s (cl_side c) ..< rt_res s (cl_side c) + unat n]"
proof -
  let ?d = "cl_side c" and ?ht = "rt_ht s (cl_side c)"
  let ?g = "rt_res s ?d"
  obtain ht' where mv: "head_move ?ht (head_cell ?ht) n = (True, ht')" using head_move_current by blast
  let ?s = "upd_pc t (Copy c n (cell_pos ?ht (head_cell ?ht)) 0 ?g) (reserved c n (upd_ht ?d ht' s))"
  have go: "rt_go cf t s = ?s" using pc mv by (simp add: rt_go_def Let_def)
  have f: "rt_log ?s = rt_log s @ (case ?d of Producer \<Rightarrow> take (unat n) (cl_tab c) | Consumer \<Rightarrow> [])"
    "rt_res ?s = (rt_res s)(?d := ?g + unat n)" "rt_pos ?s = rt_pos s" "rt_pub ?s = rt_pub s"
    by (simp_all add: reserved_def upd_ht_def upd_pc_def Let_def)
  have "unat n \<le> unat (cl_num c)" using inv_parts(3)[OF inv, of t] pc by (simp add: word_le_nat_alt)
  then have "length (rt_log ?s) + unat (geo_capacity cf) < 2 ^ 32" using big f(1) by (cases ?d) auto
  moreover have "?s = rt_run cf [Go t] s" using go by simp
  ultimately have s: "rt_inv cf ?s" "rt_window cf ?s" using run_keeps[OF inv geo] by blast+
  have h: "hold_iv (hold_of (rt_pc ?s t)) = Some (?d, ?g, unat n)" by simp
  moreover have "tail_ready ?s t" using f(4) rest_published(1)[OF inv win rest] h by (simp add: tail_ready_def)
  ultimately obtain m s' where "s' = rt_run cf (replicate m (Go t)) ?s" "rt_pc s' t = Idle"
      "same_calls ?s s' (handed_out ?d [?g ..< ?g + unat n])"
    using solo_finish[OF s geo] by blast
  then show ?thesis using f go by (intro exI[of _ "Suc m"] exI[of _ s']) (simp add: same_calls_def)
qed

lemma solo_call:
  assumes inv: "rt_inv cf s" and win: "rt_window cf s" and geo: "geo_ok cf" and rest: "\<And>u. hold_of (rt_pc s u) = None"
    and t: "rt_pc s t = Idle" and c: "call_ok c" and sole: "is_st (rt_ht s (cl_side c)) \<Longrightarrow> t = cf_sole cf (cl_side c)"
    and big: "length (rt_log s) + unat (cl_num c) + unat (geo_capacity cf) < 2 ^ 32"
    and n: "n = unat (ring_limit (cl_beh c) (cl_num c) (of_nat (rest_avail cf s (cl_side c))))"
  shows "\<exists>m s'. s' = rt_run cf (Begin t c # replicate m (Go t)) s \<and> rt_pc s' = rt_pc s \<and>
    rt_contents cf s' = (case cl_side c of Producer \<Rightarrow> rt_contents cf s @ take n (cl_tab c) | Consumer \<Rightarrow> drop n (rt_contents cf s)) \<and>
    rt_out s' = rt_out s @ handed_out (cl_side c) (take n (rt_contents cf s))"
proof -
  let ?d = "cl_side c" and ?r = "rt_res s (cl_side c)"
  let ?n = "ring_limit (cl_beh c) (cl_num c) (of_nat (rest_avail cf s ?d))"
  let ?load = "upd_pc t (Load c) s" and ?check = "upd_pc t (Check c (head_cell (rt_ht s ?d)) ?r) s"
    and ?next = "upd_pc t (if ?n = 0 then Idle else Cas c ?n (head_cell (rt_ht s ?d)) ?r) s"
  have start: "rt_act cf (Begin t c) s = ?load" using t c sole by (simp del: call_ok.simps)
  obtain m1 where m1: "rt_run cf (replicate m1 (Go t)) ?load = ?check"
    using solo_to_check[of s c cf t] rest_published(2)[OF inv win rest] by blast
  have check: "rt_go cf t ?check = ?next"
    using avail_at_rest[OF inv win rest, of ?d] by (simp add: rt_go_def Let_def) (simp add: upd_pc_def)
  have to_next: "?next = rt_run cf (Begin t c # replicate (m1 + 1) (Go t)) s"
    using start m1 check rt_run_append[of cf "replicate m1 (Go t)" "[Go t]" ?load] by (simp add: replicate_append_same)
  have nx: "rt_inv cf ?next" "rt_window cf ?next" using run_keeps[OF inv geo to_next] win by (simp_all add: rt_window_def)
  have rest': "hold_of (rt_pc ?next u) = None" for u using rest by simp
  have old: "rt_contents cf ?next = rt_contents cf s" "rt_res ?next = rt_res s" "rt_out ?next = rt_out s"
    by (simp_all add: rt_contents_def upd_pc_def)
  have cont: "rt_contents cf s = drop (rt_res s Consumer) (rt_log s)" by (rule rest_contents[OF inv win rest])
  show ?thesis
  proof (cases "?n = 0")
    case True
    then have "rt_pc ?next = rt_pc s" using t by (simp add: fun_upd_idem)
    moreover have "n = 0" using True n by simp
    ultimately have "rt_pc ?next = rt_pc s \<and> rt_contents cf ?next = (case ?d of Producer \<Rightarrow> rt_contents cf s @ take n (cl_tab c) |
        Consumer \<Rightarrow> drop n (rt_contents cf s)) \<and> rt_out ?next = rt_out s @ handed_out ?d (take n (rt_contents cf s))"
      using old by (cases ?d) simp_all
    with to_next show ?thesis by blast
  next
    case False
    then have pc: "rt_pc ?next t = Cas c ?n (head_cell (rt_ht ?next ?d)) (rt_res ?next ?d)" using old by simp
    have "length (rt_log ?next) + unat (cl_num c) + unat (geo_capacity cf) < 2 ^ 32" using big by simp
    from solo_complete[OF nx geo rest' pc this] obtain m2 s' where s': "s' = rt_run cf (replicate m2 (Go t)) ?next"
        "rt_pc s' t = Idle" "rt_log s' = rt_log s @ (case ?d of Producer \<Rightarrow> take n (cl_tab c) | Consumer \<Rightarrow> [])"
        "rt_res s' = (rt_res s)(?d := ?r + n)" "rt_pos s' = rt_pos s @ handed_out ?d [?r ..< ?r + n]"
      unfolding n using old by auto
    have "n \<le> unat (cl_num c)" using n ring_limit_le(1) by (simp add: word_le_nat_alt)
    moreover have "length (rt_log s') \<le> length (rt_log s) + n" using s'(3) by (cases ?d) simp_all
    ultimately have "length (rt_log s') + unat (geo_capacity cf) < 2 ^ 32" using big by linarith
    note fin = run_keeps[OF nx(1) geo s'(1) this]
    have pcs: "rt_pc s' = rt_pc s"
    proof
      fix u show "rt_pc s' u = rt_pc s u"
        using s'(1,2) t solo_others[of u t cf m2 ?next] by (cases "u = t") auto
    qed
    then have "rt_contents cf s' = drop (rt_res s' Consumer) (rt_log s')" using rest by (intro rest_contents[OF fin]) simp
    moreover have b: "rt_res s Consumer \<le> length (rt_log s)" "rt_res s' Consumer \<le> length (rt_log s')"
      using rr_res_log[OF inv_parts(1)[OF inv], of Consumer] rr_res_log[OF inv_parts(1)[OF fin(1)], of Consumer] by (simp_all add: rt_abs_def)
    moreover have "rt_out s' = rt_out s @ handed_out ?d (take n (rt_contents cf s))"
    proof -
      have "rt_out s' = map ((!) (rt_log s')) (rt_pos s')" "rt_out s = map ((!) (rt_log s')) (rt_pos s)"
        using rr_output_of(1)[OF inv_parts(1)[OF fin(1)]] output_append[OF inv_parts(1)[OF inv]] s'(3) by (simp_all add: rt_abs_def)
      then show ?thesis
        using s'(3-5) b cont by (cases ?d) (auto intro!: nth_equalityI)
    qed
    ultimately have "rt_contents cf s' = (case ?d of Producer \<Rightarrow> rt_contents cf s @ take n (cl_tab c) | Consumer \<Rightarrow> drop n (rt_contents cf s)) \<and>
        rt_out s' = rt_out s @ handed_out ?d (take n (rt_contents cf s))"
      using s'(3,4) cont by (cases ?d) (simp_all add: add.commute)
    moreover have "s' = rt_run cf (Begin t c # replicate (m1 + 1 + m2) (Go t)) s"
      unfolding s'(1) to_next replicate_add append_Cons[symmetric] rt_run_append ..
    ultimately show ?thesis using pcs by blast
  qed
qed

text \<open>C7: On a ring at rest, in every mode, a call by one thread alone completes, and it does what the sequential operation
  does: it takes as many of the wanted elements as the behaviour allows, an enqueue appends them to the contents, a dequeue
  removes them from the front and hands them out.\<close>

theorem solo_call_is_sequential:
  assumes "ring_inv k r" and "length mem = unat (r_size r)" and "s = rt_run (ring_conf r sole) acts (rt_start r mem)"
    and "length (rt_log s) + unat (cl_num c) + unat (r_capacity r) < 2 ^ 32"
    and "rt_pc s = (\<lambda>u. Idle)" and "call_ok c"
    and "ht_sync_type (ring_side r (cl_side c)) \<noteq> RTE_RING_SYNC_ST \<or> t = sole (cl_side c)"
    and "n = unat (ring_limit (cl_beh c) (cl_num c) (of_nat (rest_avail (ring_conf r sole) s (cl_side c))))"
  shows "\<exists>m s'. s' = rt_run (ring_conf r sole) (Begin t c # replicate m (Go t)) s \<and> rt_pc s' = (\<lambda>u. Idle) \<and>
    rt_contents (ring_conf r sole) s' =
      (case cl_side c of Producer \<Rightarrow> rt_contents (ring_conf r sole) s @ take n (cl_tab c)
       | Consumer \<Rightarrow> drop n (rt_contents (ring_conf r sole) s)) \<and>
    rt_out s' = rt_out s @ handed_out (cl_side c) (take n (rt_contents (ring_conf r sole) s))"
proof -
  let ?cf = "ring_conf r sole"
  have c: "geo_capacity ?cf = r_capacity r" "cf_sole ?cf = sole" by (simp_all add: ring_conf_def)
  have "length (rt_log (run_from r sole mem acts)) + unat (r_capacity r) < 2 ^ 32" using assms(3,4) by simp
  note run = run_from_inv[OF assms(1,2) this, folded assms(3)]
  have sync: "ht_sync_type (rt_ht s d) = ht_sync_type (ring_side r d)" for d
    unfolding assms(3) by (rule run_from_sync)
  have "is_st (rt_ht s (cl_side c)) \<Longrightarrow> t = cf_sole ?cf (cl_side c)" using assms(7) by (simp add: sync c)
  from solo_call[OF run(1,2) conf_geo[OF assms(1)] _ _ assms(6) this _ assms(8)] assms(4,5) show ?thesis
    by (simp add: c)
qed

theorem solo_call_is_sequential_witness:
  "\<exists>m s'. s' = rt_run (ring_conf (wrap_ring RTE_RING_SYNC_MT_HTS RTE_RING_SYNC_ST) (\<lambda>_. 1)) (Begin 1 (enq [8, 9]) # replicate m (Go 1))
      (rt_start (wrap_ring RTE_RING_SYNC_MT_HTS RTE_RING_SYNC_ST) [0, 0, 0, 0]) \<and>
    rt_contents (ring_conf (wrap_ring RTE_RING_SYNC_MT_HTS RTE_RING_SYNC_ST) (\<lambda>_. 1)) s' = [8, 9]"
proof -
  let ?r = "wrap_ring RTE_RING_SYNC_MT_HTS RTE_RING_SYNC_ST"
  let ?cf = "ring_conf ?r (\<lambda>_. 1)" and ?s = "rt_start ?r [0, 0, 0, 0 :: nat]"
  have a: "?s = rt_run ?cf [] ?s" by simp
  have b: "length (rt_log ?s) + unat (cl_num (enq [8, 9])) + unat (r_capacity ?r) < 2 ^ 32"
    by (simp add: rt_start_def enq_def wrap_ring_def demo_ht_def ring_used_def Let_def)
  have i: "rt_pc ?s = (\<lambda>u. Idle)" by (simp add: rt_start_def Let_def)
  have ok: "call_ok (enq [8, 9])" by code_simp
  have st: "ht_sync_type (ring_side ?r (cl_side (enq [8, 9]))) \<noteq> RTE_RING_SYNC_ST \<or> 1 = (\<lambda>_. 1 :: nat) (cl_side (enq [8, 9]))" by simp
  have n: "2 = unat (ring_limit (cl_beh (enq [8, 9])) (cl_num (enq [8, 9])) (of_nat (rest_avail ?cf ?s (cl_side (enq [8, 9])))))"
    by code_simp
  have e: "cl_side (enq [8, 9]) = Producer" "rt_contents ?cf ?s @ take 2 (cl_tab (enq [8, 9])) = [8, 9]" by code_simp+
  from solo_call_is_sequential[OF wrap_ring_inv demo_length a b i ok st n] show ?thesis by (simp only: e side.case) blast
qed

end
