(* ===== verification/Common_Correct.thy ===== *)
theory Common_Correct
  imports Rte_Common
begin

text \<open>Correctness of the power-of-two and alignment functions of \<^verbatim>\<open>rte_common.h\<close>.\<close>

text \<open>rte_align32pow2 rounds up to the least power of two not below its argument, for arguments from
  1 to 2^31; above 2^31 the next power of two does not fit and the result is 0.\<close>

theorem align32pow2_least:
  assumes "x \<noteq> 0"
  shows "(x \<le> 2 ^ 31 \<longrightarrow> rte_is_power_of_2 (rte_align32pow2 x) \<and> x \<le> rte_align32pow2 x \<and>
      (\<forall>y. rte_is_power_of_2 y \<and> x \<le> y \<longrightarrow> rte_align32pow2 x \<le> y)) \<and>
    (2 ^ 31 < x \<longrightarrow> rte_align32pow2 x = 0)"
proof -
  have pow: "rte_is_power_of_2 y \<longleftrightarrow> (\<exists>k < 32. y = 2 ^ k)" for y :: u32
    using and_decr_eq_0_iff[of y] by (auto simp: rte_is_power_of_2_def and.commute[of y])
  have "rte_is_power_of_2 (rte_align32pow2 x) \<and> x \<le> rte_align32pow2 x \<and>
      (\<forall>y. rte_is_power_of_2 y \<and> x \<le> y \<longrightarrow> rte_align32pow2 x \<le> y)" if le: "x \<le> 2 ^ 31"
  proof -
    obtain n where n: "n < 32" "rte_align32pow2 x = 2 ^ n" "unat x \<le> 2 ^ n"
        "\<forall>m. unat x \<le> 2 ^ m \<longrightarrow> n \<le> m"
      using align32pow2_word[OF assms le] by blast
    have "(2 ^ n :: u32) \<le> y" if p: "rte_is_power_of_2 y" and xy: "x \<le> y" for y
    proof -
      obtain m where "m < 32" "y = 2 ^ m" using p pow by blast
      with xy n show ?thesis by (simp add: word_le_nat_alt)
    qed
    moreover have "rte_is_power_of_2 (2 ^ n :: u32)" using n(1) pow by blast
    moreover have "x \<le> 2 ^ n" using n(1,3) by (simp add: word_le_nat_alt)
    ultimately show ?thesis unfolding n(2) by blast
  qed
  then show ?thesis using align32pow2_overflow by blast
qed

theorem align32pow2_least_witness: "rte_is_power_of_2 (rte_align32pow2 5) \<and> rte_align32pow2 5 = 8"
proof
  have "(5 :: u32) \<noteq> 0" "(5 :: u32) \<le> 2 ^ 31" by simp_all
  with align32pow2_least show "rte_is_power_of_2 (rte_align32pow2 5)" by blast
  show "rte_align32pow2 5 = 8" by code_simp
qed

text \<open>rte_log2_u32 returns the rounded-up binary logarithm of arguments up to 2^31; for larger ones it
  calls the bit search with 0, which is undefined.\<close>

theorem log2_u32_rounds_up:
  assumes "v \<noteq> 0"
  shows "(v \<le> 2 ^ 31 \<longrightarrow> (\<exists>n < 32. rte_log2_u32 v = Inr (of_nat n) \<and> unat v \<le> 2 ^ n \<and>
      (\<forall>m. unat v \<le> 2 ^ m \<longrightarrow> n \<le> m))) \<and>
    (2 ^ 31 < v \<longrightarrow> rte_log2_u32 v = Inl Undefined)"
proof -
  have "\<exists>n < 32. rte_log2_u32 v = Inr (of_nat n) \<and> unat v \<le> 2 ^ n \<and> (\<forall>m. unat v \<le> 2 ^ m \<longrightarrow> n \<le> m)"
    if le: "v \<le> 2 ^ 31"
  proof -
    obtain n where n: "n < 32" "rte_align32pow2 v = 2 ^ n" "unat v \<le> 2 ^ n"
        "\<forall>m. unat v \<le> 2 ^ m \<longrightarrow> n \<le> m"
      using align32pow2_word[OF assms le] by blast
    then show ?thesis
      using builtin_ctz_exp[of n, where 'a = 32] assms by (auto simp: rte_log2_u32_def rte_bsf32_def)
  qed
  moreover have "rte_log2_u32 v = Inl Undefined" if "2 ^ 31 < v"
    using align32pow2_overflow[OF that] assms
    by (simp add: rte_log2_u32_def rte_bsf32_def builtin_ctz_def)
  ultimately show ?thesis by blast
qed

theorem log2_u32_rounds_up_witness: "rte_log2_u32 (2 ^ 31 + 1) = Inl Undefined"
  using log2_u32_rounds_up[of "2 ^ 31 + 1"] by simp

text \<open>Aligning to a power of two goes to the nearest multiple below or above, as long as the
  addition does not wrap.\<close>

theorem align_to_power_of_two:
  assumes "a < LENGTH('a)" and "unat x + 2 ^ a \<le> 2 ^ LENGTH('a)"
  shows "unat (RTE_ALIGN_FLOOR (x :: 'a::len word) (2 ^ a)) = unat x div 2 ^ a * 2 ^ a \<and>
    unat (RTE_ALIGN_CEIL x (2 ^ a)) = (unat x + (2 ^ a - 1)) div 2 ^ a * 2 ^ a"
proof -
  have pos: "(0::nat) < 2 ^ a" by simp
  have one: "unat (2 ^ a - 1 :: 'a word) = 2 ^ a - 1" using assms(1) by (simp add: unat_minus_one)
  have "unat x + unat (2 ^ a - 1 :: 'a word) < 2 ^ LENGTH('a)"
    unfolding one using assms(2) pos by linarith
  then have "unat (x + (2 ^ a - 1)) = unat x + (2 ^ a - 1)" by (simp add: unat_add_no_wrap one)
  then show ?thesis by (simp add: RTE_ALIGN_CEIL_def unat_align_floor minus_mod_eq_div_mult)
qed

theorem align_to_power_of_two_witness: "unat (RTE_ALIGN_CEIL (100 :: u32) (2 ^ 6)) = 128"
  using align_to_power_of_two[of 6 "100 :: u32"] by simp

end
