(* ===== verification/Lock_Protocol.thy ===== *)
theory Lock_Protocol
  imports Prelude
begin

text \<open>
  Two contracts of locks.

  \<open>lock_protocol\<close> is about interleavings: a step relation on the states of all threads, the
  threads that read and write under the lock in a state, and an invariant that every step keeps
  and that makes writers exclusive.  From it follows exclusion in every reachable state.

  \<open>simple_lock\<close> is about calls of one thread at a time: taking a free lock succeeds, taking a
  held one spins, releasing makes it free.  A recursive lock is built from such a lock, an owner
  and a counter, and the lemmas on nested calls are proved once for every simple lock.
\<close>

section \<open>Reachable states\<close>

inductive reach :: "('s \<Rightarrow> bool) \<Rightarrow> ('s \<Rightarrow> 's \<Rightarrow> bool) \<Rightarrow> 's \<Rightarrow> bool" for start step where
  reach_start: "start s \<Longrightarrow> reach start step s"
| reach_step: "reach start step s \<Longrightarrow> step s s' \<Longrightarrow> reach start step s'"

lemma reach_guard:
  assumes P and "reach start step s"
  shows "reach start (\<lambda>s s'. P \<and> step s s') s"
  using assms(2) by (induction rule: reach.induct) (auto intro: reach.intros assms(1))

locale lock_protocol =
  fixes start :: "'s \<Rightarrow> bool"
    and step :: "'s \<Rightarrow> 's \<Rightarrow> bool"
    and inv :: "'s \<Rightarrow> bool"
    and reads :: "'s \<Rightarrow> nat \<Rightarrow> bool"
    and writes :: "'s \<Rightarrow> nat \<Rightarrow> bool"
  assumes inv_start: "start s \<Longrightarrow> inv s"
    and inv_step: "inv s \<Longrightarrow> step s s' \<Longrightarrow> inv s'"
    and inv_exclusive: "inv s \<Longrightarrow> writes s t \<Longrightarrow> t' \<noteq> t \<Longrightarrow> \<not> reads s t' \<and> \<not> writes s t'"
begin

lemma reach_inv: "reach start step s \<Longrightarrow> inv s"
  by (induction rule: reach.induct) (auto intro: inv_start inv_step)

lemma exclusive:
  assumes "reach start step s" and "writes s t" and "reads s t' \<or> writes s t'"
  shows "t' = t"
  using inv_exclusive[OF reach_inv[OF assms(1)] assms(2)] assms(3) by blast

end

section \<open>Recursive locks\<close>

locale simple_lock =
  fixes lock :: "'l \<Rightarrow> 'l cres"
    and unlock :: "'l \<Rightarrow> 'l"
    and trylock :: "'l \<Rightarrow> bool \<times> 'l"
    and free :: "'l \<Rightarrow> bool"
  assumes lock_free: "free l \<Longrightarrow> \<exists>l'. lock l = Inr l' \<and> \<not> free l' \<and> trylock l = (True, l')"
    and lock_held: "\<not> free l \<Longrightarrow> lock l = Inl Spins \<and> trylock l = (False, l)"
    and unlock_locked: "free l \<Longrightarrow> lock l = Inr l' \<Longrightarrow> free (unlock l')"

text \<open>The recursive lock around a simple lock: owner and counter, as both C structures have them.\<close>

record 'l rlock =
  rl_lock :: 'l
  rl_user :: "32 word"
  rl_count :: "32 word"

definition rlock_lock :: "('l \<Rightarrow> 'l cres) \<Rightarrow> 32 word \<Rightarrow> 'l rlock \<Rightarrow> 'l rlock cres" where
  "rlock_lock lock me r =
     bindc (if rl_user r \<noteq> me then bindc (lock (rl_lock r)) (\<lambda>l. Inr (r\<lparr>rl_lock := l, rl_user := me\<rparr>)) else Inr r)
       (\<lambda>r. Inr (r\<lparr>rl_count := rl_count r + 1\<rparr>))"

definition rlock_unlock :: "('l \<Rightarrow> 'l) \<Rightarrow> 'l rlock \<Rightarrow> 'l rlock" where
  "rlock_unlock unlock r =
     (let r = r\<lparr>rl_count := rl_count r - 1\<rparr>
      in if rl_count r = 0 then r\<lparr>rl_user := - 1, rl_lock := unlock (rl_lock r)\<rparr> else r)"

definition rlock_trylock :: "('l \<Rightarrow> bool \<times> 'l) \<Rightarrow> 32 word \<Rightarrow> 'l rlock \<Rightarrow> bool \<times> 'l rlock" where
  "rlock_trylock trylock me r =
     (if rl_user r \<noteq> me
      then let (ok, l) = trylock (rl_lock r)
           in if ok then (True, r\<lparr>rl_lock := l, rl_user := me, rl_count := rl_count r + 1\<rparr>)
              else (False, r\<lparr>rl_lock := l\<rparr>)
      else (True, r\<lparr>rl_count := rl_count r + 1\<rparr>))"

text \<open>The lock is free with nobody as owner, or held \<open>d\<close> times by \<open>me\<close>.\<close>

definition rlock_free :: "('l \<Rightarrow> bool) \<Rightarrow> 'l rlock \<Rightarrow> bool" where
  "rlock_free free r \<longleftrightarrow> free (rl_lock r) \<and> rl_user r = - 1 \<and> rl_count r = 0"

definition rlock_held :: "('l \<Rightarrow> 'l cres) \<Rightarrow> ('l \<Rightarrow> bool) \<Rightarrow> 32 word \<Rightarrow> nat \<Rightarrow> 'l rlock \<Rightarrow> bool" where
  "rlock_held lock free me d r \<longleftrightarrow>
     (\<exists>l. free l \<and> lock l = Inr (rl_lock r)) \<and> rl_user r = me \<and> unat (rl_count r) = d \<and> 0 < d"

lemma rlock_heldD: "rlock_held lock free me d r \<Longrightarrow> rl_user r = me \<and> unat (rl_count r) = d"
  by (simp add: rlock_held_def)

context simple_lock
begin

lemma rlock_first:
  assumes "rlock_free free r" and "me \<noteq> - 1"
  shows "\<exists>r'. rlock_lock lock me r = Inr r' \<and> rlock_trylock trylock me r = (True, r') \<and> rlock_held lock free me 1 r'"
proof -
  from assms(1) obtain l' where l': "lock (rl_lock r) = Inr l'" "trylock (rl_lock r) = (True, l')"
    using lock_free by (auto simp: rlock_free_def)
  then show ?thesis
    using assms by (auto simp: rlock_lock_def rlock_trylock_def rlock_held_def rlock_free_def)
qed

lemma rlock_again:
  assumes "rlock_held lock free me d r" and "d + 1 < 2 ^ 32"
  shows "\<exists>r'. rlock_lock lock me r = Inr r' \<and> rlock_trylock trylock me r = (True, r') \<and> rlock_held lock free me (d + 1) r'"
proof -
  have "unat (rl_count r + 1) = d + 1"
    using assms by (subst unat_add_no_wrap) (auto simp: rlock_held_def)
  then show ?thesis
    using assms by (auto simp: rlock_lock_def rlock_trylock_def rlock_held_def)
qed

lemma rlock_other:
  assumes "rlock_held lock free me d r" and "other \<noteq> me"
  shows "rlock_lock lock other r = Inl Spins" and "fst (rlock_trylock trylock other r) = False"
proof -
  have "\<not> free (rl_lock r)" using assms(1) lock_free by (force simp: rlock_held_def)
  then show "rlock_lock lock other r = Inl Spins" "fst (rlock_trylock trylock other r) = False"
    using assms lock_held by (auto simp: rlock_lock_def rlock_trylock_def rlock_held_def)
qed

lemma rlock_release:
  assumes "rlock_held lock free me d r"
  shows "if d = 1 then rlock_free free (rlock_unlock unlock r)
         else rlock_held lock free me (d - 1) (rlock_unlock unlock r)"
proof -
  have c: "rl_count r \<noteq> 0" and d: "unat (rl_count r) = d" using assms by (auto simp: rlock_held_def)
  have dec: "unat (rl_count r - 1) = d - 1" using c d by (simp add: unat_minus_one)
  then have z: "rl_count r - 1 = 0 \<longleftrightarrow> d = 1"
    using assms by (auto simp: rlock_held_def simp flip: unat_eq_0)
  show ?thesis
    using assms dec z unlock_locked
    by (auto simp: rlock_unlock_def rlock_held_def rlock_free_def Let_def)
qed

end

text \<open>\<open>n\<close> nested calls.\<close>

fun times_c :: "('a \<Rightarrow> 'a cres) \<Rightarrow> nat \<Rightarrow> 'a \<Rightarrow> 'a cres" where
  "times_c f 0 r = Inr r"
| "times_c f (Suc n) r = bindc (f r) (times_c f n)"

context simple_lock
begin

lemma rlock_nest:
  assumes "rlock_held lock free me d r" and "d + n < 2 ^ 32"
  shows "\<exists>r'. times_c (rlock_lock lock me) n r = Inr r' \<and> rlock_held lock free me (d + n) r'"
  using assms
proof (induction n arbitrary: d r)
  case (Suc n)
  obtain r1 where "rlock_lock lock me r = Inr r1" "rlock_held lock free me (d + 1) r1"
    using rlock_again[OF Suc.prems(1)] Suc.prems(2) by auto
  with Suc.IH[of "d + 1" r1] Suc.prems(2) show ?case by simp
qed simp

lemma rlock_unnest:
  assumes "rlock_held lock free me (d + n) r" and "0 < d"
  shows "rlock_held lock free me d ((rlock_unlock unlock ^^ n) r)"
  using assms(1)
proof (induction n arbitrary: r)
  case (Suc n)
  have "rlock_held lock free me (d + n) (rlock_unlock unlock r)"
    using rlock_release[OF Suc.prems] assms(2) by (simp split: if_splits)
  with Suc.IH show ?case by (simp add: funpow_swap1)
qed simp

lemma rlock_balanced:
  assumes "rlock_free free r" and "me \<noteq> - 1" and "n + 1 < 2 ^ 32"
  shows "\<exists>r'. times_c (rlock_lock lock me) (n + 1) r = Inr r' \<and> rlock_held lock free me (n + 1) r' \<and>
    rlock_free free ((rlock_unlock unlock ^^ (n + 1)) r')"
proof -
  obtain r1 where r1: "rlock_lock lock me r = Inr r1" "rlock_held lock free me 1 r1"
    using rlock_first[OF assms(1,2)] by blast
  obtain r' where r': "times_c (rlock_lock lock me) n r1 = Inr r'" "rlock_held lock free me (1 + n) r'"
    using rlock_nest[OF r1(2), of n] assms(3) by auto
  have "rlock_held lock free me 1 ((rlock_unlock unlock ^^ n) r')"
    using rlock_unnest[OF r'(2)] by simp
  then have "rlock_free free (rlock_unlock unlock ((rlock_unlock unlock ^^ n) r'))"
    using rlock_release by fastforce
  then have "rlock_free free ((rlock_unlock unlock ^^ (n + 1)) r')" by simp
  with r1 r' show ?thesis by (simp add: add.commute)
qed

end

end
