(* ===== verification/Locks.thy ===== *)
theory Locks
  imports Lock_Protocol Rte_Atomic
begin

text \<open>
  The locks of \<^verbatim>\<open>src/rte_lib/include/generic\<close>: \<^verbatim>\<open>rte_spinlock.h\<close>, \<^verbatim>\<open>rte_ticketlock.h\<close> and
  \<^verbatim>\<open>rte_rwlock.h\<close>.

  Each lock is modelled twice.  The functions are calls of one thread that nobody interrupts; a
  call that waits for another thread is the fault \<open>Spins\<close>.  The step relations split the same
  functions at their atomic accesses and interleave any number of threads; threads are numbers
  below \<open>N\<close> where their number matters.  The functions of the spinlock are those of the
  \<open>RTE_FORCE_INTRINSICS\<close> branches.  \<open>rte_gettid()\<close>, which the recursive locks call, is the
  argument \<open>me\<close>.
\<close>

section \<open>Spinlock\<close>

definition rte_spinlock_init :: "u32 \<Rightarrow> u32" where
  "rte_spinlock_init sl = 0"

definition rte_spinlock_lock :: "u32 \<Rightarrow> u32 cres" where
  "rte_spinlock_lock sl =
     (let (ok, locked, _) = atomic_compare_exchange sl 0 1 in if ok then Inr locked else Inl Spins)"

definition rte_spinlock_unlock :: "u32 \<Rightarrow> u32" where
  "rte_spinlock_unlock sl = 0"

definition rte_spinlock_trylock :: "u32 \<Rightarrow> bool \<times> u32" where
  "rte_spinlock_trylock sl = (let (ok, locked, _) = atomic_compare_exchange sl 0 1 in (ok, locked))"

definition rte_spinlock_is_locked :: "u32 \<Rightarrow> bool" where
  "rte_spinlock_is_locked sl \<longleftrightarrow> sl \<noteq> 0"

type_synonym rte_spinlock_recursive_t = "u32 rlock"

definition rte_spinlock_recursive_init :: "rte_spinlock_recursive_t \<Rightarrow> rte_spinlock_recursive_t" where
  "rte_spinlock_recursive_init slr =
     slr\<lparr>rl_lock := rte_spinlock_init (rl_lock slr), rl_user := - 1, rl_count := 0\<rparr>"

definition rte_spinlock_recursive_lock :: "32 word \<Rightarrow> rte_spinlock_recursive_t \<Rightarrow> rte_spinlock_recursive_t cres" where
  "rte_spinlock_recursive_lock me = rlock_lock rte_spinlock_lock me"

definition rte_spinlock_recursive_unlock :: "rte_spinlock_recursive_t \<Rightarrow> rte_spinlock_recursive_t" where
  "rte_spinlock_recursive_unlock = rlock_unlock rte_spinlock_unlock"

definition rte_spinlock_recursive_trylock ::
  "32 word \<Rightarrow> rte_spinlock_recursive_t \<Rightarrow> bool \<times> rte_spinlock_recursive_t" where
  "rte_spinlock_recursive_trylock me = rlock_trylock rte_spinlock_trylock me"

datatype spin_pc = SOut | STry | SWait | SIn

record spin_st =
  ss_locked :: u32
  ss_pc :: "nat \<Rightarrow> spin_pc"

inductive spin_step :: "spin_st \<Rightarrow> spin_st \<Rightarrow> bool" where
  spin_begin: "ss_pc s t = SOut \<Longrightarrow> spin_step s (s\<lparr>ss_pc := (ss_pc s)(t := STry)\<rparr>)"
| spin_cas: "ss_pc s t = STry \<Longrightarrow> atomic_compare_exchange (ss_locked s) 0 1 = (ok, l, e) \<Longrightarrow>
    spin_step s (s\<lparr>ss_locked := l, ss_pc := (ss_pc s)(t := (if ok then SIn else SWait))\<rparr>)"
| spin_wait: "ss_pc s t = SWait \<Longrightarrow> ss_locked s = 0 \<Longrightarrow> spin_step s (s\<lparr>ss_pc := (ss_pc s)(t := STry)\<rparr>)"
| spin_try: "ss_pc s t = SOut \<Longrightarrow> rte_spinlock_trylock (ss_locked s) = (ok, l) \<Longrightarrow>
    spin_step s (s\<lparr>ss_locked := l, ss_pc := (ss_pc s)(t := (if ok then SIn else SOut))\<rparr>)"
| spin_unlock: "ss_pc s t = SIn \<Longrightarrow>
    spin_step s (s\<lparr>ss_locked := rte_spinlock_unlock (ss_locked s), ss_pc := (ss_pc s)(t := SOut)\<rparr>)"

definition spin_start :: "spin_st \<Rightarrow> bool" where
  "spin_start s \<longleftrightarrow> ss_locked s = 0 \<and> ss_pc s = (\<lambda>_. SOut)"

definition spin_inv :: "spin_st \<Rightarrow> bool" where
  "spin_inv s \<longleftrightarrow> (ss_locked s \<noteq> 0 \<longleftrightarrow> (\<exists>t. ss_pc s t = SIn)) \<and>
     (\<forall>t t'. ss_pc s t = SIn \<longrightarrow> ss_pc s t' = SIn \<longrightarrow> t = t')"

lemma spin_inv_free: "spin_inv s \<Longrightarrow> ss_locked s = 0 \<Longrightarrow> ss_pc s t \<noteq> SIn"
  and spin_inv_unique: "spin_inv s \<Longrightarrow> ss_pc s t = SIn \<Longrightarrow> ss_pc s t' = SIn \<Longrightarrow> t = t'"
  and spin_inv_locked: "spin_inv s \<Longrightarrow> ss_locked s \<noteq> 0 \<Longrightarrow> \<exists>t. ss_pc s t = SIn"
  unfolding spin_inv_def by blast+

lemma spin_inv_step:
  assumes inv: "spin_inv s" and "spin_step s s'"
  shows "spin_inv s'"
proof -
  have outside: "spin_inv (s\<lparr>ss_pc := (ss_pc s)(t := p)\<rparr>)" if "ss_pc s t \<noteq> SIn" "p \<noteq> SIn" for t p
    using inv that unfolding spin_inv_def by (simp; metis)
  have take: "spin_inv (s\<lparr>ss_locked := 1, ss_pc := (ss_pc s)(t := SIn)\<rparr>)" if "ss_locked s = 0" for t
    using spin_inv_free[OF inv that] unfolding spin_inv_def by simp
  have release: "spin_inv (s\<lparr>ss_locked := 0, ss_pc := (ss_pc s)(t := SOut)\<rparr>)" if "ss_pc s t = SIn" for t
    using spin_inv_unique[OF inv that] unfolding spin_inv_def by (simp; metis)
  show ?thesis
    using assms(2)
    by cases (auto simp: rte_spinlock_trylock_def atomic_compare_exchange_def rte_spinlock_unlock_def
        intro!: outside take release split: if_splits)
qed

interpretation spin: lock_protocol spin_start spin_step spin_inv "\<lambda>_ _. False" "\<lambda>s t. ss_pc s t = SIn"
proof
  show "spin_inv s" if "spin_start s" for s using that by (simp add: spin_start_def spin_inv_def)
  show "spin_inv s'" if "spin_inv s" "spin_step s s'" for s s' using that by (rule spin_inv_step)
  show "\<not> False \<and> \<not> ss_pc s t' = SIn" if "spin_inv s" "ss_pc s t = SIn" "t' \<noteq> t" for s t t'
    using that by (auto simp: spin_inv_def)
qed

interpretation spin_simple: simple_lock rte_spinlock_lock rte_spinlock_unlock rte_spinlock_trylock "\<lambda>l. l = 0"
  by unfold_locales
     (auto simp: rte_spinlock_lock_def rte_spinlock_trylock_def rte_spinlock_unlock_def atomic_compare_exchange_def)

section \<open>Ticketlock\<close>

record rte_ticketlock =
  tk_current :: u16
  tk_next :: u16

definition rte_ticketlock_init :: "rte_ticketlock \<Rightarrow> rte_ticketlock" where
  "rte_ticketlock_init tkl = tkl\<lparr>tk_current := 0, tk_next := 0\<rparr>"

definition rte_ticketlock_lock :: "rte_ticketlock \<Rightarrow> rte_ticketlock cres" where
  "rte_ticketlock_lock tkl =
     (let me = tk_next tkl; tkl = tkl\<lparr>tk_next := tk_next tkl + 1\<rparr>
      in if tk_current tkl = me then Inr tkl else Inl Spins)"

definition rte_ticketlock_unlock :: "rte_ticketlock \<Rightarrow> rte_ticketlock" where
  "rte_ticketlock_unlock tkl = (let i = tk_current tkl in tkl\<lparr>tk_current := i + 1\<rparr>)"

definition rte_ticketlock_trylock :: "rte_ticketlock \<Rightarrow> bool \<times> rte_ticketlock" where
  "rte_ticketlock_trylock tkl =
     (let old = tkl; new = old\<lparr>tk_next := tk_next old + 1\<rparr>
      in if tk_next old = tk_current old
         then let (ok, cell, _) = atomic_compare_exchange tkl old new in (ok, cell)
         else (False, tkl))"

definition rte_ticketlock_is_locked :: "rte_ticketlock \<Rightarrow> bool" where
  "rte_ticketlock_is_locked tkl \<longleftrightarrow> tk_current tkl \<noteq> tk_next tkl"

type_synonym rte_ticketlock_recursive_t = "rte_ticketlock rlock"

definition rte_ticketlock_recursive_init :: "rte_ticketlock_recursive_t \<Rightarrow> rte_ticketlock_recursive_t" where
  "rte_ticketlock_recursive_init tlr =
     tlr\<lparr>rl_lock := rte_ticketlock_init (rl_lock tlr), rl_user := - 1, rl_count := 0\<rparr>"

definition rte_ticketlock_recursive_lock ::
  "32 word \<Rightarrow> rte_ticketlock_recursive_t \<Rightarrow> rte_ticketlock_recursive_t cres" where
  "rte_ticketlock_recursive_lock me = rlock_lock rte_ticketlock_lock me"

definition rte_ticketlock_recursive_unlock :: "rte_ticketlock_recursive_t \<Rightarrow> rte_ticketlock_recursive_t" where
  "rte_ticketlock_recursive_unlock = rlock_unlock rte_ticketlock_unlock"

definition rte_ticketlock_recursive_trylock ::
  "32 word \<Rightarrow> rte_ticketlock_recursive_t \<Rightarrow> bool \<times> rte_ticketlock_recursive_t" where
  "rte_ticketlock_recursive_trylock me = rlock_trylock rte_ticketlock_trylock me"

interpretation ticket_simple: simple_lock rte_ticketlock_lock rte_ticketlock_unlock rte_ticketlock_trylock
  "\<lambda>l. \<not> rte_ticketlock_is_locked l"
  by unfold_locales
     (auto simp: rte_ticketlock_lock_def rte_ticketlock_trylock_def rte_ticketlock_unlock_def
        rte_ticketlock_is_locked_def atomic_compare_exchange_def Let_def)

text \<open>
  The threads: waiting with a ticket, inside, releasing (the current ticket is loaded, not yet
  stored back), or inside a trylock that found the lock free.  The last number of a program
  counter and the two counters \<open>ts_gcur\<close>, \<open>ts_gnext\<close> are ghosts: the tickets without wrap.
\<close>

datatype tick_pc = TOut | TWait u16 nat | TIn nat | TRel u16 nat | TTry u16 u16

record tick_st =
  ts_lock :: rte_ticketlock
  ts_pc :: "nat \<Rightarrow> tick_pc"
  ts_gcur :: nat
  ts_gnext :: nat

inductive tick_step :: "nat \<Rightarrow> tick_st \<Rightarrow> tick_st \<Rightarrow> bool" for N where
  tick_take: "t < N \<Longrightarrow> ts_pc s t = TOut \<Longrightarrow> l = ts_lock s \<Longrightarrow>
    tick_step N s (s\<lparr>ts_lock := l\<lparr>tk_next := tk_next l + 1\<rparr>, ts_gnext := ts_gnext s + 1,
      ts_pc := (ts_pc s)(t := TWait (tk_next l) (ts_gnext s))\<rparr>)"
| tick_enter: "ts_pc s t = TWait me g \<Longrightarrow> tk_current (ts_lock s) = me \<Longrightarrow>
    tick_step N s (s\<lparr>ts_pc := (ts_pc s)(t := TIn g)\<rparr>)"
| tick_load: "ts_pc s t = TIn g \<Longrightarrow>
    tick_step N s (s\<lparr>ts_pc := (ts_pc s)(t := TRel (tk_current (ts_lock s)) g)\<rparr>)"
| tick_store: "ts_pc s t = TRel i g \<Longrightarrow>
    tick_step N s (s\<lparr>ts_lock := (ts_lock s)\<lparr>tk_current := i + 1\<rparr>, ts_gcur := ts_gcur s + 1,
      ts_pc := (ts_pc s)(t := TOut)\<rparr>)"
| tick_try: "t < N \<Longrightarrow> ts_pc s t = TOut \<Longrightarrow> l = ts_lock s \<Longrightarrow> tk_next l = tk_current l \<Longrightarrow>
    tick_step N s (s\<lparr>ts_pc := (ts_pc s)(t := TTry (tk_current l) (tk_next l))\<rparr>)"
| tick_try_ok: "t < N \<Longrightarrow> ts_pc s t = TTry c n \<Longrightarrow> ts_lock s = \<lparr>tk_current = c, tk_next = n\<rparr> \<Longrightarrow>
    tick_step N s (s\<lparr>ts_lock := \<lparr>tk_current = c, tk_next = n + 1\<rparr>, ts_gnext := ts_gnext s + 1,
      ts_pc := (ts_pc s)(t := TIn (ts_gnext s))\<rparr>)"
| tick_try_fail: "ts_pc s t = TTry c n \<Longrightarrow> ts_lock s \<noteq> \<lparr>tk_current = c, tk_next = n\<rparr> \<Longrightarrow>
    tick_step N s (s\<lparr>ts_pc := (ts_pc s)(t := TOut)\<rparr>)"

definition tick_start :: "tick_st \<Rightarrow> bool" where
  "tick_start s \<longleftrightarrow> ts_lock s = \<lparr>tk_current = 0, tk_next = 0\<rparr> \<and> ts_pc s = (\<lambda>_. TOut) \<and> ts_gcur s = 0 \<and> ts_gnext s = 0"

fun ticket :: "tick_pc \<Rightarrow> nat option" where
  "ticket (TWait me g) = Some g"
| "ticket (TIn g) = Some g"
| "ticket (TRel i g) = Some g"
| "ticket _ = None"

definition tick_holds :: "tick_st \<Rightarrow> nat \<Rightarrow> bool" where
  "tick_holds s t \<longleftrightarrow> (\<exists>g. ts_pc s t = TIn g) \<or> (\<exists>i g. ts_pc s t = TRel i g)"

fun tick_pc_ok :: "nat \<Rightarrow> tick_pc \<Rightarrow> bool" where
  "tick_pc_ok cur TOut \<longleftrightarrow> True"
| "tick_pc_ok cur (TWait me g) \<longleftrightarrow> me = of_nat g"
| "tick_pc_ok cur (TIn g) \<longleftrightarrow> g = cur"
| "tick_pc_ok cur (TRel i g) \<longleftrightarrow> g = cur \<and> i = of_nat g"
| "tick_pc_ok cur (TTry c n) \<longleftrightarrow> c = n"

text \<open>The tickets that are out are those from \<open>cur\<close> up to \<open>nxt\<close>, each with one thread below \<open>N\<close>.\<close>

definition tickets_ok :: "nat \<Rightarrow> nat \<Rightarrow> nat \<Rightarrow> (nat \<Rightarrow> nat option) \<Rightarrow> bool" where
  "tickets_ok N cur nxt T \<longleftrightarrow> cur \<le> nxt \<and> ran T = {cur..<nxt} \<and> dom T \<subseteq> {..<N} \<and> inj_on T (dom T)"

definition tick_inv :: "nat \<Rightarrow> tick_st \<Rightarrow> bool" where
  "tick_inv N s \<longleftrightarrow> ts_lock s = \<lparr>tk_current = of_nat (ts_gcur s), tk_next = of_nat (ts_gnext s)\<rparr> \<and>
     (\<forall>t. tick_pc_ok (ts_gcur s) (ts_pc s t)) \<and>
     tickets_ok N (ts_gcur s) (ts_gnext s) (\<lambda>t. ticket (ts_pc s t))"

lemma ticket_word_eq:
  assumes "(of_nat a :: u16) = of_nat b" and "a \<le> b" and "b - a < 2 ^ 16"
  shows "a = b"
proof -
  have "(of_nat (b - a) :: u16) = 0" using assms(1,2) by (simp add: of_nat_diff)
  then have "unat (of_nat (b - a) :: u16) = 0" by (simp only: unat_0)
  then have "(b - a) mod 2 ^ 16 = 0" by (simp only: unat_of_nat) simp
  with assms(2,3) show ?thesis by simp
qed

lemma tickets_ok_range:
  "tickets_ok N cur nxt T \<Longrightarrow> T t = Some g \<Longrightarrow> t < N \<and> cur \<le> g \<and> g < nxt"
  unfolding tickets_ok_def by (metis atLeastLessThan_iff domI lessThan_iff ranI subsetD)

lemma tickets_ok_inj:
  "tickets_ok N cur nxt T \<Longrightarrow> T t = Some g \<Longrightarrow> T t' = Some g \<Longrightarrow> t = t'"
  unfolding tickets_ok_def by (metis domI inj_onD)

lemma tickets_ok_bounded:
  assumes "tickets_ok N cur nxt T"
  shows "nxt - cur \<le> N"
proof -
  have fin: "finite (dom T)" using assms finite_subset by (auto simp: tickets_ok_def)
  have "ran T = (\<lambda>t. the (T t)) ` dom T" by (force simp: ran_def dom_def image_iff)
  then have "card (ran T) \<le> card (dom T)" using card_image_le[OF fin] by metis
  also have "\<dots> \<le> N" using card_mono[of "{..<N}" "dom T"] assms by (simp add: tickets_ok_def)
  finally show ?thesis using assms by (simp add: tickets_ok_def)
qed

lemma tickets_ok_take:
  assumes ok: "tickets_ok N cur nxt T" and "t < N" and "T t = None"
  shows "tickets_ok N cur (nxt + 1) (T(t \<mapsto> nxt))"
proof -
  have "T u \<noteq> Some nxt" for u using tickets_ok_range[OF ok, of u nxt] by auto
  then have "inj_on (T(t \<mapsto> nxt)) (insert t (dom T))"
    using ok by (auto simp: tickets_ok_def inj_on_def)
  then show ?thesis
    using assms by (auto simp: tickets_ok_def)
qed

lemma tickets_ok_release:
  assumes ok: "tickets_ok N cur nxt T" and "T t = Some cur"
  shows "tickets_ok N (cur + 1) nxt (T(t := None))"
proof -
  have "ran (T(t := None)) = ran T - {cur}"
  proof -
    have "a \<noteq> cur" if "u \<noteq> t" "T u = Some a" for a u
      using tickets_ok_inj[OF ok assms(2), of u] that by auto
    moreover have "x \<in> ran (T(t := None)) \<longleftrightarrow> (\<exists>u. u \<noteq> t \<and> T u = Some x)" for x
      by (auto simp: ran_def)
    moreover have "x \<in> ran T \<longleftrightarrow> (\<exists>u. T u = Some x)" for x by (auto simp: ran_def)
    ultimately show ?thesis using assms(2) by (intro set_eqI) (metis Diff_iff insert_iff empty_iff option.inject)
  qed
  moreover have "cur < nxt" using tickets_ok_range[OF assms] by simp
  moreover have "inj_on (T(t := None)) (dom T - {t})"
    using ok by (auto simp: tickets_ok_def inj_on_def)
  ultimately show ?thesis
    using ok by (auto simp: tickets_ok_def)
qed

text \<open>The parts of the invariant, as rules on a single thread.\<close>

lemma tick_facts:
  assumes "tick_inv N s"
  shows "ts_lock s = \<lparr>tk_current = of_nat (ts_gcur s), tk_next = of_nat (ts_gnext s)\<rparr>"
    and "tickets_ok N (ts_gcur s) (ts_gnext s) (\<lambda>t. ticket (ts_pc s t))"
    and "tick_pc_ok (ts_gcur s) (ts_pc s t)"
  using assms unfolding tick_inv_def by blast+

lemma tick_keep_ticket:
  assumes inv: "tick_inv N s" and "ticket p = ticket (ts_pc s t)" and "tick_pc_ok (ts_gcur s) p"
  shows "tick_inv N (s\<lparr>ts_pc := (ts_pc s)(t := p)\<rparr>)"
proof -
  have "(\<lambda>u. ticket (((ts_pc s)(t := p)) u)) = (\<lambda>u. ticket (ts_pc s u))" using assms(2) by auto
  then show ?thesis using inv assms(3) by (simp add: tick_inv_def)
qed

lemma tick_new_ticket:
  assumes inv: "tick_inv N s" and "t < N" and none: "ticket (ts_pc s t) = None"
    and p: "ticket p = Some (ts_gnext s)" and okp: "tick_pc_ok (ts_gcur s) p"
  shows "tick_inv N (s\<lparr>ts_lock := (ts_lock s)\<lparr>tk_next := tk_next (ts_lock s) + 1\<rparr>, ts_gnext := ts_gnext s + 1,
      ts_pc := (ts_pc s)(t := p)\<rparr>)"
proof -
  have "(\<lambda>u. ticket (((ts_pc s)(t := p)) u)) = (\<lambda>u. ticket (ts_pc s u))(t \<mapsto> ts_gnext s)" using p by auto
  moreover note tickets_ok_take[OF tick_facts(2)[OF inv] assms(2) none]
  ultimately show ?thesis using inv okp by (simp add: tick_inv_def)
qed

lemma tick_release:
  assumes inv: "tick_inv N s" and pc: "ts_pc s t = TRel i g"
  shows "tick_inv N (s\<lparr>ts_lock := (ts_lock s)\<lparr>tk_current := i + 1\<rparr>, ts_gcur := ts_gcur s + 1,
      ts_pc := (ts_pc s)(t := TOut)\<rparr>)"
proof -
  note T = tick_facts(2)[OF inv]
  have g: "g = ts_gcur s" "i = of_nat (ts_gcur s)" using tick_facts(3)[OF inv, of t] pc by auto
  then have mine: "ticket (ts_pc s t) = Some (ts_gcur s)" using pc by simp
  have "(\<lambda>u. ticket (((ts_pc s)(t := TOut)) u)) = (\<lambda>u. ticket (ts_pc s u))(t := None)" by auto
  moreover note tickets_ok_release[OF T mine]
  moreover have "tick_pc_ok (ts_gcur s + 1) (ts_pc s u)" if "u \<noteq> t" for u
    using tick_facts(3)[OF inv, of u] tickets_ok_inj[OF T mine, of u] that by (cases "ts_pc s u") auto
  ultimately show ?thesis using inv g by (simp add: tick_inv_def)
qed

lemma tick_turn:
  assumes inv: "tick_inv N s" and "N < 2 ^ 16" and pc: "ts_pc s t = TWait me g" and "tk_current (ts_lock s) = me"
  shows "g = ts_gcur s"
proof -
  note f = tick_facts[OF inv]
  have "g - ts_gcur s < 2 ^ 16" "ts_gcur s \<le> g" "me = of_nat g"
    using f(3)[of t] pc tickets_ok_range[OF f(2), of t g] tickets_ok_bounded[OF f(2)] assms(2) by auto
  moreover from this have "(of_nat (ts_gcur s) :: u16) = of_nat g" using f(1) assms(4) by simp
  ultimately have "ts_gcur s = g" by (intro ticket_word_eq)
  then show ?thesis ..
qed

lemma tick_inv_step:
  assumes inv: "tick_inv N s" and N: "N < 2 ^ 16" and "tick_step N s s'"
  shows "tick_inv N s'"
  using assms(3)
proof cases
  note f = tick_facts[OF inv]
  case (tick_take t l)
  then show ?thesis using tick_new_ticket[OF inv, of t "TWait (tk_next l) (ts_gnext s)"] f(1) by simp
next
  case (tick_enter t me g)
  then have "ts_gcur s = g" using tick_turn[OF inv N] by simp
  then show ?thesis using tick_enter tick_keep_ticket[OF inv, of "TIn g" t] by simp
next
  note f = tick_facts[OF inv]
  case (tick_load t g)
  have "tk_current (ts_lock s) = of_nat (ts_gcur s)" using f(1) by (cases "ts_lock s") simp
  moreover have "g = ts_gcur s" using f(3)[of t] tick_load by simp
  ultimately show ?thesis using tick_load tick_keep_ticket[OF inv, of "TRel (tk_current (ts_lock s)) g" t] by simp
next
  case (tick_store t i g)
  then show ?thesis using tick_release[OF inv] by simp
next
  case (tick_try t l)
  then show ?thesis using tick_keep_ticket[OF inv, of "TTry (tk_current l) (tk_next l)" t] by simp
next
  note f = tick_facts[OF inv]
  case (tick_try_ok t c n)
  then have "(of_nat (ts_gcur s) :: u16) = of_nat (ts_gnext s)" using f(1) f(3)[of t] by simp
  then have "ts_gcur s = ts_gnext s"
    using f(2) tickets_ok_bounded[OF f(2)] N by (intro ticket_word_eq) (auto simp: tickets_ok_def)
  then show ?thesis using tick_try_ok tick_new_ticket[OF inv, of t "TIn (ts_gnext s)"] by simp
next
  case (tick_try_fail t c n)
  then show ?thesis using tick_keep_ticket[OF inv, of TOut t] by simp
qed

text \<open>Fewer than \<open>2^16\<close> threads, so that the tickets of waiting threads differ as words.\<close>

interpretation tick: lock_protocol tick_start "\<lambda>s s'. N < 2 ^ 16 \<and> tick_step N s s'" "tick_inv N"
  "\<lambda>_ _. False" tick_holds for N
proof
  show "tick_inv N s" if "tick_start s" for s using that by (simp add: tick_start_def tick_inv_def tickets_ok_def)
  show "tick_inv N s'" if "tick_inv N s" "N < 2 ^ 16 \<and> tick_step N s s'" for s s'
    using that tick_inv_step by blast
  show "\<not> False \<and> \<not> tick_holds s t'" if "tick_inv N s" "tick_holds s t" "t' \<noteq> t" for s t t'
  proof -
    have "ticket (ts_pc s u) = Some (ts_gcur s)" if "tick_holds s u" for u
      using that tick_facts(3)[OF \<open>tick_inv N s\<close>, of u] by (auto simp: tick_holds_def)
    then show ?thesis using that(2,3) tickets_ok_inj[OF tick_facts(2)[OF that(1)]] by blast
  qed
qed

lemma tick_holds_waiting:
  assumes inv: "tick_inv N s" and pc: "ts_pc s t = TWait me g" and g: "g = ts_gcur s"
  shows "\<not> tick_holds s u"
proof
  assume u: "tick_holds s u"
  then have "ticket (ts_pc s u) = Some (ts_gcur s)"
    using tick_facts(3)[OF inv, of u] by (auto simp: tick_holds_def)
  then have "u = t" using tickets_ok_inj[OF tick_facts(2)[OF inv], of u g t] pc g by simp
  then show False using u pc by (auto simp: tick_holds_def)
qed

lemma tick_later:
  assumes inv: "tick_inv N s" and pc: "ts_pc s t = TWait me (ts_gcur s)" and "ts_pc s t' = TWait me' g'" and "t' \<noteq> t"
  shows "ts_gcur s < g'"
proof -
  note T = tick_facts(2)[OF inv]
  have "g' \<noteq> ts_gcur s" using tickets_ok_inj[OF T, of t' g' t] assms by auto
  moreover have "ts_gcur s \<le> g'" using tickets_ok_range[OF T, of t' g'] assms(3) by simp
  ultimately show ?thesis by simp
qed

lemmas recursive_ops = rte_spinlock_recursive_lock_def rte_spinlock_recursive_unlock_def
  rte_spinlock_recursive_trylock_def rte_ticketlock_recursive_lock_def rte_ticketlock_recursive_unlock_def
  rte_ticketlock_recursive_trylock_def

section \<open>Reader-writer lock\<close>

abbreviation EBUSY :: int where "EBUSY \<equiv> 16"

text \<open>The counter is the word of an \<open>int32_t\<close>; a negative one is a word whose \<open>sint\<close> is.\<close>

definition rte_rwlock_init :: "u32 \<Rightarrow> u32" where
  "rte_rwlock_init rwl = 0"

definition rte_rwlock_read_lock :: "u32 \<Rightarrow> u32 cres" where
  "rte_rwlock_read_lock rwl =
     (let x = rwl
      in if sint x < 0 then Inl Spins
         else let (success, cnt, _) = atomic_compare_exchange rwl x (x + 1) in if success then Inr cnt else Inl Spins)"

definition rte_rwlock_read_trylock :: "u32 \<Rightarrow> int \<times> u32" where
  "rte_rwlock_read_trylock rwl =
     (let x = rwl
      in if sint x < 0 then (- EBUSY, rwl)
         else let (success, cnt, _) = atomic_compare_exchange rwl x (x + 1) in (0, cnt))"

definition rte_rwlock_read_unlock :: "u32 \<Rightarrow> u32" where
  "rte_rwlock_read_unlock rwl = rwl - 1"

definition rte_rwlock_write_trylock :: "u32 \<Rightarrow> int \<times> u32" where
  "rte_rwlock_write_trylock rwl =
     (let x = rwl
      in if x \<noteq> 0 then (- EBUSY, rwl)
         else let (success, cnt, _) = atomic_compare_exchange rwl x (- 1)
              in if \<not> success then (- EBUSY, cnt) else (0, cnt))"

definition rte_rwlock_write_lock :: "u32 \<Rightarrow> u32 cres" where
  "rte_rwlock_write_lock rwl =
     (let x = rwl
      in if x \<noteq> 0 then Inl Spins
         else let (success, cnt, _) = atomic_compare_exchange rwl x (- 1) in if success then Inr cnt else Inl Spins)"

definition rte_rwlock_write_unlock :: "u32 \<Rightarrow> u32" where
  "rte_rwlock_write_unlock rwl = 0"

text \<open>
  The steps.  The flag of a program counter says that the call is a trylock, which gives up where
  the lock call goes on.  The compare-exchange is the weak one: it may fail at any time.
\<close>

datatype rw_pc = RwOut | RLoad bool | RCas bool u32 | RIn | WLoad bool | WCas bool u32 | WIn

record rw_st =
  rw_cnt :: u32
  rw_pc :: "nat \<Rightarrow> rw_pc"

abbreviation rw_goto :: "rw_st \<Rightarrow> nat \<Rightarrow> rw_pc \<Rightarrow> rw_st" where
  "rw_goto s t p \<equiv> s\<lparr>rw_pc := (rw_pc s)(t := p)\<rparr>"

inductive rw_step :: "nat \<Rightarrow> rw_st \<Rightarrow> rw_st \<Rightarrow> bool" for N where
  rw_read: "t < N \<Longrightarrow> rw_pc s t = RwOut \<Longrightarrow> rw_step N s (rw_goto s t (RLoad b))"
| rw_write: "t < N \<Longrightarrow> rw_pc s t = RwOut \<Longrightarrow> rw_step N s (rw_goto s t (WLoad b))"
| rw_rload: "rw_pc s t = RLoad b \<Longrightarrow> x = rw_cnt s \<Longrightarrow>
    rw_step N s (rw_goto s t (if sint x < 0 then if b then RwOut else RLoad b else RCas b x))"
| rw_rcas: "rw_pc s t = RCas b x \<Longrightarrow> rw_cnt s = x \<Longrightarrow> rw_step N s (rw_goto (s\<lparr>rw_cnt := x + 1\<rparr>) t RIn)"
| rw_rcas_fail: "rw_pc s t = RCas b x \<Longrightarrow> rw_step N s (rw_goto s t (RLoad b))"
| rw_runlock: "rw_pc s t = RIn \<Longrightarrow>
    rw_step N s (rw_goto (s\<lparr>rw_cnt := rte_rwlock_read_unlock (rw_cnt s)\<rparr>) t RwOut)"
| rw_wload: "rw_pc s t = WLoad b \<Longrightarrow> x = rw_cnt s \<Longrightarrow>
    rw_step N s (rw_goto s t (if x \<noteq> 0 then if b then RwOut else WLoad b else WCas b x))"
| rw_wcas: "rw_pc s t = WCas b x \<Longrightarrow> rw_cnt s = x \<Longrightarrow> rw_step N s (rw_goto (s\<lparr>rw_cnt := - 1\<rparr>) t WIn)"
| rw_wcas_fail: "rw_pc s t = WCas b x \<Longrightarrow> rw_step N s (rw_goto s t (if b then RwOut else WLoad b))"
| rw_wunlock: "rw_pc s t = WIn \<Longrightarrow>
    rw_step N s (rw_goto (s\<lparr>rw_cnt := rte_rwlock_write_unlock (rw_cnt s)\<rparr>) t RwOut)"

definition rw_start :: "rw_st \<Rightarrow> bool" where
  "rw_start s \<longleftrightarrow> rw_cnt s = 0 \<and> rw_pc s = (\<lambda>_. RwOut)"

definition rw_readers :: "rw_st \<Rightarrow> nat set" where
  "rw_readers s = {t. rw_pc s t = RIn}"

definition rw_writers :: "rw_st \<Rightarrow> nat set" where
  "rw_writers s = {t. rw_pc s t = WIn}"

text \<open>What a thread's program counter remembers, and what the counter says of the readers and writers.\<close>

fun rw_pc_ok :: "nat \<Rightarrow> nat \<Rightarrow> rw_pc \<Rightarrow> bool" where
  "rw_pc_ok N t RwOut \<longleftrightarrow> True"
| "rw_pc_ok N t (RCas b x) \<longleftrightarrow> t < N \<and> 0 \<le> sint x"
| "rw_pc_ok N t (WCas b x) \<longleftrightarrow> t < N \<and> x = 0"
| "rw_pc_ok N t _ \<longleftrightarrow> t < N"

definition rw_count_ok :: "u32 \<Rightarrow> nat set \<Rightarrow> nat set \<Rightarrow> bool" where
  "rw_count_ok cnt R W \<longleftrightarrow> W = {} \<and> cnt = of_nat (card R) \<or> (\<exists>w. W = {w}) \<and> R = {} \<and> cnt = - 1"

definition rw_inv :: "nat \<Rightarrow> rw_st \<Rightarrow> bool" where
  "rw_inv N s \<longleftrightarrow> (\<forall>t. rw_pc_ok N t (rw_pc s t)) \<and> rw_count_ok (rw_cnt s) (rw_readers s) (rw_writers s)"

lemma rw_goto_sets:
  "rw_readers (rw_goto s t p) = (if p = RIn then insert t (rw_readers s) else rw_readers s - {t})"
  "rw_writers (rw_goto s t p) = (if p = WIn then insert t (rw_writers s) else rw_writers s - {t})"
  by (auto simp: rw_readers_def rw_writers_def)

lemma rw_cnt_sets [simp]:
  "rw_readers (s\<lparr>rw_cnt := c\<rparr>) = rw_readers s" "rw_writers (s\<lparr>rw_cnt := c\<rparr>) = rw_writers s"
  by (simp_all add: rw_readers_def rw_writers_def)

lemma rw_inv_goto:
  assumes "rw_inv N s" and "rw_pc_ok N t p" and "rw_count_ok c (rw_readers (rw_goto s t p)) (rw_writers (rw_goto s t p))"
  shows "rw_inv N (rw_goto (s\<lparr>rw_cnt := c\<rparr>) t p)"
  using assms by (simp add: rw_inv_def rw_readers_def rw_writers_def)

lemma rw_inv_outside:
  assumes "rw_inv N s" and "rw_pc s t \<notin> {RIn, WIn}" and "p \<notin> {RIn, WIn}" and "rw_pc_ok N t p"
  shows "rw_inv N (rw_goto s t p)"
proof -
  have "rw_readers s - {t} = rw_readers s" "rw_writers s - {t} = rw_writers s"
    using assms(2) by (auto simp: rw_readers_def rw_writers_def)
  then show ?thesis
    using rw_inv_goto[OF assms(1,4), of "rw_cnt s"] assms(1,3) by (simp add: rw_goto_sets rw_inv_def)
qed

lemma rw_inv_bound:
  assumes "rw_inv N s"
  shows "finite (rw_readers s)" and "card (rw_readers s) \<le> N"
proof -
  have "t < N" if "rw_pc s t = RIn" for t
    using assms that by (metis rw_inv_def rw_pc_ok.simps(5))
  then have sub: "rw_readers s \<subseteq> {..<N}" by (auto simp: rw_readers_def)
  then show "finite (rw_readers s)" using finite_subset by blast
  show "card (rw_readers s) \<le> N" using card_mono[OF _ sub] by simp
qed

lemma rw_inv_step:
  assumes inv: "rw_inv N s" and N: "N < 2 ^ 31" and "rw_step N s s'"
  shows "rw_inv N s'"
  using assms(3)
proof cases
  case (rw_rcas t b x)
  have ok: "rw_pc_ok N t (rw_pc s t)" using inv by (simp add: rw_inv_def)
  then have "t < N" "rw_cnt s \<noteq> - 1" using rw_rcas by auto
  then have "rw_count_ok (x + 1) (insert t (rw_readers s)) (rw_writers s - {t})"
    using inv rw_rcas rw_inv_bound(1)[OF inv]
    by (auto simp: rw_inv_def rw_count_ok_def rw_readers_def)
  then show ?thesis using rw_rcas rw_inv_goto[OF inv, of t RIn] \<open>t < N\<close> by (simp add: rw_goto_sets)
next
  case (rw_runlock t)
  then have t: "t \<in> rw_readers s" by (simp add: rw_readers_def)
  then have "rw_writers s = {}" "rw_cnt s = of_nat (card (rw_readers s))"
    using inv by (auto simp: rw_inv_def rw_count_ok_def)
  moreover have "card (rw_readers s) = Suc (card (rw_readers s - {t}))"
    using card.remove[OF rw_inv_bound(1)[OF inv] t] .
  ultimately have "rw_count_ok (rw_cnt s - 1) (rw_readers s - {t}) (rw_writers s - {t})"
    by (simp add: rw_count_ok_def)
  then show ?thesis
    using rw_runlock rw_inv_goto[OF inv, of t RwOut] by (simp add: rw_goto_sets rte_rwlock_read_unlock_def)
next
  case (rw_wcas t b x)
  have ok: "rw_pc_ok N t (rw_pc s t)" using inv by (simp add: rw_inv_def)
  then have "t < N" and z: "rw_cnt s = 0" using rw_wcas by auto
  then have W: "rw_writers s = {}" and "(of_nat (card (rw_readers s)) :: u32) = 0"
    using inv by (auto simp: rw_inv_def rw_count_ok_def)
  then have "2 ^ 32 dvd card (rw_readers s)" by (simp add: word_of_nat_eq_0_iff)
  then have "card (rw_readers s) = 0"
    using dvd_imp_le[of "2 ^ 32" "card (rw_readers s)"] rw_inv_bound(2)[OF inv] N by fastforce
  then have "rw_readers s = {}" using rw_inv_bound(1)[OF inv] by simp
  then have "rw_count_ok (- 1) (rw_readers s - {t}) (insert t (rw_writers s))"
    using W by (simp add: rw_count_ok_def)
  then show ?thesis using rw_wcas rw_inv_goto[OF inv, of t WIn] \<open>t < N\<close> by (simp add: rw_goto_sets)
next
  case (rw_wunlock t)
  then have "t \<in> rw_writers s" by (simp add: rw_writers_def)
  then have "rw_count_ok 0 (rw_readers s - {t}) (rw_writers s - {t})"
    using inv by (auto simp: rw_inv_def rw_count_ok_def)
  then show ?thesis
    using rw_wunlock rw_inv_goto[OF inv, of t RwOut] by (simp add: rw_goto_sets rte_rwlock_write_unlock_def)
next
  case (rw_rcas_fail t b x)
  have "rw_pc_ok N t (rw_pc s t)" using inv by (simp add: rw_inv_def)
  then show ?thesis using rw_rcas_fail rw_inv_outside[OF inv, of t "RLoad b"] by simp
next
  case (rw_wcas_fail t b x)
  have "rw_pc_ok N t (rw_pc s t)" using inv by (simp add: rw_inv_def)
  then show ?thesis using rw_wcas_fail rw_inv_outside[OF inv, of t "if b then RwOut else WLoad b"] by simp
next
  case (rw_rload t b x)
  have "rw_pc_ok N t (rw_pc s t)" using inv by (simp add: rw_inv_def)
  then show ?thesis
    using rw_rload rw_inv_outside[OF inv, of t "if sint x < 0 then if b then RwOut else RLoad b else RCas b x"]
    by simp
next
  case (rw_wload t b x)
  have "rw_pc_ok N t (rw_pc s t)" using inv by (simp add: rw_inv_def)
  then show ?thesis
    using rw_wload rw_inv_outside[OF inv, of t "if x \<noteq> 0 then if b then RwOut else WLoad b else WCas b x"]
    by simp
qed (auto intro!: rw_inv_outside[OF inv])

text \<open>Fewer than \<open>2^31\<close> threads, so that the count of readers stays a positive \<open>int32_t\<close>.\<close>

interpretation rw: lock_protocol rw_start "\<lambda>s s'. N < 2 ^ 31 \<and> rw_step N s s'" "rw_inv N"
  "\<lambda>s t. t \<in> rw_readers s" "\<lambda>s t. t \<in> rw_writers s" for N
proof
  show "rw_inv N s" if "rw_start s" for s
    using that by (simp add: rw_start_def rw_inv_def rw_count_ok_def rw_readers_def rw_writers_def)
  show "rw_inv N s'" if "rw_inv N s" "N < 2 ^ 31 \<and> rw_step N s s'" for s s'
    using that rw_inv_step by blast
  show "t' \<notin> rw_readers s \<and> t' \<notin> rw_writers s" if "rw_inv N s" "t \<in> rw_writers s" "t' \<noteq> t" for s t t'
    using that by (auto simp: rw_inv_def rw_count_ok_def)
qed

end
