(* ===== verification/Jhash.thy ===== *)
theory Jhash
  imports Prelude
begin

text \<open>
  The Jenkins hash of \<^verbatim>\<open>src/rte_lib/rte_jhash.h\<close>.

  Memory is a function from 64-bit addresses to bytes and a key is an address.  The build defines
  neither \<open>RTE_ARCH_X86\<close> nor \<open>RTE_BYTE_ORDER\<close>, so the code that is compiled aligns the address
  down, computes the shift \<open>s\<close> from its low bits and uses the little-endian \<open>BIT_SHIFT\<close>.  A key
  that is not aligned is read through pairs of neighbouring words, and words past its end are read
  and masked.  The reference is the hash of the byte list, read as little-endian words padded with
  zeros; the theorems say that both branches compute it.
\<close>

unbundle bit_operations_syntax

type_synonym mem = "u64 \<Rightarrow> u8"
type_synonym abc = "u32 \<times> u32 \<times> u32"

section \<open>Words in memory\<close>

definition le32 :: "u8 \<Rightarrow> u8 \<Rightarrow> u8 \<Rightarrow> u8 \<Rightarrow> u32" where
  "le32 b0 b1 b2 b3 =
     ucast b0 OR push_bit 8 (ucast b1) OR push_bit 16 (ucast b2) OR push_bit 24 (ucast b3)"

text \<open>The element \<open>k[i]\<close> of a \<open>uint32_t\<close> pointer.\<close>

definition ld32 :: "mem \<Rightarrow> u64 \<Rightarrow> nat \<Rightarrow> u32" where
  "ld32 m k i = (let p = k + 4 * of_nat i in le32 (m p) (m (p + 1)) (m (p + 2)) (m (p + 3)))"

section \<open>The mixing macros\<close>

definition rot :: "u32 \<Rightarrow> nat \<Rightarrow> u32" where
  "rot x k = push_bit k x OR drop_bit (32 - k) x"

definition rte_jhash_mix :: "abc \<Rightarrow> abc" where
  "rte_jhash_mix = (\<lambda>(a, b, c).
     let a = a - c; a = a XOR rot c 4; c = c + b;
         b = b - a; b = b XOR rot a 6; a = a + c;
         c = c - b; c = c XOR rot b 8; b = b + a;
         a = a - c; a = a XOR rot c 16; c = c + b;
         b = b - a; b = b XOR rot a 19; a = a + c;
         c = c - b; c = c XOR rot b 4; b = b + a
     in (a, b, c))"

definition rte_jhash_final :: "abc \<Rightarrow> abc" where
  "rte_jhash_final = (\<lambda>(a, b, c).
     let c = c XOR b; c = c - rot b 14;
         a = a XOR c; a = a - rot c 11;
         b = b XOR a; b = b - rot a 25;
         c = c XOR b; c = c - rot b 16;
         a = a XOR c; a = a - rot c 4;
         b = b XOR a; b = b - rot a 14;
         c = c XOR b; c = c - rot b 24
     in (a, b, c))"

definition RTE_JHASH_GOLDEN_RATIO :: u32 where "RTE_JHASH_GOLDEN_RATIO = 0xdeadbeef"

definition BIT_SHIFT :: "u32 \<Rightarrow> u32 \<Rightarrow> u32 \<Rightarrow> u64" where
  "BIT_SHIFT x y k = ucast (drop_bit (unat k) x) OR push_bit (unat (32 - k)) (ucast y)"

abbreviation LOWER8b_MASK :: "'a::len word" where "LOWER8b_MASK \<equiv> 0xff"
abbreviation LOWER16b_MASK :: "'a::len word" where "LOWER16b_MASK \<equiv> 0xffff"
abbreviation LOWER24b_MASK :: "'a::len word" where "LOWER24b_MASK \<equiv> 0xffffff"

section \<open>The hash\<close>

text \<open>The loops: all blocks but the last.  They return the pointer and the length that are left.\<close>

function jhash_loop_aligned :: "mem \<Rightarrow> u64 \<Rightarrow> u32 \<Rightarrow> abc \<Rightarrow> u64 \<times> u32 \<times> abc" where
  "jhash_loop_aligned m k len (a, b, c) =
     (if len > 12
      then jhash_loop_aligned m (k + 12) (len - 12)
             (rte_jhash_mix (a + ld32 m k 0, b + ld32 m k 1, c + ld32 m k 2))
      else (k, len, (a, b, c)))"
  by pat_completeness auto

lemma jhash_len_decreases: "(12::u32) < len \<Longrightarrow> unat (len - 12) < unat len"
  by (subst unat_sub) (auto simp: word_less_nat_alt word_le_nat_alt)

termination jhash_loop_aligned
  by (relation "measure (\<lambda>(m, k, len, abc). unat len)") (auto intro: jhash_len_decreases)

function jhash_loop_shifted :: "mem \<Rightarrow> u32 \<Rightarrow> u64 \<Rightarrow> u32 \<Rightarrow> abc \<Rightarrow> u64 \<times> u32 \<times> abc" where
  "jhash_loop_shifted m s k len (a, b, c) =
     (if len > 12
      then jhash_loop_shifted m s (k + 12) (len - 12)
             (rte_jhash_mix
               (a + ucast (BIT_SHIFT (ld32 m k 0) (ld32 m k 1) s),
                b + ucast (BIT_SHIFT (ld32 m k 1) (ld32 m k 2) s),
                c + ucast (BIT_SHIFT (ld32 m k 2) (ld32 m k 3) s)))
      else (k, len, (a, b, c)))"
  by pat_completeness auto
termination jhash_loop_shifted
  by (relation "measure (\<lambda>(m, s, k, len, abc). unat len)") (auto intro: jhash_len_decreases)

text \<open>The two switches on the length of the last block; \<open>None\<close> is the early return for length 0.\<close>

definition jhash_tail_aligned :: "(nat \<Rightarrow> u32) \<Rightarrow> u32 \<Rightarrow> abc \<Rightarrow> abc option" where
  "jhash_tail_aligned k len = (\<lambda>(a, b, c).
     if len = 12 then Some (a + k 0, b + k 1, c + k 2)
     else if len = 11 then Some (a + k 0, b + k 1, c + (k 2 AND LOWER24b_MASK))
     else if len = 10 then Some (a + k 0, b + k 1, c + (k 2 AND LOWER16b_MASK))
     else if len = 9 then Some (a + k 0, b + k 1, c + (k 2 AND LOWER8b_MASK))
     else if len = 8 then Some (a + k 0, b + k 1, c)
     else if len = 7 then Some (a + k 0, b + (k 1 AND LOWER24b_MASK), c)
     else if len = 6 then Some (a + k 0, b + (k 1 AND LOWER16b_MASK), c)
     else if len = 5 then Some (a + k 0, b + (k 1 AND LOWER8b_MASK), c)
     else if len = 4 then Some (a + k 0, b, c)
     else if len = 3 then Some (a + (k 0 AND LOWER24b_MASK), b, c)
     else if len = 2 then Some (a + (k 0 AND LOWER16b_MASK), b, c)
     else if len = 1 then Some (a + (k 0 AND LOWER8b_MASK), b, c)
     else if len = 0 then None
     else Some (a, b, c))"

definition jhash_tail_shifted :: "(nat \<Rightarrow> u32) \<Rightarrow> u32 \<Rightarrow> u32 \<Rightarrow> abc \<Rightarrow> abc option" where
  "jhash_tail_shifted k s len = (\<lambda>(a, b, c).
     if len = 12 then Some (a + ucast (BIT_SHIFT (k 0) (k 1) s), b + ucast (BIT_SHIFT (k 1) (k 2) s),
       c + ucast (BIT_SHIFT (k 2) (k 3) s))
     else if len = 11 then Some (a + ucast (BIT_SHIFT (k 0) (k 1) s), b + ucast (BIT_SHIFT (k 1) (k 2) s),
       c + ucast (BIT_SHIFT (k 2) (k 3) s AND LOWER24b_MASK))
     else if len = 10 then Some (a + ucast (BIT_SHIFT (k 0) (k 1) s), b + ucast (BIT_SHIFT (k 1) (k 2) s),
       c + ucast (BIT_SHIFT (k 2) (k 3) s AND LOWER16b_MASK))
     else if len = 9 then Some (a + ucast (BIT_SHIFT (k 0) (k 1) s), b + ucast (BIT_SHIFT (k 1) (k 2) s),
       c + ucast (BIT_SHIFT (k 2) (k 3) s AND LOWER8b_MASK))
     else if len = 8 then Some (a + ucast (BIT_SHIFT (k 0) (k 1) s), b + ucast (BIT_SHIFT (k 1) (k 2) s), c)
     else if len = 7 then Some (a + ucast (BIT_SHIFT (k 0) (k 1) s),
       b + ucast (BIT_SHIFT (k 1) (k 2) s AND LOWER24b_MASK), c)
     else if len = 6 then Some (a + ucast (BIT_SHIFT (k 0) (k 1) s),
       b + ucast (BIT_SHIFT (k 1) (k 2) s AND LOWER16b_MASK), c)
     else if len = 5 then Some (a + ucast (BIT_SHIFT (k 0) (k 1) s),
       b + ucast (BIT_SHIFT (k 1) (k 2) s AND LOWER8b_MASK), c)
     else if len = 4 then Some (a + ucast (BIT_SHIFT (k 0) (k 1) s), b, c)
     else if len = 3 then Some (a + ucast (BIT_SHIFT (k 0) (k 1) s AND LOWER24b_MASK), b, c)
     else if len = 2 then Some (a + ucast (BIT_SHIFT (k 0) (k 1) s AND LOWER16b_MASK), b, c)
     else if len = 1 then Some (a + ucast (BIT_SHIFT (k 0) (k 1) s AND LOWER8b_MASK), b, c)
     else if len = 0 then None
     else Some (a, b, c))"

text \<open>\<open>__rte_jhash_2hashes\<close>; \<open>*pc\<close> and \<open>*pb\<close> go in and come out as a pair.\<close>

definition jhash_2hashes_align :: "mem \<Rightarrow> u64 \<Rightarrow> u32 \<Rightarrow> u32 \<times> u32 \<Rightarrow> bool \<Rightarrow> u32 \<times> u32" where
  "jhash_2hashes_align m key len = (\<lambda>(pc, pb) check_align.
     let a = RTE_JHASH_GOLDEN_RATIO + len + pc; b = a; c = a + pb;
         k = key AND NOT 3;
         s = ucast (key AND 3) * 8;
         (st, tail) =
           (if \<not> check_align \<or> s = 0
            then let (k, len, abc) = jhash_loop_aligned m k len (a, b, c)
                 in (abc, jhash_tail_aligned (ld32 m k) len abc)
            else let (k, len, abc) = jhash_loop_shifted m s k len (a, b, c)
                 in (abc, jhash_tail_shifted (ld32 m k) s len abc))
     in case tail of
          None \<Rightarrow> (case st of (a, b, c) \<Rightarrow> (c, b))
        | Some abc \<Rightarrow> (case rte_jhash_final abc of (a, b, c) \<Rightarrow> (c, b)))"

definition rte_jhash_2hashes :: "mem \<Rightarrow> u64 \<Rightarrow> u32 \<Rightarrow> u32 \<times> u32 \<Rightarrow> u32 \<times> u32" where
  "rte_jhash_2hashes m key len p = jhash_2hashes_align m key len p True"

definition rte_jhash_32b_2hashes :: "mem \<Rightarrow> u64 \<Rightarrow> u32 \<Rightarrow> u32 \<times> u32 \<Rightarrow> u32 \<times> u32" where
  "rte_jhash_32b_2hashes m k len p = jhash_2hashes_align m k (push_bit 2 len) p False"

definition rte_jhash :: "mem \<Rightarrow> u64 \<Rightarrow> u32 \<Rightarrow> u32 \<Rightarrow> u32" where
  "rte_jhash m key len initval = fst (rte_jhash_2hashes m key len (initval, 0))"

definition rte_jhash_32b :: "mem \<Rightarrow> u64 \<Rightarrow> u32 \<Rightarrow> u32 \<Rightarrow> u32" where
  "rte_jhash_32b m k len initval = fst (rte_jhash_32b_2hashes m k len (initval, 0))"

definition jhash_3words :: "u32 \<Rightarrow> u32 \<Rightarrow> u32 \<Rightarrow> u32 \<Rightarrow> u32" where
  "jhash_3words a b c initval =
     (let a = a + (RTE_JHASH_GOLDEN_RATIO + initval); b = b + (RTE_JHASH_GOLDEN_RATIO + initval);
          c = c + (RTE_JHASH_GOLDEN_RATIO + initval); (a, b, c) = rte_jhash_final (a, b, c)
      in c)"

definition rte_jhash_3words :: "u32 \<Rightarrow> u32 \<Rightarrow> u32 \<Rightarrow> u32 \<Rightarrow> u32" where
  "rte_jhash_3words a b c initval = jhash_3words (a + 12) (b + 12) (c + 12) initval"

definition rte_jhash_2words :: "u32 \<Rightarrow> u32 \<Rightarrow> u32 \<Rightarrow> u32" where
  "rte_jhash_2words a b initval = jhash_3words (a + 8) (b + 8) 8 initval"

definition rte_jhash_1word :: "u32 \<Rightarrow> u32 \<Rightarrow> u32" where
  "rte_jhash_1word a initval = jhash_3words (a + 4) 4 4 initval"

section \<open>Bytes and words\<close>

lemma byte_high_bit [simp]: "8 \<le> n \<Longrightarrow> \<not> bit (b :: u8) n"
  by (auto dest: bit_imp_le_length)

lemma bit_le32:
  "bit (le32 b0 b1 b2 b3) n =
     (if n < 8 then bit b0 n else if n < 16 then bit b1 (n - 8) else if n < 24 then bit b2 (n - 16)
      else n < 32 \<and> bit b3 (n - 24))"
  by (simp add: le32_def bit_simps) auto

lemma le32_zero [simp]: "le32 0 0 0 0 = 0"
  by (simp add: le32_def)

lemma bit_shift:
  assumes "0 < k" "k < 32" and "n < 32"
  shows "bit (ucast (BIT_SHIFT x y k) :: u32) n = (if n + unat k < 32 then bit x (n + unat k) else bit y (n + unat k - 32))"
proof -
  have "unat (32 - k) = 32 - unat k" using assms by (subst unat_sub) (auto simp: word_le_nat_alt word_less_nat_alt)
  moreover have "unat k < 32" "0 < unat k" using assms by (auto simp: word_less_nat_alt unat_gt_0)
  moreover have "\<not> bit x m" if "32 \<le> m" for m using that by (auto dest: bit_imp_le_length)
  ultimately show ?thesis using assms(3) by (auto simp: BIT_SHIFT_def bit_simps add.commute)
qed

lemma le32_shift:
  "ucast (BIT_SHIFT (le32 b0 b1 b2 b3) (le32 b4 b5 b6 b7) 8) = le32 b1 b2 b3 b4"
  "ucast (BIT_SHIFT (le32 b0 b1 b2 b3) (le32 b4 b5 b6 b7) 16) = le32 b2 b3 b4 b5"
  "ucast (BIT_SHIFT (le32 b0 b1 b2 b3) (le32 b4 b5 b6 b7) 24) = le32 b3 b4 b5 b6"
  by (rule bit_word_eqI; simp add: bit_shift bit_le32)+

lemma lower_masks:
  "(LOWER8b_MASK :: 'a::len word) = mask 8" "(LOWER16b_MASK :: 'a::len word) = mask 16"
  "(LOWER24b_MASK :: 'a::len word) = mask 24"
  by (simp_all add: mask_eq_exp_minus_1)

lemma le32_mask:
  "le32 b0 b1 b2 b3 AND LOWER8b_MASK = le32 b0 0 0 0"
  "le32 b0 b1 b2 b3 AND LOWER16b_MASK = le32 b0 b1 0 0"
  "le32 b0 b1 b2 b3 AND LOWER24b_MASK = le32 b0 b1 b2 0"
  unfolding lower_masks by (rule bit_word_eqI; simp add: bit_le32 bit_simps)+

section \<open>Alignment\<close>

lemma small_word:
  fixes w :: "'a::len word"
  assumes "unat w < n"
  shows "w \<in> set (map of_nat [0..<n])"
proof -
  have "w = of_nat (unat w)" by simp
  then show ?thesis using assms by (metis atLeast_upt image_set imageI lessThan_iff)
qed

lemma key_offset:
  fixes key :: u64
  shows "key = (key AND NOT 3) + (key AND 3)" and "key AND 3 \<in> {0, 1, 2, 3}"
proof -
  show "key = (key AND NOT 3) + (key AND 3)"
  proof -
    have "(key AND NOT 3) AND (key AND 3) = 0" by (rule bit_word_eqI) (simp add: bit_simps)
    then have "(key AND NOT 3) + (key AND 3) = (key AND NOT 3) OR (key AND 3)" by (rule disjunctive_add_eq_or)
    also have "\<dots> = key" by (rule bit_word_eqI) (auto simp: bit_simps)
    finally show ?thesis by simp
  qed
  have m: "(3::u64) = mask 2" by (simp add: mask_eq_exp_minus_1)
  have "key AND 3 < 4" unfolding m using and_mask_less'[of 2 key] by simp
  then have u: "unat (key AND 3) < 4" by (simp add: word_less_nat_alt)
  show "key AND 3 \<in> {0, 1, 2, 3}" using small_word[OF u] by (simp add: upt_rec)
qed

lemma ld32_next:
  "ld32 m k (i + 1) = (let p = k + 4 * of_nat i in le32 (m (p + 4)) (m (p + 5)) (m (p + 6)) (m (p + 7)))"
  "ld32 m (k + x) i = (let p = k + 4 * of_nat i in le32 (m (p + x)) (m (p + (x + 1))) (m (p + (x + 2))) (m (p + (x + 3))))"
  by (simp_all add: ld32_def Let_def ac_simps)

lemma ld32_shift:
  assumes "x \<in> {1, 2, 3}"
  shows "ucast (BIT_SHIFT (ld32 m k i) (ld32 m k (i + 1)) (ucast (x :: u64) * 8)) = ld32 m (k + x) i"
proof -
  have one: "(ucast (1::u64) * 8 :: u32) = 8" and two: "(ucast (2::u64) * 8 :: u32) = 16"
    and three: "(ucast (3::u64) * 8 :: u32) = 24"
    by simp_all
  show ?thesis
    using assms unfolding ld32_next Let_def ld32_def
    by (elim insertE emptyE) (simp_all only: one two three le32_shift, simp_all add: ac_simps)
qed

lemma ld32_shifts:
  assumes "x \<in> {1, 2, 3}"
  shows "ucast (BIT_SHIFT (ld32 m k 0) (ld32 m k 1) (ucast (x :: u64) * 8)) = ld32 m (k + x) 0"
    and "ucast (BIT_SHIFT (ld32 m k 1) (ld32 m k 2) (ucast (x :: u64) * 8)) = ld32 m (k + x) 1"
    and "ucast (BIT_SHIFT (ld32 m k 2) (ld32 m k 3) (ucast (x :: u64) * 8)) = ld32 m (k + x) 2"
proof -
  have i: "(1::nat) = 0 + 1" "(2::nat) = 1 + 1" "(3::nat) = 2 + 1" by simp_all
  show "ucast (BIT_SHIFT (ld32 m k 0) (ld32 m k 1) (ucast (x :: u64) * 8)) = ld32 m (k + x) 0"
    using ld32_shift[OF assms, of m k 0] by simp
  show "ucast (BIT_SHIFT (ld32 m k 1) (ld32 m k 2) (ucast (x :: u64) * 8)) = ld32 m (k + x) 1"
    by (subst i(2)) (rule ld32_shift[OF assms])
  show "ucast (BIT_SHIFT (ld32 m k 2) (ld32 m k 3) (ucast (x :: u64) * 8)) = ld32 m (k + x) 2"
    by (subst i(3)) (rule ld32_shift[OF assms])
qed

lemma ucast_masks:
  "ucast (w AND LOWER8b_MASK :: u64) = (ucast w AND LOWER8b_MASK :: u32)"
  "ucast (w AND LOWER16b_MASK :: u64) = (ucast w AND LOWER16b_MASK :: u32)"
  "ucast (w AND LOWER24b_MASK :: u64) = (ucast w AND LOWER24b_MASK :: u32)"
  by (simp_all add: unsigned_and_eq)

lemma jhash_tail_shift:
  assumes "x \<in> {1, 2, 3}"
  shows "jhash_tail_shifted (ld32 m k) (ucast (x :: u64) * 8) len abc = jhash_tail_aligned (ld32 m (k + x)) len abc"
  unfolding jhash_tail_shifted_def jhash_tail_aligned_def ucast_masks ld32_shifts[OF assms] ..

lemma jhash_loop_shift:
  assumes "x \<in> {1, 2, 3}"
  shows "jhash_loop_shifted m (ucast (x :: u64) * 8) k len abc =
    (case jhash_loop_aligned m (k + x) len abc of (k', r) \<Rightarrow> (k' - x, r))"
proof (induction m "k + x" len abc arbitrary: k rule: jhash_loop_aligned.induct)
  case (1 m len a b c)
  have k: "k + x + 12 = k + 12 + x" by simp
  show ?case
    by (subst jhash_loop_shifted.simps, subst jhash_loop_aligned.simps, unfold ld32_shifts[OF assms] k)
       (use 1[of "k + 12"] k in simp)
qed

section \<open>The reference\<close>

definition byte_at :: "u8 list \<Rightarrow> nat \<Rightarrow> u8" where
  "byte_at bs i = (if i < length bs then bs ! i else 0)"

definition word_at :: "u8 list \<Rightarrow> nat \<Rightarrow> u32" where
  "word_at bs i = le32 (byte_at bs (4 * i)) (byte_at bs (4 * i + 1)) (byte_at bs (4 * i + 2)) (byte_at bs (4 * i + 3))"

function jhash_bytes :: "u8 list \<Rightarrow> abc \<Rightarrow> abc" where
  "jhash_bytes bs (a, b, c) =
     (if length bs > 12
      then jhash_bytes (drop 12 bs) (rte_jhash_mix (a + word_at bs 0, b + word_at bs 1, c + word_at bs 2))
      else if bs = [] then (a, b, c)
      else rte_jhash_final (a + word_at bs 0, b + word_at bs 1, c + word_at bs 2))"
  by pat_completeness auto
termination jhash_bytes
  by (relation "measure (\<lambda>(bs, abc). length bs)") auto

definition jhash_ref :: "u8 list \<Rightarrow> u32 \<times> u32 \<Rightarrow> u32 \<times> u32" where
  "jhash_ref bs = (\<lambda>(pc, pb).
     let a = RTE_JHASH_GOLDEN_RATIO + of_nat (length bs) + pc; (a, b, c) = jhash_bytes bs (a, a, a + pb) in (c, b))"

definition key_bytes :: "mem \<Rightarrow> u64 \<Rightarrow> nat \<Rightarrow> u8 list" where
  "key_bytes m key n = map (\<lambda>i. m (key + of_nat i)) [0..<n]"

lemma length_key_bytes [simp]: "length (key_bytes m key n) = n"
  by (simp add: key_bytes_def)

lemma drop_key_bytes: "drop d (key_bytes m key n) = key_bytes m (key + of_nat d) (n - d)"
  by (rule nth_equalityI) (auto simp: key_bytes_def ac_simps)

lemma byte_at_key: "byte_at (key_bytes m key n) i = (if i < n then m (key + of_nat i) else 0)"
  by (simp add: byte_at_def key_bytes_def)

lemma word_at_key: "4 * i + 4 \<le> n \<Longrightarrow> word_at (key_bytes m key n) i = ld32 m key i"
  by (simp add: word_at_def byte_at_key ld32_def Let_def ac_simps)

lemma jhash_tail_bytes:
  assumes "len \<le> 12"
  shows "jhash_tail_aligned (ld32 m k) len (a, b, c) =
    (let bs = key_bytes m k (unat len)
     in if len = 0 then None else Some (a + word_at bs 0, b + word_at bs 1, c + word_at bs 2))"
proof -
  have "unat len < 13" using assms by (simp add: word_le_nat_alt)
  from small_word[OF this] have "len \<in> {0, 1, 2, 3, 4, 5, 6, 7, 8, 9, 10, 11, 12}" by (simp add: upt_rec)
  then show ?thesis
    by (elim insertE emptyE)
       (simp_all add: jhash_tail_aligned_def Let_def word_at_def byte_at_key ld32_def le32_mask,
        simp_all add: add.commute[of k])
qed

definition jhash_run :: "mem \<Rightarrow> u64 \<Rightarrow> u32 \<Rightarrow> abc \<Rightarrow> abc" where
  "jhash_run m k len abc =
     (case jhash_loop_aligned m k len abc of (k, len, abc) \<Rightarrow>
        (case jhash_tail_aligned (ld32 m k) len abc of None \<Rightarrow> abc | Some abc \<Rightarrow> rte_jhash_final abc))"

lemma jhash_run_bytes: "jhash_run m k len abc = jhash_bytes (key_bytes m k (unat len)) abc"
proof (induction m k len abc rule: jhash_loop_aligned.induct)
  case (1 m k len a b c)
  show ?case
  proof (cases "len > 12")
    case True
    then have "unat (len - 12) = unat len - 12" "unat len > 12"
      by (auto simp: unat_sub word_less_nat_alt word_le_nat_alt)
    with True 1 show ?thesis by (simp add: jhash_run_def drop_key_bytes word_at_key)
  next
    case False
    then have "len \<le> 12" "unat len \<le> 12" by (auto simp: word_le_nat_alt word_less_nat_alt)
    moreover have "key_bytes m k (unat len) = [] \<longleftrightarrow> len = 0"
      by (metis length_0_conv length_key_bytes unat_eq_0)
    ultimately show ?thesis
      using False by (simp add: jhash_run_def jhash_tail_bytes Let_def)
  qed
qed

definition jhash_run_shifted :: "mem \<Rightarrow> u32 \<Rightarrow> u64 \<Rightarrow> u32 \<Rightarrow> abc \<Rightarrow> abc" where
  "jhash_run_shifted m s k len abc =
     (case jhash_loop_shifted m s k len abc of (k, len, abc) \<Rightarrow>
        (case jhash_tail_shifted (ld32 m k) s len abc of None \<Rightarrow> abc | Some abc \<Rightarrow> rte_jhash_final abc))"

lemma jhash_run_shift:
  assumes "x \<in> {1, 2, 3}"
  shows "jhash_run_shifted m (ucast (x :: u64) * 8) k len abc = jhash_run m (k + x) len abc"
  by (simp add: jhash_run_shifted_def jhash_loop_shift[OF assms] jhash_tail_shift[OF assms] jhash_run_def
      split: prod.splits)

lemma jhash_2hashes_runs:
  "jhash_2hashes_align m key len (pc, pb) check_align =
     (let a = RTE_JHASH_GOLDEN_RATIO + len + pc; s = ucast (key AND 3) * 8
      in case (if \<not> check_align \<or> s = 0 then jhash_run m (key AND NOT 3) len (a, a, a + pb)
               else jhash_run_shifted m s (key AND NOT 3) len (a, a, a + pb))
         of (a, b, c) \<Rightarrow> (c, b))"
  unfolding jhash_2hashes_align_def jhash_run_def jhash_run_shifted_def Let_def
  by (simp del: jhash_loop_aligned.simps jhash_loop_shifted.simps split: prod.split option.split)

lemma jhash_2hashes_bytes:
  assumes "check_align \<or> key AND 3 = 0"
  shows "jhash_2hashes_align m key len p check_align = jhash_ref (key_bytes m key (unat len)) p"
proof -
  obtain pc pb where p: "p = (pc, pb)" by (cases p)
  let ?k = "key AND NOT 3" and ?x = "key AND 3"
  have key: "?k + ?x = key" and x: "?x \<in> {0, 1, 2, 3}" using key_offset[of key] by simp_all
  have s: "(ucast ?x * 8 :: u32) = 0 \<longleftrightarrow> ?x = 0" using x by auto
  have "(if \<not> check_align \<or> (ucast ?x * 8 :: u32) = 0 then jhash_run m ?k len abc
      else jhash_run_shifted m (ucast ?x * 8) ?k len abc) = jhash_run m key len abc" for abc
  proof (cases "?x = 0")
    case True
    with key show ?thesis by simp
  next
    case False
    then have "?x \<in> {1, 2, 3}" and "check_align" using x assms by auto
    with s key False show ?thesis by (simp only: jhash_run_shift) simp
  qed
  then show ?thesis
    unfolding p jhash_2hashes_runs Let_def by (simp only: jhash_run_bytes) (simp add: jhash_ref_def Let_def)
qed

lemma jhash_run_whole:
  "jhash_run m k 4 (a, b, c) = rte_jhash_final (a + ld32 m k 0, b, c)"
  "jhash_run m k 8 (a, b, c) = rte_jhash_final (a + ld32 m k 0, b + ld32 m k 1, c)"
  "jhash_run m k 12 (a, b, c) = rte_jhash_final (a + ld32 m k 0, b + ld32 m k 1, c + ld32 m k 2)"
  by (simp_all add: jhash_run_def jhash_tail_aligned_def)

lemma jhash_3words_final:
  "jhash_3words (a + n) (b + n') (c + n'') initval =
     snd (snd (rte_jhash_final (RTE_JHASH_GOLDEN_RATIO + n + initval + a, RTE_JHASH_GOLDEN_RATIO + n' + initval + b,
       RTE_JHASH_GOLDEN_RATIO + n'' + initval + c)))"
  by (simp add: jhash_3words_def Let_def ac_simps split: prod.splits)

lemma fst_swap_case: "fst (case t of (a, b, c) \<Rightarrow> (c, b)) = snd (snd t)"
  by (cases t) simp

section \<open>What the hashes compute\<close>

text \<open>C31: the hash of a key, at any address and of any length, is the reference hash of the key's bytes:
  both the aligned and the shifted branch read the key as little-endian words padded with zeros,
  and no byte outside the key has an influence.\<close>

theorem jhash_hashes_bytes:
  "rte_jhash_2hashes m key len p = jhash_ref (key_bytes m key (unat len)) p \<and>
   rte_jhash m key len initval = fst (jhash_ref (key_bytes m key (unat len)) (initval, 0))"
  by (simp add: rte_jhash_def rte_jhash_2hashes_def jhash_2hashes_bytes)

text \<open>the variants for words agree with the generic hash: on an aligned key the 32-bit variant is
  the hash of four times as many bytes, and the variants for one, two and three words are the
  32-bit variant on an array of that many words.\<close>

theorem jhash_word_variants_agree:
  assumes "k AND 3 = 0"
  shows "rte_jhash_32b m k len initval = rte_jhash m k (push_bit 2 len) initval \<and>
    rte_jhash_1word (ld32 m k 0) initval = rte_jhash_32b m k 1 initval \<and>
    rte_jhash_2words (ld32 m k 0) (ld32 m k 1) initval = rte_jhash_32b m k 2 initval \<and>
    rte_jhash_3words (ld32 m k 0) (ld32 m k 1) (ld32 m k 2) initval = rte_jhash_32b m k 3 initval"
proof (intro conjI)
  show "rte_jhash_32b m k len initval = rte_jhash m k (push_bit 2 len) initval"
    using assms by (simp add: rte_jhash_32b_def rte_jhash_32b_2hashes_def rte_jhash_def rte_jhash_2hashes_def
        jhash_2hashes_bytes)
  have k: "k AND NOT 3 = k" using key_offset(1)[of k] assms by simp
  have len: "push_bit 2 (1::u32) = 4" "push_bit 2 (2::u32) = 8" "push_bit 2 (3::u32) = 12" by simp_all
  note run = rte_jhash_32b_def rte_jhash_32b_2hashes_def jhash_2hashes_runs Let_def k len jhash_run_whole
  show "rte_jhash_1word (ld32 m k 0) initval = rte_jhash_32b m k 1 initval"
    unfolding run rte_jhash_1word_def using jhash_3words_final[of _ 4 0 4 0 4] by (simp add: fst_swap_case)
  show "rte_jhash_2words (ld32 m k 0) (ld32 m k 1) initval = rte_jhash_32b m k 2 initval"
    unfolding run rte_jhash_2words_def using jhash_3words_final[of _ 8 _ 8 0 8] by (simp add: fst_swap_case)
  show "rte_jhash_3words (ld32 m k 0) (ld32 m k 1) (ld32 m k 2) initval = rte_jhash_32b m k 3 initval"
    unfolding run rte_jhash_3words_def jhash_3words_final by (simp add: fst_swap_case)
qed

theorem jhash_word_variants_agree_witness:
  "rte_jhash_1word 0x04030201 7 = rte_jhash (\<lambda>p. ucast p + 1) 0 4 7"
proof -
  let ?m = "\<lambda>p. ucast p + 1"
  have ld: "ld32 ?m 0 0 = 0x04030201" by (simp add: ld32_def le32_def)
  have len: "push_bit 2 (1::u32) = 4" by simp
  have "(0::u64) AND 3 = 0" by simp
  note parts = jhash_word_variants_agree[OF this, of ?m 1 7, unfolded ld len]
  show ?thesis unfolding parts[THEN conjunct2, THEN conjunct1] by (rule parts[THEN conjunct1])
qed

end
