(* ===== verification/Cuckoo_Hash.thy ===== *)
theory Cuckoo_Hash
  imports Ring_Queue Locks
begin

text \<open>
  The cuckoo hash table of \<^verbatim>\<open>src/rte_lib/rte_cuckoo_hash.h\<close> and \<^verbatim>\<open>src/rte_lib/rte_cuckoo_hash.c\<close>:
  the structures and the insertion of a key with all its helpers.

  \<^item> A pointer to a bucket is a \<open>bref\<close>: an index into \<open>buckets\<close> or into \<open>buckets_ext\<close>.  An access
    outside the array is the fault \<open>OutOfBounds\<close>.
  \<^item> The key store is its bytes.  The entry of slot \<open>i\<close> starts at the 32-bit product
    \<open>i * key_entry_size\<close>: eight bytes of data and the key behind them.
  \<^item> A key argument is the bytes that can be read at its address; \<open>hash_func\<close> is a field, as in C.
  \<^item> The free slots are a ring of the ring library and the lock is the word of an \<open>rte_rwlock_t\<close>.
  \<^item> A node of the breadth-first search is never changed once it is in the queue, so a pointer to
    the previous node is that node.
  \<^item> The list of chained buckets is followed for at most as many steps as there are extra buckets
    and two more; a list that is longer has a cycle and the loop in C would not end (\<open>Spins\<close>).

  The functions are runs of one thread that nobody interrupts.
\<close>

section \<open>Data\<close>

definition RTE_HASH_BUCKET_ENTRIES :: nat where "RTE_HASH_BUCKET_ENTRIES = 8"
definition EMPTY_SLOT :: u32 where "EMPTY_SLOT = 0"
definition KEY_ALIGNMENT :: u32 where "KEY_ALIGNMENT = 16"
definition RTE_HASH_BFS_QUEUE_MAX_LEN :: nat where "RTE_HASH_BFS_QUEUE_MAX_LEN = 1000"

datatype bref = Main nat | Ext nat

record rte_hash_bucket =
  sig_current :: "u16 list"
  key_idx :: "u32 list"
  bkt_flag :: "u8 list"
  bkt_next :: "bref option"

record rte_hash =
  h_name :: string
  h_entries :: u32
  h_num_buckets :: u32
  h_free_slots :: rte_ring
  h_key_len :: u32
  h_hw_trans_mem_support :: bool
  h_use_local_cache :: bool
  h_readwrite_concur_support :: bool
  h_ext_table_support :: bool
  h_no_free_on_del :: bool
  h_readwrite_concur_lf_support :: bool
  h_writer_takes_lock :: bool
  h_hash_func :: "u8 list \<Rightarrow> u32 \<Rightarrow> u32 \<Rightarrow> u32"
  h_hash_func_init_val :: u32
  h_bucket_bitmask :: u32
  h_key_entry_size :: u32
  h_key_store :: "u8 list"
  h_buckets :: "rte_hash_bucket list"
  h_readwrite_lock :: u32
  h_buckets_ext :: "rte_hash_bucket list"
  h_free_ext_bkts :: rte_ring
  h_tbl_chng_cnt :: u32

datatype queue_node = QNode (qn_bkt: bref) (qn_cur_bkt_idx: u32) (qn_prev: "(queue_node \<times> nat) option")

section \<open>Memory\<close>

fun get_bkt :: "rte_hash \<Rightarrow> bref \<Rightarrow> rte_hash_bucket cres" where
  "get_bkt h (Main i) = (if i < length (h_buckets h) then Inr (h_buckets h ! i) else Inl OutOfBounds)"
| "get_bkt h (Ext i) = (if i < length (h_buckets_ext h) then Inr (h_buckets_ext h ! i) else Inl OutOfBounds)"

fun put_bkt :: "rte_hash \<Rightarrow> bref \<Rightarrow> rte_hash_bucket \<Rightarrow> rte_hash" where
  "put_bkt h (Main i) b = h\<lparr>h_buckets := (h_buckets h)[i := b]\<rparr>"
| "put_bkt h (Ext i) b = h\<lparr>h_buckets_ext := (h_buckets_ext h)[i := b]\<rparr>"

definition set_entry :: "rte_hash \<Rightarrow> bref \<Rightarrow> nat \<Rightarrow> u16 \<Rightarrow> u32 \<Rightarrow> rte_hash cres" where
  "set_entry h b i sig idx =
     bindc (get_bkt h b) (\<lambda>bk. Inr (put_bkt h b
       (bk\<lparr>sig_current := (sig_current bk)[i := sig], key_idx := (key_idx bk)[i := idx]\<rparr>)))"

definition clear_entry :: "rte_hash \<Rightarrow> bref \<Rightarrow> nat \<Rightarrow> rte_hash cres" where
  "clear_entry h b i =
     bindc (get_bkt h b) (\<lambda>bk. Inr (put_bkt h b (bk\<lparr>key_idx := (key_idx bk)[i := EMPTY_SLOT]\<rparr>)))"

definition mem_read :: "u8 list \<Rightarrow> nat \<Rightarrow> nat \<Rightarrow> u8 list cres" where
  "mem_read m p n = (if p + n \<le> length m then Inr (take n (drop p m)) else Inl OutOfBounds)"

definition mem_write :: "u8 list \<Rightarrow> nat \<Rightarrow> u8 list \<Rightarrow> u8 list cres" where
  "mem_write m p xs = (if p + length xs \<le> length m then Inr (blit m p xs) else Inl OutOfBounds)"

definition pdata_bytes :: "u64 \<Rightarrow> u8 list" where
  "pdata_bytes d = map (\<lambda>i. ucast (drop_bit (8 * i) d)) [0..<8]"

text \<open>Where the entry of a slot starts; the product is one of \<open>uint32_t\<close>.\<close>

definition key_offset_of :: "rte_hash \<Rightarrow> u32 \<Rightarrow> nat" where
  "key_offset_of h idx = unat (idx * h_key_entry_size h)"

definition store_pdata :: "rte_hash \<Rightarrow> u32 \<Rightarrow> u64 \<Rightarrow> rte_hash cres" where
  "store_pdata h idx data =
     bindc (mem_write (h_key_store h) (key_offset_of h idx) (pdata_bytes data)) (\<lambda>m. Inr (h\<lparr>h_key_store := m\<rparr>))"

definition store_key :: "rte_hash \<Rightarrow> u32 \<Rightarrow> u8 list \<Rightarrow> rte_hash cres" where
  "store_key h idx key =
     bindc (mem_read key 0 (unat (h_key_len h))) (\<lambda>bs.
     bindc (mem_write (h_key_store h) (key_offset_of h idx + 8) bs) (\<lambda>m. Inr (h\<lparr>h_key_store := m\<rparr>)))"

section \<open>Helpers\<close>

fun memcmp :: "u8 list \<Rightarrow> u8 list \<Rightarrow> int" where
  "memcmp (a # as) (b # bs) = (if a = b then memcmp as bs else if a < b then - 1 else 1)"
| "memcmp _ _ = 0"

text \<open>\<open>rte_hash_cmp_eq\<close> compares \<open>sizeof(key1)\<close> bytes, the size of a pointer.\<close>

definition rte_hash_cmp_eq :: "u8 list \<Rightarrow> u8 list \<Rightarrow> nat \<Rightarrow> int cres" where
  "rte_hash_cmp_eq key1 store key2 =
     bindc (mem_read key1 0 8) (\<lambda>a. bindc (mem_read store key2 8) (\<lambda>b. Inr (memcmp a b)))"

definition get_short_sig :: "u32 \<Rightarrow> u16" where
  "get_short_sig hash = ucast (drop_bit 16 hash)"

definition get_prim_bucket_index :: "rte_hash \<Rightarrow> u32 \<Rightarrow> u32" where
  "get_prim_bucket_index h hash = hash AND h_bucket_bitmask h"

definition get_alt_bucket_index :: "rte_hash \<Rightarrow> u32 \<Rightarrow> u16 \<Rightarrow> u32" where
  "get_alt_bucket_index h cur_bkt_idx sig = (cur_bkt_idx XOR ucast sig) AND h_bucket_bitmask h"

definition alloc_slot :: "rte_hash \<Rightarrow> (u32 \<times> rte_hash) cres" where
  "alloc_slot h =
     bindc (rte_ring_sc_dequeue_elem (h_free_slots h) [0] 4) (\<lambda>(ret, obj, r).
       Inr (if ret \<noteq> 0 then EMPTY_SLOT else hd obj, h\<lparr>h_free_slots := r\<rparr>))"

definition enqueue_slot_back :: "rte_hash \<Rightarrow> u32 \<Rightarrow> rte_hash cres" where
  "enqueue_slot_back h slot_id =
     bindc (rte_ring_sp_enqueue_elem (h_free_slots h) [slot_id] 4) (\<lambda>(_, r). Inr (h\<lparr>h_free_slots := r\<rparr>))"

definition hash_rw_writer_lock :: "rte_hash \<Rightarrow> rte_hash cres" where
  "hash_rw_writer_lock h =
     (if h_writer_takes_lock h \<and> h_hw_trans_mem_support h
      then bindc (rte_rwlock_write_lock (h_readwrite_lock h)) (\<lambda>l. Inr (h\<lparr>h_readwrite_lock := l\<rparr>))
      else if h_writer_takes_lock h
      then bindc (rte_rwlock_write_lock (h_readwrite_lock h)) (\<lambda>l. Inr (h\<lparr>h_readwrite_lock := l\<rparr>))
      else Inr h)"

definition hash_rw_reader_lock :: "rte_hash \<Rightarrow> rte_hash cres" where
  "hash_rw_reader_lock h =
     (if h_readwrite_concur_support h \<and> h_hw_trans_mem_support h
      then bindc (rte_rwlock_read_lock (h_readwrite_lock h)) (\<lambda>l. Inr (h\<lparr>h_readwrite_lock := l\<rparr>))
      else if h_readwrite_concur_support h
      then bindc (rte_rwlock_read_lock (h_readwrite_lock h)) (\<lambda>l. Inr (h\<lparr>h_readwrite_lock := l\<rparr>))
      else Inr h)"

definition hash_rw_writer_unlock :: "rte_hash \<Rightarrow> rte_hash" where
  "hash_rw_writer_unlock h =
     (if h_writer_takes_lock h \<and> h_hw_trans_mem_support h
      then h\<lparr>h_readwrite_lock := rte_rwlock_write_unlock (h_readwrite_lock h)\<rparr>
      else if h_writer_takes_lock h
      then h\<lparr>h_readwrite_lock := rte_rwlock_write_unlock (h_readwrite_lock h)\<rparr>
      else h)"

definition hash_rw_reader_unlock :: "rte_hash \<Rightarrow> rte_hash" where
  "hash_rw_reader_unlock h =
     (if h_readwrite_concur_support h \<and> h_hw_trans_mem_support h
      then h\<lparr>h_readwrite_lock := rte_rwlock_read_unlock (h_readwrite_lock h)\<rparr>
      else if h_readwrite_concur_support h
      then h\<lparr>h_readwrite_lock := rte_rwlock_read_unlock (h_readwrite_lock h)\<rparr>
      else h)"

section \<open>Searching\<close>

fun search_slots :: "rte_hash \<Rightarrow> u64 \<Rightarrow> u8 list \<Rightarrow> rte_hash_bucket \<Rightarrow> u16 \<Rightarrow> nat list \<Rightarrow> (int \<times> rte_hash) cres" where
  "search_slots h data key bk sig [] = Inr (- 1, h)"
| "search_slots h data key bk sig (i # is) =
     (if sig_current bk ! i = sig
      then bindc (rte_hash_cmp_eq key (h_key_store h) (key_offset_of h (key_idx bk ! i) + 8)) (\<lambda>c.
        if c = 0
        then bindc (store_pdata h (key_idx bk ! i) data) (\<lambda>h. Inr (sint (key_idx bk ! i - 1), h))
        else search_slots h data key bk sig is)
      else search_slots h data key bk sig is)"

definition search_and_update :: "rte_hash \<Rightarrow> u64 \<Rightarrow> u8 list \<Rightarrow> bref \<Rightarrow> u16 \<Rightarrow> (int \<times> rte_hash) cres" where
  "search_and_update h data key b sig =
     bindc (get_bkt h b) (\<lambda>bk. search_slots h data key bk sig [0..<RTE_HASH_BUCKET_ENTRIES])"

text \<open>\<open>FOR_EACH_BUCKET\<close> around \<open>search_and_update\<close>: stops at the first bucket with the key.\<close>

fun search_chain :: "nat \<Rightarrow> rte_hash \<Rightarrow> u64 \<Rightarrow> u8 list \<Rightarrow> bref option \<Rightarrow> u16 \<Rightarrow> (int \<times> rte_hash) cres" where
  "search_chain 0 h data key cur sig = Inl Spins"
| "search_chain (Suc n) h data key None sig = Inr (- 1, h)"
| "search_chain (Suc n) h data key (Some b) sig =
     bindc (search_and_update h data key b sig) (\<lambda>(ret, h).
       if ret \<noteq> - 1 then Inr (ret, h)
       else bindc (get_bkt h b) (\<lambda>bk. search_chain n h data key (bkt_next bk) sig))"

definition chain_fuel :: "rte_hash \<Rightarrow> nat" where
  "chain_fuel h = length (h_buckets_ext h) + 2"

text \<open>The check that starts every protected region: the primary bucket, then the chain of the secondary one.\<close>

definition search_both :: "rte_hash \<Rightarrow> u64 \<Rightarrow> u8 list \<Rightarrow> bref \<Rightarrow> bref \<Rightarrow> u16 \<Rightarrow> (int \<times> rte_hash) cres" where
  "search_both h data key prim_bkt sec_bkt sig =
     bindc (search_and_update h data key prim_bkt sig) (\<lambda>(ret, h).
       if ret \<noteq> - 1 then Inr (ret, h) else search_chain (chain_fuel h) h data key (Some sec_bkt) sig)"

section \<open>Inserting\<close>

definition rte_hash_cuckoo_insert_mw ::
  "rte_hash \<Rightarrow> bref \<Rightarrow> bref \<Rightarrow> u8 list \<Rightarrow> u64 \<Rightarrow> u16 \<Rightarrow> u32 \<Rightarrow> int \<Rightarrow> (int \<times> int \<times> rte_hash) cres" where
  "rte_hash_cuckoo_insert_mw h prim_bkt sec_bkt key data sig new_idx ret_val =
     bindc (hash_rw_writer_lock h) (\<lambda>h.
     bindc (search_both h data key prim_bkt sec_bkt sig) (\<lambda>(ret, h).
       if ret \<noteq> - 1 then Inr (1, ret, hash_rw_writer_unlock h)
       else bindc (get_bkt h prim_bkt) (\<lambda>bk.
         case find (\<lambda>i. key_idx bk ! i = EMPTY_SLOT) [0..<RTE_HASH_BUCKET_ENTRIES] of
           None \<Rightarrow> Inr (- 1, ret_val, hash_rw_writer_unlock h)
         | Some i \<Rightarrow> bindc (set_entry h prim_bkt i sig new_idx) (\<lambda>h. Inr (0, ret_val, hash_rw_writer_unlock h)))))"

definition note_change :: "rte_hash \<Rightarrow> rte_hash" where
  "note_change h = (if h_readwrite_concur_lf_support h then h\<lparr>h_tbl_chng_cnt := h_tbl_chng_cnt h + 1\<rparr> else h)"

text \<open>
  The loop of \<open>rte_hash_cuckoo_move_insert_mw\<close> from a node back to the first one.  It returns the
  bucket and the slot that are free at the end, or \<open>-1\<close> when an entry has moved away meanwhile.
\<close>

fun move_path :: "rte_hash \<Rightarrow> queue_node \<Rightarrow> nat \<Rightarrow> (int \<times> bref \<times> nat \<times> rte_hash) cres" where
  "move_path h (QNode curr_bkt cur None) curr_slot = Inr (0, curr_bkt, curr_slot, h)"
| "move_path h (QNode curr_bkt cur (Some (prev_node, prev_slot))) curr_slot =
     bindc (get_bkt h (qn_bkt prev_node)) (\<lambda>prev_bkt.
       let prev_alt_bkt_idx = get_alt_bucket_index h (qn_cur_bkt_idx prev_node) (sig_current prev_bkt ! prev_slot)
       in if Main (unat prev_alt_bkt_idx) \<noteq> curr_bkt
          then bindc (clear_entry h curr_bkt curr_slot) (\<lambda>h. Inr (- 1, curr_bkt, curr_slot, h))
          else bindc (set_entry (note_change h) curr_bkt curr_slot (sig_current prev_bkt ! prev_slot)
                       (key_idx prev_bkt ! prev_slot)) (\<lambda>h.
                 move_path h prev_node prev_slot))"

definition rte_hash_cuckoo_move_insert_mw ::
  "rte_hash \<Rightarrow> bref \<Rightarrow> bref \<Rightarrow> u8 list \<Rightarrow> u64 \<Rightarrow> queue_node \<Rightarrow> nat \<Rightarrow> u16 \<Rightarrow> u32 \<Rightarrow> int \<Rightarrow>
     (int \<times> int \<times> rte_hash) cres" where
  "rte_hash_cuckoo_move_insert_mw h bkt alt_bkt key data leaf leaf_slot sig new_idx ret_val =
     bindc (hash_rw_writer_lock h) (\<lambda>h.
     bindc (get_bkt h (qn_bkt leaf)) (\<lambda>curr_bkt.
       if key_idx curr_bkt ! leaf_slot \<noteq> EMPTY_SLOT then Inr (- 1, ret_val, hash_rw_writer_unlock h)
       else bindc (search_both h data key bkt alt_bkt sig) (\<lambda>(ret, h).
         if ret \<noteq> - 1 then Inr (1, ret, hash_rw_writer_unlock h)
         else bindc (move_path h leaf leaf_slot) (\<lambda>(ret, curr_bkt, curr_slot, h).
           if ret = - 1 then Inr (- 1, ret_val, hash_rw_writer_unlock h)
           else bindc (set_entry (note_change h) curr_bkt curr_slot sig new_idx) (\<lambda>h.
             Inr (0, ret_val, hash_rw_writer_unlock h))))))"

text \<open>
  The \<open>for\<close> loop of the breadth-first search over the slots of the bucket of \<open>tail\<close>.  It returns
  the result of a move that succeeded, or \<open>None\<close> and the nodes that were put into the queue.
\<close>

fun make_space_slots ::
  "bref \<Rightarrow> bref \<Rightarrow> u8 list \<Rightarrow> u64 \<Rightarrow> u16 \<Rightarrow> u32 \<Rightarrow> queue_node \<Rightarrow> nat list \<Rightarrow> int \<Rightarrow> rte_hash \<Rightarrow>
     (int option \<times> int \<times> queue_node list \<times> rte_hash) cres" where
  "make_space_slots bkt sec_bkt key data sig new_idx tail [] ret_val h = Inr (None, ret_val, [], h)"
| "make_space_slots bkt sec_bkt key data sig new_idx tail (i # is) ret_val h =
     bindc (get_bkt h (qn_bkt tail)) (\<lambda>curr_bkt.
     bindc (if key_idx curr_bkt ! i = EMPTY_SLOT
            then rte_hash_cuckoo_move_insert_mw h bkt sec_bkt key data tail i sig new_idx ret_val
            else Inr (- 1, ret_val, h)) (\<lambda>(ret, ret_val, h).
       if ret \<noteq> - 1 then Inr (Some ret, ret_val, [], h)
       else bindc (get_bkt h (qn_bkt tail)) (\<lambda>curr_bkt.
         let alt_idx = get_alt_bucket_index h (qn_cur_bkt_idx tail) (sig_current curr_bkt ! i)
         in bindc (make_space_slots bkt sec_bkt key data sig new_idx tail is ret_val h) (\<lambda>(res, ret_val, new, h).
              Inr (res, ret_val, QNode (Main (unat alt_idx)) alt_idx (Some (tail, i)) # new, h)))))"

text \<open>
  The \<open>while\<close> loop: \<open>todo\<close> are the nodes from \<open>tail\<close> to \<open>head\<close>, \<open>n\<close> is the index of \<open>head\<close>.
\<close>

function make_space_loop ::
  "bref \<Rightarrow> bref \<Rightarrow> u8 list \<Rightarrow> u64 \<Rightarrow> u16 \<Rightarrow> u32 \<Rightarrow> queue_node list \<Rightarrow> nat \<Rightarrow> int \<Rightarrow> rte_hash \<Rightarrow>
     (int \<times> int \<times> rte_hash) cres" where
  "make_space_loop bkt sec_bkt key data sig new_idx todo n ret_val h =
     (case todo of
        [] \<Rightarrow> Inr (- ENOSPC, ret_val, h)
      | tail # rest \<Rightarrow>
          if n < RTE_HASH_BFS_QUEUE_MAX_LEN - RTE_HASH_BUCKET_ENTRIES
          then bindc (make_space_slots bkt sec_bkt key data sig new_idx tail [0..<RTE_HASH_BUCKET_ENTRIES] ret_val h)
                 (\<lambda>(res, ret_val, new, h).
                    case res of
                      Some ret \<Rightarrow> Inr (ret, ret_val, h)
                    | None \<Rightarrow> make_space_loop bkt sec_bkt key data sig new_idx (rest @ new)
                        (n + RTE_HASH_BUCKET_ENTRIES) ret_val h)
          else Inr (- ENOSPC, ret_val, h))"
  by pat_completeness auto
termination make_space_loop
  by (relation "measure (\<lambda>(bkt, sec_bkt, key, data, sig, new_idx, todo, n, ret_val, h). RTE_HASH_BFS_QUEUE_MAX_LEN - n)")
     (auto simp: RTE_HASH_BFS_QUEUE_MAX_LEN_def RTE_HASH_BUCKET_ENTRIES_def)

declare make_space_loop.simps [simp del]

definition rte_hash_cuckoo_make_space_mw ::
  "rte_hash \<Rightarrow> bref \<Rightarrow> bref \<Rightarrow> u8 list \<Rightarrow> u64 \<Rightarrow> u16 \<Rightarrow> u32 \<Rightarrow> u32 \<Rightarrow> int \<Rightarrow> (int \<times> int \<times> rte_hash) cres" where
  "rte_hash_cuckoo_make_space_mw h bkt sec_bkt key data sig bucket_idx new_idx ret_val =
     make_space_loop bkt sec_bkt key data sig new_idx [QNode bkt bucket_idx None] 1 ret_val h"

section \<open>Extendable buckets\<close>

text \<open>Searching a chain for a bucket with an empty slot, and for its last bucket.\<close>

fun chain_insert :: "nat \<Rightarrow> rte_hash \<Rightarrow> bref option \<Rightarrow> u16 \<Rightarrow> u32 \<Rightarrow> (bool \<times> rte_hash) cres" where
  "chain_insert 0 h cur sig idx = Inl Spins"
| "chain_insert (Suc n) h None sig idx = Inr (False, h)"
| "chain_insert (Suc n) h (Some b) sig idx =
     bindc (get_bkt h b) (\<lambda>bk.
       case find (\<lambda>i. key_idx bk ! i = EMPTY_SLOT) [0..<RTE_HASH_BUCKET_ENTRIES] of
         Some i \<Rightarrow> bindc (set_entry h b i sig idx) (\<lambda>h. Inr (True, h))
       | None \<Rightarrow> chain_insert n h (bkt_next bk) sig idx)"

fun rte_hash_get_last_bkt :: "nat \<Rightarrow> rte_hash \<Rightarrow> bref \<Rightarrow> bref cres" where
  "rte_hash_get_last_bkt 0 h lst_bkt = Inl Spins"
| "rte_hash_get_last_bkt (Suc n) h lst_bkt =
     bindc (get_bkt h lst_bkt) (\<lambda>bk.
       case bkt_next bk of None \<Rightarrow> Inr lst_bkt | Some b \<Rightarrow> rte_hash_get_last_bkt n h b)"

definition link_ext :: "rte_hash \<Rightarrow> bref \<Rightarrow> nat \<Rightarrow> rte_hash cres" where
  "link_ext h sec_bkt e =
     bindc (rte_hash_get_last_bkt (chain_fuel h) h sec_bkt) (\<lambda>l.
     bindc (get_bkt h l) (\<lambda>bk. Inr (put_bkt h l (bk\<lparr>bkt_next := Some (Ext e)\<rparr>))))"

text \<open>The part of \<open>__rte_hash_add_key_with_hash\<close> after the searches of the two buckets have failed.\<close>

definition add_key_ext :: "rte_hash \<Rightarrow> bref \<Rightarrow> bref \<Rightarrow> u8 list \<Rightarrow> u64 \<Rightarrow> u16 \<Rightarrow> u32 \<Rightarrow> (int \<times> rte_hash) cres" where
  "add_key_ext h prim_bkt sec_bkt key data short_sig slot_id =
     bindc (hash_rw_writer_lock h) (\<lambda>h.
     bindc (search_both h data key prim_bkt sec_bkt short_sig) (\<lambda>(ret, h).
       if ret \<noteq> - 1 then bindc (enqueue_slot_back h slot_id) (\<lambda>h. Inr (ret, hash_rw_writer_unlock h))
       else bindc (chain_insert (chain_fuel h) h (Some sec_bkt) short_sig slot_id) (\<lambda>(done, h).
         if done then Inr (sint (slot_id - 1), hash_rw_writer_unlock h)
         else bindc (rte_ring_sc_dequeue_elem (h_free_ext_bkts h) [0] 4) (\<lambda>(ret, obj, r).
           let h = h\<lparr>h_free_ext_bkts := r\<rparr>; ext_bkt_id = (if ret \<noteq> 0 then 0 else hd obj)
           in if ext_bkt_id = 0 then Inr (- ENOSPC, hash_rw_writer_unlock h)
              else bindc (set_entry h (Ext (unat (ext_bkt_id - 1))) 0 short_sig slot_id) (\<lambda>h.
                   bindc (link_ext h sec_bkt (unat (ext_bkt_id - 1))) (\<lambda>h.
                   Inr (sint (slot_id - 1), hash_rw_writer_unlock h)))))))"

section \<open>Adding a key\<close>

definition rte_hash_hash :: "rte_hash \<Rightarrow> u8 list \<Rightarrow> u32" where
  "rte_hash_hash h key = h_hash_func h key (h_key_len h) (h_hash_func_init_val h)"

text \<open>What follows a call that inserts: 0 is success, 1 that the key was there already.\<close>

definition after_insert ::
  "u32 \<Rightarrow> int \<times> int \<times> rte_hash \<Rightarrow> (int \<Rightarrow> int \<Rightarrow> rte_hash \<Rightarrow> (int \<times> rte_hash) cres) \<Rightarrow> (int \<times> rte_hash) cres" where
  "after_insert slot_id res continue =
     (case res of (ret, ret_val, h) \<Rightarrow>
        if ret = 0 then Inr (sint (slot_id - 1), h)
        else if ret = 1 then bindc (enqueue_slot_back h slot_id) (\<lambda>h. Inr (ret_val, h))
        else continue ret ret_val h)"

definition add_key_with_hash :: "rte_hash \<Rightarrow> u8 list \<Rightarrow> u32 \<Rightarrow> u64 \<Rightarrow> (int \<times> rte_hash) cres" where
  "add_key_with_hash h key sig data =
     (let short_sig = get_short_sig sig;
          prim_bucket_idx = get_prim_bucket_index h sig;
          sec_bucket_idx = get_alt_bucket_index h prim_bucket_idx short_sig;
          prim_bkt = Main (unat prim_bucket_idx);
          sec_bkt = Main (unat sec_bucket_idx)
      in bindc (hash_rw_writer_lock h) (\<lambda>h.
         bindc (search_both h data key prim_bkt sec_bkt short_sig) (\<lambda>(ret, h).
           let h = hash_rw_writer_unlock h
           in if ret \<noteq> - 1 then Inr (ret, h)
              else bindc (alloc_slot h) (\<lambda>(slot_id, h).
                   bindc (store_pdata h slot_id data) (\<lambda>h.
                   bindc (store_key h slot_id key) (\<lambda>h.
                   bindc (rte_hash_cuckoo_insert_mw h prim_bkt sec_bkt key data short_sig slot_id 0) (\<lambda>res.
                   after_insert slot_id res (\<lambda>_ ret_val h.
                   bindc (rte_hash_cuckoo_make_space_mw h prim_bkt sec_bkt key data short_sig
                            prim_bucket_idx slot_id ret_val) (\<lambda>res.
                   after_insert slot_id res (\<lambda>_ ret_val h.
                   bindc (rte_hash_cuckoo_make_space_mw h sec_bkt prim_bkt key data short_sig
                            sec_bucket_idx slot_id ret_val) (\<lambda>res.
                   after_insert slot_id res (\<lambda>ret ret_val h.
                   if \<not> h_ext_table_support h
                   then bindc (enqueue_slot_back h slot_id) (\<lambda>h. Inr (ret, h))
                   else add_key_ext h prim_bkt sec_bkt key data short_sig slot_id))))))))))))"

definition rte_hash_add_key :: "rte_hash \<Rightarrow> u8 list \<Rightarrow> (int \<times> rte_hash) cres" where
  "rte_hash_add_key h key = add_key_with_hash h key (rte_hash_hash h key) 0"

end
