(* ===== verification/Cuckoo_Table.thy ===== *)
theory Cuckoo_Table
  imports Cuckoo_Hash "HOL-Library.Multiset"
begin

text \<open>
  The table of a cuckoo hash as one list of entries (signature, slot), what the bucket functions
  do to it, and the cuckoo moves: an entry that moves stays in one of the two buckets of its key,
  and a path of moves keeps the multiset of entries, but for the position that becomes free.
\<close>

section \<open>Bucket indices\<close>

definition mask_ok :: "rte_hash \<Rightarrow> bool" where
  "mask_ok h \<longleftrightarrow> (\<exists>b < 32. h_bucket_bitmask h = 2 ^ b - 1 \<and> length (h_buckets h) = 2 ^ b)"

lemma mask_lt:
  assumes "mask_ok h"
  shows "unat (x AND h_bucket_bitmask h) < length (h_buckets h)"
  using assms by (auto simp: mask_ok_def unat_and_exp)

lemma mask_id:
  assumes "mask_ok h" and "unat x < length (h_buckets h)"
  shows "x AND h_bucket_bitmask h = x"
proof -
  obtain b where b: "h_bucket_bitmask h = 2 ^ b - 1" "length (h_buckets h) = 2 ^ b"
    using assms(1) by (auto simp: mask_ok_def)
  have "unat (x AND h_bucket_bitmask h) = unat x"
    using assms(2) by (simp add: b unat_and_exp)
  then show ?thesis by (simp only: word_unat_eq_iff)
qed

lemma alt_alt:
  assumes "mask_ok h" and "unat cur < length (h_buckets h)"
  shows "get_alt_bucket_index h (get_alt_bucket_index h cur sig) sig = cur"
proof -
  have "((cur XOR s) AND m XOR s) AND m = cur AND m" for s m :: u32
    by (rule bit_word_eqI) (auto simp: bit_simps)
  then show ?thesis using mask_id[OF assms] by (simp add: get_alt_bucket_index_def)
qed

lemma bucket_index_lt:
  assumes "mask_ok h"
  shows "unat (get_prim_bucket_index h hash) < length (h_buckets h)"
    and "unat (get_alt_bucket_index h cur sig) < length (h_buckets h)"
  using mask_lt[OF assms] by (simp_all add: get_prim_bucket_index_def get_alt_bucket_index_def)

section \<open>The entries\<close>

definition buckets_ok :: "rte_hash \<Rightarrow> bool" where
  "buckets_ok h \<longleftrightarrow> (\<forall>bk \<in> set (h_buckets h).
     length (sig_current bk) = 8 \<and> length (key_idx bk) = 8 \<and> bkt_next bk = None)"

definition entry_at :: "rte_hash \<Rightarrow> nat \<Rightarrow> u16 \<times> u32" where
  "entry_at h p = (let bk = h_buckets h ! (p div 8) in (sig_current bk ! (p mod 8), key_idx bk ! (p mod 8)))"

definition entries :: "rte_hash \<Rightarrow> (u16 \<times> u32) list" where
  "entries h = map (entry_at h) [0..<8 * length (h_buckets h)]"

lemma length_entries [simp]: "length (entries h) = 8 * length (h_buckets h)"
  by (simp add: entries_def)

lemma slot_pos: "j < 8 \<Longrightarrow> (8 * i + j) div 8 = i \<and> (8 * i + j) mod 8 = (j :: nat)"
  by simp

lemma pos_less: "i < n \<Longrightarrow> j < 8 \<Longrightarrow> 8 * i + j < 8 * (n :: nat)"
  by simp

lemma get_bkt_entry:
  assumes "i < length (h_buckets h)" and "j < 8"
  shows "entries h ! (8 * i + j) = (sig_current (h_buckets h ! i) ! j, key_idx (h_buckets h ! i) ! j)"
  using assms by (simp add: entries_def entry_at_def Let_def)

text \<open>The parts of the table that no bucket operation changes.\<close>

definition frame :: "rte_hash \<Rightarrow> rte_hash" where
  "frame h = h\<lparr>h_buckets := [], h_tbl_chng_cnt := 0\<rparr>"

lemma frame_fields:
  assumes "frame h = frame h'"
  shows "h_key_store h = h_key_store h'" "h_key_entry_size h = h_key_entry_size h'" "h_key_len h = h_key_len h'"
    "h_hash_func h = h_hash_func h'" "h_hash_func_init_val h = h_hash_func_init_val h'"
    "h_bucket_bitmask h = h_bucket_bitmask h'" "h_free_slots h = h_free_slots h'"
    "h_readwrite_lock h = h_readwrite_lock h'" "h_writer_takes_lock h = h_writer_takes_lock h'"
    "h_hw_trans_mem_support h = h_hw_trans_mem_support h'" "h_ext_table_support h = h_ext_table_support h'"
    "h_buckets_ext h = h_buckets_ext h'"
  using assms by (cases h; cases h'; simp add: frame_def)+

definition table_ok :: "rte_hash \<Rightarrow> bool" where
  "table_ok h \<longleftrightarrow> mask_ok h \<and> buckets_ok h"

text \<open>\<open>h'\<close> is \<open>h\<close> with another table of the same size.\<close>

definition retabled :: "rte_hash \<Rightarrow> rte_hash \<Rightarrow> bool" where
  "retabled h h' \<longleftrightarrow> frame h' = frame h \<and> length (h_buckets h') = length (h_buckets h) \<and> table_ok h'"

lemma retabled_refl: "table_ok h \<Longrightarrow> retabled h h"
  by (simp add: retabled_def)

lemma retabled_trans: "retabled h h1 \<Longrightarrow> retabled h1 h2 \<Longrightarrow> retabled h h2"
  by (simp add: retabled_def)

lemma retabled_index:
  assumes "retabled h h'"
  shows "get_alt_bucket_index h' = get_alt_bucket_index h" "get_prim_bucket_index h' = get_prim_bucket_index h"
    "length (h_buckets h') = length (h_buckets h)" "table_ok h'"
  using assms frame_fields[of h' h] by (auto simp: retabled_def get_alt_bucket_index_def get_prim_bucket_index_def fun_eq_iff)

lemma put_main:
  assumes "table_ok h" and "i < length (h_buckets h)" and "length (sig_current bk) = 8" "length (key_idx bk) = 8"
    and "bkt_next bk = None"
  shows "retabled h (put_bkt h (Main i) bk)"
proof -
  have "buckets_ok (put_bkt h (Main i) bk)"
    using assms unfolding buckets_ok_def table_ok_def by (auto dest: subsetD[OF set_update_subset_insert])
  then show ?thesis using assms(1) by (auto simp: retabled_def table_ok_def mask_ok_def frame_def)
qed

lemma bucket_fields:
  assumes "table_ok h" and "i < length (h_buckets h)"
  shows "length (sig_current (h_buckets h ! i)) = 8" "length (key_idx (h_buckets h ! i)) = 8"
    "bkt_next (h_buckets h ! i) = None"
  using assms by (auto simp: table_ok_def buckets_ok_def)

lemma entries_put:
  assumes "i < length (h_buckets h)" and "j < 8"
    and "\<And>j'. j' < 8 \<Longrightarrow> j' \<noteq> j \<Longrightarrow> sig_current bk ! j' = sig_current (h_buckets h ! i) ! j' \<and>
      key_idx bk ! j' = key_idx (h_buckets h ! i) ! j'"
  shows "entries (put_bkt h (Main i) bk) = (entries h)[8 * i + j := (sig_current bk ! j, key_idx bk ! j)]"
proof (rule nth_equalityI)
  fix p assume "p < length (entries (put_bkt h (Main i) bk))"
  then have p: "p < 8 * length (h_buckets h)" by simp
  then have q: "p div 8 < length (h_buckets h)" "p mod 8 < 8" by auto
  have eq: "p = 8 * i + j \<longleftrightarrow> p div 8 = i \<and> p mod 8 = j"
    using assms(2) by (metis slot_pos mult_div_mod_eq)
  show "entries (put_bkt h (Main i) bk) ! p = ((entries h)[8 * i + j := (sig_current bk ! j, key_idx bk ! j)]) ! p"
    using p q assms eq by (auto simp: entries_def entry_at_def Let_def nth_list_update)
qed simp

lemma set_entry_ok:
  assumes "table_ok h" and "i < length (h_buckets h)" and "j < 8"
  shows "\<exists>h'. set_entry h (Main i) j sig x = Inr h' \<and> retabled h h' \<and> entries h' = (entries h)[8 * i + j := (sig, x)]"
proof -
  let ?bk = "h_buckets h ! i"
  let ?new = "?bk\<lparr>sig_current := (sig_current ?bk)[j := sig], key_idx := (key_idx ?bk)[j := x]\<rparr>"
  note f = bucket_fields[OF assms(1,2)]
  have "retabled h (put_bkt h (Main i) ?new)" using f assms by (intro put_main) auto
  moreover have "entries (put_bkt h (Main i) ?new) = (entries h)[8 * i + j := (sig, x)]"
    using entries_put[OF assms(2,3), of ?new] f assms(3) by simp
  ultimately show ?thesis using assms(2) by (simp add: set_entry_def)
qed

lemma clear_entry_ok:
  assumes "table_ok h" and "i < length (h_buckets h)" and "j < 8"
  shows "\<exists>h'. clear_entry h (Main i) j = Inr h' \<and> retabled h h' \<and>
    entries h' = (entries h)[8 * i + j := (fst (entries h ! (8 * i + j)), 0)]"
proof -
  let ?bk = "h_buckets h ! i"
  let ?new = "?bk\<lparr>key_idx := (key_idx ?bk)[j := EMPTY_SLOT]\<rparr>"
  note f = bucket_fields[OF assms(1,2)]
  have "retabled h (put_bkt h (Main i) ?new)" using f assms by (intro put_main) auto
  moreover have "entries (put_bkt h (Main i) ?new) = (entries h)[8 * i + j := (sig_current ?bk ! j, 0)]"
    using entries_put[OF assms(2,3), of ?new] f assms(3) by (simp add: EMPTY_SLOT_def)
  ultimately show ?thesis using assms(2) get_bkt_entry[OF assms(2,3)] by (simp add: clear_entry_def)
qed

lemma note_change_ok:
  "entries (note_change h) = entries h" "h_buckets (note_change h) = h_buckets h" "frame (note_change h) = frame h"
  by (simp_all add: note_change_def entries_def entry_at_def frame_def)

lemma note_change_retabled: "table_ok h \<Longrightarrow> retabled h (note_change h)"
  by (simp add: retabled_def note_change_ok) (simp add: table_ok_def mask_ok_def buckets_ok_def note_change_def)

section \<open>Keys and their buckets\<close>

definition stored_key :: "rte_hash \<Rightarrow> u32 \<Rightarrow> u8 list" where
  "stored_key h x = take (unat (h_key_len h)) (drop (key_offset_of h x + 8) (h_key_store h))"

definition stored_data :: "rte_hash \<Rightarrow> u32 \<Rightarrow> u8 list" where
  "stored_data h x = take 8 (drop (key_offset_of h x) (h_key_store h))"

text \<open>The two buckets of a key with this hash.\<close>

definition home :: "rte_hash \<Rightarrow> u32 \<Rightarrow> nat set" where
  "home h hash = {unat (get_prim_bucket_index h hash),
     unat (get_alt_bucket_index h (get_prim_bucket_index h hash) (get_short_sig hash))}"

definition entry_ok :: "rte_hash \<Rightarrow> nat \<Rightarrow> u16 \<times> u32 \<Rightarrow> bool" where
  "entry_ok h i e \<longleftrightarrow> snd e = 0 \<or>
     (let hash = rte_hash_hash h (stored_key h (snd e)) in fst e = get_short_sig hash \<and> i \<in> home h hash)"

definition placed :: "rte_hash \<Rightarrow> bool" where
  "placed h \<longleftrightarrow> (\<forall>p < length (entries h). entry_ok h (p div 8) (entries h ! p))"

lemma frame_entry_ok:
  assumes "frame h' = frame h"
  shows "entry_ok h' = entry_ok h" "stored_key h' = stored_key h" "stored_data h' = stored_data h"
    "home h' = home h" "rte_hash_hash h' = rte_hash_hash h"
  using frame_fields[OF assms]
  by (auto simp: fun_eq_iff entry_ok_def stored_key_def stored_data_def home_def key_offset_of_def rte_hash_hash_def
      get_alt_bucket_index_def get_prim_bucket_index_def)

lemma home_alt:
  assumes "mask_ok h" and "unat cur < length (h_buckets h)" and "unat cur \<in> home h hash"
  shows "unat (get_alt_bucket_index h cur (get_short_sig hash)) \<in> home h hash"
proof -
  let ?p = "get_prim_bucket_index h hash" and ?s = "get_short_sig hash"
  consider "cur = ?p" | "cur = get_alt_bucket_index h ?p ?s"
    using assms(3) by (auto simp: home_def word_unat_eq_iff)
  then show ?thesis
  proof cases
    case 2
    then show ?thesis using alt_alt[OF assms(1) bucket_index_lt(1)[OF assms(1)]] by (simp add: home_def)
  qed (simp add: home_def)
qed

lemma entry_ok_moves:
  assumes "mask_ok h" and "unat cur < length (h_buckets h)" and "entry_ok h (unat cur) e"
  shows "entry_ok h (unat (get_alt_bucket_index h cur (fst e))) e"
  using assms home_alt[OF assms(1,2)] by (auto simp: entry_ok_def Let_def)

lemma placed_update:
  assumes "placed h" and "frame h' = frame h" and "entries h' = (entries h)[p := e]" and "entry_ok h (p div 8) e"
  shows "placed h'"
proof -
  have "entries h' ! q = (if q = p then e else entries h ! q)" if "q < length (entries h)" for q
    using that by (simp add: assms(3) nth_list_update)
  moreover have "length (entries h') = length (entries h)" using assms(3) by (metis length_list_update)
  ultimately show ?thesis using assms(1,4) unfolding placed_def frame_entry_ok[OF assms(2)] by auto
qed

section \<open>Slots in use\<close>

definition used :: "rte_hash \<Rightarrow> u32 multiset" where
  "used h = filter_mset (\<lambda>x. x \<noteq> 0) (image_mset snd (mset (entries h)))"

text \<open>The entries but for one position.\<close>

definition but :: "nat \<Rightarrow> 'a list \<Rightarrow> 'a multiset" where
  "but p xs = mset xs - {#xs ! p#}"

lemma mset_but: "p < length xs \<Longrightarrow> mset xs = add_mset (xs ! p) (but p xs)"
  by (simp add: but_def)

lemma but_move:
  assumes "c < length xs" and "p < length xs"
  shows "but p (xs[c := xs ! p]) = but c xs"
  using assms by (cases "p = c") (auto simp: but_def mset_update)

lemma mset_fill: "p < length xs \<Longrightarrow> mset (xs[p := e]) = add_mset e (but p xs)"
  by (simp add: mset_update but_def)

definition used_but :: "nat \<Rightarrow> rte_hash \<Rightarrow> u32 multiset" where
  "used_but p h = filter_mset (\<lambda>x. x \<noteq> 0) (image_mset snd (but p (entries h)))"

lemma used_empty:
  assumes "p < length (entries h)" and "snd (entries h ! p) = 0"
  shows "used h = used_but p h"
  using assms mset_but[OF assms(1)] by (simp add: used_def used_but_def)

lemma used_fill:
  assumes "p < length (entries h)" and "entries h' = (entries h)[p := (sig, x)]"
  shows "used h' = (if x = 0 then used_but p h else add_mset x (used_but p h))"
  using assms by (simp add: used_def used_but_def mset_fill)

lemma in_used: "x \<in># used h \<longleftrightarrow> x \<noteq> 0 \<and> (\<exists>p < length (entries h). snd (entries h ! p) = x)"
proof -
  have "x \<in> snd ` set xs \<longleftrightarrow> (\<exists>p < length xs. snd (xs ! p) = x)" for xs :: "(u16 \<times> u32) list"
    unfolding set_conv_nth by force
  then show ?thesis by (auto simp: used_def)
qed

section \<open>Paths of moves\<close>

text \<open>A node refers to its own bucket, and the first node of its path is the bucket \<open>r\<close>.\<close>

fun node_ok :: "rte_hash \<Rightarrow> nat \<Rightarrow> queue_node \<Rightarrow> bool" where
  "node_ok h r (QNode b cur None) \<longleftrightarrow> b = Main (unat cur) \<and> unat cur < length (h_buckets h) \<and> r = unat cur"
| "node_ok h r (QNode b cur (Some (prev, s))) \<longleftrightarrow>
     b = Main (unat cur) \<and> unat cur < length (h_buckets h) \<and> s < 8 \<and> node_ok h r prev"

lemma node_ok_bkt: "node_ok h r n \<Longrightarrow> qn_bkt n = Main (unat (qn_cur_bkt_idx n)) \<and> unat (qn_cur_bkt_idx n) < length (h_buckets h)"
  by (cases "(h, r, n)" rule: node_ok.cases) auto

lemma node_ok_cong: "length (h_buckets h') = length (h_buckets h) \<Longrightarrow> node_ok h' r n = node_ok h r n"
  by (induction h r n rule: node_ok.induct) auto

definition node_pos :: "queue_node \<Rightarrow> nat \<Rightarrow> nat" where
  "node_pos n s = 8 * unat (qn_cur_bkt_idx n) + s"

lemma move_path_ok:
  assumes "table_ok h" and "placed h" and "node_ok h r n" and "s < 8"
  shows "\<exists>ret b j h'. move_path h n s = Inr (ret, b, j, h') \<and> retabled h h' \<and> placed h' \<and> j < 8 \<and>
    (ret = 0 \<and> b = Main r \<and> r < length (h_buckets h) \<and> used_but (8 * r + j) h' = used_but (node_pos n s) h \<or>
     ret = - 1 \<and> used h' = used_but (node_pos n s) h)"
  using assms
proof (induction h n s rule: move_path.induct)
  case (1 h b cur s)
  then show ?case by (auto simp: node_pos_def retabled_refl)
next
  case (2 h b cur prev ps s)
  let ?i = "unat cur" and ?q = "unat (qn_cur_bkt_idx prev)"
  have b: "b = Main ?i" "?i < length (h_buckets h)" "ps < 8" "node_ok h r prev" using "2.prems"(3) by auto
  have prev: "qn_bkt prev = Main ?q" "?q < length (h_buckets h)" using node_ok_bkt[OF b(4)] by auto
  have mask: "mask_ok h" using "2.prems"(1) by (simp add: table_ok_def)
  let ?bk = "h_buckets h ! ?q"
  define e where "e = entries h ! (8 * ?q + ps)"
  have e: "e = (sig_current ?bk ! ps, key_idx ?bk ! ps)" using get_bkt_entry[OF prev(2) b(3)] by (simp add: e_def)
  have pos: "8 * ?i + s < length (entries h)" "8 * ?q + ps < length (entries h)"
    using pos_less[OF b(2) "2.prems"(4)] pos_less[OF prev(2) b(3)] by simp_all
  let ?alt = "get_alt_bucket_index h (qn_cur_bkt_idx prev) (sig_current ?bk ! ps)"
  show ?case
  proof (cases "Main (unat ?alt) = b")
    case False
    obtain h' where h': "clear_entry h (Main ?i) s = Inr h'" "retabled h h'"
        "entries h' = (entries h)[8 * ?i + s := (fst (entries h ! (8 * ?i + s)), 0)]"
      using clear_entry_ok[OF "2.prems"(1) b(2) "2.prems"(4)] by blast
    have "placed h'" using placed_update[OF "2.prems"(2) _ h'(3)] h'(2) by (simp add: retabled_def entry_ok_def)
    moreover have "used h' = used_but (8 * ?i + s) h" using used_fill[OF pos(1) h'(3)] by simp
    ultimately show ?thesis
      using False h' b prev "2.prems"(4) by (simp add: Let_def node_pos_def)
  next
    case True
    let ?h = "note_change h"
    have r0: "retabled h ?h" and t0: "table_ok ?h" using note_change_retabled[OF "2.prems"(1)] by (auto simp: retabled_def)
    obtain h1 where h1: "set_entry ?h (Main ?i) s (fst e) (snd e) = Inr h1" "retabled ?h h1"
        "entries h1 = (entries h)[8 * ?i + s := e]"
      using set_entry_ok[OF t0 _ "2.prems"(4), of ?i "fst e" "snd e"] b(2) by (auto simp: note_change_ok)
    have r1: "retabled h h1" using retabled_trans[OF r0 h1(2)] .
    have alt: "?i = unat ?alt" using True b(1) by simp
    have "entry_ok h ?q e"
      using "2.prems"(2) pos(2) slot_pos[OF b(3)] by (auto simp: placed_def e_def)
    then have "entry_ok h ?i e"
      using entry_ok_moves[OF mask prev(2), of e] unfolding alt by (simp add: e)
    then have pl: "placed h1"
      using placed_update[OF "2.prems"(2) _ h1(3)] r1 slot_pos[OF "2.prems"(4)] by (simp add: retabled_def)
    have "used_but (node_pos prev ps) h1 = used_but (8 * ?i + s) h"
      using but_move[OF pos] h1(3) by (simp add: used_but_def node_pos_def e_def)
    moreover have "node_ok h1 r prev" using node_ok_cong[of h1 h] r1 b(4) by (simp add: retabled_def)
    moreover have "table_ok h1" using r1 by (simp add: retabled_def)
    ultimately show ?thesis
      using "2.IH"[of ?bk ?alt h1] True h1 b prev pl r1 e retabled_trans[OF r1]
      by (simp add: Let_def node_pos_def retabled_def)
  qed
qed

end
