(* ===== verification/Cuckoo_Store.thy ===== *)
theory Cuckoo_Store
  imports Cuckoo_Table
begin

text \<open>
  The key store of a cuckoo hash, the search for a key in its two buckets, and the ring of free
  slots as a bounded queue.
\<close>

section \<open>Reading and writing bytes\<close>

lemma read_blit_other:
  assumes "p + length xs \<le> length m" and "q + n \<le> length m" and "q + n \<le> p \<or> p + length xs \<le> q"
  shows "take n (drop q (blit m p xs)) = take n (drop q m)"
proof (rule nth_equalityI)
  fix i assume "i < length (take n (drop q (blit m p xs)))"
  then have "i < n" by simp
  then show "take n (drop q (blit m p xs)) ! i = take n (drop q m) ! i"
    using assms nth_blit[OF assms(1), of "q + i"] by auto
qed (use assms in simp)

lemma read_blit_same:
  assumes "p + length xs \<le> length m"
  shows "take (length xs) (drop p (blit m p xs)) = xs"
  using assms by (simp add: blit_def)

lemma length_pdata [simp]: "length (pdata_bytes d) = 8"
  by (simp add: pdata_bytes_def)

lemma memcmp_zero: "length a = length b \<Longrightarrow> memcmp a b = 0 \<longleftrightarrow> a = b"
  by (induction a b rule: memcmp.induct) auto

section \<open>Slots\<close>

definition slots :: "rte_hash \<Rightarrow> nat" where
  "slots h = length (h_key_store h) div unat (h_key_entry_size h)"

text \<open>Keys of eight bytes, which is what the comparison looks at, in entries that lie in the store.\<close>

definition store_ok :: "rte_hash \<Rightarrow> bool" where
  "store_ok h \<longleftrightarrow> h_key_len h = 8 \<and> 16 \<le> unat (h_key_entry_size h) \<and> 0 < slots h \<and> length (h_key_store h) < 2 ^ 32"

lemma offset_in_store:
  assumes "store_ok h" and "unat x < slots h"
  shows "key_offset_of h x = unat x * unat (h_key_entry_size h)"
    and "unat x * unat (h_key_entry_size h) + unat (h_key_entry_size h) \<le> length (h_key_store h)"
proof -
  let ?es = "unat (h_key_entry_size h)"
  have "(unat x + 1) * ?es \<le> slots h * ?es" using assms(2) by (intro mult_right_mono) auto
  also have "\<dots> \<le> length (h_key_store h)" by (simp add: slots_def)
  finally show le: "unat x * ?es + ?es \<le> length (h_key_store h)" by simp
  then have "unat x * ?es < 2 ^ 32" using assms(1) by (auto simp: store_ok_def)
  then show "key_offset_of h x = unat x * ?es" unfolding key_offset_of_def by (intro unat_mult_no_wrap) simp
qed

lemma slots_apart:
  assumes "unat x \<noteq> unat (y :: u32)" and "16 \<le> (es :: nat)"
  shows "unat x * es + 16 \<le> unat y * es \<or> unat y * es + 16 \<le> unat x * es"
proof -
  have "a * es + 16 \<le> b * es" if "a < b" for a b :: nat
  proof -
    have "(a + 1) * es \<le> b * es" using that by (intro mult_right_mono) auto
    then show ?thesis using assms(2) by simp
  qed
  then show ?thesis using assms(1) by (cases "unat x < unat y") auto
qed

lemma offsets_apart:
  assumes "store_ok h" and "unat x < slots h" and "unat y < slots h" and "y \<noteq> x"
  shows "key_offset_of h y + 16 \<le> key_offset_of h x \<or> key_offset_of h x + 16 \<le> key_offset_of h y"
proof -
  have "unat y \<noteq> unat x" using assms(4) by (simp add: word_unat_eq_iff)
  moreover have "16 \<le> unat (h_key_entry_size h)" using assms(1) by (simp add: store_ok_def)
  ultimately show ?thesis
    unfolding offset_in_store(1)[OF assms(1,2)] offset_in_store(1)[OF assms(1,3)] by (rule slots_apart)
qed

lemma slots_small: "store_ok h \<Longrightarrow> slots h < 2 ^ 28"
proof -
  assume ok: "store_ok h"
  have "slots h * 16 \<le> slots h * unat (h_key_entry_size h)" using ok by (intro mult_left_mono) (auto simp: store_ok_def)
  also have "\<dots> \<le> length (h_key_store h)" by (simp add: slots_def)
  also have "\<dots> < 2 ^ 32" using ok by (simp add: store_ok_def)
  finally show ?thesis by simp
qed

lemma slot_position:
  fixes x :: u32
  assumes "store_ok h" and "unat x < slots h" and "x \<noteq> 0"
  shows "sint (x - 1) = int (unat x) - 1"
proof -
  have dec: "unat (x - 1) = unat x - 1" using assms(3) by (simp add: unat_minus_one)
  have pos: "0 < unat x" using assms(3) by (simp add: unat_gt_0)
  have "unat (x - 1) < 2 ^ (32 - 1)" using slots_small[OF assms(1)] assms(2) dec by simp
  then have "sint (x - 1) = int (unat (x - 1))" by (intro sint_small) simp
  then show ?thesis unfolding dec using pos by (simp add: of_nat_diff del: unat_sub_le)
qed

section \<open>Updates of the store\<close>

definition with_data :: "rte_hash \<Rightarrow> u32 \<Rightarrow> u64 \<Rightarrow> rte_hash" where
  "with_data h x d = h\<lparr>h_key_store := blit (h_key_store h) (key_offset_of h x) (pdata_bytes d)\<rparr>"

definition with_key :: "rte_hash \<Rightarrow> u32 \<Rightarrow> u8 list \<Rightarrow> rte_hash" where
  "with_key h x k = h\<lparr>h_key_store := blit (h_key_store h) (key_offset_of h x + 8) k\<rparr>"

text \<open>What does not look at the fields that these, the lock and the free slots change.\<close>

lemma entries_store [simp]:
  "entries (h\<lparr>h_key_store := m\<rparr>) = entries h" "entries (h\<lparr>h_readwrite_lock := l\<rparr>) = entries h"
  "entries (h\<lparr>h_free_slots := r\<rparr>) = entries h"
  by (simp_all add: entries_def entry_at_def)

lemma used_store [simp]:
  "used (h\<lparr>h_key_store := m\<rparr>) = used h" "used (h\<lparr>h_readwrite_lock := l\<rparr>) = used h"
  "used (h\<lparr>h_free_slots := r\<rparr>) = used h"
  by (simp_all add: used_def)

lemma table_ok_store [simp]:
  "table_ok (h\<lparr>h_key_store := m\<rparr>) = table_ok h" "table_ok (h\<lparr>h_readwrite_lock := l\<rparr>) = table_ok h"
  "table_ok (h\<lparr>h_free_slots := r\<rparr>) = table_ok h"
  by (simp_all add: table_ok_def mask_ok_def buckets_ok_def)

lemma stored_lock [simp]:
  "stored_key (h\<lparr>h_readwrite_lock := l\<rparr>) = stored_key h" "stored_key (h\<lparr>h_free_slots := r\<rparr>) = stored_key h"
  "stored_data (h\<lparr>h_readwrite_lock := l\<rparr>) = stored_data h" "stored_data (h\<lparr>h_free_slots := r\<rparr>) = stored_data h"
  "store_ok (h\<lparr>h_readwrite_lock := l\<rparr>) = store_ok h" "store_ok (h\<lparr>h_free_slots := r\<rparr>) = store_ok h"
  "slots (h\<lparr>h_readwrite_lock := l\<rparr>) = slots h" "slots (h\<lparr>h_free_slots := r\<rparr>) = slots h"
  by (simp_all add: fun_eq_iff stored_key_def stored_data_def key_offset_of_def store_ok_def slots_def)

lemma hash_store [simp]:
  "rte_hash_hash (h\<lparr>h_key_store := m\<rparr>) = rte_hash_hash h" "rte_hash_hash (h\<lparr>h_readwrite_lock := l\<rparr>) = rte_hash_hash h"
  "rte_hash_hash (h\<lparr>h_free_slots := r\<rparr>) = rte_hash_hash h"
  "home (h\<lparr>h_key_store := m\<rparr>) = home h" "home (h\<lparr>h_readwrite_lock := l\<rparr>) = home h"
  "home (h\<lparr>h_free_slots := r\<rparr>) = home h"
  by (simp_all add: fun_eq_iff rte_hash_hash_def home_def get_prim_bucket_index_def get_alt_bucket_index_def)

lemma placed_lock [simp]:
  "placed (h\<lparr>h_readwrite_lock := l\<rparr>) = placed h" "placed (h\<lparr>h_free_slots := r\<rparr>) = placed h"
  by (simp_all add: placed_def entry_ok_def)

lemma with_data_ok:
  assumes "store_ok h" and "unat x < slots h"
  shows "store_pdata h x d = Inr (with_data h x d)" and "store_ok (with_data h x d)" and "slots (with_data h x d) = slots h"
    and "unat y < slots h \<Longrightarrow> stored_key (with_data h x d) y = stored_key h y"
    and "unat y < slots h \<Longrightarrow> stored_data (with_data h x d) y = (if y = x then pdata_bytes d else stored_data h y)"
proof -
  let ?es = "unat (h_key_entry_size h)"
  note off = offset_in_store[OF assms(1)]
  have es: "16 \<le> ?es" and kl: "h_key_len h = 8" using assms(1) by (auto simp: store_ok_def)
  have fits: "key_offset_of h x + 8 \<le> length (h_key_store h)" using off[OF assms(2)] es by simp
  have len: "length (h_key_store (with_data h x d)) = length (h_key_store h)"
    using fits by (simp add: with_data_def)
  show "store_pdata h x d = Inr (with_data h x d)"
    using fits by (simp add: store_pdata_def mem_write_def with_data_def)
  show slots: "slots (with_data h x d) = slots h" using len by (simp add: slots_def) (simp add: with_data_def)
  show "store_ok (with_data h x d)" using assms(1) len slots by (simp add: store_ok_def) (simp add: with_data_def)
  have koff: "key_offset_of (with_data h x d) = key_offset_of h" by (simp add: fun_eq_iff key_offset_of_def with_data_def)
  show "stored_key (with_data h x d) y = stored_key h y" if y: "unat y < slots h"
  proof -
    have "key_offset_of h y + 8 + 8 \<le> key_offset_of h x \<or> key_offset_of h x + 8 \<le> key_offset_of h y + 8"
      using offsets_apart[OF assms y] by (cases "y = x") auto
    then show ?thesis
      using fits off[OF y] es read_blit_other[of "key_offset_of h x" "pdata_bytes d" "h_key_store h" "key_offset_of h y + 8" 8]
      by (simp add: stored_key_def koff kl) (simp add: with_data_def kl)
  qed
  show "stored_data (with_data h x d) y = (if y = x then pdata_bytes d else stored_data h y)" if y: "unat y < slots h"
  proof (cases "y = x")
    case True
    then show ?thesis
      using fits read_blit_same[of "key_offset_of h x" "pdata_bytes d" "h_key_store h"]
      by (simp add: stored_data_def koff) (simp add: with_data_def)
  next
    case False
    then have "key_offset_of h y + 8 \<le> key_offset_of h x \<or> key_offset_of h x + 8 \<le> key_offset_of h y"
      using offsets_apart[OF assms y] by auto
    with False show ?thesis
      using fits off[OF y] es read_blit_other[of "key_offset_of h x" "pdata_bytes d" "h_key_store h" "key_offset_of h y" 8]
      by (simp add: stored_data_def koff) (simp add: with_data_def)
  qed
qed

lemma with_key_ok:
  assumes "store_ok h" and "unat x < slots h" and "length k = 8"
  shows "store_key h x k = Inr (with_key h x k)" and "store_ok (with_key h x k)" and "slots (with_key h x k) = slots h"
    and "unat y < slots h \<Longrightarrow> stored_key (with_key h x k) y = (if y = x then k else stored_key h y)"
    and "unat y < slots h \<Longrightarrow> stored_data (with_key h x k) y = stored_data h y"
proof -
  let ?es = "unat (h_key_entry_size h)"
  note off = offset_in_store[OF assms(1)]
  have es: "16 \<le> ?es" and kl: "h_key_len h = 8" using assms(1) by (auto simp: store_ok_def)
  have fits: "key_offset_of h x + 8 + 8 \<le> length (h_key_store h)" using off[OF assms(2)] es by simp
  have len: "length (h_key_store (with_key h x k)) = length (h_key_store h)"
    using fits assms(3) by (simp add: with_key_def)
  show "store_key h x k = Inr (with_key h x k)"
    using fits assms(3) by (simp add: store_key_def mem_write_def mem_read_def with_key_def kl)
  show slots: "slots (with_key h x k) = slots h" using len by (simp add: slots_def) (simp add: with_key_def)
  show "store_ok (with_key h x k)" using assms(1) len slots by (simp add: store_ok_def) (simp add: with_key_def)
  have koff: "key_offset_of (with_key h x k) = key_offset_of h" by (simp add: fun_eq_iff key_offset_of_def with_key_def)
  show "stored_key (with_key h x k) y = (if y = x then k else stored_key h y)" if y: "unat y < slots h"
  proof (cases "y = x")
    case True
    then show ?thesis
      using fits assms(3) read_blit_same[of "key_offset_of h x + 8" k "h_key_store h"]
      by (simp add: stored_key_def koff kl) (simp add: with_key_def kl)
  next
    case False
    then have "key_offset_of h y + 8 + 8 \<le> key_offset_of h x + 8 \<or> key_offset_of h x + 8 + 8 \<le> key_offset_of h y + 8"
      using offsets_apart[OF assms(1,2) y] by auto
    with False show ?thesis
      using fits off[OF y] es assms(3) read_blit_other[of "key_offset_of h x + 8" k "h_key_store h" "key_offset_of h y + 8" 8]
      by (simp add: stored_key_def koff kl) (simp add: with_key_def kl)
  qed
  show "stored_data (with_key h x k) y = stored_data h y" if y: "unat y < slots h"
  proof -
    have "key_offset_of h y + 8 \<le> key_offset_of h x + 8 \<or> key_offset_of h x + 8 + 8 \<le> key_offset_of h y"
      using offsets_apart[OF assms(1,2) y] by (cases "y = x") auto
    then show ?thesis
      using fits off[OF y] es assms(3) read_blit_other[of "key_offset_of h x + 8" k "h_key_store h" "key_offset_of h y" 8]
      by (simp add: stored_data_def koff) (simp add: with_key_def)
  qed
qed

end
