(* ===== verification/Cuckoo_Search.thy ===== *)
theory Cuckoo_Search
  imports Cuckoo_Store
begin

text \<open>
  The search for a key in its two buckets: it finds the slot of the key whenever the key is in the
  table, and only then.  Also the lock around it, and the ring of free slots as a bounded queue.
\<close>

section \<open>Free slots\<close>

definition slot_ring :: "rte_ring \<Rightarrow> bool" where
  "slot_ring r \<longleftrightarrow> ring_inv 1 r \<and> ht_sync_type (r_prod r) \<noteq> RTE_RING_SYNC_MT_RTS \<and>
     ht_sync_type (r_cons r) \<noteq> RTE_RING_SYNC_MT_RTS"

definition put_slot :: "rte_ring \<Rightarrow> u32 \<Rightarrow> (int \<times> rte_ring) cres" where
  "put_slot r x = rte_ring_sp_enqueue_elem r [x] 4"

definition take_slot :: "rte_ring \<Rightarrow> (int \<times> u32 \<times> rte_ring) cres" where
  "take_slot r = bindc (rte_ring_sc_dequeue_elem r [0] 4) (\<lambda>(ret, obj, r). Inr (ret, hd obj, r))"

lemma slot_ring_length [simp]: "length (ring_cells k r) = k * unat (ring_used r)"
  by (simp add: ring_cells_def)

lemma put_slot_spec:
  assumes "slot_ring r"
  shows "\<exists>m r'. m = (if unat (ring_used r) < unat (r_capacity r) then 1 else 0) \<and>
    put_slot r x = Inr (if m \<noteq> 0 then 0 else - ENOBUFS, r') \<and> slot_ring r' \<and> r_capacity r' = r_capacity r \<and>
    ring_cells 1 r' = ring_cells 1 r @ take (unat (m :: u32)) [x]"
proof -
  have inv: "ring_inv 1 r" and mode: "ht_sync_type (r_prod r) \<noteq> RTE_RING_SYNC_MT_RTS"
    using assms by (auto simp: slot_ring_def)
  have "enq_spec 1 RTE_RING_QUEUE_FIXED r [x] 1 (rte_ring_sp_enqueue_bulk_elem r [x] 4 1)"
    unfolding rte_ring_sp_enqueue_bulk_elem_def by (rule do_enqueue_elem_spec[OF inv _ _ mode]) simp_all
  then show ?thesis
    using assms room_iff[OF inv]
    by (auto simp: enq_spec_def Let_def ring_limit_fixed put_slot_def rte_ring_sp_enqueue_elem_def slot_ring_def same_ring_def
        split: if_splits)
qed

lemma take_slot_spec:
  assumes "slot_ring r"
  shows "\<exists>ret y r'. take_slot r = Inr (ret, y, r') \<and> slot_ring r' \<and> r_capacity r' = r_capacity r \<and>
    (case ring_cells 1 r of [] \<Rightarrow> ret = - ENOENT \<and> ring_cells 1 r' = []
     | x # xs \<Rightarrow> ret = 0 \<and> y = x \<and> ring_cells 1 r' = xs)"
proof -
  have inv: "ring_inv 1 r" and mode: "ht_sync_type (r_cons r) \<noteq> RTE_RING_SYNC_MT_RTS"
    using assms by (auto simp: slot_ring_def)
  have spec: "deq_spec 1 RTE_RING_QUEUE_FIXED r [0] 1 (rte_ring_sc_dequeue_bulk_elem r [0] 4 1)"
    unfolding rte_ring_sc_dequeue_bulk_elem_def by (rule do_dequeue_elem_spec[OF inv _ _ mode]) simp_all
  show ?thesis
  proof (cases "ring_used r = 0")
    case True
    then have "length (ring_cells 1 r) = 0" by simp
    then have "ring_cells 1 r = []" by (simp only: length_0_conv)
    with True spec show ?thesis
      using assms by (auto simp: deq_spec_def Let_def ring_limit_fixed take_slot_def rte_ring_sc_dequeue_elem_def
          slot_ring_def same_ring_def)
  next
    case False
    then have "1 \<le> ring_used r" by (simp add: word_le_nat_alt Suc_le_eq unat_gt_0)
    with spec obtain r' xs where "rte_ring_sc_dequeue_bulk_elem r [0] 4 1 = Inr (1, ring_used r - 1, xs, r')"
        "length xs = 1" "ring_cells 1 r = xs @ ring_cells 1 r'" "ring_inv 1 r'" "same_ring r r'"
      by (auto simp: deq_spec_def Let_def ring_limit_fixed)
    moreover from this obtain y where "xs = [y]" by (cases xs) auto
    ultimately show ?thesis
      using assms by (auto simp: take_slot_def rte_ring_sc_dequeue_elem_def slot_ring_def same_ring_def)
  qed
qed

interpretation slot_queue: bounded_queue slot_ring "ring_cells 1" "\<lambda>r. unat (r_capacity r)" put_slot take_slot
proof (unfold_locales, goal_cases within room full some none)
  case (within r)
  then show ?case using used_within[of 1 r] by (simp add: slot_ring_def)
next
  case (room r x)
  then show ?case using put_slot_spec[OF room(1), of x] by auto
next
  case (full r x)
  then show ?case using put_slot_spec[OF full(1), of x] by (auto simp: ENOBUFS_def)
next
  case (some r x xs)
  then show ?case using take_slot_spec[OF some(1)] by auto
next
  case (none r)
  then show ?case using take_slot_spec[OF none(1)] by (auto simp: ENOENT_def)
qed

lemma alloc_slot_take:
  "alloc_slot h = bindc (take_slot (h_free_slots h)) (\<lambda>(ret, y, r).
     Inr (if ret \<noteq> 0 then EMPTY_SLOT else y, h\<lparr>h_free_slots := r\<rparr>))"
  by (cases "rte_ring_sc_dequeue_elem (h_free_slots h) [0] 4")
     (auto simp: alloc_slot_def take_slot_def split: prod.splits)

lemma enqueue_slot_put:
  "enqueue_slot_back h x = bindc (put_slot (h_free_slots h) x) (\<lambda>(_, r). Inr (h\<lparr>h_free_slots := r\<rparr>))"
  by (simp add: enqueue_slot_back_def put_slot_def)

section \<open>The lock\<close>

definition lock_free :: "rte_hash \<Rightarrow> bool" where
  "lock_free h \<longleftrightarrow> (h_writer_takes_lock h \<longrightarrow> h_readwrite_lock h = 0)"

definition locked :: "rte_hash \<Rightarrow> rte_hash" where
  "locked h = (if h_writer_takes_lock h then h\<lparr>h_readwrite_lock := - 1\<rparr> else h)"

lemma writer_lock_ok: "lock_free h \<Longrightarrow> hash_rw_writer_lock h = Inr (locked h)"
  by (simp add: hash_rw_writer_lock_def lock_free_def locked_def rte_rwlock_write_lock_def atomic_compare_exchange_def)

lemma locked_same [simp]:
  "entries (locked h) = entries h" "used (locked h) = used h" "table_ok (locked h) = table_ok h"
  "stored_key (locked h) = stored_key h" "store_ok (locked h) = store_ok h" "slots (locked h) = slots h"
  "rte_hash_hash (locked h) = rte_hash_hash h" "home (locked h) = home h" "placed (locked h) = placed h"
  "h_buckets (locked h) = h_buckets h" "h_key_store (locked h) = h_key_store h"
  by (simp_all add: locked_def)

lemma unlock_eq:
  "hash_rw_writer_unlock h = (if h_writer_takes_lock h then h\<lparr>h_readwrite_lock := 0\<rparr> else h)"
  by (simp add: hash_rw_writer_unlock_def rte_rwlock_write_unlock_def)

lemma unlock_same [simp]:
  "entries (hash_rw_writer_unlock h) = entries h" "used (hash_rw_writer_unlock h) = used h"
  "table_ok (hash_rw_writer_unlock h) = table_ok h" "placed (hash_rw_writer_unlock h) = placed h"
  "h_buckets (hash_rw_writer_unlock h) = h_buckets h"
  by (simp_all add: unlock_eq)

lemma frame_lock: "frame (h\<lparr>h_readwrite_lock := l\<rparr>) = (frame h)\<lparr>h_readwrite_lock := l\<rparr>"
  by (simp add: frame_def)

lemma unlock_retabled:
  assumes "retabled (locked h) h'" and "lock_free h"
  shows "retabled h (hash_rw_writer_unlock h')"
proof -
  have w: "h_writer_takes_lock h' = h_writer_takes_lock h"
    using assms(1) frame_fields(9)[of h' "locked h"] by (simp add: retabled_def locked_def)
  have "frame (hash_rw_writer_unlock h') = frame h"
  proof (cases "h_writer_takes_lock h")
    case True
    then have "frame (hash_rw_writer_unlock h') = (frame h)\<lparr>h_readwrite_lock := 0\<rparr>"
      using assms(1) w by (simp add: unlock_eq frame_lock retabled_def locked_def)
    also have "\<dots> = frame h" using True assms(2) by (cases h) (simp add: frame_def lock_free_def)
    finally show ?thesis .
  next
    case False
    then show ?thesis using assms(1) w by (simp add: unlock_eq retabled_def locked_def)
  qed
  then show ?thesis using assms(1) by (simp add: retabled_def)
qed

section \<open>One bucket\<close>

text \<open>The slots that the table refers to lie in the store.\<close>

definition slots_ok :: "rte_hash \<Rightarrow> bool" where
  "slots_ok h \<longleftrightarrow> (\<forall>x \<in># used h. unat x < slots h)"

lemma slots_ok_entry:
  assumes "slots_ok h" and "store_ok h" and "p < length (entries h)"
  shows "unat (snd (entries h ! p)) < slots h"
proof (cases "snd (entries h ! p) = 0")
  case True
  then show ?thesis using assms(2) by (simp add: store_ok_def)
next
  case False
  then have "snd (entries h ! p) \<in># used h" using assms(3) by (auto simp: in_used)
  then show ?thesis using assms(1) by (auto simp: slots_ok_def)
qed

lemma search_slots_find:
  assumes "store_ok h" and "length key = 8" and "\<forall>i \<in> set is. unat (key_idx bk ! i) < slots h"
  shows "search_slots h d key bk sig is = Inr (
    case find (\<lambda>i. sig_current bk ! i = sig \<and> stored_key h (key_idx bk ! i) = key) is of
      None \<Rightarrow> (- 1, h)
    | Some i \<Rightarrow> (sint (key_idx bk ! i - 1), with_data h (key_idx bk ! i) d))"
  using assms(3)
proof (induction "is")
  case (Cons i "is")
  let ?x = "key_idx bk ! i"
  have x: "unat ?x < slots h" using Cons.prems by simp
  have es: "16 \<le> unat (h_key_entry_size h)" "h_key_len h = 8" using assms(1) by (auto simp: store_ok_def)
  have read: "mem_read (h_key_store h) (key_offset_of h ?x + 8) 8 = Inr (stored_key h ?x)"
    using offset_in_store[OF assms(1) x] es by (simp add: mem_read_def stored_key_def)
  have key: "mem_read key 0 8 = Inr key" using assms(2) by (simp add: mem_read_def)
  have "length (stored_key h ?x) = 8"
    using offset_in_store[OF assms(1) x] es by (simp add: stored_key_def)
  then have cmp: "rte_hash_cmp_eq key (h_key_store h) (key_offset_of h ?x + 8) = Inr (memcmp key (stored_key h ?x))"
    and eq: "memcmp key (stored_key h ?x) = 0 \<longleftrightarrow> stored_key h ?x = key"
    using assms(2) memcmp_zero[of key "stored_key h ?x"] key by (auto simp: rte_hash_cmp_eq_def read)
  show ?case using Cons with_data_ok(1)[OF assms(1) x, of d] by (simp add: cmp eq)
qed simp

text \<open>What the table holds for a key.\<close>

definition key_slot :: "rte_hash \<Rightarrow> u8 list \<Rightarrow> u32 \<Rightarrow> bool" where
  "key_slot h key x \<longleftrightarrow> x \<in># used h \<and> stored_key h x = key"

definition keys_ok :: "rte_hash \<Rightarrow> bool" where
  "keys_ok h \<longleftrightarrow> inj_on (stored_key h) (set_mset (used h))"

text \<open>A table in which a key of eight bytes can be searched; the dummy entry of slot 0 holds another key.\<close>

definition searchable :: "rte_hash \<Rightarrow> u8 list \<Rightarrow> bool" where
  "searchable h key \<longleftrightarrow> table_ok h \<and> placed h \<and> store_ok h \<and> slots_ok h \<and> keys_ok h \<and>
     length key = 8 \<and> stored_key h 0 \<noteq> key"

lemma searchableD:
  assumes "searchable h key"
  shows "table_ok h" "placed h" "store_ok h" "slots_ok h" "keys_ok h" "length key = 8" "stored_key h 0 \<noteq> key"
  using assms by (auto simp: searchable_def)

lemma bucket_search:
  assumes S: "searchable h key" and i: "i < length (h_buckets h)"
  shows "\<exists>res. search_and_update h d key (Main i) (get_short_sig (rte_hash_hash h key)) = Inr res \<and>
    (if \<exists>j < 8. key_slot h key (snd (entries h ! (8 * i + j)))
     then \<exists>x. key_slot h key x \<and> res = (sint (x - 1), with_data h x d) else res = (- 1, h))"
proof -
  note table = searchableD(1)[OF S] and placed = searchableD(2)[OF S] and store = searchableD(3)[OF S]
    and slots = searchableD(4)[OF S] and key_len = searchableD(6)[OF S] and dummy = searchableD(7)[OF S]
  let ?bk = "h_buckets h ! i" and ?sig = "get_short_sig (rte_hash_hash h key)"
  let ?match = "\<lambda>j. sig_current ?bk ! j = ?sig \<and> stored_key h (key_idx ?bk ! j) = key"
  have pos: "8 * i + j < length (entries h)" if "j < 8" for j using pos_less[OF i that] by simp
  have match: "?match j \<longleftrightarrow> key_slot h key (snd (entries h ! (8 * i + j)))" if j: "j < 8" for j
  proof
    assume m: "?match j"
    then have "key_idx ?bk ! j \<noteq> 0" using dummy by metis
    then show "key_slot h key (snd (entries h ! (8 * i + j)))"
      using m pos[OF j] get_bkt_entry[OF i j] by (auto simp: key_slot_def in_used)
  next
    assume k: "key_slot h key (snd (entries h ! (8 * i + j)))"
    moreover have "entry_ok h i (entries h ! (8 * i + j))"
      using placed pos[OF j] slot_pos[OF j] by (auto simp: placed_def)
    ultimately show "?match j"
      using get_bkt_entry[OF i j] by (auto simp: key_slot_def entry_ok_def Let_def in_used)
  qed
  have "\<forall>j \<in> set [0..<8]. unat (key_idx ?bk ! j) < slots h"
    using slots_ok_entry[OF slots store pos] get_bkt_entry[OF i] by auto
  note find = search_slots_find[OF store key_len this, of d ?sig]
  show ?thesis
  proof (cases "find ?match [0..<8]")
    case None
    then have "\<not> (\<exists>j < 8. ?match j)" by (auto simp: find_None_iff)
    then have "\<not> (\<exists>j < 8. key_slot h key (snd (entries h ! (8 * i + j))))" using match by blast
    with None find show ?thesis
      using i by (auto simp: search_and_update_def RTE_HASH_BUCKET_ENTRIES_def)
  next
    case (Some j)
    then have j: "j < 8" "?match j" by (auto simp: find_Some_iff)
    then have slot: "key_slot h key (snd (entries h ! (8 * i + j)))" using match by blast
    moreover have "snd (entries h ! (8 * i + j)) = key_idx ?bk ! j" using get_bkt_entry[OF i j(1)] by simp
    ultimately show ?thesis
      using Some find i j(1) by (auto simp: search_and_update_def RTE_HASH_BUCKET_ENTRIES_def)
  qed
qed

lemma key_slot_unique: "searchable h key \<Longrightarrow> key_slot h key x \<Longrightarrow> key_slot h key y \<Longrightarrow> x = y"
  by (auto simp: key_slot_def keys_ok_def searchable_def dest: inj_onD)

lemma key_slot_position:
  assumes S: "searchable h key" and k: "key_slot h key x"
  shows "sint (x - 1) = int (unat x) - 1" and "0 < unat x"
proof -
  have x: "x \<in># used h" "x \<noteq> 0" using k by (auto simp: key_slot_def in_used)
  then have "unat x < slots h" using searchableD(4)[OF S] by (auto simp: slots_ok_def)
  then show "sint (x - 1) = int (unat x) - 1" using slot_position[OF searchableD(3)[OF S]] x(2) by blast
  show "0 < unat x" using x(2) by (simp add: unat_gt_0)
qed

lemma key_slot_home:
  assumes S: "searchable h key" and k: "key_slot h key x"
  shows "\<exists>i \<in> home h (rte_hash_hash h key). i < length (h_buckets h) \<and> (\<exists>j < 8. key_slot h key (snd (entries h ! (8 * i + j))))"
proof -
  obtain p where p: "p < length (entries h)" "snd (entries h ! p) = x" "x \<noteq> 0"
    using k by (auto simp: key_slot_def in_used)
  have "entry_ok h (p div 8) (entries h ! p)" using searchableD(2)[OF S] p(1) by (auto simp: placed_def)
  then have "p div 8 \<in> home h (rte_hash_hash h key)"
    using p k by (auto simp: entry_ok_def Let_def key_slot_def)
  moreover have "8 * (p div 8) + p mod 8 = p" by simp
  moreover have "p div 8 < length (h_buckets h)" "p mod 8 < 8" using p(1) by auto
  ultimately show ?thesis using p(2) k by metis
qed

lemma both_search:
  assumes S: "searchable h key" and "{b1, b2} = home h (rte_hash_hash h key)" and "b1 < length (h_buckets h)" and "b2 < length (h_buckets h)"
  shows "\<exists>res. search_both h d key (Main b1) (Main b2) (get_short_sig (rte_hash_hash h key)) = Inr res \<and>
    (if \<exists>x. key_slot h key x then \<exists>x. key_slot h key x \<and> res = (sint (x - 1), with_data h x d) else res = (- 1, h))"
proof -
  let ?sig = "get_short_sig (rte_hash_hash h key)"
  let ?in = "\<lambda>i. \<exists>j < 8. key_slot h key (snd (entries h ! (8 * i + j)))"
  have some: "(\<exists>x. key_slot h key x) \<longleftrightarrow> ?in b1 \<or> ?in b2"
  proof
    assume "\<exists>x. key_slot h key x"
    then obtain i where "i \<in> home h (rte_hash_hash h key)" "?in i" using key_slot_home[OF S] by metis
    then show "?in b1 \<or> ?in b2" unfolding assms(2)[symmetric] by auto
  qed auto
  have ret: "sint (x - 1) \<noteq> - 1" if "key_slot h key x" for x
    using key_slot_position[OF S that] by linarith
  obtain r1 where r1: "search_and_update h d key (Main b1) ?sig = Inr r1"
      "if ?in b1 then \<exists>x. key_slot h key x \<and> r1 = (sint (x - 1), with_data h x d) else r1 = (- 1, h)"
    using bucket_search[OF S assms(3)] by blast
  obtain r2 where r2: "search_and_update h d key (Main b2) ?sig = Inr r2"
      "if ?in b2 then \<exists>x. key_slot h key x \<and> r2 = (sint (x - 1), with_data h x d) else r2 = (- 1, h)"
    using bucket_search[OF S assms(4)] by blast
  have chain: "search_chain (chain_fuel h) h d key (Some (Main b2)) ?sig = Inr r2"
    using r2 ret assms(4) bucket_fields(3)[OF searchableD(1)[OF S] assms(4)] by (auto simp: chain_fuel_def split: if_splits)
  show ?thesis
    using r1 r2(2) chain ret some by (auto simp: search_both_def split: if_splits)
qed

end
