(* ===== verification/Cuckoo_Insert.thy ===== *)
theory Cuckoo_Insert
  imports Cuckoo_Search
begin

text \<open>
  Inserting a slot whose key is not in the table: directly, along a path of moves, and by the
  breadth-first search for such a path.  Every step either puts exactly this slot into the table
  or leaves the slots in use as they are; no entry is lost, doubled or put into a wrong bucket.
\<close>

section \<open>The situation before and after\<close>

definition ready :: "rte_hash \<Rightarrow> u8 list \<Rightarrow> u32 \<Rightarrow> bool" where
  "ready h key x \<longleftrightarrow> searchable h key \<and> lock_free h \<and> (\<forall>y. \<not> key_slot h key y) \<and>
     x \<noteq> 0 \<and> unat x < slots h \<and> stored_key h x = key"

definition outcome :: "rte_hash \<Rightarrow> u32 \<Rightarrow> bool \<Rightarrow> rte_hash \<Rightarrow> bool" where
  "outcome h x ok h' \<longleftrightarrow> retabled h h' \<and> placed h' \<and> used h' = (if ok then add_mset x (used h) else used h)"

lemma frame_store:
  assumes "frame h' = frame h"
  shows "store_ok h' = store_ok h" "slots h' = slots h" "lock_free h' = lock_free h"
  using frame_fields[OF assms] by (simp_all add: store_ok_def slots_def lock_free_def)

lemma ready_kept:
  assumes "ready h key x" and "outcome h x False h'"
  shows "ready h' key x"
proof -
  have f: "frame h' = frame h" and t: "table_ok h'" and p: "placed h'" and u: "used h' = used h"
    using assms(2) by (auto simp: outcome_def retabled_def)
  have "slots_ok h' = slots_ok h" "keys_ok h' = keys_ok h" "key_slot h' = key_slot h"
    by (auto simp: slots_ok_def keys_ok_def key_slot_def fun_eq_iff u frame_store[OF f] frame_entry_ok[OF f])
  then show ?thesis
    using assms(1) t p by (simp add: ready_def searchable_def frame_store[OF f] frame_entry_ok[OF f])
qed

lemma outcome_refl: "ready h key x \<Longrightarrow> outcome h x False h"
  by (simp add: ready_def outcome_def searchable_def retabled_refl)

lemma outcome_trans: "outcome h x False h1 \<Longrightarrow> outcome h1 x ok h2 \<Longrightarrow> outcome h x ok h2"
  by (auto simp: outcome_def intro: retabled_trans)

lemma ready_locked: "ready h key x \<Longrightarrow> searchable (locked h) key \<and> (\<forall>y. \<not> key_slot (locked h) key y)"
  by (simp add: ready_def searchable_def slots_ok_def keys_ok_def key_slot_def)

lemma outcome_unlock:
  assumes "retabled (locked h) h'" and "placed h'" and "used h' = (if ok then add_mset x (used h) else used h)"
    and "lock_free h"
  shows "outcome h x ok (hash_rw_writer_unlock h')"
  using assms unlock_retabled[OF assms(1,4)] by (simp add: outcome_def)

lemma locked_search_none:
  assumes "ready h key x" and "{b1, b2} = home h (rte_hash_hash h key)"
    and "b1 < length (h_buckets h)" and "b2 < length (h_buckets h)"
  shows "search_both (locked h) d key (Main b1) (Main b2) (get_short_sig (rte_hash_hash h key)) = Inr (- 1, locked h)"
proof -
  have s: "searchable (locked h) key" and none: "\<not> (\<exists>y. key_slot (locked h) key y)"
    using ready_locked[OF assms(1)] by auto
  from both_search[OF s, of b1 b2 d] none assms(2-4) show ?thesis by auto
qed

lemma new_entry_ok:
  assumes "ready h key x" and "b \<in> home h (rte_hash_hash h key)"
  shows "entry_ok h b (get_short_sig (rte_hash_hash h key), x)"
  using assms by (simp add: entry_ok_def ready_def Let_def)

text \<open>Putting the new slot into a free position of one of its buckets.\<close>

lemma set_new_entry:
  assumes r: "ready h key x" and b: "b \<in> home h (rte_hash_hash h key)" "b < length (h_buckets h)" "j < 8"
    and h1: "retabled (locked h) h1" "placed h1" "used_but (8 * b + j) h1 = used h"
  shows "\<exists>h2. set_entry h1 (Main b) j (get_short_sig (rte_hash_hash h key)) x = Inr h2 \<and>
    outcome h x True (hash_rw_writer_unlock h2)"
proof -
  have t: "table_ok h1" "length (h_buckets h1) = length (h_buckets h)" using h1(1) by (auto simp: retabled_def)
  obtain h2 where h2: "set_entry h1 (Main b) j (get_short_sig (rte_hash_hash h key)) x = Inr h2" "retabled h1 h2"
      "entries h2 = (entries h1)[8 * b + j := (get_short_sig (rte_hash_hash h key), x)]"
    using set_entry_ok[OF t(1) _ b(3)] b(2) t(2) by metis
  have f: "frame h1 = frame (locked h)" using h1(1) by (simp add: retabled_def)
  have "entry_ok h1 b (get_short_sig (rte_hash_hash h key), x)"
    using new_entry_ok[OF r b(1)] by (simp add: frame_entry_ok(1)[OF f] entry_ok_def)
  then have "placed h2"
    using placed_update[OF h1(2) _ h2(3)] h2(2) slot_pos[OF b(3)] by (simp add: retabled_def)
  moreover have "used h2 = add_mset x (used h)"
    using used_fill[OF _ h2(3)] h1(3) r pos_less[OF b(2,3)] t(2) by (simp add: ready_def)
  ultimately show ?thesis
    using h2 outcome_unlock[OF retabled_trans[OF h1(1) h2(2)], of True x] r by (auto simp: ready_def)
qed

section \<open>Direct insertion\<close>

lemma insert_mw_ok:
  assumes r: "ready h key x" and home: "{b1, b2} = home h (rte_hash_hash h key)"
    and b: "b1 < length (h_buckets h)" "b2 < length (h_buckets h)"
  shows "\<exists>ok h'. rte_hash_cuckoo_insert_mw h (Main b1) (Main b2) key d (get_short_sig (rte_hash_hash h key)) x rv =
      Inr (if ok then 0 else - 1, rv, h') \<and> outcome h x ok h'"
proof -
  let ?sig = "get_short_sig (rte_hash_hash h key)" and ?bk = "h_buckets h ! b1"
  have lf: "lock_free h" and t: "table_ok (locked h)" and p: "placed (locked h)"
    using r by (auto simp: ready_def searchable_def)
  note lock = writer_lock_ok[OF lf] and none = locked_search_none[OF r home b]
  show ?thesis
  proof (cases "find (\<lambda>i. key_idx ?bk ! i = EMPTY_SLOT) [0..<8]")
    case None
    have "outcome h x False (hash_rw_writer_unlock (locked h))"
      using outcome_unlock[OF retabled_refl[OF t] p _ lf] by simp
    with None b show ?thesis
      by (intro exI[of _ False]) (simp add: rte_hash_cuckoo_insert_mw_def lock none RTE_HASH_BUCKET_ENTRIES_def)
  next
    case (Some j)
    then have j: "j < 8" "key_idx ?bk ! j = 0" by (auto simp: find_Some_iff EMPTY_SLOT_def)
    have "used_but (8 * b1 + j) (locked h) = used h"
      using used_empty[of "8 * b1 + j" "locked h"] pos_less[OF b(1) j(1)] get_bkt_entry[OF b(1) j(1)] j(2) by simp
    from set_new_entry[OF r _ b(1) j(1) retabled_refl[OF t] p this] home
    obtain h2 where "set_entry (locked h) (Main b1) j ?sig x = Inr h2" "outcome h x True (hash_rw_writer_unlock h2)"
      by auto
    with Some b show ?thesis
      by (intro exI[of _ True]) (simp add: rte_hash_cuckoo_insert_mw_def lock none RTE_HASH_BUCKET_ENTRIES_def)
  qed
qed

section \<open>Insertion along a path\<close>

lemma move_insert_ok:
  assumes r: "ready h key x" and home: "{b1, b2} = home h (rte_hash_hash h key)"
    and b: "b1 < length (h_buckets h)" "b2 < length (h_buckets h)"
    and n: "node_ok h b1 n" and s: "s < 8"
  shows "\<exists>ok h'. rte_hash_cuckoo_move_insert_mw h (Main b1) (Main b2) key d n s (get_short_sig (rte_hash_hash h key)) x rv =
      Inr (if ok then 0 else - 1, rv, h') \<and> outcome h x ok h'"
proof -
  let ?sig = "get_short_sig (rte_hash_hash h key)" and ?i = "unat (qn_cur_bkt_idx n)"
  let ?f = "rte_hash_cuckoo_move_insert_mw h (Main b1) (Main b2) key d n s ?sig x rv"
  have lf: "lock_free h" and t: "table_ok (locked h)" and p: "placed (locked h)"
    using r by (auto simp: ready_def searchable_def)
  note lock = writer_lock_ok[OF lf] and none = locked_search_none[OF r home b]
  have bkt: "qn_bkt n = Main ?i" "?i < length (h_buckets h)" using node_ok_bkt[OF n] by auto
  have nl: "node_ok (locked h) b1 n" using n node_ok_cong[of "locked h" h] by simp
  show ?thesis
  proof (cases "key_idx (h_buckets h ! ?i) ! s = EMPTY_SLOT")
    case False
    have "outcome h x False (hash_rw_writer_unlock (locked h))"
      using outcome_unlock[OF retabled_refl[OF t] p _ lf] by simp
    with False bkt show ?thesis
      by (intro exI[of _ False]) (simp add: rte_hash_cuckoo_move_insert_mw_def lock)
  next
    case True
    then have empty: "used_but (node_pos n s) (locked h) = used h"
      using used_empty[of "node_pos n s" "locked h"] pos_less[OF bkt(2) s] get_bkt_entry[OF bkt(2) s]
      by (simp add: node_pos_def EMPTY_SLOT_def)
    obtain ret c j h1 where h1: "move_path (locked h) n s = Inr (ret, c, j, h1)" "retabled (locked h) h1" "placed h1" "j < 8"
      "ret = 0 \<and> c = Main b1 \<and> used_but (8 * b1 + j) h1 = used h \<or> ret = - 1 \<and> used h1 = used h"
      using move_path_ok[OF t p nl s] empty by auto
    have run: "?f = (if ret = - 1 then Inr (- 1, rv, hash_rw_writer_unlock h1)
        else bindc (set_entry (note_change h1) c j ?sig x) (\<lambda>h. Inr (0, rv, hash_rw_writer_unlock h)))"
      using True bkt by (simp add: rte_hash_cuckoo_move_insert_mw_def lock none h1(1))
    show ?thesis
    proof (cases "ret = 0")
      case True
      have nc: "retabled h1 (note_change h1)" using h1(2) note_change_retabled by (simp add: retabled_def)
      have pl: "placed (note_change h1)"
        using h1(3) frame_entry_ok(1)[OF note_change_ok(3)[of h1]] by (simp add: placed_def note_change_ok)
      have ub: "used_but (8 * b1 + j) (note_change h1) = used h" using h1(5) True by (simp add: used_but_def note_change_ok)
      from set_new_entry[OF r _ b(1) h1(4) retabled_trans[OF h1(2) nc] pl ub] home
      obtain h2 where "set_entry (note_change h1) (Main b1) j ?sig x = Inr h2" "outcome h x True (hash_rw_writer_unlock h2)"
        by auto
      with True h1(5) show ?thesis by (intro exI[of _ True]) (simp add: run)
    next
      case False
      then show ?thesis
        using h1(5) outcome_unlock[OF h1(2,3) _ lf, of False x] by (intro exI[of _ False]) (simp add: run)
    qed
  qed
qed

section \<open>The search for a path\<close>

lemma make_space_slots_ok:
  assumes "ready h key x" and "{b1, b2} = home h (rte_hash_hash h key)"
    and "b1 < length (h_buckets h)" "b2 < length (h_buckets h)" and "node_ok h b1 n" and "\<forall>i \<in> set is. i < 8"
  shows "\<exists>ok new h'. make_space_slots (Main b1) (Main b2) key d (get_short_sig (rte_hash_hash h key)) x n is rv h =
      Inr (if ok then Some 0 else None, rv, new, h') \<and> outcome h x ok h' \<and> (\<forall>m \<in> set new. node_ok h b1 m) \<and>
      (\<not> ok \<longrightarrow> length new = length is)"
  using assms
proof (induction "is" arbitrary: h)
  case Nil
  then show ?case using outcome_refl by (intro exI[of _ False]) auto
next
  case (Cons i "is")
  let ?sig = "get_short_sig (rte_hash_hash h key)" and ?c = "unat (qn_cur_bkt_idx n)"
  have bkt: "qn_bkt n = Main ?c" "?c < length (h_buckets h)" using node_ok_bkt[OF Cons.prems(5)] by auto
  have i: "i < 8" using Cons.prems(6) by simp
  obtain ok h1 where h1: "(if key_idx (h_buckets h ! ?c) ! i = EMPTY_SLOT
        then rte_hash_cuckoo_move_insert_mw h (Main b1) (Main b2) key d n i ?sig x rv else Inr (- 1, rv, h)) =
      Inr (if ok then 0 else - 1, rv, h1)" "outcome h x ok h1"
  proof (cases "key_idx (h_buckets h ! ?c) ! i = EMPTY_SLOT")
    case True
    then show ?thesis using move_insert_ok[OF Cons.prems(1-5) i, of d rv] that by auto
  next
    case False
    then show ?thesis using outcome_refl[OF Cons.prems(1)] that[of False h] by simp
  qed
  show ?case
  proof (cases ok)
    case True
    then show ?thesis using h1 bkt by (intro exI[of _ True] exI[of _ "[]"] exI[of _ h1]) simp
  next
    case False
    have f: "frame h1 = frame h" and l: "length (h_buckets h1) = length (h_buckets h)" and t: "table_ok h1"
      using h1(2) by (auto simp: outcome_def retabled_def)
    have r1: "ready h1 key x" using ready_kept[OF Cons.prems(1)] h1(2) False by simp
    have "\<exists>ok new h'. make_space_slots (Main b1) (Main b2) key d (get_short_sig (rte_hash_hash h1 key)) x n is rv h1 =
      Inr (if ok then Some 0 else None, rv, new, h') \<and> outcome h1 x ok h' \<and> (\<forall>m \<in> set new. node_ok h1 b1 m) \<and>
      (\<not> ok \<longrightarrow> length new = length is)"
      using Cons.prems(2-6) l by (intro Cons.IH r1) (auto simp: frame_entry_ok[OF f] node_ok_cong[OF l])
    then obtain ok' new h2 where h2: "make_space_slots (Main b1) (Main b2) key d ?sig x n is rv h1 =
        Inr (if ok' then Some 0 else None, rv, new, h2)" "outcome h1 x ok' h2" "\<forall>m \<in> set new. node_ok h b1 m"
        "\<not> ok' \<longrightarrow> length new = length is"
      unfolding frame_entry_ok[OF f] node_ok_cong[OF l] by blast
    let ?alt = "get_alt_bucket_index h1 (qn_cur_bkt_idx n) (sig_current (h_buckets h1 ! ?c) ! i)"
    have "unat ?alt < length (h_buckets h)" using bucket_index_lt(2)[of h1] t l by (simp add: table_ok_def)
    then have "node_ok h b1 (QNode (Main (unat ?alt)) ?alt (Some (n, i)))" using i Cons.prems(5) by simp
    moreover have "outcome h x ok' h2" using outcome_trans[OF _ h2(2)] h1(2) False by simp
    ultimately show ?thesis
      using h1(1) h2 bkt l False
      by (intro exI[of _ ok'] exI[of _ "QNode (Main (unat ?alt)) ?alt (Some (n, i)) # new"] exI[of _ h2])
         (simp add: Let_def)
  qed
qed

lemma make_space_loop_ok:
  assumes "ready h key x" and "{b1, b2} = home h (rte_hash_hash h key)"
    and "b1 < length (h_buckets h)" "b2 < length (h_buckets h)" and "\<forall>m \<in> set todo. node_ok h b1 m"
  shows "\<exists>ok h'. make_space_loop (Main b1) (Main b2) key d (get_short_sig (rte_hash_hash h key)) x todo n rv h =
      Inr (if ok then 0 else - ENOSPC, rv, h') \<and> outcome h x ok h'"
  using assms
proof (induction "1000 - n" arbitrary: todo n h rule: less_induct)
  case less
  let ?sig = "get_short_sig (rte_hash_hash h key)"
  show ?case
  proof (cases "todo = [] \<or> \<not> n < 992")
    case True
    then have "make_space_loop (Main b1) (Main b2) key d ?sig x todo n rv h = Inr (- ENOSPC, rv, h)"
      by (subst make_space_loop.simps)
         (auto simp: RTE_HASH_BFS_QUEUE_MAX_LEN_def RTE_HASH_BUCKET_ENTRIES_def
           split: list.splits)
    then show ?thesis using outcome_refl[OF less.prems(1)] by (intro exI[of _ False]) auto
  next
    case False
    then obtain m rest where todo: "todo = m # rest" and n: "n < 992" by (cases todo) auto
    obtain ok new h1 where h1: "make_space_slots (Main b1) (Main b2) key d ?sig x m [0..<8] rv h =
        Inr (if ok then Some 0 else None, rv, new, h1)" "outcome h x ok h1" "\<forall>m \<in> set new. node_ok h b1 m"
      using make_space_slots_ok[OF less.prems(1-4), of m "[0..<8]" d rv] less.prems(5) todo by auto
    have step: "make_space_loop (Main b1) (Main b2) key d ?sig x todo n rv h =
        (if ok then Inr (0, rv, h1) else make_space_loop (Main b1) (Main b2) key d ?sig x (rest @ new) (n + 8) rv h1)"
    proof -
      have cond: "n < RTE_HASH_BFS_QUEUE_MAX_LEN - 8" using n by (simp add: RTE_HASH_BFS_QUEUE_MAX_LEN_def)
      show ?thesis
        unfolding todo
        by (subst make_space_loop.simps)
           (cases ok; simp only: RTE_HASH_BUCKET_ENTRIES_def list.case cond if_True if_False h1(1) bindc.simps
              prod.case option.case)
    qed
    show ?thesis
    proof (cases ok)
      case True
      with step h1(2) show ?thesis by (intro exI[of _ True]) auto
    next
      case False
      have f: "frame h1 = frame h" and l: "length (h_buckets h1) = length (h_buckets h)"
        using h1(2) by (auto simp: outcome_def retabled_def)
      have r1: "ready h1 key x" using ready_kept[OF less.prems(1)] h1(2) False by simp
      have "\<exists>ok h'. make_space_loop (Main b1) (Main b2) key d (get_short_sig (rte_hash_hash h1 key)) x (rest @ new) (n + 8) rv h1 =
          Inr (if ok then 0 else - ENOSPC, rv, h') \<and> outcome h1 x ok h'"
        using less.prems(2-5) h1(3) todo n l
        by (intro less.hyps r1) (auto simp: frame_entry_ok[OF f] node_ok_cong[OF l])
      then obtain ok' h2 where loop: "make_space_loop (Main b1) (Main b2) key d ?sig x (rest @ new) (n + 8) rv h1 =
          Inr (if ok' then 0 else - ENOSPC, rv, h2)" and o2: "outcome h1 x ok' h2"
        unfolding frame_entry_ok[OF f] by (elim exE conjE)
      have "outcome h x False h1" using h1(2) False by simp
      then have "outcome h x ok' h2" using o2 by (rule outcome_trans)
      then show ?thesis unfolding step loop if_not_P[OF False] by (intro exI[of _ ok'] exI[of _ h2] conjI refl)
    qed
  qed
qed

lemma make_space_ok:
  assumes "ready h key x" and "{unat i1, b2} = home h (rte_hash_hash h key)"
    and "unat i1 < length (h_buckets h)" "b2 < length (h_buckets h)"
  shows "\<exists>ok h'. rte_hash_cuckoo_make_space_mw h (Main (unat i1)) (Main b2) key d (get_short_sig (rte_hash_hash h key)) i1 x rv =
      Inr (if ok then 0 else - ENOSPC, rv, h') \<and> outcome h x ok h'"
  unfolding rte_hash_cuckoo_make_space_mw_def
  by (rule make_space_loop_ok) (use assms in auto)

end
