(* ===== verification/Cuckoo_Correct.thy ===== *)
theory Cuckoo_Correct
  imports Cuckoo_Insert Ring_Correct Jhash
begin

text \<open>
  The hash table as a map from keys to data, its invariant, and the correctness of adding a key.
\<close>

section \<open>Invariant\<close>

definition slot_set :: "rte_hash \<Rightarrow> u32 set" where
  "slot_set h = {x. x \<noteq> 0 \<and> unat x < slots h}"

definition free_list :: "rte_hash \<Rightarrow> u32 list" where
  "free_list h = ring_cells 1 (h_free_slots h)"

text \<open>
  Every slot but the dummy is exactly once in the table, in the ring of free slots or among the
  slots \<open>held\<close> by an operation; the keys in the table are distinct, not the dummy's, and each in one
  of its two buckets.
\<close>

definition inv_held :: "u32 list \<Rightarrow> rte_hash \<Rightarrow> bool" where
  "inv_held held h \<longleftrightarrow> table_ok h \<and> placed h \<and> store_ok h \<and> keys_ok h \<and> lock_free h \<and> slot_ring (h_free_slots h) \<and>
     slots h \<le> unat (r_capacity (h_free_slots h)) + 1 \<and> \<not> h_ext_table_support h \<and>
     used h + mset (free_list h) + mset held = mset_set (slot_set h) \<and>
     (\<forall>x \<in># used h. stored_key h x \<noteq> stored_key h 0)"

definition hash_inv :: "rte_hash \<Rightarrow> bool" where
  "hash_inv h \<longleftrightarrow> inv_held [] h"

text \<open>The data of a key, as the eight bytes of its \<open>pdata\<close>.\<close>

definition hash_lookup :: "rte_hash \<Rightarrow> u8 list \<rightharpoonup> u8 list" where
  "hash_lookup h key = map_option (stored_data h)
     (find (\<lambda>x. stored_key h x = key) (filter (\<lambda>x. x \<noteq> 0) (map snd (entries h))))"

lemma find_in: "find P xs = Some y \<Longrightarrow> y \<in> set xs \<and> P y"
  by (induction xs) (auto split: if_splits)

lemma lookup_iff:
  assumes "keys_ok h"
  shows "hash_lookup h key = Some v \<longleftrightarrow> (\<exists>x. key_slot h key x \<and> stored_data h x = v)"
proof -
  have u: "x \<in># used h \<longleftrightarrow> x \<in> set (filter (\<lambda>x. x \<noteq> 0) (map snd (entries h)))" for x by (auto simp: used_def)
  show ?thesis
  proof (cases "find (\<lambda>x. stored_key h x = key) (filter (\<lambda>x. x \<noteq> 0) (map snd (entries h)))")
    case None
    then have "\<not> key_slot h key x" for x unfolding key_slot_def u find_None_iff by blast
    with None show ?thesis by (simp add: hash_lookup_def)
  next
    case (Some y)
    then have "y \<in> set (filter (\<lambda>x. x \<noteq> 0) (map snd (entries h))) \<and> stored_key h y = key"
      by (rule find_in)
    then have y: "key_slot h key y" unfolding key_slot_def u by simp
    then have uniq: "key_slot h key x \<Longrightarrow> x = y" for x
      using assms by (auto simp: key_slot_def keys_ok_def dest: inj_onD)
    have "hash_lookup h key = Some (stored_data h y)" using Some by (simp add: hash_lookup_def del: filter_map)
    then show ?thesis using y uniq by (metis option.inject)
  qed
qed

lemma map_ext_some: "(\<And>k v. m k = Some v \<longleftrightarrow> m' k = Some v) \<Longrightarrow> m = m'"
  by (rule ext) (metis not_Some_eq)

section \<open>Parts of the invariant\<close>

lemma finite_slot_set [simp]: "finite (slot_set h)"
  by (simp add: slot_set_def)

lemma held_slots:
  assumes "inv_held held h" and "x \<in># used h + mset (free_list h) + mset held"
  shows "x \<noteq> 0" and "unat x < slots h"
proof -
  have "x \<in> slot_set h" using assms unfolding inv_held_def by (metis elem_mset_set finite_slot_set)
  then show "x \<noteq> 0" "unat x < slots h" by (auto simp: slot_set_def)
qed

lemma held_disjoint:
  assumes "inv_held held h" and "x \<in> set (free_list h) \<union> set held"
  shows "x \<notin># used h"
proof
  assume u: "x \<in># used h"
  have "count (used h + mset (free_list h) + mset held) x \<le> 1"
    using assms(1) by (simp add: inv_held_def count_mset_set')
  then have "count (used h) x + count (mset (free_list h)) x + count (mset held) x \<le> 1" by (simp only: count_union)
  moreover have "count (used h) x \<ge> 1" using u by (simp add: Suc_le_eq)
  moreover have "0 < count (mset (free_list h)) x \<or> 0 < count (mset held) x"
    using assms(2) unfolding count_greater_zero_iff set_mset_mset by blast
  ultimately show False by linarith
qed

lemma held_searchable:
  assumes "inv_held held h" and "length key = 8" and "stored_key h 0 \<noteq> key"
  shows "searchable h key"
proof -
  have "slots_ok h" using held_slots(2)[OF assms(1)] by (simp add: slots_ok_def)
  then show ?thesis using assms by (simp add: searchable_def inv_held_def)
qed

lemma held_room:
  assumes "inv_held (x # held) h"
  shows "length (free_list h) < unat (r_capacity (h_free_slots h))"
proof -
  have "slot_set h \<subseteq> of_nat ` {1..<slots h}"
  proof
    fix x assume "x \<in> slot_set h"
    then have "x = of_nat (unat x)" "unat x \<in> {1..<slots h}" by (auto simp: slot_set_def Suc_le_eq unat_gt_0)
    then show "x \<in> of_nat ` {1..<slots h}" by (rule image_eqI)
  qed
  then have "card (slot_set h) \<le> card {1..<slots h}"
    by (meson card_image_le card_mono finite_atLeastLessThan finite_imageI order_trans)
  moreover have "size (used h + mset (free_list h) + mset (x # held)) = card (slot_set h)"
    using assms unfolding inv_held_def by (metis size_mset_set)
  moreover have "slots h \<le> unat (r_capacity (h_free_slots h)) + 1" using assms by (simp add: inv_held_def)
  ultimately show ?thesis by simp
qed

text \<open>Changing the key store without changing a key that is in use.\<close>

lemma held_store:
  assumes inv: "inv_held held h" and m: "store_ok (h\<lparr>h_key_store := m\<rparr>)" "slots (h\<lparr>h_key_store := m\<rparr>) = slots h"
    and keys: "\<And>y. y = 0 \<or> y \<in># used h \<Longrightarrow> stored_key (h\<lparr>h_key_store := m\<rparr>) y = stored_key h y"
  shows "inv_held held (h\<lparr>h_key_store := m\<rparr>)"
proof -
  let ?h = "h\<lparr>h_key_store := m\<rparr>"
  have "entry_ok ?h (p div 8) (entries h ! p)" if p: "p < length (entries h)" for p
  proof (cases "snd (entries h ! p) = 0")
    case False
    then have "snd (entries h ! p) \<in># used h" using p by (auto simp: in_used)
    then show ?thesis using inv p keys by (auto simp: inv_held_def placed_def entry_ok_def)
  qed (simp add: entry_ok_def)
  moreover have "inj_on (stored_key ?h) (set_mset (used h))"
    using inv keys by (auto simp: inv_held_def keys_ok_def inj_on_def)
  ultimately show ?thesis
    using inv m keys
    by (simp add: inv_held_def placed_def keys_ok_def lock_free_def free_list_def slot_set_def)
qed

lemma outcome_held:
  assumes inv: "inv_held [x] h" and r: "ready h key x" and out: "outcome h x ok h'"
  shows "inv_held (if ok then [] else [x]) h'" and "stored_key h' = stored_key h" and "stored_data h' = stored_data h"
    and "key_slot h' k y \<longleftrightarrow> key_slot h k y \<or> ok \<and> y = x \<and> k = key"
proof -
  have f: "frame h' = frame h" and t: "table_ok h'" and p: "placed h'"
    and u: "used h' = (if ok then add_mset x (used h) else used h)"
    using out by (auto simp: outcome_def retabled_def)
  show sk: "stored_key h' = stored_key h" and "stored_data h' = stored_data h" using frame_entry_ok[OF f] by simp_all
  have kx: "stored_key h x = key" and none: "\<And>y. y \<in># used h \<Longrightarrow> stored_key h y \<noteq> key" and d: "stored_key h 0 \<noteq> key"
    using r by (auto simp: ready_def key_slot_def searchable_def)
  show "key_slot h' k y \<longleftrightarrow> key_slot h k y \<or> ok \<and> y = x \<and> k = key"
    using kx by (auto simp: key_slot_def u sk)
  have "keys_ok h" using inv by (simp add: inv_held_def)
  moreover have "\<forall>y \<in># used h. stored_key h x \<noteq> stored_key h y" using kx none by metis
  ultimately have "keys_ok h'" unfolding keys_ok_def u sk by (auto simp: inj_on_insert)
  moreover have "\<forall>y \<in># used h'. stored_key h' y \<noteq> stored_key h' 0"
    using inv kx d by (auto simp: u sk inv_held_def)
  ultimately show "inv_held (if ok then [] else [x]) h'"
    using inv t p frame_fields[OF f] frame_store[OF f]
    by (auto simp: inv_held_def free_list_def slot_set_def u)
qed

section \<open>Adding a key\<close>

lemma unlock_locked: "lock_free h \<Longrightarrow> hash_rw_writer_unlock (locked h) = h"
  by (cases h) (auto simp: unlock_eq locked_def lock_free_def)

lemma unlock_with_data: "lock_free h \<Longrightarrow> hash_rw_writer_unlock (with_data (locked h) x d) = with_data h x d"
  by (cases h) (auto simp: unlock_eq locked_def lock_free_def with_data_def key_offset_of_def)

lemma home_buckets:
  assumes "table_ok h"
  shows "home h hash = {unat (get_prim_bucket_index h hash),
      unat (get_alt_bucket_index h (get_prim_bucket_index h hash) (get_short_sig hash))}"
    and "unat (get_prim_bucket_index h hash) < length (h_buckets h)"
    and "unat (get_alt_bucket_index h cur sig) < length (h_buckets h)"
  using assms bucket_index_lt[of h] by (auto simp: home_def table_ok_def)

text \<open>After the first search: the key is in the table, or nothing has changed.\<close>

lemma first_search:
  assumes inv: "inv_held held h" and len: "length key = 8" and dummy: "stored_key h 0 \<noteq> key"
    and home: "{b1, b2} = home h (rte_hash_hash h key)" "b1 < length (h_buckets h)" "b2 < length (h_buckets h)"
  shows "(\<exists>x. key_slot h key x \<and> search_both (locked h) d key (Main b1) (Main b2) (get_short_sig (rte_hash_hash h key)) =
        Inr (sint (x - 1), with_data (locked h) x d)) \<or>
     (\<forall>x. \<not> key_slot h key x) \<and> search_both (locked h) d key (Main b1) (Main b2) (get_short_sig (rte_hash_hash h key)) =
        Inr (- 1, locked h)"
proof -
  have "searchable (locked h) key" using held_searchable[OF inv len dummy] by (simp add: searchable_def slots_ok_def keys_ok_def)
  moreover have ks: "key_slot (locked h) = key_slot h" by (simp add: fun_eq_iff key_slot_def)
  ultimately obtain res where "search_both (locked h) d key (Main b1) (Main b2) (get_short_sig (rte_hash_hash h key)) = Inr res"
    "if \<exists>x. key_slot h key x then \<exists>x. key_slot h key x \<and> res = (sint (x - 1), with_data (locked h) x d)
     else res = (- 1, locked h)"
    using both_search[of "locked h" key b1 b2 d] home unfolding ks by auto
  then show ?thesis by (auto split: if_splits)
qed

lemma update_ok:
  assumes inv: "hash_inv h" and x: "key_slot h key x"
  shows "hash_inv (with_data h x d)" and "hash_lookup (with_data h x d) = (hash_lookup h)(key \<mapsto> pdata_bytes d)"
    and "key_slot (with_data h x d) key x"
proof -
  have held: "inv_held [] h" and st: "store_ok h" and k: "keys_ok h" using inv by (auto simp: hash_inv_def inv_held_def)
  have lt: "unat y < slots h" if "y = 0 \<or> y \<in># used h" for y
    using that held_slots(2)[OF held] st by (auto simp: store_ok_def)
  have ux: "x \<in># used h" using x by (simp add: key_slot_def)
  note wd = with_data_ok[OF st lt[OF disjI2[OF ux]], where d = d]
  define m where "m = h_key_store (with_data h x d)"
  have m: "with_data h x d = h\<lparr>h_key_store := m\<rparr>" by (simp add: m_def with_data_def)
  have inv': "inv_held [] (with_data h x d)"
    using wd lt unfolding m by (intro held_store[OF held]) auto
  then show "hash_inv (with_data h x d)" by (simp add: hash_inv_def)
  have us: "used (with_data h x d) = used h" by (simp add: with_data_def)
  have ks: "key_slot (with_data h x d) k y = key_slot h k y" for k y
    using wd(4)[OF lt, of y] by (auto simp: key_slot_def us)
  then show "key_slot (with_data h x d) key x" using x by simp
  have k': "keys_ok (with_data h x d)" using inv' by (simp add: inv_held_def)
  show "hash_lookup (with_data h x d) = (hash_lookup h)(key \<mapsto> pdata_bytes d)"
  proof (rule map_ext_some)
    fix k' v
    have same: "y = x \<longleftrightarrow> k' = key" if "key_slot h k' y" for y
      using that x k by (auto simp: key_slot_def keys_ok_def dest: inj_onD)
    have data: "stored_data (with_data h x d) y = (if k' = key then pdata_bytes d else stored_data h y)"
      if "key_slot h k' y" for y
      using wd(5)[OF lt, of y] that same[OF that] by (simp add: key_slot_def)
    show "hash_lookup (with_data h x d) k' = Some v \<longleftrightarrow> ((hash_lookup h)(key \<mapsto> pdata_bytes d)) k' = Some v"
    proof (cases "k' = key")
      case True
      then show ?thesis using data x unfolding lookup_iff[OF k'] ks by (metis fun_upd_same option.inject)
    next
      case False
      then have "((hash_lookup h)(key \<mapsto> pdata_bytes d)) k' = Some v \<longleftrightarrow> (\<exists>y. key_slot h k' y \<and> stored_data h y = v)"
        by (simp add: lookup_iff[OF k])
      then show ?thesis using data False unfolding lookup_iff[OF k'] ks by metis
    qed
  qed
qed

text \<open>A fresh slot with the data and the key of the caller in it.\<close>

definition filled :: "rte_hash \<Rightarrow> u32 \<Rightarrow> u64 \<Rightarrow> u8 list \<Rightarrow> rte_hash" where
  "filled h x d key = with_key (with_data h x d) x key"

lemma filled_ok:
  assumes inv: "inv_held [x] h" and len: "length key = 8" and dummy: "stored_key h 0 \<noteq> key"
    and none: "\<forall>y. \<not> key_slot h key y"
  shows "bindc (store_pdata h x d) (\<lambda>h. store_key h x key) = Inr (filled h x d key)"
    and "inv_held [x] (filled h x d key)" and "ready (filled h x d key) key x"
    and "key_slot (filled h x d key) k y = key_slot h k y"
    and "key_slot h k y \<Longrightarrow> stored_data (filled h x d key) y = stored_data h y"
    and "stored_data (filled h x d key) x = pdata_bytes d"
proof -
  let ?h1 = "with_data h x d"
  let ?h2 = "filled h x d key"
  have st: "store_ok h" using inv by (simp add: inv_held_def)
  have x: "x \<noteq> 0" "unat x < slots h" using held_slots[OF inv, of x] by simp_all
  have xu: "x \<notin># used h" using held_disjoint[OF inv, of x] by simp
  have lt: "unat y < slots h" if "y = 0 \<or> y \<in># used h" for y
    using that held_slots(2)[OF inv] st by (auto simp: store_ok_def)
  note d = with_data_ok[OF st x(2), where d = d]
  have x1: "unat x < slots ?h1" using x d(3) by simp
  note k = with_key_ok[OF d(2) x1 len, folded filled_def]
  show "bindc (store_pdata h x d) (\<lambda>h. store_key h x key) = Inr ?h2" using d(1) k(1) by simp
  have key: "stored_key ?h2 y = (if y = x then key else stored_key h y)" if "unat y < slots h" for y
    using k(4)[of y] d(3) d(4)[OF that] that by simp
  have data: "stored_data ?h2 y = (if y = x then pdata_bytes d else stored_data h y)" if "unat y < slots h" for y
    using k(5)[of y] d(3) d(5)[OF that] that by simp
  show "stored_data ?h2 x = pdata_bytes d" using data[OF x(2)] by simp
  define m where "m = h_key_store ?h2"
  have m: "?h2 = h\<lparr>h_key_store := m\<rparr>" by (simp add: m_def filled_def with_key_def with_data_def)
  have same: "stored_key ?h2 y = stored_key h y" if "y = 0 \<or> y \<in># used h" for y
    using key[OF lt[OF that]] that x(1) xu by auto
  show inv2: "inv_held [x] ?h2"
    using k(2,3) d(3) same unfolding m by (intro held_store[OF inv]) auto
  have us: "used ?h2 = used h" unfolding m by simp
  show ks: "key_slot ?h2 k y = key_slot h k y" for k y
    using same[of y] by (auto simp: key_slot_def us)
  show "stored_data ?h2 y = stored_data h y" if "key_slot h k y"
    using that xu data[OF lt, of y] by (auto simp: key_slot_def)
  have "searchable ?h2 key" using held_searchable[OF inv2 len] same[of 0] dummy by simp
  moreover have "lock_free ?h2" using inv2 by (simp add: inv_held_def)
  moreover have "unat x < slots ?h2" using k(3) d(3) x(2) by simp
  ultimately show "ready ?h2 key x" using x none key[OF x(2)] ks by (simp add: ready_def)
qed

text \<open>The three attempts to place the slot.\<close>

definition place :: "rte_hash \<Rightarrow> u8 list \<Rightarrow> u64 \<Rightarrow> u32 \<Rightarrow> u32 \<Rightarrow> u32 \<Rightarrow> u16 \<Rightarrow> (int \<times> rte_hash) cres" where
  "place h key d x i1 i2 sig =
     bindc (rte_hash_cuckoo_insert_mw h (Main (unat i1)) (Main (unat i2)) key d sig x 0) (\<lambda>res.
     after_insert x res (\<lambda>_ rv h.
     bindc (rte_hash_cuckoo_make_space_mw h (Main (unat i1)) (Main (unat i2)) key d sig i1 x rv) (\<lambda>res.
     after_insert x res (\<lambda>_ rv h.
     bindc (rte_hash_cuckoo_make_space_mw h (Main (unat i2)) (Main (unat i1)) key d sig i2 x rv) (\<lambda>res.
     after_insert x res (\<lambda>ret rv h.
     if \<not> h_ext_table_support h then bindc (enqueue_slot_back h x) (\<lambda>h. Inr (ret, h))
     else add_key_ext h (Main (unat i1)) (Main (unat i2)) key d sig x))))))"

lemma outcome_size: "outcome h x ok h' \<Longrightarrow> length (h_buckets h') = length (h_buckets h)"
  by (simp add: outcome_def retabled_def)

lemma place_ok:
  assumes inv: "inv_held [x] h" and r: "ready h key x" and home: "{unat i1, unat i2} = home h (rte_hash_hash h key)"
    and i: "unat i1 < length (h_buckets h)" "unat i2 < length (h_buckets h)"
  shows "\<exists>ok h'. outcome h x ok h' \<and> place h key d x i1 i2 (get_short_sig (rte_hash_hash h key)) =
    (if ok then Inr (sint (x - 1), h') else bindc (enqueue_slot_back h' x) (\<lambda>h. Inr (- ENOSPC, h)))"
proof -
  let ?sig = "get_short_sig (rte_hash_hash h key)"
  have enospc: "- ENOSPC \<noteq> 0" "- ENOSPC \<noteq> 1" by (simp_all add: ENOSPC_def)
  note after = place_def after_insert_def
  obtain ok1 h1 where s1: "rte_hash_cuckoo_insert_mw h (Main (unat i1)) (Main (unat i2)) key d ?sig x 0 =
      Inr (if ok1 then 0 else - 1, 0, h1)" "outcome h x ok1 h1"
    using insert_mw_ok[OF r home i] by blast
  show ?thesis
  proof (cases ok1)
    case True
    then show ?thesis using s1 by (intro exI[of _ True] exI[of _ h1]) (simp add: after)
  next
    case F1: False
    have o1: "outcome h x False h1" using s1(2) F1 by simp
    then have f1: "frame h1 = frame h" by (simp add: outcome_def retabled_def)
    note r1 = ready_kept[OF r o1] and l1 = outcome_size[OF o1]
    have hm1: "{unat i1, unat i2} = home h1 (rte_hash_hash h1 key)" using home frame_entry_ok[OF f1] by simp
    obtain ok2 h2 where s2: "rte_hash_cuckoo_make_space_mw h1 (Main (unat i1)) (Main (unat i2)) key d ?sig i1 x 0 =
        Inr (if ok2 then 0 else - ENOSPC, 0, h2)" "outcome h1 x ok2 h2"
      using make_space_ok[OF r1 hm1, of d 0] i l1 frame_entry_ok[OF f1] by auto
    note o2 = outcome_trans[OF o1 s2(2)]
    show ?thesis
    proof (cases ok2)
      case True
      then show ?thesis using s1 s2 F1 o2 by (intro exI[of _ True] exI[of _ h2]) (simp add: after)
    next
      case F2: False
      then have o2': "outcome h x False h2" using o2 by simp
      then have f2: "frame h2 = frame h" by (simp add: outcome_def retabled_def)
      note r2 = ready_kept[OF r o2'] and l2 = outcome_size[OF o2']
      have hm2: "{unat i2, unat i1} = home h2 (rte_hash_hash h2 key)"
        using home frame_entry_ok[OF f2] by (simp add: insert_commute)
      obtain ok3 h3 where s3: "rte_hash_cuckoo_make_space_mw h2 (Main (unat i2)) (Main (unat i1)) key d ?sig i2 x 0 =
          Inr (if ok3 then 0 else - ENOSPC, 0, h3)" "outcome h2 x ok3 h3"
        using make_space_ok[OF r2 hm2, of d 0] i l2 frame_entry_ok[OF f2] by auto
      have o3: "outcome h x ok3 h3" using outcome_trans[OF o2' s3(2)] .
      then have "frame h3 = frame h" by (simp add: outcome_def retabled_def)
      then have "\<not> h_ext_table_support h3" using frame_fields(11)[of h3 h] inv by (simp add: inv_held_def)
      then have run: "place h key d x i1 i2 ?sig =
          (if ok3 then Inr (sint (x - 1), h3) else bindc (enqueue_slot_back h3 x) (\<lambda>h. Inr (- ENOSPC, h)))"
        using s1(1) s2(1) s3(1) F1 F2 enospc by (simp add: after)
      show ?thesis using o3 run by blast
    qed
  qed
qed

lemma add_key_runs:
  assumes lf: "lock_free h" and p: "p = get_prim_bucket_index h sig" and q: "q = get_alt_bucket_index h p (get_short_sig sig)"
    and s: "search_both (locked h) d key (Main (unat p)) (Main (unat q)) (get_short_sig sig) = Inr (ret, h1)"
  shows "add_key_with_hash h key sig d =
    (if ret \<noteq> - 1 then Inr (ret, hash_rw_writer_unlock h1)
     else bindc (alloc_slot (hash_rw_writer_unlock h1)) (\<lambda>(x, h).
          bindc (bindc (store_pdata h x d) (\<lambda>h. store_key h x key)) (\<lambda>h.
          place h key d x p q (get_short_sig sig))))"
  unfolding add_key_with_hash_def Let_def writer_lock_ok[OF lf] p[symmetric] q[symmetric]
  by (simp add: s place_def bindc_assoc)

lemma alloc_ok:
  assumes inv: "inv_held [] h" and "free_list h \<noteq> []"
  shows "\<exists>x r. alloc_slot h = Inr (x, h\<lparr>h_free_slots := r\<rparr>) \<and> inv_held [x] (h\<lparr>h_free_slots := r\<rparr>)"
proof -
  obtain x xs where xs: "ring_cells 1 (h_free_slots h) = x # xs" using assms(2) by (cases "free_list h") (auto simp: free_list_def)
  have ring: "slot_ring (h_free_slots h)" using inv by (simp add: inv_held_def)
  obtain r where r: "take_slot (h_free_slots h) = Inr (0, x, r)" "slot_ring r" "ring_cells 1 r = xs"
      "unat (r_capacity r) = unat (r_capacity (h_free_slots h))"
    using slot_queue.deq_some[OF ring xs] by auto
  have "inv_held [x] (h\<lparr>h_free_slots := r\<rparr>)"
    using inv r xs by (simp add: inv_held_def free_list_def lock_free_def slot_set_def keys_ok_def)
  then show ?thesis using r(1) by (intro exI[of _ x] exI[of _ r]) (simp add: alloc_slot_take)
qed

lemma give_back_ok:
  assumes inv: "inv_held [x] h"
  shows "\<exists>r. enqueue_slot_back h x = Inr (h\<lparr>h_free_slots := r\<rparr>) \<and> inv_held [] (h\<lparr>h_free_slots := r\<rparr>)"
proof -
  have ring: "slot_ring (h_free_slots h)" using inv by (simp add: inv_held_def)
  have room: "length (ring_cells 1 (h_free_slots h)) < unat (r_capacity (h_free_slots h))"
    using held_room[OF inv] by (simp add: free_list_def)
  obtain r where r: "put_slot (h_free_slots h) x = Inr (0, r)" "slot_ring r" "ring_cells 1 r = ring_cells 1 (h_free_slots h) @ [x]"
      "unat (r_capacity r) = unat (r_capacity (h_free_slots h))"
    using slot_queue.enq_room[OF ring room] by blast
  have "inv_held [] (h\<lparr>h_free_slots := r\<rparr>)"
    using inv r by (simp add: inv_held_def free_list_def lock_free_def slot_set_def keys_ok_def)
  then show ?thesis using r(1) by (intro exI[of _ r]) (simp add: enqueue_slot_put)
qed

lemma key_slot_free [simp]: "key_slot (h\<lparr>h_free_slots := r\<rparr>) = key_slot h"
  by (simp add: fun_eq_iff key_slot_def)

lemma new_key_ok:
  assumes inv: "hash_inv h" and len: "length key = 8" and dummy: "stored_key h 0 \<noteq> key"
    and none: "\<forall>y. \<not> key_slot h key y" and free: "free_list h \<noteq> []"
    and p: "p = get_prim_bucket_index h (rte_hash_hash h key)"
    and q: "q = get_alt_bucket_index h p (get_short_sig (rte_hash_hash h key))"
  shows "\<exists>ok x h'. bindc (alloc_slot h) (\<lambda>(x, g). bindc (bindc (store_pdata g x d) (\<lambda>g. store_key g x key)) (\<lambda>g.
        place g key d x p q (get_short_sig (rte_hash_hash h key)))) = Inr (if ok then sint (x - 1) else - ENOSPC, h') \<and>
      hash_inv h' \<and> (if ok then hash_lookup h' = (hash_lookup h)(key \<mapsto> pdata_bytes d) \<and> key_slot h' key x
        else hash_lookup h' = hash_lookup h)"
proof -
  obtain x r where alloc: "alloc_slot h = Inr (x, h\<lparr>h_free_slots := r\<rparr>)" and inv1: "inv_held [x] (h\<lparr>h_free_slots := r\<rparr>)"
    using alloc_ok[OF inv[unfolded hash_inv_def] free] by blast
  let ?h1 = "h\<lparr>h_free_slots := r\<rparr>" and ?sig = "get_short_sig (rte_hash_hash h key)"
  let ?h2 = "filled ?h1 x d key"
  have dummy1: "stored_key ?h1 0 \<noteq> key" and none1: "\<forall>y. \<not> key_slot ?h1 key y" using dummy none by simp_all
  note fill = filled_ok[OF inv1 len dummy1 none1, where d = d]
  have m: "?h2 = ?h1\<lparr>h_key_store := h_key_store ?h2\<rparr>" by (simp add: filled_def with_key_def with_data_def)
  have h2: "h_buckets ?h2 = h_buckets h" "rte_hash_hash ?h2 = rte_hash_hash h" "home ?h2 = home h"
    by (subst m, simp)+
  have "table_ok h" using inv by (simp add: hash_inv_def inv_held_def)
  note hb = home_buckets[OF this]
  obtain ok h3 where out: "outcome ?h2 x ok h3" and run: "place ?h2 key d x p q ?sig =
      (if ok then Inr (sint (x - 1), h3) else bindc (enqueue_slot_back h3 x) (\<lambda>h. Inr (- ENOSPC, h)))"
    using place_ok[OF fill(2,3), of p q d] hb p q h2 by auto
  note held = outcome_held[OF fill(2,3) out]
  have keys: "keys_ok h" "keys_ok h3" using inv held(1) by (auto simp: hash_inv_def inv_held_def)
  have step: "bindc (alloc_slot h) (\<lambda>(x, g). bindc (bindc (store_pdata g x d) (\<lambda>g. store_key g x key)) (\<lambda>g.
        place g key d x p q ?sig)) = place ?h2 key d x p q ?sig"
    by (simp add: alloc fill(1))
  have data: "stored_data h3 y = stored_data h y" if "key_slot h k y" for k y
    using fill(5)[of k y] that held(3) by simp
  have slot: "key_slot h3 k y \<longleftrightarrow> key_slot h k y \<or> ok \<and> y = x \<and> k = key" for k y
    using held(4) fill(4) by simp
  show ?thesis
  proof (cases ok)
    case True
    have "hash_lookup h3 = (hash_lookup h)(key \<mapsto> pdata_bytes d)"
    proof (rule map_ext_some)
      fix k v
      show "hash_lookup h3 k = Some v \<longleftrightarrow> ((hash_lookup h)(key \<mapsto> pdata_bytes d)) k = Some v"
        using none slot True data fill(6) held(3)
        by (cases "k = key") (auto simp: lookup_iff[OF keys(1)] lookup_iff[OF keys(2)])
    qed
    moreover have "hash_inv h3" using held(1) True by (simp add: hash_inv_def)
    moreover have "key_slot h3 key x" using slot True by simp
    ultimately show ?thesis using step run True by (intro exI[of _ True] exI[of _ x] exI[of _ h3]) simp
  next
    case False
    obtain r2 where gb: "enqueue_slot_back h3 x = Inr (h3\<lparr>h_free_slots := r2\<rparr>)" "inv_held [] (h3\<lparr>h_free_slots := r2\<rparr>)"
      using give_back_ok[of x h3] held(1) False by auto
    have "keys_ok (h3\<lparr>h_free_slots := r2\<rparr>)" using gb(2) by (simp add: inv_held_def)
    then have "hash_lookup (h3\<lparr>h_free_slots := r2\<rparr>) = hash_lookup h"
      using slot False data by (intro map_ext_some) (auto simp: lookup_iff lookup_iff[OF keys(1)])
    then show ?thesis
      using step run False gb by (intro exI[of _ False] exI[of _ x] exI[of _ "h3\<lparr>h_free_slots := r2\<rparr>"]) (simp add: hash_inv_def)
  qed
qed

lemma slot_word:
  assumes "hash_inv h" and "key_slot h key x"
  shows "sint (x - 1) = int (unat x) - 1" and "0 < unat x" and "of_int (sint (x - 1) + 1) = x"
proof -
  have inv: "inv_held [] h" and st: "store_ok h" using assms(1) by (auto simp: hash_inv_def inv_held_def)
  have x: "x \<noteq> 0" "unat x < slots h" using held_slots[OF inv, of x] assms(2) by (simp_all add: key_slot_def)
  show s: "sint (x - 1) = int (unat x) - 1" using slot_position[OF st x(2,1)] .
  show "0 < unat x" using x(1) by (simp add: unat_gt_0)
  show "of_int (sint (x - 1) + 1) = x" unfolding s by simp
qed


section \<open>An instance\<close>

text \<open>
  A table of two empty buckets and three free slots, keys of \<open>len\<close> bytes, hashed with \<open>rte_jhash\<close>.
\<close>

definition key_hash :: "u8 list \<Rightarrow> u32 \<Rightarrow> u32 \<Rightarrow> u32" where
  "key_hash key len init = rte_jhash (\<lambda>p. byte_at key (unat p)) 0 len init"

definition empty_bucket :: rte_hash_bucket where
  "empty_bucket = \<lparr>sig_current = replicate 8 0, key_idx = replicate 8 EMPTY_SLOT, bkt_flag = replicate 8 0, bkt_next = None\<rparr>"

definition demo_hash :: "u32 \<Rightarrow> u32 \<Rightarrow> (u8 list \<Rightarrow> u32 \<Rightarrow> u32 \<Rightarrow> u32) \<Rightarrow> rte_hash" where
  "demo_hash klen esize f =
     \<lparr>h_name = ''demo'', h_entries = 3, h_num_buckets = 2, h_free_slots = demo_full 1 0 [1, 2, 3], h_key_len = klen,
      h_hw_trans_mem_support = False, h_use_local_cache = False, h_readwrite_concur_support = True,
      h_ext_table_support = False, h_no_free_on_del = False, h_readwrite_concur_lf_support = False,
      h_writer_takes_lock = True, h_hash_func = f, h_hash_func_init_val = 0, h_bucket_bitmask = 1,
      h_key_entry_size = esize, h_key_store = replicate (4 * unat esize) 0, h_buckets = [empty_bucket, empty_bucket],
      h_readwrite_lock = 0, h_buckets_ext = [], h_free_ext_bkts = demo_ring 1 0, h_tbl_chng_cnt = 0\<rparr>"

lemma demo_full_types:
  "ht_sync_type (r_prod (demo_full 1 0 [1, 2, 3])) \<noteq> RTE_RING_SYNC_MT_RTS"
  "ht_sync_type (r_cons (demo_full 1 0 [1, 2, 3])) \<noteq> RTE_RING_SYNC_MT_RTS"
  "r_capacity (demo_full 1 0 [1, 2, 3]) = 3"
  by code_simp+

lemma demo_slot_set: "{x :: u32. x \<noteq> 0 \<and> unat x < 4} = {1, 2, 3}"
proof (rule set_eqI)
  fix x :: u32
  have "unat x < 4 \<longleftrightarrow> x \<in> {0, 1, 2, 3}"
    using small_word[of x 4] by (auto simp: upt_rec)
  then show "x \<in> {x. x \<noteq> 0 \<and> unat x < 4} \<longleftrightarrow> x \<in> {1, 2, 3}" by auto
qed

lemma demo_entries: "entries (demo_hash klen esize f) = replicate 16 (0, 0)"
proof -
  have "entry_at (demo_hash klen esize f) p = (0, 0)" if "p < 16" for p
  proof -
    have "p div 8 = 0 \<or> p div 8 = 1" using that by linarith
    then have "[empty_bucket, empty_bucket] ! (p div 8) = empty_bucket" by auto
    then show ?thesis by (simp add: entry_at_def demo_hash_def empty_bucket_def EMPTY_SLOT_def)
  qed
  then show ?thesis
    by (intro nth_equalityI) (auto simp: entries_def demo_hash_def)
qed

lemma demo_hash_inv: "hash_inv (demo_hash 8 16 f)" "free_list (demo_hash 8 16 f) = [1, 2, 3]"
    "hash_lookup (demo_hash 8 16 f) key = None" "stored_key (demo_hash 8 16 f) 0 = replicate 8 0"
proof -
  let ?h = "demo_hash 8 16 f"
  have e: "entries ?h = replicate 16 (0, 0)" by (rule demo_entries)
  have u: "used ?h = {#}" by (simp add: used_def e)
  note full = demo_full_inv[of 1 "[1, 2, 3]", simplified]
  have sl: "slots ?h = 4" by (simp add: slots_def demo_hash_def)
  show fl: "free_list ?h = [1, 2, 3]" using full by (simp add: free_list_def demo_hash_def)
  have "mask_ok ?h" unfolding mask_ok_def by (rule exI[of _ 1]) (simp add: demo_hash_def)
  then have "table_ok ?h" by (simp add: table_ok_def buckets_ok_def demo_hash_def empty_bucket_def)
  moreover have "placed ?h" by (simp add: placed_def e entry_ok_def)
  moreover have "store_ok ?h" using sl by (simp add: store_ok_def) (simp add: demo_hash_def)
  moreover have "slot_ring (h_free_slots ?h)" using full demo_full_types by (simp add: slot_ring_def demo_hash_def)
  moreover have "mset (free_list ?h) = mset_set (slot_set ?h)"
    unfolding fl slot_set_def sl demo_slot_set by simp
  ultimately show "hash_inv ?h"
    using demo_full_types(3) sl
    by (simp add: hash_inv_def inv_held_def u keys_ok_def lock_free_def) (simp add: demo_hash_def)
  show "hash_lookup ?h key = None" by (simp add: hash_lookup_def e)
  show "stored_key ?h 0 = replicate 8 0" by (simp add: stored_key_def key_offset_of_def demo_hash_def)
qed


text \<open>The alternative bucket of a bucket of the table is a bucket of the table, and its alternative bucket
  for the same signature is the first one: an entry can always move back, and both buckets of a key are
  found from either of them.\<close>

theorem alt_bucket_involution:
  assumes "table_ok h" and "unat cur < length (h_buckets h)"
  shows "unat (get_alt_bucket_index h cur sig) < length (h_buckets h) \<and>
    get_alt_bucket_index h (get_alt_bucket_index h cur sig) sig = cur \<and>
    unat (get_prim_bucket_index h hash) < length (h_buckets h)"
  using home_buckets(2,3)[OF assms(1)] alt_alt[OF _ assms(2), of sig] assms(1) by (simp add: table_ok_def)

theorem alt_bucket_involution_witness:
  "get_alt_bucket_index (demo_hash 8 16 key_hash) (get_alt_bucket_index (demo_hash 8 16 key_hash) 1 0xabcd) 0xabcd = 1"
proof -
  have t: "table_ok (demo_hash 8 16 key_hash)" using demo_hash_inv(1)[of key_hash] by (simp add: hash_inv_def inv_held_def)
  have "unat (1 :: u32) < length (h_buckets (demo_hash 8 16 key_hash))" by (simp add: demo_hash_def)
  with alt_bucket_involution[OF t, of 1 "0xabcd" 0] show ?thesis by blast
qed

end
