(* ===== verification/Cuckoo_Ext.thy ===== *)
theory Cuckoo_Ext
  imports Cuckoo_Correct
begin

text \<open>
  Extendable buckets: the chains of buckets behind the buckets of the table.  Every chain is a list without
  repetition, no two chains share a bucket, and the buckets in the ring of free ones are blank and in no
  chain.  The part of \<open>__rte_hash_add_key_with_hash\<close> that works on chains keeps this and adds exactly one
  entry to the chain of the secondary bucket, or reports that no bucket is left; its walks along
  chains never run out of fuel.
\<close>

section \<open>Chains\<close>

definition bucket_ok :: "rte_hash_bucket \<Rightarrow> bool" where
  "bucket_ok bk \<longleftrightarrow> length (sig_current bk) = 8 \<and> length (key_idx bk) = 8"

fun chain :: "rte_hash \<Rightarrow> bref option \<Rightarrow> bref list \<Rightarrow> bool" where
  "chain h cur [] \<longleftrightarrow> cur = None"
| "chain h cur (b # bs) \<longleftrightarrow> cur = Some b \<and>
     (case get_bkt h b of Inl _ \<Rightarrow> False | Inr bk \<Rightarrow> bucket_ok bk \<and> chain h (bkt_next bk) bs)"

text \<open>The entries in use of a bucket and of a chain.\<close>

definition used_in :: "rte_hash_bucket \<Rightarrow> (u16 \<times> u32) multiset" where
  "used_in bk = mset (filter (\<lambda>e. snd e \<noteq> EMPTY_SLOT) (zip (sig_current bk) (key_idx bk)))"

definition used_at :: "rte_hash \<Rightarrow> bref \<Rightarrow> (u16 \<times> u32) multiset" where
  "used_at h b = (case get_bkt h b of Inl _ \<Rightarrow> {#} | Inr bk \<Rightarrow> used_in bk)"

definition chain_used :: "rte_hash \<Rightarrow> bref list \<Rightarrow> (u16 \<times> u32) multiset" where
  "chain_used h bs = (\<Sum>b \<leftarrow> bs. used_at h b)"

definition first_empty :: "rte_hash_bucket \<Rightarrow> nat option" where
  "first_empty bk = find (\<lambda>i. key_idx bk ! i = EMPTY_SLOT) [0..<RTE_HASH_BUCKET_ENTRIES]"

definition with_entry :: "rte_hash_bucket \<Rightarrow> nat \<Rightarrow> u16 \<Rightarrow> u32 \<Rightarrow> rte_hash_bucket" where
  "with_entry bk i sig idx = bk\<lparr>sig_current := (sig_current bk)[i := sig], key_idx := (key_idx bk)[i := idx]\<rparr>"

lemma get_put:
  assumes "get_bkt h b = Inr bk0"
  shows "get_bkt (put_bkt h b bk) c = (if c = b then Inr bk else get_bkt h c)"
  using assms by (cases b; cases c) (auto split: if_splits)

declare get_bkt.simps [simp del] put_bkt.simps [simp del]

lemma set_entry_put: "get_bkt h b = Inr bk \<Longrightarrow> set_entry h b i sig idx = Inr (put_bkt h b (with_entry bk i sig idx))"
  by (simp add: set_entry_def with_entry_def)

lemma with_entry_fields [simp]:
  "bkt_next (with_entry bk i sig idx) = bkt_next bk" "bucket_ok (with_entry bk i sig idx) = bucket_ok bk"
  by (simp_all add: with_entry_def bucket_ok_def)

lemma mset_filter_swap:
  "\<not> P a \<Longrightarrow> P b \<Longrightarrow> mset (filter P (xs @ b # ys)) = add_mset b (mset (filter P (xs @ a # ys)))"
  by simp

lemma used_with_entry:
  assumes "bucket_ok bk" and "i < 8" and "key_idx bk ! i = EMPTY_SLOT" and "idx \<noteq> EMPTY_SLOT"
  shows "used_in (with_entry bk i sig idx) = add_mset (sig, idx) (used_in bk)"
proof -
  let ?z = "zip (sig_current bk) (key_idx bk)"
  have i: "i < length ?z" "snd (?z ! i) = EMPTY_SLOT" using assms by (simp_all add: bucket_ok_def)
  have "?z = take i ?z @ ?z ! i # drop (Suc i) ?z" using i(1) by (rule id_take_nth_drop)
  moreover have "zip ((sig_current bk)[i := sig]) ((key_idx bk)[i := idx]) = take i ?z @ (sig, idx) # drop (Suc i) ?z"
    using i(1) by (simp add: upd_conv_take_nth_drop take_zip drop_zip)
  ultimately show ?thesis
    using i(2) assms(4) mset_filter_swap[of "\<lambda>e. snd e \<noteq> EMPTY_SLOT" "?z ! i" "(sig, idx)" "take i ?z" "drop (Suc i) ?z"]
    by (simp add: used_in_def with_entry_def)
qed

lemma chain_other:
  assumes "get_bkt h b = Inr bk0" and "b \<notin> set bs"
  shows "chain (put_bkt h b bk) cur bs = chain h cur bs" and "chain_used (put_bkt h b bk) bs = chain_used h bs"
proof -
  show "chain (put_bkt h b bk) cur bs = chain h cur bs"
    using assms by (induction bs arbitrary: cur) (auto simp: get_put split: sum.splits)
  show "chain_used (put_bkt h b bk) bs = chain_used h bs"
    using assms by (induction bs) (auto simp: chain_used_def used_at_def get_put)
qed

lemma chain_same_next:
  assumes "get_bkt h b = Inr bk0" and "bkt_next bk = bkt_next bk0" and "bucket_ok bk" and "chain h cur bs"
  shows "chain (put_bkt h b bk) cur bs"
  using assms by (induction bs arbitrary: cur) (auto simp: get_put split: sum.splits)

lemma chain_bucket:
  assumes "chain h cur bs" and "b \<in> set bs"
  shows "\<exists>bk. get_bkt h b = Inr bk \<and> bucket_ok bk"
  using assms by (induction bs arbitrary: cur) (auto split: sum.splits)

lemma chain_used_split: "chain_used h (as @ b # bs) = chain_used h as + used_at h b + chain_used h bs"
  by (simp add: chain_used_def)

section \<open>The walks along a chain\<close>

lemma find_first_empty:
  "first_empty bk = Some i \<Longrightarrow> i < 8 \<and> key_idx bk ! i = EMPTY_SLOT"
  "first_empty bk = None \<Longrightarrow> i < 8 \<Longrightarrow> key_idx bk ! i \<noteq> EMPTY_SLOT"
  by (auto simp: first_empty_def RTE_HASH_BUCKET_ENTRIES_def find_Some_iff find_None_iff)

lemma chain_insert_walk:
  assumes "chain h cur bs" and "length bs < n"
  shows "(\<exists>b bk i. b \<in> set bs \<and> get_bkt h b = Inr bk \<and> first_empty bk = Some i \<and>
      chain_insert n h cur sig idx = Inr (True, put_bkt h b (with_entry bk i sig idx))) \<or>
    (\<forall>b \<in> set bs. \<exists>bk. get_bkt h b = Inr bk \<and> first_empty bk = None) \<and> chain_insert n h cur sig idx = Inr (False, h)"
  using assms
proof (induction bs arbitrary: cur n)
  case Nil
  then show ?case by (cases n) auto
next
  case (Cons b bs)
  then obtain m bk where n: "n = Suc m" "cur = Some b" and bk: "get_bkt h b = Inr bk" "chain h (bkt_next bk) bs"
    by (cases n) (auto split: sum.splits)
  show ?case
  proof (cases "first_empty bk")
    case None
    then have "chain_insert n h cur sig idx = chain_insert m h (bkt_next bk) sig idx"
      using n bk by (simp add: first_empty_def)
    with Cons.IH[OF bk(2), of m] Cons.prems(2) n(1) bk(1) None show ?thesis by fastforce
  next
    case (Some i)
    then have "chain_insert n h cur sig idx = Inr (True, put_bkt h b (with_entry bk i sig idx))"
      using n bk set_entry_put[OF bk(1)] by (simp add: first_empty_def)
    with bk(1) Some show ?thesis by auto
  qed
qed

lemma last_walk:
  assumes "chain h (Some b) bs" and "length bs \<le> n"
  shows "rte_hash_get_last_bkt n h b = Inr (last bs)"
  using assms
proof (induction bs arbitrary: b n)
  case (Cons c bs)
  then obtain m bk where n: "n = Suc m" "c = b" and bk: "get_bkt h b = Inr bk" "chain h (bkt_next bk) bs"
    by (cases n) (auto split: sum.splits)
  show ?case
  proof (cases bs)
    case Nil
    then show ?thesis using n bk by simp
  next
    case (Cons d ds)
    then have "bkt_next bk = Some d" using bk(2) by simp
    then show ?thesis using Cons.IH[of d m] Cons.prems n bk Cons by simp
  qed
qed simp

lemma chain_extend:
  assumes "chain h cur bs" and "bs \<noteq> []" and "distinct bs" and "get_bkt h (last bs) = Inr bk"
    and "Ext e \<notin> set bs" and "get_bkt h (Ext e) = Inr ebk" and "bucket_ok ebk" and "bkt_next ebk = None"
  shows "chain (put_bkt h (last bs) (bk\<lparr>bkt_next := Some (Ext e)\<rparr>)) cur (bs @ [Ext e])"
  using assms
proof (induction bs arbitrary: cur)
  case (Cons b bs)
  note gp = get_put[OF Cons.prems(4)]
  obtain bb where bb: "get_bkt h b = Inr bb" "bucket_ok bb" "chain h (bkt_next bb) bs" "cur = Some b"
    using Cons.prems(1) by (auto split: sum.splits)
  show ?case
  proof (cases "bs = []")
    case True
    then have "get_bkt h b = Inr bk" "Ext e \<noteq> b" using Cons.prems by auto
    with True bb Cons.prems(6-8) gp show ?thesis by (simp add: bucket_ok_def)
  next
    case False
    then have l: "last (b # bs) = last bs" "b \<noteq> last bs" using Cons.prems(3) by auto
    have "chain (put_bkt h (last bs) (bk\<lparr>bkt_next := Some (Ext e)\<rparr>)) (bkt_next bb) (bs @ [Ext e])"
      using Cons.prems Cons.IH[OF bb(3) False] l by simp
    then show ?thesis using bb(1,2,4) gp l by simp
  qed
qed simp

section \<open>All chains of a table\<close>

definition blank :: "rte_hash_bucket \<Rightarrow> bool" where
  "blank bk \<longleftrightarrow> bucket_ok bk \<and> bkt_next bk = None \<and> (\<forall>x \<in> set (key_idx bk). x = EMPTY_SLOT)"

definition free_ext :: "rte_hash \<Rightarrow> nat list" where
  "free_ext h = map (\<lambda>x. unat (x - 1)) (ring_cells 1 (h_free_ext_bkts h))"

definition chain_of :: "(nat \<Rightarrow> nat list) \<Rightarrow> nat \<Rightarrow> bref list" where
  "chain_of es i = Main i # map Ext (es i)"

text \<open>\<open>es i\<close> are the extendable buckets behind bucket \<open>i\<close>.\<close>

definition ext_ok :: "(nat \<Rightarrow> nat list) \<Rightarrow> rte_hash \<Rightarrow> bool" where
  "ext_ok es h \<longleftrightarrow> slot_ring (h_free_ext_bkts h) \<and> 0 \<notin> set (ring_cells 1 (h_free_ext_bkts h)) \<and>
     (\<forall>i < length (h_buckets h). chain h (Some (Main i)) (chain_of es i)) \<and>
     (\<forall>i < length (h_buckets h). distinct (es i @ free_ext h)) \<and>
     (\<forall>i < length (h_buckets h). \<forall>j < length (h_buckets h). i \<noteq> j \<longrightarrow> set (es i) \<inter> set (es j) = {}) \<and>
     (\<forall>e \<in> set (free_ext h). \<exists>bk. get_bkt h (Ext e) = Inr bk \<and> blank bk)"

lemma chain_short:
  assumes "ext_ok es h" and "i < length (h_buckets h)"
  shows "length (chain_of es i) < chain_fuel h" and "distinct (chain_of es i)"
proof -
  have c: "chain h (Some (Main i)) (chain_of es i)" and d: "distinct (es i)" using assms by (auto simp: ext_ok_def)
  have "set (es i) \<subseteq> {..< length (h_buckets_ext h)}"
  proof
    fix e assume "e \<in> set (es i)"
    then have "\<exists>bk. get_bkt h (Ext e) = Inr bk" using chain_bucket[OF c, of "Ext e"] by (auto simp: chain_of_def)
    then show "e \<in> {..< length (h_buckets_ext h)}" by (auto simp: get_bkt.simps split: if_splits)
  qed
  then have "length (es i) \<le> length (h_buckets_ext h)"
    using d card_mono[of "{..< length (h_buckets_ext h)}" "set (es i)"] by (simp add: distinct_card)
  then show "length (chain_of es i) < chain_fuel h" by (simp add: chain_of_def chain_fuel_def)
  show "distinct (chain_of es i)" using d by (auto simp: chain_of_def distinct_map inj_on_def)
qed

lemma chains_disjoint:
  assumes "ext_ok es h" and "i < length (h_buckets h)" and "j < length (h_buckets h)" and "i \<noteq> j"
  shows "set (chain_of es i) \<inter> set (chain_of es j) = {}"
proof -
  have "set (es i) \<inter> set (es j) = {}" using assms unfolding ext_ok_def by blast
  with assms(4) show ?thesis by (auto simp: chain_of_def)
qed

lemma chain_not_free:
  assumes "ext_ok es h" and "i < length (h_buckets h)" and "e \<in> set (free_ext h)"
  shows "Ext e \<notin> set (chain_of es i)"
proof -
  have "distinct (es i @ free_ext h)" using assms unfolding ext_ok_def by blast
  with assms(3) show ?thesis by (auto simp: chain_of_def)
qed

lemma put_sizes [simp]: "length (h_buckets (put_bkt h b bk)) = length (h_buckets h)"
  "length (h_buckets_ext (put_bkt h b bk)) = length (h_buckets_ext h)" "h_free_ext_bkts (put_bkt h b bk) = h_free_ext_bkts h"
  by (cases b; simp add: put_bkt.simps)+

lemma free_ext_put [simp]: "free_ext (put_bkt h b bk) = free_ext h"
  by (simp add: free_ext_def)

lemma chain_used_with_entry:
  assumes "distinct bs" and "b \<in> set bs" and "get_bkt h b = Inr bk" and "bucket_ok bk"
    and "i < 8" and "key_idx bk ! i = EMPTY_SLOT" and "idx \<noteq> EMPTY_SLOT"
  shows "chain_used (put_bkt h b (with_entry bk i sig idx)) bs = add_mset (sig, idx) (chain_used h bs)"
proof -
  obtain as cs where bs: "bs = as @ b # cs" "b \<notin> set as" "b \<notin> set cs" using assms(1,2) by (auto dest!: split_list)
  have "used_at (put_bkt h b (with_entry bk i sig idx)) b = add_mset (sig, idx) (used_at h b)"
    using used_with_entry[OF assms(4-7)] assms(3) by (simp add: used_at_def get_put[OF assms(3)])
  then show ?thesis
    unfolding bs(1) chain_used_split using chain_other(2)[OF assms(3)] bs(2,3) by simp
qed

text \<open>An entry put into an empty place of the chain of bucket \<open>i\<close>.\<close>

lemma ext_ok_entry:
  assumes ok: "ext_ok es h" and i: "i < length (h_buckets h)" and b: "b \<in> set (chain_of es i)"
    and bk: "get_bkt h b = Inr bk" "first_empty bk = Some k" and idx: "idx \<noteq> EMPTY_SLOT"
  shows "ext_ok es (put_bkt h b (with_entry bk k sig idx))"
    and "chain_used (put_bkt h b (with_entry bk k sig idx)) (chain_of es i) = add_mset (sig, idx) (chain_used h (chain_of es i))"
    and "\<And>j. j < length (h_buckets h) \<Longrightarrow> j \<noteq> i \<Longrightarrow>
      chain_used (put_bkt h b (with_entry bk k sig idx)) (chain_of es j) = chain_used h (chain_of es j)"
proof -
  let ?h = "put_bkt h b (with_entry bk k sig idx)"
  have c: "chain h (Some (Main i)) (chain_of es i)" using ok i by (simp add: ext_ok_def)
  have bko: "bucket_ok bk" using chain_bucket[OF c b] bk(1) by simp
  have free: "b \<noteq> Ext e" if "e \<in> set (free_ext h)" for e
    using chain_not_free[OF ok i that] b by blast
  have "chain ?h (Some (Main j)) (chain_of es j)" if "j < length (h_buckets h)" for j
    using chain_same_next[OF bk(1) _ _ , of "with_entry bk k sig idx"] ok that bko by (simp add: ext_ok_def)
  moreover have "\<exists>bk'. get_bkt ?h (Ext e) = Inr bk' \<and> blank bk'" if "e \<in> set (free_ext h)" for e
    using ok that free[OF that] by (auto simp: ext_ok_def get_put[OF bk(1)])
  ultimately show "ext_ok es ?h" using ok by (simp add: ext_ok_def)
  show "chain_used ?h (chain_of es i) = add_mset (sig, idx) (chain_used h (chain_of es i))"
    using chain_short(2)[OF ok i] b bk bko idx find_first_empty(1)[OF bk(2)] by (intro chain_used_with_entry) auto
  show "chain_used ?h (chain_of es j) = chain_used h (chain_of es j)" if "j < length (h_buckets h)" "j \<noteq> i" for j
    using b chains_disjoint[OF ok i that(1)] that(2) by (intro chain_other(2)[OF bk(1)]) blast
qed

text \<open>Only the buckets and the ring of free ones matter.\<close>

lemma ext_ok_cong:
  assumes "h_buckets h' = h_buckets h" and "h_buckets_ext h' = h_buckets_ext h"
  shows "get_bkt h' = get_bkt h" and "chain h' = chain h" and "chain_used h' = chain_used h"
    and "h_free_ext_bkts h' = h_free_ext_bkts h \<Longrightarrow> ext_ok es h' = ext_ok es h"
proof -
  show g: "get_bkt h' = get_bkt h"
  proof
    fix b show "get_bkt h' b = get_bkt h b" using assms by (cases b) (simp_all add: get_bkt.simps)
  qed
  show c: "chain h' = chain h"
  proof (intro ext)
    fix cur bs show "chain h' cur bs = chain h cur bs"
      by (induction bs arbitrary: cur) (auto simp: g split: sum.splits)
  qed
  show "chain_used h' = chain_used h" by (simp add: chain_used_def used_at_def g fun_eq_iff)
  show "ext_ok es h' = ext_ok es h" if "h_free_ext_bkts h' = h_free_ext_bkts h"
    using assms that by (simp add: ext_ok_def free_ext_def g c)
qed

lemma used_next [simp]: "used_in (bk\<lparr>bkt_next := b\<rparr>) = used_in bk"
  by (simp add: used_in_def)

lemma used_blank: "blank bk \<Longrightarrow> used_in bk = {#}"
  by (auto simp: used_in_def blank_def filter_empty_conv dest: set_zip_rightD)

lemma chain_used_next:
  assumes "get_bkt h b = Inr bk"
  shows "chain_used (put_bkt h b (bk\<lparr>bkt_next := l\<rparr>)) bs = chain_used h bs"
  using assms by (induction bs) (auto simp: chain_used_def used_at_def get_put)

text \<open>A free bucket with the entry in its first place, linked behind the chain of bucket \<open>i\<close>.\<close>

lemma ext_ok_link:
  assumes ok: "ext_ok es h" and i: "i < length (h_buckets h)" and free: "ring_cells 1 (h_free_ext_bkts h) = x # xs"
    and r: "slot_ring r" "ring_cells 1 r = xs" and idx: "idx \<noteq> EMPTY_SLOT" and e: "e = unat (x - 1)"
  shows "\<exists>h'. bindc (set_entry (h\<lparr>h_free_ext_bkts := r\<rparr>) (Ext e) 0 sig idx) (\<lambda>h. link_ext h (Main i) e) = Inr h' \<and>
    ext_ok (es(i := es i @ [e])) h' \<and> length (h_buckets h') = length (h_buckets h) \<and>
    chain_used h' (chain_of es i @ [Ext e]) = add_mset (sig, idx) (chain_used h (chain_of es i)) \<and>
    (\<forall>j < length (h_buckets h). j \<noteq> i \<longrightarrow> chain_used h' (chain_of es j) = chain_used h (chain_of es j))"
proof -
  let ?h1 = "h\<lparr>h_free_ext_bkts := r\<rparr>" and ?bs = "chain_of es i"
  have g1: "get_bkt ?h1 = get_bkt h" and c1: "chain ?h1 = chain h" and u1: "chain_used ?h1 = chain_used h"
    by (rule ext_ok_cong; simp)+
  have fe: "free_ext h = e # map (\<lambda>x. unat (x - 1)) xs" "e \<in> set (free_ext h)" using free e by (simp_all add: free_ext_def)
  obtain ebk where ebk: "get_bkt h (Ext e) = Inr ebk" "blank ebk" using ok fe(2) unfolding ext_ok_def by blast
  then have eok: "bucket_ok ebk" "bkt_next ebk = None" "key_idx ebk ! 0 = EMPTY_SLOT" by (auto simp: blank_def bucket_ok_def)
  have new: "Ext e \<notin> set (chain_of es j)" if "j < length (h_buckets h)" for j using chain_not_free[OF ok that fe(2)] .
  define h2 where "h2 = put_bkt ?h1 (Ext e) (with_entry ebk 0 sig idx)"
  have g2: "get_bkt h2 b = (if b = Ext e then Inr (with_entry ebk 0 sig idx) else get_bkt h b)" for b
    unfolding h2_def using get_put[of ?h1 "Ext e" ebk] ebk(1) g1 by simp
  have c2: "chain h2 (Some (Main j)) (chain_of es j)" and u2: "chain_used h2 (chain_of es j) = chain_used h (chain_of es j)"
    if "j < length (h_buckets h)" for j
    unfolding h2_def using chain_other[of ?h1 "Ext e" ebk "chain_of es j"] ebk(1) g1 c1 u1 new[OF that] ok that by (auto simp: ext_ok_def)
  have ne: "?bs \<noteq> []" by (simp add: chain_of_def)
  note last = last_in_set[OF ne] ne
  obtain lbk where lbk: "get_bkt h2 (last ?bs) = Inr lbk" "bucket_ok lbk" using chain_bucket[OF c2[OF i] last(1)] by blast
  define h3 where "h3 = put_bkt h2 (last ?bs) (lbk\<lparr>bkt_next := Some (Ext e)\<rparr>)"
  have fuel: "length ?bs \<le> chain_fuel h2" using chain_short(1)[OF ok i] by (simp add: chain_fuel_def h2_def)
  have "link_ext h2 (Main i) e = Inr h3"
    using last_walk[OF c2[OF i] fuel] lbk(1) by (simp add: link_ext_def h3_def)
  moreover have "set_entry ?h1 (Ext e) 0 sig idx = Inr h2" unfolding h2_def using ebk(1) g1 by (intro set_entry_put) simp
  moreover have "ext_ok (es(i := es i @ [e])) h3"
  proof -
    have sizes: "length (h_buckets h3) = length (h_buckets h)" "h_free_ext_bkts h3 = r" "free_ext h3 = map (\<lambda>x. unat (x - 1)) xs"
      using r(2) by (simp_all add: h3_def h2_def free_ext_def)
    have own: "chain h3 (Some (Main i)) (chain_of es i @ [Ext e])"
      unfolding h3_def using chain_extend[OF c2[OF i] last(2) chain_short(2)[OF ok i] lbk(1) new[OF i]] g2 eok by simp
    have others: "chain h3 (Some (Main j)) (chain_of es j)" if "j < length (h_buckets h)" "j \<noteq> i" for j
      unfolding h3_def using chain_other(1)[OF lbk(1)] c2[OF that(1)] chains_disjoint[OF ok i that(1)] that(2) last(1) by blast
    have d: "distinct (es j @ e # map (\<lambda>x. unat (x - 1)) xs)" if "j < length (h_buckets h)" for j
      using ok that fe(1) unfolding ext_ok_def by simp
    have "\<exists>bk. get_bkt h3 (Ext f) = Inr bk \<and> blank bk" if f: "f \<in> set (map (\<lambda>x. unat (x - 1)) xs)" for f
    proof -
      have "f \<in> set (free_ext h)" "f \<noteq> e" using f fe(1) d[OF i] by auto
      moreover from this(1) have "Ext f \<noteq> last ?bs" using chain_not_free[OF ok i] last(1) by metis
      ultimately show ?thesis
        using ok unfolding ext_ok_def h3_def get_put[OF lbk(1)] g2 by auto
    qed
    moreover have "0 \<notin> set xs" using ok free by (simp add: ext_ok_def)
    moreover have "set ((es(i := es i @ [e])) j) \<inter> set ((es(i := es i @ [e])) k) = {}"
      if "j < length (h_buckets h)" "k < length (h_buckets h)" "j \<noteq> k" for j k
      using ok that d[OF that(1)] d[OF that(2)] unfolding ext_ok_def by auto
    moreover have "chain h3 (Some (Main j)) (chain_of (es(i := es i @ [e])) j)" if "j < length (h_buckets h)" for j
      using own others that by (cases "j = i") (simp_all add: chain_of_def)
    moreover have "distinct ((es(i := es i @ [e])) j @ map (\<lambda>x. unat (x - 1)) xs)" if "j < length (h_buckets h)" for j
      using d[OF that] by auto
    ultimately show ?thesis using r sizes unfolding ext_ok_def by simp
  qed
  moreover have "chain_used h3 (?bs @ [Ext e]) = add_mset (sig, idx) (chain_used h ?bs)"
  proof -
    have "used_at h3 (Ext e) = used_at h2 (Ext e)" unfolding h3_def used_at_def get_put[OF lbk(1)] using lbk(1) by simp
    also have "\<dots> = {#(sig, idx)#}"
      using used_with_entry[OF eok(1) _ eok(3) idx] used_blank[OF ebk(2)] by (simp add: used_at_def g2)
    finally have "used_at h3 (Ext e) = {#(sig, idx)#}" .
    moreover have "chain_used h3 ?bs = chain_used h ?bs" unfolding h3_def using chain_used_next[OF lbk(1)] u2[OF i] by simp
    ultimately show ?thesis using chain_used_split[of h3 ?bs "Ext e" "[]"] by (simp add: chain_used_def)
  qed
  moreover have "chain_used h3 (chain_of es j) = chain_used h (chain_of es j)" if "j < length (h_buckets h)" for j
    unfolding h3_def using chain_used_next[OF lbk(1)] u2[OF that] by simp
  moreover have "length (h_buckets h3) = length (h_buckets h)" by (simp add: h3_def h2_def)
  ultimately show ?thesis by simp
qed

section \<open>Adding an entry\<close>

lemma unlock_ext_same [simp]:
  "h_buckets (hash_rw_writer_unlock h) = h_buckets h" "h_buckets_ext (hash_rw_writer_unlock h) = h_buckets_ext h"
  "h_free_ext_bkts (hash_rw_writer_unlock h) = h_free_ext_bkts h"
  by (simp_all add: hash_rw_writer_unlock_def)

lemma dequeue_take:
  "bindc (rte_ring_sc_dequeue_elem r [0] 4) (\<lambda>(ret, obj, r). F ret (hd obj) r) = bindc (take_slot r) (\<lambda>(ret, y, r). F ret y r)"
  by (cases "rte_ring_sc_dequeue_elem r [0] 4") (auto simp: take_slot_def split: prod.splits)

text \<open>What the call does to the chains: it adds the entry to chain \<open>i\<close>, or nothing changes because no bucket is free.\<close>

definition ext_added :: "(nat \<Rightarrow> nat list) \<Rightarrow> rte_hash \<Rightarrow> nat \<Rightarrow> u16 \<Rightarrow> u32 \<Rightarrow> int \<Rightarrow> (nat \<Rightarrow> nat list) \<Rightarrow> rte_hash \<Rightarrow> bool" where
  "ext_added es h i sig slot_id ret es' h' \<longleftrightarrow> ext_ok es' h' \<and> length (h_buckets h') = length (h_buckets h) \<and>
     (\<forall>j < length (h_buckets h). j \<noteq> i \<longrightarrow> chain_used h' (chain_of es' j) = chain_used h (chain_of es j)) \<and>
     (ret = sint (slot_id - 1) \<and> chain_used h' (chain_of es' i) = add_mset (sig, slot_id) (chain_used h (chain_of es i)) \<or>
      ret = - ENOSPC \<and> free_ext h = [] \<and> es' = es \<and> chain_used h' (chain_of es i) = chain_used h (chain_of es i))"

lemma ext_added_cong:
  assumes "h_buckets h' = h_buckets h''" and "h_buckets_ext h' = h_buckets_ext h''" and "h_free_ext_bkts h' = h_free_ext_bkts h''"
  shows "ext_added es h i sig slot_id ret es' h' = ext_added es h i sig slot_id ret es' h''"
  using ext_ok_cong[OF assms(1,2)] assms by (simp add: ext_added_def)

lemma ext_new_bucket:
  assumes ok: "ext_ok es h" and i: "i < length (h_buckets h)" and slot: "slot_id \<noteq> EMPTY_SLOT"
  shows "\<exists>ret h' es'. bindc (take_slot (h_free_ext_bkts h)) (\<lambda>(ret, y, r).
      let h = h\<lparr>h_free_ext_bkts := r\<rparr>; ext_bkt_id = (if ret \<noteq> 0 then 0 else y)
      in if ext_bkt_id = 0 then Inr (- ENOSPC, hash_rw_writer_unlock h)
         else bindc (set_entry h (Ext (unat (ext_bkt_id - 1))) 0 sig slot_id) (\<lambda>h.
              bindc (link_ext h (Main i) (unat (ext_bkt_id - 1))) (\<lambda>h.
              Inr (sint (slot_id - 1), hash_rw_writer_unlock h)))) = Inr (ret, h') \<and>
    ext_added es h i sig slot_id ret es' h'"
proof -
  have ring: "slot_ring (h_free_ext_bkts h)" "0 \<notin> set (ring_cells 1 (h_free_ext_bkts h))" using ok by (simp_all add: ext_ok_def)
  obtain ret y r where t: "take_slot (h_free_ext_bkts h) = Inr (ret, y, r)" "slot_ring r"
      "case ring_cells 1 (h_free_ext_bkts h) of [] \<Rightarrow> ret = - ENOENT \<and> ring_cells 1 r = []
       | x # xs \<Rightarrow> ret = 0 \<and> y = x \<and> ring_cells 1 r = xs"
    using take_slot_spec[OF ring(1)] by blast
  show ?thesis
  proof (cases "ring_cells 1 (h_free_ext_bkts h)")
    case Nil
    let ?h = "hash_rw_writer_unlock (h\<lparr>h_free_ext_bkts := r\<rparr>)"
    have f: "free_ext h = []" "free_ext ?h = []" using Nil t(3) by (simp_all add: free_ext_def)
    have g: "get_bkt ?h = get_bkt h" "chain ?h = chain h" "chain_used ?h = chain_used h" by (rule ext_ok_cong; simp)+
    have "ext_ok es ?h" using ok t(2,3) Nil f by (simp add: ext_ok_def g)
    then have "ext_added es h i sig slot_id (- ENOSPC) es ?h" using f g by (simp add: ext_added_def)
    then show ?thesis using t Nil by (intro exI[of _ "- ENOSPC"] exI[of _ ?h] exI[of _ es]) (simp add: ENOENT_def)
  next
    case (Cons x xs)
    then have y: "ret = 0" "y = x" "ring_cells 1 r = xs" "x \<noteq> 0" using t(3) ring(2) by auto
    let ?e = "unat (x - 1)"
    from ext_ok_link[OF ok i Cons t(2) y(3) slot refl, of sig] obtain h' where h':
        "bindc (set_entry (h\<lparr>h_free_ext_bkts := r\<rparr>) (Ext ?e) 0 sig slot_id) (\<lambda>h. link_ext h (Main i) ?e) = Inr h'"
        "ext_ok (es(i := es i @ [?e])) h'" "length (h_buckets h') = length (h_buckets h)"
        "chain_used h' (chain_of es i @ [Ext ?e]) = add_mset (sig, slot_id) (chain_used h (chain_of es i))"
        "\<forall>j < length (h_buckets h). j \<noteq> i \<longrightarrow> chain_used h' (chain_of es j) = chain_used h (chain_of es j)"
      by blast
    have "ext_added es h i sig slot_id (sint (slot_id - 1)) (es(i := es i @ [?e])) h'"
      using h'(2-5) by (simp add: ext_added_def chain_of_def)
    then have "ext_added es h i sig slot_id (sint (slot_id - 1)) (es(i := es i @ [?e])) (hash_rw_writer_unlock h')"
      by (subst ext_added_cong[of _ h']) simp_all
    moreover have "bindc (set_entry (h\<lparr>h_free_ext_bkts := r\<rparr>) (Ext ?e) 0 sig slot_id) (\<lambda>h.
        bindc (link_ext h (Main i) ?e) (\<lambda>h. Inr (sint (slot_id - 1), hash_rw_writer_unlock h))) =
        Inr (sint (slot_id - 1), hash_rw_writer_unlock h')"
      using h'(1) by (cases "set_entry (h\<lparr>h_free_ext_bkts := r\<rparr>) (Ext ?e) 0 sig slot_id") simp_all
    ultimately show ?thesis using t(1) y by (auto simp: Let_def)
  qed
qed

text \<open>C38: When the key is in neither chain, the extendable part of adding a key always ends with a result and keeps the chains disjoint
  and free of cycles; it adds exactly the new entry to the chain of the secondary bucket, taking a free bucket when the chain is full,
  or, when none is free, reports \<open>ENOSPC\<close> and leaves every chain as it was.\<close>

theorem add_key_ext_extends:
  assumes "lock_free h" and "ext_ok es h" and "i < length (h_buckets h)" and "slot_id \<noteq> EMPTY_SLOT"
    and "search_both (locked h) data key prim_bkt (Main i) sig = Inr (- 1, locked h)"
  shows "\<exists>ret h' es'. add_key_ext h prim_bkt (Main i) key data sig slot_id = Inr (ret, h') \<and>
    ext_ok es' h' \<and> length (h_buckets h') = length (h_buckets h) \<and>
    (\<forall>j < length (h_buckets h). j \<noteq> i \<longrightarrow> chain_used h' (chain_of es' j) = chain_used h (chain_of es j)) \<and>
    (ret = sint (slot_id - 1) \<and> chain_used h' (chain_of es' i) = add_mset (sig, slot_id) (chain_used h (chain_of es i)) \<or>
     ret = - ENOSPC \<and> free_ext h = [] \<and> es' = es \<and> chain_used h' (chain_of es i) = chain_used h (chain_of es i))"
proof -
  let ?h = "locked h"
  have same: "h_buckets ?h = h_buckets h" "h_buckets_ext ?h = h_buckets_ext h" "h_free_ext_bkts ?h = h_free_ext_bkts h"
    by (simp_all add: locked_def)
  note cong = ext_ok_cong[OF same(1,2)]
  have ok: "ext_ok es ?h" and i: "i < length (h_buckets ?h)" using assms(2,3) cong(4) same by simp_all
  have c: "chain ?h (Some (Main i)) (chain_of es i)" using ok i by (simp add: ext_ok_def)
  have start: "add_key_ext h prim_bkt (Main i) key data sig slot_id =
      bindc (chain_insert (chain_fuel ?h) ?h (Some (Main i)) sig slot_id) (\<lambda>(done, h).
         if done then Inr (sint (slot_id - 1), hash_rw_writer_unlock h)
         else bindc (take_slot (h_free_ext_bkts h)) (\<lambda>(ret, y, r).
           let h = h\<lparr>h_free_ext_bkts := r\<rparr>; ext_bkt_id = (if ret \<noteq> 0 then 0 else y)
           in if ext_bkt_id = 0 then Inr (- ENOSPC, hash_rw_writer_unlock h)
              else bindc (set_entry h (Ext (unat (ext_bkt_id - 1))) 0 sig slot_id) (\<lambda>h.
                   bindc (link_ext h (Main i) (unat (ext_bkt_id - 1))) (\<lambda>h.
                   Inr (sint (slot_id - 1), hash_rw_writer_unlock h)))))"
    unfolding dequeue_take[symmetric] using assms(5) writer_lock_ok[OF assms(1)] by (simp add: add_key_ext_def)
  have "\<exists>ret h' es'. add_key_ext h prim_bkt (Main i) key data sig slot_id = Inr (ret, h') \<and> ext_added es ?h i sig slot_id ret es' h'"
    using chain_insert_walk[OF c chain_short(1)[OF ok i], of sig slot_id]
  proof (elim disjE exE conjE)
    fix b bk k
    assume b: "b \<in> set (chain_of es i)" "get_bkt ?h b = Inr bk" "first_empty bk = Some k"
      and ins: "chain_insert (chain_fuel ?h) ?h (Some (Main i)) sig slot_id = Inr (True, put_bkt ?h b (with_entry bk k sig slot_id))"
    let ?h' = "put_bkt ?h b (with_entry bk k sig slot_id)"
    have "ext_added es ?h i sig slot_id (sint (slot_id - 1)) es ?h'"
      using ext_ok_entry[OF ok i b assms(4), where sig = sig] by (simp add: ext_added_def)
    then have "ext_added es ?h i sig slot_id (sint (slot_id - 1)) es (hash_rw_writer_unlock ?h')"
      by (subst ext_added_cong[of _ ?h']) simp_all
    then show ?thesis using start ins by (intro exI[of _ "sint (slot_id - 1)"]) auto
  next
    assume ins: "chain_insert (chain_fuel ?h) ?h (Some (Main i)) sig slot_id = Inr (False, ?h)"
    show ?thesis using ext_new_bucket[OF ok i assms(4), where sig = sig] unfolding start ins by simp
  qed
  then show ?thesis by (simp add: ext_added_def cong free_ext_def same)
qed

section \<open>An example\<close>

text \<open>A table whose second bucket is full, with three free extendable buckets.\<close>

definition ext_demo :: rte_hash where
  "ext_demo = (demo_hash 8 16 (\<lambda>_ _ _. 0))\<lparr>h_ext_table_support := True,
     h_buckets := [empty_bucket, empty_bucket\<lparr>key_idx := [1, 2, 3, 4, 5, 6, 7, 8]\<rparr>],
     h_buckets_ext := replicate 3 empty_bucket, h_free_ext_bkts := demo_full 1 0 [1, 2, 3]\<rparr>"

lemma ext_demo_fields:
  "h_buckets ext_demo = [empty_bucket, empty_bucket\<lparr>key_idx := [1, 2, 3, 4, 5, 6, 7, 8]\<rparr>]"
  "h_buckets_ext ext_demo = replicate 3 empty_bucket" "h_free_ext_bkts ext_demo = demo_full 1 0 [1, 2, 3]"
  "h_readwrite_lock ext_demo = 0"
  by (simp_all add: ext_demo_def demo_hash_def)

lemma ext_demo_bkt:
  "get_bkt ext_demo (Main 0) = Inr empty_bucket"
  "get_bkt ext_demo (Main (Suc 0)) = Inr (empty_bucket\<lparr>key_idx := [1, 2, 3, 4, 5, 6, 7, 8]\<rparr>)"
  "e < 3 \<Longrightarrow> get_bkt ext_demo (Ext e) = Inr empty_bucket"
  by (simp_all add: get_bkt.simps ext_demo_fields)

lemma ext_demo_ok: "ext_ok (\<lambda>_. []) ext_demo" "free_ext ext_demo = [0, 1, 2]" "lock_free ext_demo"
proof -
  note full = demo_full_inv[of 1 "[1, 2, 3]", simplified]
  show f: "free_ext ext_demo = [0, 1, 2]" using full by (simp add: free_ext_def ext_demo_fields)
  have "slot_ring (h_free_ext_bkts ext_demo)" using full demo_full_types by (simp add: slot_ring_def ext_demo_fields)
  moreover have "blank empty_bucket" by (simp add: blank_def bucket_ok_def empty_bucket_def)
  moreover have "bucket_ok empty_bucket" "bkt_next empty_bucket = None" "length (sig_current empty_bucket) = 8"
    by (simp_all add: bucket_ok_def empty_bucket_def)
  ultimately show "ext_ok (\<lambda>_. []) ext_demo"
    unfolding ext_ok_def f using full
    by (auto simp: ext_demo_fields ext_demo_bkt chain_of_def less_Suc_eq bucket_ok_def)
  show "lock_free ext_demo" by (simp add: lock_free_def ext_demo_fields)
qed

lemma ext_demo_search: "search_both (locked ext_demo) 7 (replicate 8 1) (Main 0) (Main (Suc 0)) 5 = Inr (- 1, locked ext_demo)"
proof -
  have g: "get_bkt (locked ext_demo) = get_bkt ext_demo" by (rule ext_ok_cong) (simp_all add: locked_def)
  have e: "sig_current empty_bucket = replicate 8 0" "bkt_next empty_bucket = None" by (simp_all add: empty_bucket_def)
  have n: "search_slots h d k bk 5 [0..<RTE_HASH_BUCKET_ENTRIES] = Inr (- 1, h)" if "sig_current bk = replicate 8 0" for h d k bk
    using that by (simp add: RTE_HASH_BUCKET_ENTRIES_def upt_rec)
  obtain n where "chain_fuel (locked ext_demo) = Suc (Suc n)" by (simp add: chain_fuel_def)
  then show ?thesis by (simp add: search_both_def search_and_update_def g ext_demo_bkt n e)
qed

theorem add_key_ext_extends_witness:
  "\<exists>ret h' es'. add_key_ext ext_demo (Main 0) (Main (Suc 0)) (replicate 8 1) 7 5 9 = Inr (ret, h') \<and> ext_ok es' h' \<and>
     ret = 8 \<and> chain_used h' (chain_of es' (Suc 0)) = add_mset (5, 9) (chain_used ext_demo [Main (Suc 0)])"
proof -
  have "Suc 0 < length (h_buckets ext_demo)" "(9 :: u32) \<noteq> EMPTY_SLOT" by (simp_all add: ext_demo_fields EMPTY_SLOT_def)
  from add_key_ext_extends[OF ext_demo_ok(3,1) this ext_demo_search] show ?thesis
    using ext_demo_ok(2) by (auto simp: chain_of_def)
qed

end
