(* ===== verification/Cuckoo_Limits.thy ===== *)
theory Cuckoo_Limits
  imports Cuckoo_Correct
begin

text \<open>
  Where adding a key leaves the conditions of its correctness theorem: keys longer than the eight bytes
  that are compared, and a table without a free slot.
\<close>

section \<open>Comparing keys\<close>

lemma cmp_eq_prefix:
  assumes "8 \<le> length key" and "off + 8 \<le> length store"
  shows "\<exists>c. rte_hash_cmp_eq key store off = Inr c \<and> (c = 0 \<longleftrightarrow> take 8 key = take 8 (drop off store))"
  using assms memcmp_zero[of "take 8 key" "take 8 (drop off store)"]
  by (simp add: rte_hash_cmp_eq_def mem_read_def)

lemma search_slots_skip:
  "(\<forall>j \<in> set is. sig_current bk ! j \<noteq> sig) \<Longrightarrow> search_slots h d key bk sig (is @ js) = search_slots h d key bk sig js"
  by (induction "is") auto

text \<open>A key that agrees in its first eight bytes with a stored key, and in the signature with the
  first entry of that signature in its primary bucket, is taken for the stored key: the call returns the
  position of the stored key and overwrites its data, and the new key is not stored, even when the two
  keys of the length the table was created for differ.\<close>

theorem long_keys_conflated:
  assumes "lock_free h" and "get_prim_bucket_index h sig = p" and "unat p < length (h_buckets h)" and "i < 8"
    and "sig_current (h_buckets h ! unat p) ! i = get_short_sig sig"
    and "\<forall>j < i. sig_current (h_buckets h ! unat p) ! j \<noteq> get_short_sig sig"
    and "key_idx (h_buckets h ! unat p) ! i = x" and "sint (x - 1) \<noteq> - 1"
    and "key_offset_of h x + 8 + unat (h_key_len h) \<le> length (h_key_store h)" and "8 \<le> unat (h_key_len h)"
    and "8 \<le> length key" and "take 8 key = take 8 (stored_key h x)"
  shows "add_key_with_hash h key sig data = Inr (sint (x - 1), with_data h x data)"
proof -
  let ?h = "locked h" and ?bk = "h_buckets h ! unat p" and ?sig = "get_short_sig sig"
  have off: "key_offset_of ?h = key_offset_of h" by (simp add: fun_eq_iff key_offset_of_def locked_def)
  have key8: "take 8 key = take 8 (drop (key_offset_of h x + 8) (h_key_store h))"
    using assms(9,10,12) by (simp add: stored_key_def)
  obtain c where "rte_hash_cmp_eq key (h_key_store h) (key_offset_of h x + 8) = Inr c" "c = 0"
    using cmp_eq_prefix[of key "key_offset_of h x + 8" "h_key_store h"] key8 assms(9-11) by auto
  moreover have "store_pdata ?h x data = Inr (with_data ?h x data)"
    using assms(9,10) by (simp add: store_pdata_def mem_write_def with_data_def off)
  moreover have "[0..<8] = [0..<i] @ i # [Suc i..<8]"
    using assms(4) upt_add_eq_append[of 0 i "8 - i"] by (simp add: upt_conv_Cons)
  then have "search_slots ?h data key ?bk ?sig [0..<8] = search_slots ?h data key ?bk ?sig (i # [Suc i..<8])"
    using search_slots_skip[of "[0..<i]"] assms(6) by simp
  ultimately have "search_and_update ?h data key (Main (unat p)) ?sig = Inr (sint (x - 1), with_data ?h x data)"
    using assms(3,5,7) by (simp add: search_and_update_def RTE_HASH_BUCKET_ENTRIES_def off del: upt_rec_numeral)
  then show ?thesis
    using assms(8) unlock_with_data[OF assms(1)]
    by (simp add: add_key_with_hash_def Let_def writer_lock_ok[OF assms(1)] assms(2) search_both_def)
qed

text \<open>Two keys of sixteen bytes whose \<open>rte_jhash\<close> is \<open>0xa547c8b2\<close> and \<open>0xa5477822\<close>, and a table with the
  first of them in slot 1.\<close>

definition long_key1 :: "u8 list" where
  "long_key1 = [1, 1, 1, 1, 1, 1, 1, 1, 0, 0, 0, 0, 0, 33, 0, 0]"

definition long_key2 :: "u8 list" where
  "long_key2 = [1, 1, 1, 1, 1, 1, 1, 1, 0, 0, 0, 0, 0, 85, 1, 0]"

definition long_key_table :: rte_hash where
  "long_key_table = (demo_hash 16 32 key_hash)\<lparr>h_key_store := replicate 40 0 @ long_key1 @ replicate 72 0,
     h_buckets := [empty_bucket\<lparr>sig_current := (replicate 8 0)[0 := 0xa547], key_idx := (replicate 8 0)[0 := 1]\<rparr>,
       empty_bucket]\<rparr>"

theorem long_keys_conflated_witness:
  "long_key1 \<noteq> long_key2 \<and> stored_key long_key_table 1 = long_key1 \<and>
   add_key_with_hash long_key_table long_key2 0xa5477822 9 =
     Inr (0, with_data long_key_table 1 9)"
proof -
  let ?h = long_key_table
  have h: "lock_free ?h" "get_prim_bucket_index ?h 0xa5477822 = 0"
      "key_offset_of ?h 1 = 32" "h_key_len ?h = 16"
    by (simp_all add: long_key_table_def demo_hash_def lock_free_def get_prim_bucket_index_def
        key_offset_of_def)
  have sk: "stored_key ?h 1 = long_key1"
    by (simp add: stored_key_def h) (simp add: long_key_table_def long_key1_def)
  have "add_key_with_hash ?h long_key2 0xa5477822 9 = Inr (sint ((1 :: u32) - 1), with_data ?h 1 9)"
    by (rule long_keys_conflated[OF h(1,2), of 0])
      (simp_all add: h sk, simp_all add: long_key_table_def long_key1_def long_key2_def get_short_sig_def)
  then show ?thesis using sk by (simp add: long_key1_def long_key2_def)
qed

section \<open>No free slot\<close>

text \<open>When the dummy slot holds the key, a search that stops at an empty entry stores data there and returns \<open>-1\<close>.\<close>

definition dummy_holds :: "rte_hash \<Rightarrow> u8 list \<Rightarrow> u64 \<Rightarrow> bool" where
  "dummy_holds h key d \<longleftrightarrow> table_ok h \<and> store_ok h \<and> slots_ok h \<and> length key = 8 \<and> with_data h 0 d = h \<and>
     (\<forall>x. \<not> key_slot h key x)"

lemma bucket_search_dummy:
  assumes D: "dummy_holds h key d" and i: "i < length (h_buckets h)"
  shows "search_and_update h d key (Main i) sig = Inr (- 1, h)"
proof -
  let ?bk = "h_buckets h ! i"
  have st: "store_ok h" and sl: "slots_ok h" and len: "length key = 8" and same: "with_data h 0 d = h"
    and none: "\<And>x. \<not> key_slot h key x"
    using D by (auto simp: dummy_holds_def)
  have entry: "key_idx ?bk ! j = snd (entries h ! (8 * i + j))" "8 * i + j < length (entries h)" if "j < 8" for j
    using get_bkt_entry[OF i that] pos_less[OF i that] by simp_all
  then have "\<forall>j \<in> set [0..<8]. unat (key_idx ?bk ! j) < slots h" using slots_ok_entry[OF sl st] by auto
  note find = search_slots_find[OF st len this, of d sig]
  have zero: "key_idx ?bk ! j = 0" if "j < 8" "stored_key h (key_idx ?bk ! j) = key" for j
  proof (rule ccontr)
    assume "key_idx ?bk ! j \<noteq> 0"
    then have "key_slot h key (key_idx ?bk ! j)" using entry[OF that(1)] that(2) by (auto simp: key_slot_def in_used)
    then show False using none by blast
  qed
  have "search_slots h d key ?bk sig [0..<8] = Inr (- 1, h)"
  proof (cases "find (\<lambda>i. sig_current ?bk ! i = sig \<and> stored_key h (key_idx ?bk ! i) = key) [0..<8]")
    case (Some j)
    then have "key_idx ?bk ! j = 0" by (intro zero) (auto simp: find_Some_iff)
    then show ?thesis unfolding find Some using same by simp
  qed (simp add: find)
  then show ?thesis using i by (simp add: search_and_update_def RTE_HASH_BUCKET_ENTRIES_def del: upt_rec_numeral)
qed

lemma both_search_dummy:
  assumes D: "dummy_holds h key d" and b: "b1 < length (h_buckets h)" "b2 < length (h_buckets h)"
  shows "search_both h d key (Main b1) (Main b2) sig = Inr (- 1, h)"
proof -
  have "table_ok h" using D by (simp add: dummy_holds_def)
  then show ?thesis
    using bucket_search_dummy[OF D b(1)] bucket_search_dummy[OF D b(2)] bucket_fields(3)[of h b2] b(2)
    by (simp add: search_both_def chain_fuel_def)
qed

lemma with_data_same:
  assumes "stored_data h x = pdata_bytes d"
  shows "with_data h x d = h"
proof -
  have "h_key_store h = take (key_offset_of h x) (h_key_store h) @ take 8 (drop (key_offset_of h x) (h_key_store h)) @
      drop 8 (drop (key_offset_of h x) (h_key_store h))"
    by (simp only: append_take_drop_id)
  then show ?thesis using assms by (simp add: with_data_def blit_def stored_data_def[symmetric] add.commute)
qed

text \<open>The dummy slot is filled with the data and the key as if it were a free one.\<close>

lemma dummy_filled:
  assumes inv: "inv_held [] h" and len: "length key = 8" and none: "\<forall>x. \<not> key_slot h key x"
  shows "bindc (store_pdata h 0 d) (\<lambda>h. store_key h 0 key) = Inr (filled h 0 d key)"
    and "dummy_holds (filled h 0 d key) key d" and "stored_key (filled h 0 d key) 0 = key"
    and "x \<in># used h \<Longrightarrow> stored_key (filled h 0 d key) x = stored_key h x \<and> stored_data (filled h 0 d key) x = stored_data h x"
    and "used (filled h 0 d key) = used h"
proof -
  let ?h1 = "with_data h 0 d" and ?h2 = "filled h 0 d key"
  have st: "store_ok h" and t: "table_ok h" using inv by (auto simp: inv_held_def)
  have z: "unat (0 :: u32) < slots h" using st by (simp add: store_ok_def)
  have lt: "unat x < slots h" if "x \<in># used h" for x using that held_slots(2)[OF inv, of x] by simp
  have x0: "x \<noteq> 0" if "x \<in># used h" for x using that held_slots(1)[OF inv, of x] by simp
  note d = with_data_ok[OF st z, where d = d]
  have z1: "unat (0 :: u32) < slots ?h1" unfolding d(3) by (rule z)
  note k = with_key_ok[OF d(2) z1 len, folded filled_def]
  show "bindc (store_pdata h 0 d) (\<lambda>h. store_key h 0 key) = Inr ?h2" unfolding d(1) using k(1) by simp
  show "stored_key ?h2 0 = key" using k(4)[OF z1] by simp
  show used: "used ?h2 = used h" by (simp add: filled_def with_key_def with_data_def)
  show kept: "stored_key ?h2 x = stored_key h x \<and> stored_data ?h2 x = stored_data h x" if "x \<in># used h" for x
    using k(4,5)[of x] d(3) d(4,5)[OF lt[OF that]] lt[OF that] x0[OF that] by simp
  have "stored_data ?h2 0 = pdata_bytes d" using k(5)[OF z1] d(5)[OF z] by simp
  moreover have "table_ok ?h2" using t by (simp add: filled_def with_key_def with_data_def)
  moreover have "slots ?h2 = slots h" using k(3) d(3) by simp
  moreover have "key_slot ?h2 key x \<longleftrightarrow> key_slot h key x" for x using kept by (auto simp: key_slot_def used)
  ultimately show "dummy_holds ?h2 key d"
    using none k(2) len lt with_data_same[of ?h2 0 d] by (auto simp: dummy_holds_def slots_ok_def used)
qed

lemma slot_set_free: "slot_set (h\<lparr>h_free_slots := r\<rparr>) = slot_set h" and
  keys_ok_free: "keys_ok (h\<lparr>h_free_slots := r\<rparr>) = keys_ok h" and
  with_data_locked: "with_data (locked h) x d = locked (with_data h x d)"
  by (simp_all add: slot_set_def keys_ok_def with_data_def locked_def key_offset_of_def)

lemma alloc_none:
  assumes inv: "inv_held [] h" and "free_list h = []"
  shows "\<exists>r. alloc_slot h = Inr (0, h\<lparr>h_free_slots := r\<rparr>) \<and> inv_held [] (h\<lparr>h_free_slots := r\<rparr>)"
proof -
  have ring: "slot_ring (h_free_slots h)" using inv by (simp add: inv_held_def)
  have cells: "ring_cells 1 (h_free_slots h) = []" using assms(2) by (simp add: free_list_def)
  obtain e y r where r: "take_slot (h_free_slots h) = Inr (e, y, r)" "e \<noteq> 0" "slot_ring r" "ring_cells 1 r = []"
      "unat (r_capacity r) = unat (r_capacity (h_free_slots h))"
    using slot_queue.deq_none[OF ring cells] by auto
  have "inv_held [] (h\<lparr>h_free_slots := r\<rparr>)"
    using inv r cells by (simp add: inv_held_def free_list_def lock_free_def slot_set_free keys_ok_free)
  then show ?thesis using r(1,2) by (intro exI[of _ r]) (simp add: alloc_slot_take EMPTY_SLOT_def)
qed

lemma insert_dummy:
  assumes D: "dummy_holds h key d" and lf: "lock_free h" and b: "b1 < length (h_buckets h)" "b2 < length (h_buckets h)"
    and room: "EMPTY_SLOT \<in> set (key_idx (h_buckets h ! b1))"
  shows "\<exists>h'. rte_hash_cuckoo_insert_mw h (Main b1) (Main b2) key d sig 0 rv = Inr (0, rv, h') \<and>
    map snd (entries h') = map snd (entries h) \<and> stored_key h' = stored_key h \<and> stored_data h' = stored_data h"
proof -
  have t: "table_ok h" and D': "dummy_holds (locked h) key d"
    using D by (simp_all add: dummy_holds_def slots_ok_def key_slot_def with_data_locked)
  obtain j where j: "find (\<lambda>i. key_idx (h_buckets h ! b1) ! i = EMPTY_SLOT) [0..<8] = Some j"
  proof (cases "find (\<lambda>i. key_idx (h_buckets h ! b1) ! i = EMPTY_SLOT) [0..<8]")
    case None
    then show ?thesis using room bucket_fields(2)[OF t b(1)] by (auto simp: find_None_iff in_set_conv_nth)
  qed (rule that)
  then have j8: "j < 8" "key_idx (h_buckets h ! b1) ! j = 0" by (auto simp: find_Some_iff EMPTY_SLOT_def)
  obtain h' where h': "set_entry (locked h) (Main b1) j sig 0 = Inr h'" "retabled (locked h) h'"
      "entries h' = (entries h)[8 * b1 + j := (sig, 0)]"
    using set_entry_ok[of "locked h" b1 j sig 0] t b(1) j8(1) by auto
  have "rte_hash_cuckoo_insert_mw h (Main b1) (Main b2) key d sig 0 rv = Inr (0, rv, hash_rw_writer_unlock h')"
    using both_search_dummy[OF D', of b1 b2 sig] b j h'(1)
    by (simp add: rte_hash_cuckoo_insert_mw_def writer_lock_ok[OF lf] RTE_HASH_BUCKET_ENTRIES_def del: upt_rec_numeral)
  moreover have "snd (entries h ! (8 * b1 + j)) = 0" using get_bkt_entry[OF b(1) j8(1)] j8(2) by simp
  then have "map snd (entries (hash_rw_writer_unlock h')) = map snd (entries h)"
    using h'(3) pos_less[OF b(1) j8(1)] by (simp add: map_update list_update_same_conv)
  moreover have "stored_key (hash_rw_writer_unlock h') = stored_key h" "stored_data (hash_rw_writer_unlock h') = stored_data h"
    using frame_entry_ok(2,3)[of h' "locked h"] h'(2) by (simp_all add: retabled_def unlock_eq locked_def)
  ultimately show ?thesis by blast
qed

lemma lookup_same:
  assumes "map snd (entries h') = map snd (entries h)"
    and "\<And>x. x \<in># used h \<Longrightarrow> stored_key h' x = stored_key h x \<and> stored_data h' x = stored_data h x"
  shows "hash_lookup h' = hash_lookup h"
proof
  fix key
  let ?xs = "filter (\<lambda>x. x \<noteq> 0) (map snd (entries h))"
  have u: "x \<in># used h" if "x \<in> set ?xs" for x using that by (auto simp: used_def)
  then have "find (\<lambda>x. stored_key h' x = key) ?xs = find (\<lambda>x. stored_key h x = key) ?xs"
    using assms(2) by (intro find_cong) auto
  moreover have "stored_data h' y = stored_data h y" if "y \<in> set_option (find (\<lambda>x. stored_key h x = key) ?xs)" for y
    using that find_in[of _ ?xs y] u assms(2) by blast
  ultimately show "hash_lookup h' key = hash_lookup h key"
    unfolding hash_lookup_def assms(1) by (metis (mono_tags, lifting) option.map_cong0)
qed


text \<open>A table with one slot, which is in use.\<close>

definition full_table :: rte_hash where
  "full_table = (demo_hash 8 16 (\<lambda>_ _ _. 0))\<lparr>h_key_store := replicate 24 0 @ replicate 8 1, h_free_slots := demo_ring 1 0,
     h_buckets := [empty_bucket\<lparr>key_idx := (replicate 8 0)[0 := 1]\<rparr>, empty_bucket]\<rparr>"

lemma full_table_fields:
  "h_buckets full_table = [empty_bucket\<lparr>key_idx := (replicate 8 0)[0 := 1]\<rparr>, empty_bucket]" "h_bucket_bitmask full_table = 1"
  "h_key_len full_table = 8" "h_key_entry_size full_table = 16" "h_key_store full_table = replicate 24 0 @ replicate 8 1"
  "h_free_slots full_table = demo_ring 1 0" "h_readwrite_lock full_table = 0" "\<not> h_ext_table_support full_table"
  "rte_hash_hash full_table key = 0"
  by (simp_all add: full_table_def demo_hash_def rte_hash_hash_def)

lemma full_table_entries: "entries full_table = (0, 1) # replicate 15 (0, 0)"
proof (rule nth_equalityI)
  fix p assume "p < length (entries full_table)"
  then have p: "p < 16" by (simp add: full_table_fields)
  then have "p div 8 = 0 \<or> p div 8 = 1" by linarith
  then show "entries full_table ! p = ((0, 1) # replicate 15 (0, 0)) ! p"
    using p by (cases "p = 0") (auto simp: entries_def entry_at_def full_table_fields empty_bucket_def EMPTY_SLOT_def nth_Cons'
        nth_list_update)
qed (simp add: full_table_fields)

lemma full_table_inv: "hash_inv full_table" "free_list full_table = []" "stored_key full_table 0 = replicate 8 0"
    "hash_lookup full_table (replicate 8 2) = None"
proof -
  let ?h = full_table
  note f = full_table_fields and d = demo_plain[of 1, simplified]
  have ty: "ht_sync_type (r_prod (demo_ring 1 0)) = RTE_RING_SYNC_MT" "ht_sync_type (r_cons (demo_ring 1 0)) = RTE_RING_SYNC_MT"
      "r_capacity (demo_ring 1 0) = 3"
    by code_simp+
  have u: "used ?h = {#1#}" by (simp add: used_def full_table_entries)
  have sl: "slots ?h = 2" by (simp add: slots_def f)
  have key: "stored_key ?h 0 = replicate 8 0" "stored_key ?h 1 = replicate 8 1" by (simp_all add: stored_key_def key_offset_of_def f)
  have fl: "free_list ?h = []" using d by (simp add: free_list_def f)
  have set: "slot_set ?h = {1}"
  proof (rule set_eqI)
    fix x :: u32
    show "x \<in> slot_set ?h \<longleftrightarrow> x \<in> {1}" using small_word[of x 2] by (auto simp: slot_set_def sl upt_rec)
  qed
  have "mask_ok ?h" unfolding mask_ok_def by (rule exI[of _ 1]) (simp add: f)
  then have "table_ok ?h" by (simp add: table_ok_def buckets_ok_def f empty_bucket_def)
  moreover have "placed ?h"
    unfolding placed_def full_table_entries
    by (auto simp: nth_Cons' entry_ok_def f home_def get_short_sig_def get_prim_bucket_index_def)
  moreover have "store_ok ?h" using sl by (simp add: store_ok_def f)
  moreover have "slot_ring (h_free_slots ?h)" using d ty by (simp add: slot_ring_def f)
  ultimately show "hash_inv ?h"
    using ty(3) sl fl key by (simp add: hash_inv_def inv_held_def u set keys_ok_def lock_free_def f)
  show "free_list ?h = []" "stored_key ?h 0 = replicate 8 0" using fl key by simp_all
  show "hash_lookup ?h (replicate 8 2) = None" by (simp add: hash_lookup_def full_table_entries key)
qed


end
