(* ===== verification/Hash_Create.thy ===== *)
theory Hash_Create
  imports Cuckoo_Correct
begin

text \<open>
  \<open>rte_hash_create\<close> of \<^verbatim>\<open>src/rte_lib/rte_cuckoo_hash.c\<close>.

  The function takes the lock \<open>h->tailq_lock\<close> while \<open>h\<close> is still \<open>NULL\<close>, so a call with valid
  parameters ends there with the fault \<open>NullDeref\<close>.  \<open>rte_hash_create\<close> models the call.  What follows
  the lock on the path without a failed allocation, from the allocations to the filled ring of free
  slots, is \<open>hash_setup\<close>; the memory that \<open>malloc\<close> returns is an argument.  The ring library's
  memory management is the parameter of \<open>rte_ring_create_elem\<close> and \<open>rte_ring_free\<close>.
\<close>

section \<open>Parameters\<close>

definition RTE_HASH_ENTRIES_MAX :: u32 where "RTE_HASH_ENTRIES_MAX = 2 ^ 30"
definition RTE_HASH_NAMESIZE :: nat where "RTE_HASH_NAMESIZE = 32"
definition RTE_HASH_EXTRA_FLAGS_TRANS_MEM_SUPPORT :: u8 where "RTE_HASH_EXTRA_FLAGS_TRANS_MEM_SUPPORT = 0x01"
definition RTE_HASH_EXTRA_FLAGS_MULTI_WRITER_ADD :: u8 where "RTE_HASH_EXTRA_FLAGS_MULTI_WRITER_ADD = 0x02"
definition RTE_HASH_EXTRA_FLAGS_RW_CONCURRENCY :: u8 where "RTE_HASH_EXTRA_FLAGS_RW_CONCURRENCY = 0x04"
definition RTE_HASH_EXTRA_FLAGS_EXT_TABLE :: u8 where "RTE_HASH_EXTRA_FLAGS_EXT_TABLE = 0x08"
definition RTE_HASH_EXTRA_FLAGS_NO_FREE_ON_DEL :: u8 where "RTE_HASH_EXTRA_FLAGS_NO_FREE_ON_DEL = 0x10"
definition RTE_HASH_EXTRA_FLAGS_RW_CONCURRENCY_LF :: u8 where "RTE_HASH_EXTRA_FLAGS_RW_CONCURRENCY_LF = 0x20"

definition RTE_HASH_EXTRA_FLAGS_MASK :: u8 where
  "RTE_HASH_EXTRA_FLAGS_MASK = RTE_HASH_EXTRA_FLAGS_TRANS_MEM_SUPPORT OR RTE_HASH_EXTRA_FLAGS_MULTI_WRITER_ADD OR
     RTE_HASH_EXTRA_FLAGS_RW_CONCURRENCY OR RTE_HASH_EXTRA_FLAGS_EXT_TABLE OR
     RTE_HASH_EXTRA_FLAGS_NO_FREE_ON_DEL OR RTE_HASH_EXTRA_FLAGS_RW_CONCURRENCY_LF"

record rte_hash_parameters =
  hp_name :: string
  hp_entries :: u32
  hp_reserved :: u32
  hp_key_len :: u32
  hp_hash_func :: "(u8 list \<Rightarrow> u32 \<Rightarrow> u32 \<Rightarrow> u32) option"
  hp_hash_func_init_val :: u32
  hp_socket_id :: int
  hp_extra_flag :: u8

definition hp_flag :: "rte_hash_parameters \<Rightarrow> u8 \<Rightarrow> bool" where
  "hp_flag params f \<longleftrightarrow> hp_extra_flag params AND f \<noteq> 0"

text \<open>The checks of the parameters, and the numbers computed from them.\<close>

definition hash_params_ok :: "rte_hash_parameters \<Rightarrow> bool" where
  "hash_params_ok params \<longleftrightarrow>
     \<not> (RTE_HASH_ENTRIES_MAX < hp_entries params \<or> hp_entries params < of_nat RTE_HASH_BUCKET_ENTRIES \<or> hp_key_len params = 0) \<and>
     \<not> hp_flag params (NOT RTE_HASH_EXTRA_FLAGS_MASK) \<and>
     \<not> (hp_flag params RTE_HASH_EXTRA_FLAGS_RW_CONCURRENCY \<and> hp_flag params RTE_HASH_EXTRA_FLAGS_RW_CONCURRENCY_LF)"

definition num_key_slots :: "rte_hash_parameters \<Rightarrow> u32" where
  "num_key_slots params = hp_entries params + 1"

definition num_buckets :: "rte_hash_parameters \<Rightarrow> u32" where
  "num_buckets params = rte_align32pow2 (hp_entries params) div of_nat RTE_HASH_BUCKET_ENTRIES"

definition key_entry_size :: "rte_hash_parameters \<Rightarrow> u32" where
  "key_entry_size params = ucast (RTE_ALIGN (8 + ucast (hp_key_len params) :: u64) (ucast KEY_ALIGNMENT))"

definition key_tbl_size :: "rte_hash_parameters \<Rightarrow> u64" where
  "key_tbl_size params = ucast (key_entry_size params) * ucast (num_key_slots params)"

section \<open>Creation\<close>

text \<open>The loops that put numbers into a ring, with the result of every call ignored.\<close>

fun enqueue_all :: "u32 list \<Rightarrow> rte_ring \<Rightarrow> rte_ring cres" where
  "enqueue_all [] r = Inr r"
| "enqueue_all (i # is) r = bindc (rte_ring_sp_enqueue_elem r [i] 4) (\<lambda>(_, r). enqueue_all is r)"

text \<open>
  Behind the lock: \<open>r\<close> and \<open>r_ext\<close> are the rings created before, \<open>bucket\<close> is the one bucket that is
  allocated for the table, \<open>exts\<close> the extendable buckets and \<open>keys\<close> the key store.
\<close>

definition hash_setup ::
  "rte_hash_parameters \<Rightarrow> (u8 list \<Rightarrow> u32 \<Rightarrow> u32 \<Rightarrow> u32) \<Rightarrow> rte_ring \<Rightarrow> rte_ring \<Rightarrow> rte_hash_bucket \<Rightarrow>
     rte_hash_bucket list \<Rightarrow> u8 list \<Rightarrow> rte_hash cres" where
  "hash_setup params default_hash_func r r_ext bucket exts keys =
     (let ext_table_support = hp_flag params RTE_HASH_EXTRA_FLAGS_EXT_TABLE;
          multi_writer = hp_flag params RTE_HASH_EXTRA_FLAGS_MULTI_WRITER_ADD;
          readwrite_concur_support = hp_flag params RTE_HASH_EXTRA_FLAGS_RW_CONCURRENCY;
          lf_support = hp_flag params RTE_HASH_EXTRA_FLAGS_RW_CONCURRENCY_LF
      in bindc (if ext_table_support then enqueue_all (map of_nat [1..<unat (num_buckets params) + 1]) r_ext
                else Inr r_ext) (\<lambda>r_ext.
         bindc (enqueue_all (map of_nat [1..<unat (num_key_slots params)]) r) (\<lambda>r.
         Inr \<lparr>h_name = take RTE_HASH_NAMESIZE (hp_name params), h_entries = hp_entries params,
              h_num_buckets = num_buckets params, h_free_slots = r, h_key_len = hp_key_len params,
              h_hw_trans_mem_support = hp_flag params RTE_HASH_EXTRA_FLAGS_TRANS_MEM_SUPPORT,
              h_use_local_cache = multi_writer, h_readwrite_concur_support = readwrite_concur_support,
              h_ext_table_support = ext_table_support,
              h_no_free_on_del = (hp_flag params RTE_HASH_EXTRA_FLAGS_NO_FREE_ON_DEL \<or> lf_support),
              h_readwrite_concur_lf_support = lf_support,
              h_writer_takes_lock = (multi_writer \<or> readwrite_concur_support),
              h_hash_func = (case hp_hash_func params of None \<Rightarrow> default_hash_func | Some f \<Rightarrow> f),
              h_hash_func_init_val = hp_hash_func_init_val params,
              h_bucket_bitmask = num_buckets params - 1, h_key_entry_size = key_entry_size params,
              h_key_store = keys, h_buckets = [bucket], h_readwrite_lock = 0,
              h_buckets_ext = (if ext_table_support then exts else []), h_free_ext_bkts = r_ext,
              h_tbl_chng_cnt = 0\<rparr>)))"

text \<open>The call: \<open>NULL\<close> on the error paths, a fault at the lock.\<close>

definition rte_hash_create ::
  "('m \<Rightarrow> bool \<times> 'm) \<Rightarrow> ('m \<Rightarrow> string \<Rightarrow> int \<Rightarrow> int \<Rightarrow> (nat \<times> nat \<times> u32 list) option \<times> 'm) \<Rightarrow> ('m \<Rightarrow> 'm) \<Rightarrow>
     ('m \<Rightarrow> nat \<Rightarrow> int \<times> 'm) \<Rightarrow> rte_hash_parameters option \<Rightarrow> 'm ring_list \<Rightarrow> (rte_hash option \<times> 'm ring_list) cres" where
  "rte_hash_create zmalloc reserve te_free mz_free params st =
     (case params of
        None \<Rightarrow> Inr (None, st)
      | Some params \<Rightarrow>
          if \<not> hash_params_ok params then Inr (None, st)
          else
            let ring_name = take (RTE_RING_NAMESIZE - 1) (''HT_'' @ hp_name params);
                (r, st) = rte_ring_create_elem zmalloc reserve te_free ring_name 4
                            (rte_align32pow2 (num_key_slots params)) (hp_socket_id params) 0 st
            in if r = None then Inr (None, st)
               else if hp_flag params RTE_HASH_EXTRA_FLAGS_EXT_TABLE
               then let ext_ring_name = take (RTE_RING_NAMESIZE - 1) (''HT_EXT_'' @ hp_name params);
                        (r_ext, st) = rte_ring_create_elem zmalloc reserve te_free ext_ring_name 4
                                        (rte_align32pow2 (num_buckets params + 1)) (hp_socket_id params) 0 st
                    in if r_ext = None then Inr (None, rte_ring_free mz_free te_free r st) else Inl NullDeref
               else Inl NullDeref)"

section \<open>The table that is set up\<close>

lemma enqueue_all_ok:
  assumes "slot_ring r" and "length (ring_cells 1 r) + length xs \<le> unat (r_capacity r)"
  shows "\<exists>r'. enqueue_all xs r = Inr r' \<and> slot_ring r' \<and> ring_cells 1 r' = ring_cells 1 r @ xs \<and>
    unat (r_capacity r') = unat (r_capacity r)"
  using assms
proof (induction xs arbitrary: r)
  case (Cons x xs)
  from Cons.prems(2) have "length (ring_cells 1 r) < unat (r_capacity r)" by simp
  from slot_queue.enq_room[OF Cons.prems(1) this, of x] obtain r1 where
    r1: "rte_ring_sp_enqueue_elem r [x] 4 = Inr (0, r1)" "slot_ring r1" "ring_cells 1 r1 = ring_cells 1 r @ [x]"
      "unat (r_capacity r1) = unat (r_capacity r)"
    unfolding put_slot_def by blast
  have "length (ring_cells 1 r1) + length xs \<le> unat (r_capacity r1)" unfolding r1(3,4) using Cons.prems(2) by simp
  from Cons.IH[OF r1(2) this] show ?case using r1 by auto
qed simp

text \<open>The loop also ends when the ring is full before the numbers are stored.\<close>

lemma enqueue_total:
  assumes "slot_ring r"
  shows "\<exists>r'. enqueue_all xs r = Inr r' \<and> slot_ring r'"
  using assms
proof (induction xs arbitrary: r)
  case (Cons x xs)
  obtain ret r1 where r1: "rte_ring_sp_enqueue_elem r [x] 4 = Inr (ret, r1)" "slot_ring r1"
    using put_slot_spec[OF Cons.prems, of x] unfolding put_slot_def by blast
  from Cons.IH[OF r1(2)] show ?case using r1 by auto
qed simp

declare enqueue_all.simps [simp del]

lemma key_entry_size_8: "hp_key_len params = 8 \<Longrightarrow> key_entry_size params = 16"
  by (simp add: key_entry_size_def) code_simp

lemma mset_slot_set: "slots h = unat n \<Longrightarrow> mset (map of_nat [1..<unat n]) = mset_set (slot_set h)"
  for n :: u32
proof -
  assume sl: "slots h = unat n"
  have lt: "m < 2 ^ LENGTH(32)" if "m < unat n" for m by (rule less_trans[OF that unsigned_less])
  have "inj_on (of_nat :: nat \<Rightarrow> u32) {1..<unat n}"
    using lt by (auto intro!: inj_onI simp: word_of_nat_eq_iff take_bit_nat_eq_self)
  then have "distinct (map (of_nat :: nat \<Rightarrow> u32) [1..<unat n])" by (simp add: distinct_map)
  moreover have "set (map of_nat [1..<unat n]) = slot_set h"
  proof (rule set_eqI)
    fix x :: u32
    show "x \<in> set (map of_nat [1..<unat n]) \<longleftrightarrow> x \<in> slot_set h"
    proof
      assume "x \<in> set (map of_nat [1..<unat n])"
      then obtain m where m: "x = of_nat m" "1 \<le> m" "m < unat n" by auto
      then have "unat x = m" using lt by (simp add: unat_of_nat take_bit_nat_eq_self)
      then show "x \<in> slot_set h" using m sl by (auto simp: slot_set_def)
    next
      assume "x \<in> slot_set h"
      then have "x = of_nat (unat x)" "unat x \<in> {1..<unat n}" using sl by (auto simp: slot_set_def Suc_le_eq unat_gt_0)
      then show "x \<in> set (map of_nat [1..<unat n])" by (metis image_eqI list.set_map set_upt)
    qed
  qed
  ultimately show "mset (map of_nat [1..<unat n]) = mset_set (slot_set h)" by (metis mset_set_set)
qed


definition demo_params :: "u32 \<Rightarrow> rte_hash_parameters" where
  "demo_params n = \<lparr>hp_name = ''demo'', hp_entries = n, hp_reserved = 0, hp_key_len = 8, hp_hash_func = None,
     hp_hash_func_init_val = 0, hp_socket_id = 0, hp_extra_flag = RTE_HASH_EXTRA_FLAGS_RW_CONCURRENCY\<rparr>"

definition slot_ring16 :: rte_ring where
  "slot_ring16 = snd (rte_ring_init (zero_ring (replicate 16 0)) ''HT_demo'' 16 0)"

lemma slot_ring16_ok: "slot_ring slot_ring16" "ring_cells 1 slot_ring16 = []" "r_capacity slot_ring16 = 15"
proof -
  have args: "init_args ''HT_demo'' 16 0" and sz: "requested_size 16 0 = 16" and cap: "requested_capacity 16 0 = 15"
    and ty: "ht_sync_type (r_prod slot_ring16) = RTE_RING_SYNC_MT" "ht_sync_type (r_cons slot_ring16) = RTE_RING_SYNC_MT"
    by code_simp+
  obtain r' where "rte_ring_init (zero_ring (replicate 16 0)) ''HT_demo'' 16 0 = (0, r')"
      "ring_inv 1 r'" "ring_cells 1 r' = []" "r_capacity r' = requested_capacity 16 0"
    using args by (elim init_inv[of "''HT_demo''" 16 0 1 "zero_ring (replicate 16 0)"]) (auto simp: zero_ring_def sz)
  then show "slot_ring slot_ring16" "ring_cells 1 slot_ring16 = []" "r_capacity slot_ring16 = 15"
    using ty cap by (simp_all add: slot_ring_def slot_ring16_def)
qed

lemma demo_params_ok: "hash_params_ok (demo_params 8)" "hash_params_ok (demo_params 16)"
    "\<not> hp_flag (demo_params n) RTE_HASH_EXTRA_FLAGS_EXT_TABLE" "unat (key_tbl_size (demo_params 8)) = 144"
  by code_simp+


text \<open>With more entries the bitmask selects among several buckets but only one is allocated: adding a
  key whose primary bucket is not the first one reads outside the allocation.\<close>

theorem hash_setup_short:
  assumes "hash_setup params f r r_ext bucket exts keys = Inr h" and "sig AND (num_buckets params - 1) \<noteq> 0"
  shows "add_key_with_hash h key sig data = Inl OutOfBounds"
proof -
  have "h_buckets h = [bucket]" "h_bucket_bitmask h = num_buckets params - 1" "h_readwrite_lock h = 0"
    using assms(1) by (auto simp: hash_setup_def Let_def bindc_Inr_iff)
  then have "lock_free h" "unat (get_prim_bucket_index h sig) \<noteq> 0" "h_buckets (locked h) = [bucket]"
    using assms(2) by (simp_all add: lock_free_def get_prim_bucket_index_def unat_eq_0 locked_def)
  then show ?thesis
    by (simp add: add_key_with_hash_def Let_def writer_lock_ok search_both_def search_and_update_def)
qed

theorem hash_setup_short_witness:
  "\<exists>h. hash_setup (demo_params 16) (\<lambda>_ _ _. 0) slot_ring16 slot_ring16 empty_bucket [] [] = Inr h \<and>
    add_key_with_hash h (replicate 8 1) 1 0 = Inl OutOfBounds"
proof -
  obtain h where h: "hash_setup (demo_params 16) (\<lambda>_ _ _. 0) slot_ring16 slot_ring16 empty_bucket [] [] = Inr h"
  proof -
    obtain r' where "enqueue_all (map of_nat [1..<unat (num_key_slots (demo_params 16))]) slot_ring16 = Inr r'"
      using enqueue_total[OF slot_ring16_ok(1)] by blast
    with that show thesis unfolding hash_setup_def Let_def by (simp add: demo_params_ok(3) del: One_nat_def)
  qed
  have "(1 :: u32) AND (num_buckets (demo_params 16) - 1) \<noteq> 0" by code_simp
  with hash_setup_short[OF h] h show ?thesis by blast
qed

text \<open>\<open>rte_hash_create\<close> never returns a table.  With parameters it refuses it returns \<open>NULL\<close> and
  changes nothing; otherwise it returns \<open>NULL\<close> when a ring cannot be created, and runs into the
  \<open>NULL\<close> dereference at the lock when the rings are there.\<close>

theorem hash_create_no_table:
  "case rte_hash_create zmalloc reserve te_free mz_free params st of
     Inl e \<Rightarrow> e = NullDeref \<and> (\<exists>p. params = Some p \<and> hash_params_ok p)
   | Inr (h, st') \<Rightarrow> h = None \<and>
       (st' = st \<or> (\<exists>p. params = Some p \<and> hash_params_ok p \<and>
          (fst (rte_ring_create_elem zmalloc reserve te_free (take (RTE_RING_NAMESIZE - 1) (''HT_'' @ hp_name p)) 4
             (rte_align32pow2 (num_key_slots p)) (hp_socket_id p) 0 st) = None \<or>
           hp_flag p RTE_HASH_EXTRA_FLAGS_EXT_TABLE)))"
  by (auto simp: rte_hash_create_def Let_def split: option.splits prod.splits)

end
