(* ===== verification/Bitmap.thy ===== *)
theory Bitmap
  imports Rte_Common
begin

text \<open>
  The two-level bit map of \<^verbatim>\<open>src/rte_lib/include/rte_bitmap.h\<close>.

  The two arrays are lists of 64-bit slabs; an access outside of them is the fault \<open>OutOfBounds\<close>.  The memory the
  caller hands over is its address and its size.  An out-parameter that is not written is \<open>None\<close>.
  A cache line has 64 bytes.
\<close>

section \<open>Data\<close>

definition RTE_BITMAP_SLAB_BIT_SIZE :: u32 where "RTE_BITMAP_SLAB_BIT_SIZE = 64"
definition RTE_BITMAP_SLAB_BIT_SIZE_LOG2 :: nat where "RTE_BITMAP_SLAB_BIT_SIZE_LOG2 = 6"
definition RTE_BITMAP_SLAB_BIT_MASK :: u32 where "RTE_BITMAP_SLAB_BIT_MASK = RTE_BITMAP_SLAB_BIT_SIZE - 1"
definition RTE_BITMAP_CL_BIT_SIZE :: u32 where "RTE_BITMAP_CL_BIT_SIZE = 64 * 8"
definition RTE_BITMAP_CL_BIT_SIZE_LOG2 :: nat where "RTE_BITMAP_CL_BIT_SIZE_LOG2 = 6 + 3"
definition RTE_BITMAP_CL_SLAB_SIZE :: u32 where "RTE_BITMAP_CL_SLAB_SIZE = RTE_BITMAP_CL_BIT_SIZE div RTE_BITMAP_SLAB_BIT_SIZE"
definition RTE_BITMAP_CL_SLAB_SIZE_LOG2 :: nat where
  "RTE_BITMAP_CL_SLAB_SIZE_LOG2 = RTE_BITMAP_CL_BIT_SIZE_LOG2 - RTE_BITMAP_SLAB_BIT_SIZE_LOG2"
definition RTE_BITMAP_CL_SLAB_MASK :: u32 where "RTE_BITMAP_CL_SLAB_MASK = RTE_BITMAP_CL_SLAB_SIZE - 1"

record rte_bitmap =
  bm_array1 :: "u64 list"
  bm_array2 :: "u64 list"
  bm_array1_size :: u32
  bm_array2_size :: u32
  bm_index1 :: u32
  bm_offset1 :: u32
  bm_index2 :: u32
  bm_go2 :: u32

definition SIZEOF_RTE_BITMAP :: u32 where "SIZEOF_RTE_BITMAP = 40"

section \<open>Operations\<close>

definition slab_at :: "u64 list \<Rightarrow> u32 \<Rightarrow> u64 cres" where
  "slab_at slabs i = (if unat i < length slabs then Inr (slabs ! unat i) else Inl OutOfBounds)"

definition slab_put :: "u64 list \<Rightarrow> u32 \<Rightarrow> u64 \<Rightarrow> u64 list cres" where
  "slab_put slabs i v = (if unat i < length slabs then Inr (slabs[unat i := v]) else Inl OutOfBounds)"

text \<open>\<open>1llu << offset\<close>\<close>

definition slab_bit :: "u32 \<Rightarrow> u64" where
  "slab_bit offset = push_bit (unat offset) 1"

definition bitmap_index1_inc :: "rte_bitmap \<Rightarrow> rte_bitmap" where
  "bitmap_index1_inc bmp = bmp\<lparr>bm_index1 := (bm_index1 bmp + 1) AND (bm_array1_size bmp - 1)\<rparr>"

definition bitmap_mask1_get :: "rte_bitmap \<Rightarrow> u64" where
  "bitmap_mask1_get bmp = push_bit (unat (bm_offset1 bmp)) (NOT 1)"

definition bitmap_index2_set :: "rte_bitmap \<Rightarrow> rte_bitmap" where
  "bitmap_index2_set bmp = bmp\<lparr>bm_index2 :=
     push_bit RTE_BITMAP_CL_SLAB_SIZE_LOG2 (push_bit RTE_BITMAP_SLAB_BIT_SIZE_LOG2 (bm_index1 bmp) + bm_offset1 bmp)\<rparr>"

text \<open>The size in bytes, and offset and number of slabs of the two arrays.\<close>

definition bitmap_memory_footprint :: "u32 \<Rightarrow> u32 \<times> u32 \<times> u32 \<times> u32 \<times> u32" where
  "bitmap_memory_footprint n_bits =
     (let n_cache_lines_array2 = (n_bits + RTE_BITMAP_CL_BIT_SIZE - 1) div RTE_BITMAP_CL_BIT_SIZE;
          n_slabs_array1 = (n_cache_lines_array2 + RTE_BITMAP_SLAB_BIT_SIZE - 1) div RTE_BITMAP_SLAB_BIT_SIZE;
          n_slabs_array1 = rte_align32pow2 n_slabs_array1;
          n_slabs_context = (SIZEOF_RTE_BITMAP + RTE_BITMAP_SLAB_BIT_SIZE div 8 - 1) div (RTE_BITMAP_SLAB_BIT_SIZE div 8);
          n_cache_lines_context_and_array1 =
            (n_slabs_context + n_slabs_array1 + RTE_BITMAP_CL_SLAB_SIZE - 1) div RTE_BITMAP_CL_SLAB_SIZE;
          n_bytes_total = (n_cache_lines_context_and_array1 + n_cache_lines_array2) * 64
      in (n_bytes_total, n_slabs_context * (RTE_BITMAP_SLAB_BIT_SIZE div 8), n_slabs_array1,
          n_cache_lines_context_and_array1 * 64, n_cache_lines_array2 * RTE_BITMAP_CL_SLAB_SIZE))"

definition bitmap_scan_init :: "rte_bitmap \<Rightarrow> rte_bitmap" where
  "bitmap_scan_init bmp =
     (let bmp = bmp\<lparr>bm_index1 := bm_array1_size bmp - 1, bm_offset1 := RTE_BITMAP_SLAB_BIT_SIZE - 1\<rparr>;
          bmp = bitmap_index2_set bmp
      in bmp\<lparr>bm_index2 := bm_index2 bmp + RTE_BITMAP_CL_SLAB_SIZE, bm_go2 := 0\<rparr>)"

definition rte_bitmap_get_memory_footprint :: "u32 \<Rightarrow> u32" where
  "rte_bitmap_get_memory_footprint n_bits = (if n_bits = 0 then 0 else fst (bitmap_memory_footprint n_bits))"

definition rte_bitmap_init :: "u32 \<Rightarrow> u64 option \<Rightarrow> u32 \<Rightarrow> rte_bitmap option" where
  "rte_bitmap_init n_bits mem mem_size =
     (if n_bits = 0 then None
      else case mem of None \<Rightarrow> None
      | Some addr \<Rightarrow>
          if addr AND 63 \<noteq> 0 then None
          else let (bytes, _, array1_slabs, _, array2_slabs) = bitmap_memory_footprint n_bits
               in if bytes > mem_size then None
                  else Some (bitmap_scan_init
                    \<lparr>bm_array1 = replicate (unat array1_slabs) 0, bm_array2 = replicate (unat array2_slabs) 0,
                     bm_array1_size = array1_slabs, bm_array2_size = array2_slabs,
                     bm_index1 = 0, bm_offset1 = 0, bm_index2 = 0, bm_go2 = 0\<rparr>))"

text \<open>
  The variant that sets all bits.  Its check of the memory size is the other way round: memory that is larger than needed
  is refused, and with memory that is too small it writes behind its end.
\<close>

fun clear_slab_bits :: "u64 list \<Rightarrow> u32 \<Rightarrow> u32 list \<Rightarrow> u64 list cres" where
  "clear_slab_bits slabs index [] = Inr slabs"
| "clear_slab_bits slabs index (i # is) =
     bindc (slab_at slabs index) (\<lambda>v. bindc (slab_put slabs index (v AND NOT (slab_bit i))) (\<lambda>slabs.
     clear_slab_bits slabs index is))"

definition bitmap_clear_slab_overhead_bits :: "u64 list \<Rightarrow> u32 \<Rightarrow> u32 \<Rightarrow> u64 list cres" where
  "bitmap_clear_slab_overhead_bits slabs slab_size pos =
     (let index = pos div RTE_BITMAP_SLAB_BIT_SIZE; offset = pos AND RTE_BITMAP_SLAB_BIT_MASK
      in bindc (if offset \<noteq> 0 then clear_slab_bits slabs index (map of_nat [unat offset..<64]) else Inr slabs) (\<lambda>slabs.
         let index = (if offset \<noteq> 0 then index + 1 else index)
         in if index < slab_size
            then if unat slab_size \<le> length slabs
                 then Inr (blit slabs (unat index) (replicate (unat (slab_size - index)) 0)) else Inl OutOfBounds
            else Inr slabs))"

definition rte_bitmap_init_with_all_set :: "u32 \<Rightarrow> u64 option \<Rightarrow> u32 \<Rightarrow> rte_bitmap option cres" where
  "rte_bitmap_init_with_all_set n_bits mem mem_size =
     (case mem of None \<Rightarrow> Inr None
      | Some addr \<Rightarrow>
          if n_bits = 0 \<or> addr AND 63 \<noteq> 0 then Inr None
          else let (bytes, _, array1_slabs, _, array2_slabs) = bitmap_memory_footprint n_bits
               in if bytes < mem_size then Inr None
                  else if mem_size < bytes then Inl OutOfBounds
                  else bindc (bitmap_clear_slab_overhead_bits (replicate (unat array1_slabs) (- 1)) array1_slabs
                         (drop_bit RTE_BITMAP_CL_SLAB_SIZE_LOG2 array2_slabs)) (\<lambda>array1.
                       bindc (bitmap_clear_slab_overhead_bits (replicate (unat array2_slabs) (- 1)) array2_slabs n_bits) (\<lambda>array2.
                       Inr (Some (bitmap_scan_init
                         \<lparr>bm_array1 = array1, bm_array2 = array2, bm_array1_size = array1_slabs,
                          bm_array2_size = array2_slabs, bm_index1 = 0, bm_offset1 = 0, bm_index2 = 0, bm_go2 = 0\<rparr>)))))"

definition rte_bitmap_free :: "rte_bitmap option \<Rightarrow> int" where
  "rte_bitmap_free bmp = (if bmp = None then - 1 else 0)"

definition rte_bitmap_reset :: "rte_bitmap \<Rightarrow> rte_bitmap" where
  "rte_bitmap_reset bmp = bitmap_scan_init
     (bmp\<lparr>bm_array1 := replicate (unat (bm_array1_size bmp)) 0, bm_array2 := replicate (unat (bm_array2_size bmp)) 0\<rparr>)"

definition rte_bitmap_get :: "rte_bitmap \<Rightarrow> u32 \<Rightarrow> u64 cres" where
  "rte_bitmap_get bmp pos =
     (let index2 = drop_bit RTE_BITMAP_SLAB_BIT_SIZE_LOG2 pos;
          offset2 = pos AND RTE_BITMAP_SLAB_BIT_MASK
      in bindc (slab_at (bm_array2 bmp) index2) (\<lambda>slab2. Inr (slab2 AND slab_bit offset2)))"

definition bitmap_index1 :: "u32 \<Rightarrow> u32" where
  "bitmap_index1 pos = drop_bit (RTE_BITMAP_SLAB_BIT_SIZE_LOG2 + RTE_BITMAP_CL_BIT_SIZE_LOG2) pos"

definition bitmap_offset1 :: "u32 \<Rightarrow> u32" where
  "bitmap_offset1 pos = drop_bit RTE_BITMAP_CL_BIT_SIZE_LOG2 pos AND RTE_BITMAP_SLAB_BIT_MASK"

definition rte_bitmap_set_slab :: "rte_bitmap \<Rightarrow> u32 \<Rightarrow> u64 \<Rightarrow> rte_bitmap cres" where
  "rte_bitmap_set_slab bmp pos slab =
     (let index2 = drop_bit RTE_BITMAP_SLAB_BIT_SIZE_LOG2 pos; index1 = bitmap_index1 pos; offset1 = bitmap_offset1 pos
      in bindc (slab_at (bm_array2 bmp) index2) (\<lambda>slab2.
         bindc (slab_put (bm_array2 bmp) index2 (slab2 OR slab)) (\<lambda>array2.
         bindc (slab_at (bm_array1 bmp) index1) (\<lambda>slab1.
         bindc (slab_put (bm_array1 bmp) index1 (slab1 OR slab_bit offset1)) (\<lambda>array1.
         Inr (bmp\<lparr>bm_array2 := array2, bm_array1 := array1\<rparr>))))))"

definition rte_bitmap_set :: "rte_bitmap \<Rightarrow> u32 \<Rightarrow> rte_bitmap cres" where
  "rte_bitmap_set bmp pos =
     (let index2 = drop_bit RTE_BITMAP_SLAB_BIT_SIZE_LOG2 pos; offset2 = pos AND RTE_BITMAP_SLAB_BIT_MASK;
          index1 = bitmap_index1 pos; offset1 = bitmap_offset1 pos
      in bindc (slab_at (bm_array2 bmp) index2) (\<lambda>slab2.
         bindc (slab_put (bm_array2 bmp) index2 (slab2 OR slab_bit offset2)) (\<lambda>array2.
         bindc (slab_at (bm_array1 bmp) index1) (\<lambda>slab1.
         bindc (slab_put (bm_array1 bmp) index1 (slab1 OR slab_bit offset1)) (\<lambda>array1.
         Inr (bmp\<lparr>bm_array2 := array2, bm_array1 := array1\<rparr>))))))"

definition bitmap_line_not_empty :: "u64 list \<Rightarrow> u32 \<Rightarrow> u64 cres" where
  "bitmap_line_not_empty slabs i =
     bindc (slab_at slabs i) (\<lambda>s0. bindc (slab_at slabs (i + 1)) (\<lambda>s1.
     bindc (slab_at slabs (i + 2)) (\<lambda>s2. bindc (slab_at slabs (i + 3)) (\<lambda>s3.
     bindc (slab_at slabs (i + 4)) (\<lambda>s4. bindc (slab_at slabs (i + 5)) (\<lambda>s5.
     bindc (slab_at slabs (i + 6)) (\<lambda>s6. bindc (slab_at slabs (i + 7)) (\<lambda>s7.
       let v1 = s0 OR s1; v2 = s2 OR s3; v3 = s4 OR s5; v4 = s6 OR s7; v1 = v1 OR v2; v3 = v3 OR v4
       in Inr (v1 OR v3)))))))))"

definition rte_bitmap_clear :: "rte_bitmap \<Rightarrow> u32 \<Rightarrow> rte_bitmap cres" where
  "rte_bitmap_clear bmp pos =
     (let index2 = drop_bit RTE_BITMAP_SLAB_BIT_SIZE_LOG2 pos; offset2 = pos AND RTE_BITMAP_SLAB_BIT_MASK
      in bindc (slab_at (bm_array2 bmp) index2) (\<lambda>slab2.
         bindc (slab_put (bm_array2 bmp) index2 (slab2 AND NOT (slab_bit offset2))) (\<lambda>array2.
           let bmp = bmp\<lparr>bm_array2 := array2\<rparr>
           in if slab2 AND NOT (slab_bit offset2) \<noteq> 0 then Inr bmp
              else bindc (bitmap_line_not_empty array2 (index2 AND NOT RTE_BITMAP_CL_SLAB_MASK)) (\<lambda>v.
                if v \<noteq> 0 then Inr bmp
                else let index1 = bitmap_index1 pos; offset1 = bitmap_offset1 pos
                     in bindc (slab_at (bm_array1 bmp) index1) (\<lambda>slab1.
                        bindc (slab_put (bm_array1 bmp) index1 (slab1 AND NOT (slab_bit offset1))) (\<lambda>array1.
                        Inr (bmp\<lparr>bm_array1 := array1\<rparr>)))))))"

section \<open>Scanning\<close>

text \<open>The loop over the slabs of the first array, \<open>n\<close> of them left.\<close>

fun bitmap_search_slabs :: "nat \<Rightarrow> rte_bitmap \<Rightarrow> (bool \<times> rte_bitmap) cres" where
  "bitmap_search_slabs 0 bmp = Inr (False, bmp)"
| "bitmap_search_slabs (Suc n) bmp =
     bindc (slab_at (bm_array1 bmp) (bm_index1 bmp)) (\<lambda>value1.
     bindc (rte_bsf64_safe value1 (bm_offset1 bmp)) (\<lambda>(found, offset).
       if found then Inr (True, bmp\<lparr>bm_offset1 := offset\<rparr>)
       else bitmap_search_slabs n (bitmap_index1_inc bmp)))"

definition bitmap_scan_search :: "rte_bitmap \<Rightarrow> (bool \<times> rte_bitmap) cres" where
  "bitmap_scan_search bmp =
     bindc (slab_at (bm_array1 bmp) (bm_index1 bmp)) (\<lambda>value1.
     bindc (rte_bsf64_safe (value1 AND bitmap_mask1_get bmp) (bm_offset1 bmp)) (\<lambda>(found, offset).
       if found then Inr (True, bmp\<lparr>bm_offset1 := offset\<rparr>)
       else bitmap_search_slabs (unat (bm_array1_size bmp)) ((bitmap_index1_inc bmp)\<lparr>bm_offset1 := 0\<rparr>)))"

definition bitmap_scan_read_init :: "rte_bitmap \<Rightarrow> rte_bitmap" where
  "bitmap_scan_read_init bmp = (bitmap_index2_set bmp)\<lparr>bm_go2 := 1\<rparr>"

definition bitmap_advance :: "rte_bitmap \<Rightarrow> rte_bitmap" where
  "bitmap_advance bmp = bmp\<lparr>bm_index2 := bm_index2 bmp + 1, bm_go2 := (bm_index2 bmp + 1) AND RTE_BITMAP_CL_SLAB_MASK\<rparr>"

function bitmap_scan_read :: "rte_bitmap \<Rightarrow> ((u32 \<times> u64) option \<times> rte_bitmap) cres" where
  "bitmap_scan_read bmp =
     (if bm_go2 bmp = 0 then Inr (None, bmp)
      else bindc (slab_at (bm_array2 bmp) (bm_index2 bmp)) (\<lambda>slab2.
        if slab2 \<noteq> 0
        then Inr (Some (push_bit RTE_BITMAP_SLAB_BIT_SIZE_LOG2 (bm_index2 bmp), slab2), bitmap_advance bmp)
        else bitmap_scan_read (bitmap_advance bmp)))"
  by pat_completeness auto

lemma slab_mask: "RTE_BITMAP_CL_SLAB_MASK = 2 ^ 3 - 1"
  by (simp add: RTE_BITMAP_CL_SLAB_MASK_def RTE_BITMAP_CL_SLAB_SIZE_def RTE_BITMAP_CL_BIT_SIZE_def RTE_BITMAP_SLAB_BIT_SIZE_def)

lemma advance_go: "unat (bm_go2 (bitmap_advance bmp)) = Suc (unat (bm_index2 bmp)) mod 8"
proof -
  have "unat (bm_index2 bmp + 1) mod 2 ^ 3 = (unat (bm_index2 bmp) + 1) mod 2 ^ 3"
    using unat_add_mod_exp[of 3 "bm_index2 bmp" 1] by simp
  then show ?thesis unfolding bitmap_advance_def slab_mask unat_and_exp[symmetric] by (simp add: unat_and_exp)
qed

termination bitmap_scan_read
proof (relation "measure (\<lambda>bmp. if bm_go2 bmp = 0 then 0 else 8 - unat (bm_index2 bmp) mod 8)", goal_cases)
  case (2 bmp slab2)
  have "unat (bm_index2 (bitmap_advance bmp)) mod 8 = Suc (unat (bm_index2 bmp)) mod 8"
    using unat_add_mod_exp[of 3 "bm_index2 bmp" 1] by (simp add: bitmap_advance_def)
  moreover have "bm_go2 (bitmap_advance bmp) = 0 \<longleftrightarrow> Suc (unat (bm_index2 bmp)) mod 8 = 0"
    using advance_go[of bmp] by (simp add: unat_eq_0[symmetric])
  ultimately show ?case using 2 by (auto simp: mod_Suc)
qed simp

declare bitmap_scan_read.simps [simp del]

text \<open>The return value, what is written to \<open>pos\<close> and \<open>slab\<close>, and the new state.\<close>

definition rte_bitmap_scan :: "rte_bitmap \<Rightarrow> (int \<times> (u32 \<times> u64) option \<times> rte_bitmap) cres" where
  "rte_bitmap_scan bmp =
     bindc (bitmap_scan_read bmp) (\<lambda>(out, bmp).
       if out \<noteq> None then Inr (1, out, bmp)
       else bindc (bitmap_scan_search bmp) (\<lambda>(found, bmp).
         if found then bindc (bitmap_scan_read (bitmap_scan_read_init bmp)) (\<lambda>(out, bmp). Inr (1, out, bmp))
         else Inr (0, None, bmp)))"

end
