(* ===== verification/Bitmap_Set.thy ===== *)
theory Bitmap_Set
  imports Bitmap
begin

text \<open>
  The bit map as a set of positions.  The first array is a summary of the second: bit \<open>l\<close> of it is set exactly when
  line \<open>l\<close> of the second array, eight slabs, has a bit set.
\<close>

section \<open>Sets of bits\<close>

text \<open>What the users of a bit map rely on, and what follows for a sequence of changes.\<close>

datatype bit_op = SetBit u32 | ClearBit u32

fun bit_pos :: "bit_op \<Rightarrow> u32" where
  "bit_pos (SetBit p) = p"
| "bit_pos (ClearBit p) = p"

fun run_bits :: "('b \<Rightarrow> u32 \<Rightarrow> 'b cres) \<Rightarrow> ('b \<Rightarrow> u32 \<Rightarrow> 'b cres) \<Rightarrow> bit_op list \<Rightarrow> 'b \<Rightarrow> 'b cres" where
  "run_bits s c [] b = Inr b"
| "run_bits s c (SetBit p # ops) b = bindc (s b p) (run_bits s c ops)"
| "run_bits s c (ClearBit p # ops) b = bindc (c b p) (run_bits s c ops)"

fun set_bits :: "bit_op list \<Rightarrow> nat set \<Rightarrow> nat set" where
  "set_bits [] A = A"
| "set_bits (SetBit p # ops) A = set_bits ops (insert (unat p) A)"
| "set_bits (ClearBit p # ops) A = set_bits ops (A - {unat p})"

locale bit_set =
  fixes inv :: "'b \<Rightarrow> bool" and bits :: "'b \<Rightarrow> nat set" and cap :: "'b \<Rightarrow> nat"
    and get_bit :: "'b \<Rightarrow> u32 \<Rightarrow> u64 cres" and put_bit clr_bit :: "'b \<Rightarrow> u32 \<Rightarrow> 'b cres"
  assumes get_law: "inv b \<Longrightarrow> unat p < cap b \<Longrightarrow> \<exists>v. get_bit b p = Inr v \<and> (v \<noteq> 0 \<longleftrightarrow> unat p \<in> bits b)"
    and put_law: "inv b \<Longrightarrow> unat p < cap b \<Longrightarrow>
      \<exists>b'. put_bit b p = Inr b' \<and> inv b' \<and> cap b' = cap b \<and> bits b' = insert (unat p) (bits b)"
    and clr_law: "inv b \<Longrightarrow> unat p < cap b \<Longrightarrow>
      \<exists>b'. clr_bit b p = Inr b' \<and> inv b' \<and> cap b' = cap b \<and> bits b' = bits b - {unat p}"
begin

lemma run_refines:
  assumes "inv b" and "\<And>r. r \<in> set ops \<Longrightarrow> unat (bit_pos r) < cap b"
  shows "\<exists>b'. run_bits put_bit clr_bit ops b = Inr b' \<and> inv b' \<and> cap b' = cap b \<and> bits b' = set_bits ops (bits b)"
  using assms
proof (induction ops arbitrary: b)
  case (Cons r ops)
  show ?case
  proof (cases r)
    case (SetBit p)
    then obtain b1 where "put_bit b p = Inr b1" "inv b1" "cap b1 = cap b" "bits b1 = insert (unat p) (bits b)"
      using put_law[of b p] Cons.prems(1) Cons.prems(2)[of r] by auto
    then show ?thesis using Cons.IH[of b1] Cons.prems(2) SetBit by auto
  next
    case (ClearBit p)
    then obtain b1 where "clr_bit b p = Inr b1" "inv b1" "cap b1 = cap b" "bits b1 = bits b - {unat p}"
      using clr_law[of b p] Cons.prems(1) Cons.prems(2)[of r] by auto
    then show ?thesis using Cons.IH[of b1] Cons.prems(2) ClearBit by auto
  qed
qed simp

end

section \<open>Positions\<close>

lemmas bitmap_consts =
  RTE_BITMAP_SLAB_BIT_SIZE_def RTE_BITMAP_SLAB_BIT_SIZE_LOG2_def RTE_BITMAP_SLAB_BIT_MASK_def RTE_BITMAP_CL_BIT_SIZE_def
  RTE_BITMAP_CL_BIT_SIZE_LOG2_def RTE_BITMAP_CL_SLAB_SIZE_def RTE_BITMAP_CL_SLAB_SIZE_LOG2_def

lemma unat_mask6: "unat ((x :: u32) AND RTE_BITMAP_SLAB_BIT_MASK) = unat x mod 64"
proof -
  have "RTE_BITMAP_SLAB_BIT_MASK = 2 ^ 6 - 1" by (simp add: bitmap_consts)
  then show ?thesis using unat_and_exp[of x 6] by simp
qed

lemma pos_parts:
  "unat (drop_bit RTE_BITMAP_SLAB_BIT_SIZE_LOG2 pos) = unat pos div 64"
  "unat (pos AND RTE_BITMAP_SLAB_BIT_MASK) = unat pos mod 64"
  "unat (bitmap_index1 pos) = unat pos div 512 div 64"
  "unat (bitmap_offset1 pos) = unat pos div 512 mod 64"
  for pos :: u32
  by (simp_all add: unat_mask6 bitmap_offset1_def bitmap_index1_def unat_drop_bit RTE_BITMAP_SLAB_BIT_SIZE_LOG2_def
      RTE_BITMAP_CL_BIT_SIZE_LOG2_def div_mult2_eq[symmetric])

lemma bit_slab_bit: "bit (slab_bit off) i \<longleftrightarrow> i = unat off \<and> i < 64"
  by (auto simp: slab_bit_def bit_simps)

lemma slab_zero_iff: "(v :: u64) = 0 \<longleftrightarrow> (\<forall>i < 64. \<not> bit v i)"
proof
  assume "\<forall>i < 64. \<not> bit v i"
  then show "v = 0" by (intro bit_word_eqI) simp
qed simp

section \<open>Invariant\<close>

definition line_used :: "rte_bitmap \<Rightarrow> nat \<Rightarrow> bool" where
  "line_used b l \<longleftrightarrow> (\<exists>s < length (bm_array2 b). s div 8 = l \<and> bm_array2 b ! s \<noteq> 0)"

definition bitmap_shape :: "rte_bitmap \<Rightarrow> bool" where
  "bitmap_shape b \<longleftrightarrow> length (bm_array1 b) = unat (bm_array1_size b) \<and> (\<exists>k < 32. bm_array1_size b = 2 ^ k) \<and>
     length (bm_array2 b) = unat (bm_array2_size b) \<and> 8 dvd length (bm_array2 b) \<and>
     length (bm_array2 b) div 8 \<le> 64 * length (bm_array1 b) \<and> 64 * length (bm_array2 b) \<le> 2 ^ 32"

definition summary_ok :: "rte_bitmap \<Rightarrow> bool" where
  "summary_ok b \<longleftrightarrow> (\<forall>i < length (bm_array1 b). \<forall>j < 64. bit (bm_array1 b ! i) j \<longleftrightarrow> line_used b (64 * i + j))"

definition scan_ok :: "rte_bitmap \<Rightarrow> bool" where
  "scan_ok b \<longleftrightarrow> bm_index1 b < bm_array1_size b \<and> bm_offset1 b < 64 \<and>
     (bm_go2 b \<noteq> 0 \<longrightarrow> unat (bm_index2 b) < length (bm_array2 b))"

definition bitmap_inv :: "rte_bitmap \<Rightarrow> bool" where
  "bitmap_inv b \<longleftrightarrow> bitmap_shape b \<and> summary_ok b \<and> scan_ok b"

definition bitmap_bits :: "rte_bitmap \<Rightarrow> nat set" where
  "bitmap_bits b = {p. p div 64 < length (bm_array2 b) \<and> bit (bm_array2 b ! (p div 64)) (p mod 64)}"

definition bitmap_cap :: "rte_bitmap \<Rightarrow> nat" where
  "bitmap_cap b = 64 * length (bm_array2 b)"

section \<open>Getting, setting and clearing\<close>

lemma bits_finite: "bitmap_bits b \<subseteq> {..<bitmap_cap b}"
  by (auto simp: bitmap_bits_def bitmap_cap_def)

lemma line_used_bits:
  "line_used b l \<longleftrightarrow> (\<exists>p \<in> bitmap_bits b. p div 512 = l)"
proof
  assume "line_used b l"
  then obtain s j where s: "s < length (bm_array2 b)" "s div 8 = l" "j < 64" "bit (bm_array2 b ! s) j"
    by (auto simp: line_used_def slab_zero_iff)
  then have "64 * s + j \<in> bitmap_bits b" "(64 * s + j) div 512 = l" by (simp_all add: bitmap_bits_def)
  then show "\<exists>p \<in> bitmap_bits b. p div 512 = l" by blast
next
  assume "\<exists>p \<in> bitmap_bits b. p div 512 = l"
  then obtain p where p: "p div 64 < length (bm_array2 b)" "bit (bm_array2 b ! (p div 64)) (p mod 64)" "p div 512 = l"
    by (auto simp: bitmap_bits_def)
  moreover have "bm_array2 b ! (p div 64) \<noteq> 0" using p(2) by auto
  moreover have "p div 64 div 8 = l" using p(3) by (simp add: div_mult2_eq[symmetric])
  ultimately show "line_used b l" by (auto simp: line_used_def)
qed

lemma slab_index:
  "unat pos < bitmap_cap b \<Longrightarrow> unat pos div 64 < length (bm_array2 b)"
  by (simp add: bitmap_cap_def less_mult_imp_div_less mult.commute)

lemma get_bits:
  assumes "unat pos < bitmap_cap b"
  shows "\<exists>v. rte_bitmap_get b pos = Inr v \<and> (v \<noteq> 0 \<longleftrightarrow> unat pos \<in> bitmap_bits b)"
proof -
  note lt = slab_index[OF assms]
  have "v AND slab_bit (pos AND RTE_BITMAP_SLAB_BIT_MASK) \<noteq> 0 \<longleftrightarrow> bit v (unat pos mod 64)" for v
    by (auto simp: slab_zero_iff bit_and_iff bit_slab_bit pos_parts)
  then show ?thesis using lt by (simp add: rte_bitmap_get_def Let_def slab_at_def pos_parts bitmap_bits_def)
qed

text \<open>Changing one slab of the second array.\<close>

lemma bits_update:
  assumes "s < length (bm_array2 b)"
  shows "p \<in> bitmap_bits (b\<lparr>bm_array2 := (bm_array2 b)[s := v]\<rparr>) \<longleftrightarrow>
    (if p div 64 = s then bit v (p mod 64) else p \<in> bitmap_bits b)"
  using assms by (auto simp: bitmap_bits_def nth_list_update)

lemma bits_in_slab:
  assumes "p div 64 = s" and "s < length (bm_array2 b)"
  shows "p \<in> bitmap_bits b \<longleftrightarrow> bit (bm_array2 b ! s) (p mod 64)" and "p = q \<longleftrightarrow> q div 64 = s \<and> q mod 64 = p mod 64"
proof -
  show "p \<in> bitmap_bits b \<longleftrightarrow> bit (bm_array2 b ! s) (p mod 64)" using assms by (simp add: bitmap_bits_def)
  show "p = q \<longleftrightarrow> q div 64 = s \<and> q mod 64 = p mod 64" using assms(1) by (metis div_mult_mod_eq)
qed

lemma bits_or:
  assumes "unat pos < bitmap_cap b"
  shows "bitmap_bits (b\<lparr>bm_array2 := (bm_array2 b)[unat pos div 64 := bm_array2 b ! (unat pos div 64) OR
      slab_bit (pos AND RTE_BITMAP_SLAB_BIT_MASK)]\<rparr>) = insert (unat pos) (bitmap_bits b)"
proof (rule set_eqI)
  fix p
  note lt = slab_index[OF assms]
  show "p \<in> bitmap_bits (b\<lparr>bm_array2 := (bm_array2 b)[unat pos div 64 := bm_array2 b ! (unat pos div 64) OR
      slab_bit (pos AND RTE_BITMAP_SLAB_BIT_MASK)]\<rparr>) \<longleftrightarrow> p \<in> insert (unat pos) (bitmap_bits b)"
  proof (cases "p div 64 = unat pos div 64")
    case True
    note slab = bits_in_slab(1)[OF True lt] bits_in_slab(2)[OF True lt, of "unat pos"]
    show ?thesis unfolding bits_update[OF lt] insert_iff slab using True by (auto simp: bit_or_iff bit_slab_bit pos_parts)
  qed (auto simp: bits_update[OF lt])
qed

lemma bits_and_not:
  assumes "unat pos < bitmap_cap b"
  shows "bitmap_bits (b\<lparr>bm_array2 := (bm_array2 b)[unat pos div 64 := bm_array2 b ! (unat pos div 64) AND
      NOT (slab_bit (pos AND RTE_BITMAP_SLAB_BIT_MASK))]\<rparr>) = bitmap_bits b - {unat pos}"
proof (rule set_eqI)
  fix p
  note lt = slab_index[OF assms]
  show "p \<in> bitmap_bits (b\<lparr>bm_array2 := (bm_array2 b)[unat pos div 64 := bm_array2 b ! (unat pos div 64) AND
      NOT (slab_bit (pos AND RTE_BITMAP_SLAB_BIT_MASK))]\<rparr>) \<longleftrightarrow> p \<in> bitmap_bits b - {unat pos}"
  proof (cases "p div 64 = unat pos div 64")
    case True
    note slab = bits_in_slab(1)[OF True lt] bits_in_slab(2)[OF True lt, of "unat pos"]
    show ?thesis unfolding bits_update[OF lt] Diff_iff singleton_iff slab
      using True by (auto simp: bit_and_iff bit_not_iff bit_slab_bit pos_parts)
  qed (auto simp: bits_update[OF lt])
qed

lemma index1_bound:
  assumes "bitmap_shape b" and "unat pos < bitmap_cap b"
  shows "unat pos div 512 div 64 < length (bm_array1 b)"
proof -
  have "8 dvd length (bm_array2 b)" "length (bm_array2 b) div 8 \<le> 64 * length (bm_array1 b)"
    using assms(1) by (auto simp: bitmap_shape_def)
  moreover have "unat pos div 512 < length (bm_array2 b) div 8"
    using assms(2) calculation(1) by (auto simp: bitmap_cap_def elim!: dvdE)
  ultimately show ?thesis by (intro less_mult_imp_div_less) (simp add: mult.commute)
qed

lemma summary_iff:
  "summary_ok b \<longleftrightarrow> (\<forall>i < length (bm_array1 b). \<forall>j < 64. bit (bm_array1 b ! i) j \<longleftrightarrow> (\<exists>p \<in> bitmap_bits b. p div 512 = 64 * i + j))"
  by (simp add: summary_ok_def line_used_bits)

lemma shape_scan [simp]:
  "bitmap_shape (b\<lparr>bm_index1 := i\<rparr>) = bitmap_shape b" "bitmap_shape (b\<lparr>bm_offset1 := i\<rparr>) = bitmap_shape b"
  "bitmap_shape (b\<lparr>bm_index2 := i\<rparr>) = bitmap_shape b" "bitmap_shape (b\<lparr>bm_go2 := i\<rparr>) = bitmap_shape b"
  by (simp_all add: bitmap_shape_def)

lemma bits_array1 [simp]: "bitmap_bits (b\<lparr>bm_array1 := a\<rparr>) = bitmap_bits b"
  by (simp add: bitmap_bits_def)

text \<open>A change within one line, and the summary bit of that line set to whether the line is in use.\<close>

lemma summary_change:
  assumes "summary_ok b" and "length (bm_array1 b') = length (bm_array1 b)"
    and "\<And>i j. i < length (bm_array1 b) \<Longrightarrow> j < 64 \<Longrightarrow>
      bit (bm_array1 b' ! i) j \<longleftrightarrow> (if 64 * i + j = l then u else bit (bm_array1 b ! i) j)"
    and "\<And>p. p div 512 \<noteq> l \<Longrightarrow> p \<in> bitmap_bits b' \<longleftrightarrow> p \<in> bitmap_bits b"
    and "u \<longleftrightarrow> (\<exists>p \<in> bitmap_bits b'. p div 512 = l)"
  shows "summary_ok b'"
  unfolding summary_iff assms(2)
proof (intro allI impI)
  fix i j :: nat
  assume ij: "i < length (bm_array1 b)" "j < 64"
  show "bit (bm_array1 b' ! i) j \<longleftrightarrow> (\<exists>p \<in> bitmap_bits b'. p div 512 = 64 * i + j)"
  proof (cases "64 * i + j = l")
    case False
    then have "(\<exists>p \<in> bitmap_bits b'. p div 512 = 64 * i + j) \<longleftrightarrow> (\<exists>p \<in> bitmap_bits b. p div 512 = 64 * i + j)"
      using assms(4) by metis
    then show ?thesis using assms(1,3) ij False by (simp add: summary_iff)
  qed (use assms(3,5) ij in simp)
qed

lemma summary_bit:
  assumes "j < 64"
  shows "64 * i + j = unat pos div 512 \<longleftrightarrow> i = unat pos div 512 div 64 \<and> j = unat (bitmap_offset1 pos)"
  unfolding pos_parts
proof
  assume "64 * i + j = unat pos div 512"
  from this[symmetric] show "i = unat pos div 512 div 64 \<and> j = unat pos div 512 mod 64" using assms by simp
qed (simp only: mult_div_mod_eq)

lemma shape_change:
  assumes "bitmap_shape b" and "length a1 = length (bm_array1 b)" and "length a2 = length (bm_array2 b)"
  shows "bitmap_shape (b\<lparr>bm_array2 := a2, bm_array1 := a1\<rparr>)" and "scan_ok b \<Longrightarrow> scan_ok (b\<lparr>bm_array2 := a2, bm_array1 := a1\<rparr>)"
  using assms by (auto simp: bitmap_shape_def scan_ok_def)

lemma set_bits_ok:
  assumes inv: "bitmap_inv b" and pos: "unat pos < bitmap_cap b"
  shows "\<exists>b'. rte_bitmap_set b pos = Inr b' \<and> bitmap_inv b' \<and> bitmap_cap b' = bitmap_cap b \<and>
    bitmap_bits b' = insert (unat pos) (bitmap_bits b)"
proof -
  let ?s = "unat pos div 64" and ?i = "unat pos div 512 div 64"
  have sh: "bitmap_shape b" and su: "summary_ok b" and sc: "scan_ok b" using inv by (auto simp: bitmap_inv_def)
  note lt2 = slab_index[OF pos] and lt1 = index1_bound[OF sh pos]
  define a2 where "a2 = (bm_array2 b)[?s := bm_array2 b ! ?s OR slab_bit (pos AND RTE_BITMAP_SLAB_BIT_MASK)]"
  define a1 where "a1 = (bm_array1 b)[?i := bm_array1 b ! ?i OR slab_bit (bitmap_offset1 pos)]"
  let ?b = "b\<lparr>bm_array2 := a2, bm_array1 := a1\<rparr>"
  have run: "rte_bitmap_set b pos = Inr ?b"
    using lt1 lt2 by (simp add: rte_bitmap_set_def Let_def slab_at_def slab_put_def pos_parts a1_def a2_def)
  have bits: "bitmap_bits (b\<lparr>bm_array2 := a2\<rparr>) = insert (unat pos) (bitmap_bits b)" using bits_or[OF pos] by (simp add: a2_def)
  have "summary_ok ?b"
  proof (rule summary_change[OF su, where l = "unat pos div 512" and u = True])
    fix i j :: nat assume ij: "i < length (bm_array1 b)" "j < 64"
    show "bit (bm_array1 ?b ! i) j \<longleftrightarrow> (if 64 * i + j = unat pos div 512 then True else bit (bm_array1 b ! i) j)"
      unfolding summary_bit[OF ij(2)] using ij lt1 by (auto simp: a1_def nth_list_update bit_or_iff bit_slab_bit)
  qed (auto simp: bits a1_def)
  moreover have "bitmap_shape ?b" "scan_ok ?b" using shape_change[OF sh, of a1 a2] sc by (simp_all add: a1_def a2_def)
  moreover have "bitmap_cap ?b = bitmap_cap b" by (simp add: bitmap_cap_def a2_def)
  ultimately show ?thesis using run bits by (auto simp: bitmap_inv_def)
qed

lemma line_start:
  "unat (drop_bit RTE_BITMAP_SLAB_BIT_SIZE_LOG2 pos AND NOT RTE_BITMAP_CL_SLAB_MASK) = 8 * (unat pos div 512)" for pos :: u32
proof -
  let ?x = "drop_bit RTE_BITMAP_SLAB_BIT_SIZE_LOG2 pos"
  have low: "unat (?x AND RTE_BITMAP_CL_SLAB_MASK) = unat ?x mod 8" unfolding slab_mask using unat_and_exp[of ?x 3] by simp
  have "?x AND RTE_BITMAP_CL_SLAB_MASK \<le> ?x" unfolding word_le_nat_alt low by simp
  then have "unat (?x AND NOT RTE_BITMAP_CL_SLAB_MASK) = unat ?x - unat ?x mod 8"
    unfolding and_not_eq_diff by (simp add: unat_sub_le low)
  also have "\<dots> = 8 * (unat pos div 512)" by (simp add: pos_parts minus_mod_eq_mult_div div_mult2_eq[symmetric])
  finally show ?thesis .
qed

lemma line_bound:
  assumes "bitmap_shape b" and "unat pos < bitmap_cap b"
  shows "8 * (unat pos div 512) + 8 \<le> length (bm_array2 b)" and "64 * length (bm_array2 b) \<le> 2 ^ 32"
proof -
  show "64 * length (bm_array2 b) \<le> 2 ^ 32" using assms(1) by (simp add: bitmap_shape_def)
  have "8 dvd length (bm_array2 b)" using assms(1) by (auto simp: bitmap_shape_def)
  then obtain k where k: "length (bm_array2 b) = 8 * k" ..
  then have "unat pos div 512 < k" using assms(2) by (intro less_mult_imp_div_less) (simp add: bitmap_cap_def)
  then show "8 * (unat pos div 512) + 8 \<le> length (bm_array2 b)" using k by simp
qed

lemma line_not_empty_ok:
  assumes "unat i = 8 * l" and "8 * l + 8 \<le> length slabs" and "64 * length slabs \<le> 2 ^ 32"
  shows "\<exists>v. bitmap_line_not_empty slabs i = Inr v \<and> (v = 0 \<longleftrightarrow> (\<forall>s < length slabs. s div 8 = l \<longrightarrow> slabs ! s = 0))"
proof -
  have or0: "x OR y = 0 \<longleftrightarrow> x = 0 \<and> y = 0" for x y :: u64 by (auto simp: bit_eq_iff bit_or_iff)
  have at: "slab_at slabs (i + of_nat k) = Inr (slabs ! (8 * l + k))" if "k < 8" for k
  proof -
    have "unat (of_nat k :: u32) = k" using that by (simp add: unat_of_nat)
    then have "unat (i + of_nat k) = 8 * l + k" using assms that by (subst unat_add_no_wrap) simp_all
    then show ?thesis using assms(2) that by (simp add: slab_at_def)
  qed
  have line: "(\<forall>s < length slabs. s div 8 = l \<longrightarrow> slabs ! s = 0) \<longleftrightarrow> (\<forall>k \<in> set [0..<8]. slabs ! (8 * l + k) = 0)"
  proof (intro iffI ballI allI impI)
    fix s assume z: "\<forall>k \<in> set [0..<8]. slabs ! (8 * l + k) = 0" and s: "s < length slabs" "s div 8 = l"
    from z have "slabs ! (8 * l + s mod 8) = 0" by simp
    then show "slabs ! s = 0" using s(2) by (metis mult_div_mod_eq)
  next
    fix k assume "\<forall>s < length slabs. s div 8 = l \<longrightarrow> slabs ! s = 0" "k \<in> set [0..<8]"
    then show "slabs ! (8 * l + k) = 0" using assms(2) by simp
  qed
  show ?thesis
    unfolding line using at[of 0] at[of 1] at[of 2] at[of 3] at[of 4] at[of 5] at[of 6] at[of 7]
    by (simp add: bitmap_line_not_empty_def or0 upt_rec Let_def) (simp add: eval_nat_numeral)
qed

text \<open>What is left of the line of a position after its bit is cleared.\<close>

lemma clear_bits_ok:
  assumes inv: "bitmap_inv b" and pos: "unat pos < bitmap_cap b"
  shows "\<exists>b'. rte_bitmap_clear b pos = Inr b' \<and> bitmap_inv b' \<and> bitmap_cap b' = bitmap_cap b \<and>
    bitmap_bits b' = bitmap_bits b - {unat pos}"
proof -
  let ?s = "unat pos div 64" and ?i = "unat pos div 512 div 64" and ?l = "unat pos div 512"
  have sh: "bitmap_shape b" and su: "summary_ok b" and sc: "scan_ok b" using inv by (auto simp: bitmap_inv_def)
  note lt2 = slab_index[OF pos] and lt1 = index1_bound[OF sh pos]
  define v where "v = bm_array2 b ! ?s AND NOT (slab_bit (pos AND RTE_BITMAP_SLAB_BIT_MASK))"
  define a2 where "a2 = (bm_array2 b)[?s := v]"
  define a1 where "a1 = (bm_array1 b)[?i := bm_array1 b ! ?i AND NOT (slab_bit (bitmap_offset1 pos))]"
  have bits: "bitmap_bits (b\<lparr>bm_array2 := a2\<rparr>) = bitmap_bits b - {unat pos}" using bits_and_not[OF pos] by (simp add: a2_def v_def)
  have used: "(\<exists>s < length a2. s div 8 = ?l \<and> a2 ! s \<noteq> 0) \<longleftrightarrow> (\<exists>p \<in> bitmap_bits b - {unat pos}. p div 512 = ?l)"
    using line_used_bits[of "b\<lparr>bm_array2 := a2\<rparr>" ?l] unfolding bits by (simp add: line_used_def)
  define keep where "keep \<longleftrightarrow> (\<exists>p \<in> bitmap_bits b - {unat pos}. p div 512 = ?l)"
  define a where "a = (if keep then bm_array1 b else a1)"
  let ?b = "b\<lparr>bm_array2 := a2, bm_array1 := a\<rparr>"
  obtain w where w: "bitmap_line_not_empty a2 (drop_bit RTE_BITMAP_SLAB_BIT_SIZE_LOG2 pos AND NOT RTE_BITMAP_CL_SLAB_MASK) = Inr w"
      "w \<noteq> 0 \<longleftrightarrow> keep"
  proof -
    have "unat (drop_bit RTE_BITMAP_SLAB_BIT_SIZE_LOG2 pos AND NOT RTE_BITMAP_CL_SLAB_MASK) = 8 * ?l" by (rule line_start)
    moreover have "8 * ?l + 8 \<le> length a2" "64 * length a2 \<le> 2 ^ 32" using line_bound[OF sh pos] by (simp_all add: a2_def)
    ultimately show ?thesis using line_not_empty_ok[of _ ?l a2] used that by (auto simp: keep_def)
  qed
  have vkeep: "v \<noteq> 0 \<Longrightarrow> keep"
  proof -
    assume "v \<noteq> 0"
    moreover have "?s div 8 = ?l" by (simp add: div_mult2_eq[symmetric])
    ultimately show keep unfolding keep_def used[symmetric] using lt2 by (auto simp: a2_def intro!: exI[of _ ?s])
  qed
  have at: "slab_at (bm_array2 b) (drop_bit RTE_BITMAP_SLAB_BIT_SIZE_LOG2 pos) = Inr (bm_array2 b ! ?s)"
      "slab_at (bm_array1 b) (bitmap_index1 pos) = Inr (bm_array1 b ! ?i)"
    and put: "slab_put (bm_array2 b) (drop_bit RTE_BITMAP_SLAB_BIT_SIZE_LOG2 pos) v = Inr a2"
      "slab_put (bm_array1 b) (bitmap_index1 pos) (bm_array1 b ! ?i AND NOT (slab_bit (bitmap_offset1 pos))) = Inr a1"
    using lt1 lt2 by (simp_all add: slab_at_def slab_put_def pos_parts a1_def a2_def)
  have run: "rte_bitmap_clear b pos = Inr ?b"
    using w vkeep by (cases keep) (auto simp: rte_bitmap_clear_def Let_def at v_def[symmetric] put a_def)
  have "summary_ok ?b"
  proof (rule summary_change[OF su, where l = ?l and u = keep])
    fix i j :: nat assume ij: "i < length (bm_array1 b)" "j < 64"
    have "keep \<Longrightarrow> 64 * i + j = ?l \<Longrightarrow> bit (bm_array1 b ! i) j"
      using su ij by (auto simp: summary_iff keep_def)
    then show "bit (bm_array1 ?b ! i) j \<longleftrightarrow> (if 64 * i + j = ?l then keep else bit (bm_array1 b ! i) j)"
      unfolding summary_bit[OF ij(2)]
      using ij lt1 by (auto simp: a_def a1_def nth_list_update bit_and_iff bit_not_iff bit_slab_bit summary_bit[OF ij(2)])
  qed (auto simp: bits keep_def a_def a1_def)
  moreover have "bitmap_shape ?b" "scan_ok ?b" using shape_change[OF sh, of a a2] sc by (simp_all add: a_def a1_def a2_def)
  moreover have "bitmap_cap ?b = bitmap_cap b" by (simp add: bitmap_cap_def a2_def)
  ultimately show ?thesis using run bits by (auto simp: bitmap_inv_def)
qed

interpretation bitmap: bit_set bitmap_inv bitmap_bits bitmap_cap rte_bitmap_get rte_bitmap_set rte_bitmap_clear
proof (unfold_locales, goal_cases)
  case (1 b p)
  then show ?case by (intro get_bits)
next
  case (2 b p)
  then show ?case by (rule set_bits_ok)
next
  case (3 b p)
  then show ?case by (rule clear_bits_ok)
qed

end
