(* ===== verification/Bitmap_Correct.thy ===== *)
theory Bitmap_Correct
  imports Bitmap_Set
begin

text \<open>The scan of a bit map, its initialisation, and the statements about the bit map.\<close>

section \<open>Scanning\<close>

lemma unat_push_bit:
  "unat x * 2 ^ n < 2 ^ LENGTH('a) \<Longrightarrow> n < LENGTH('a) \<Longrightarrow> unat (push_bit n (x :: 'a::len word)) = unat x * 2 ^ n"
  unfolding push_bit_eq_mult by (subst unat_mult_no_wrap) simp_all

text \<open>The next slab, which is in the same line unless the scan of the line stops.\<close>

lemma advance_ok:
  assumes "bitmap_shape b" and "unat (bm_index2 b) < length (bm_array2 b)"
  shows "unat (bm_index2 (bitmap_advance b)) = Suc (unat (bm_index2 b))"
    and "bm_go2 (bitmap_advance b) = 0 \<longleftrightarrow> Suc (unat (bm_index2 b)) mod 8 = 0"
    and "bm_go2 (bitmap_advance b) \<noteq> 0 \<Longrightarrow> Suc (unat (bm_index2 b)) < length (bm_array2 b)"
proof -
  have len: "64 * length (bm_array2 b) \<le> 2 ^ 32" and dvd: "8 dvd length (bm_array2 b)" using assms(1) by (auto simp: bitmap_shape_def)
  show "unat (bm_index2 (bitmap_advance b)) = Suc (unat (bm_index2 b))"
    unfolding bitmap_advance_def using len assms(2) unat_add_no_wrap[of "bm_index2 b" 1] by simp
  show go: "bm_go2 (bitmap_advance b) = 0 \<longleftrightarrow> Suc (unat (bm_index2 b)) mod 8 = 0"
    using advance_go[of b] by (simp add: unat_eq_0[symmetric])
  show "Suc (unat (bm_index2 b)) < length (bm_array2 b)" if "bm_go2 (bitmap_advance b) \<noteq> 0"
    using that assms(2) dvd unfolding go by (metis Suc_lessI dvd_imp_mod_0)
qed

lemma advance_fields [simp]:
  "bm_array1 (bitmap_advance b) = bm_array1 b" "bm_array2 (bitmap_advance b) = bm_array2 b"
  "bitmap_shape (bitmap_advance b) = bitmap_shape b"
  by (simp_all add: bitmap_advance_def bitmap_shape_def)

definition only_scan2 :: "rte_bitmap \<Rightarrow> rte_bitmap \<Rightarrow> bool" where
  "only_scan2 b b' \<longleftrightarrow> (\<exists>i g. b' = b\<lparr>bm_index2 := i, bm_go2 := g\<rparr> \<and> (g \<noteq> 0 \<longrightarrow> unat i < length (bm_array2 b)))"

lemma only_scan2_trans:
  assumes "only_scan2 b b1" and "only_scan2 b1 b2"
  shows "only_scan2 b b2"
proof -
  obtain i g i' g' where "b1 = b\<lparr>bm_index2 := i, bm_go2 := g\<rparr>" "b2 = b1\<lparr>bm_index2 := i', bm_go2 := g'\<rparr>"
      "g' \<noteq> 0 \<longrightarrow> unat i' < length (bm_array2 b1)"
    using assms unfolding only_scan2_def by blast
  then have "b2 = b\<lparr>bm_index2 := i', bm_go2 := g'\<rparr> \<and> (g' \<noteq> 0 \<longrightarrow> unat i' < length (bm_array2 b))" by simp
  then show ?thesis unfolding only_scan2_def by blast
qed

lemma only_scan2_advance:
  assumes "bitmap_shape b" and "unat (bm_index2 b) < length (bm_array2 b)"
  shows "only_scan2 b (bitmap_advance b)"
    using advance_ok(1,3)[OF assms] unfolding only_scan2_def bitmap_advance_def
    by (intro exI[of _ "bm_index2 b + 1"] exI[of _ "(bm_index2 b + 1) AND RTE_BITMAP_CL_SLAB_MASK"]) simp

text \<open>What a scan reports: a slab of the second array that is not 0, and its position.\<close>

definition reported :: "rte_bitmap \<Rightarrow> u32 \<times> u64 \<Rightarrow> bool" where
  "reported b out \<longleftrightarrow> (\<exists>s < length (bm_array2 b). unat (fst out) = 64 * s \<and> snd out = bm_array2 b ! s \<and> snd out \<noteq> 0)"

lemma scan_read_ok:
  assumes "bitmap_shape b" and "bm_go2 b \<noteq> 0 \<Longrightarrow> unat (bm_index2 b) < length (bm_array2 b)"
  shows "\<exists>out b'. bitmap_scan_read b = Inr (out, b') \<and> only_scan2 b b' \<and>
    (case out of None \<Rightarrow> bm_go2 b' = 0 \<and> (bm_go2 b \<noteq> 0 \<longrightarrow>
        (\<forall>s. unat (bm_index2 b) \<le> s \<and> s div 8 = unat (bm_index2 b) div 8 \<longrightarrow> bm_array2 b ! s = 0))
     | Some r \<Rightarrow> reported b r)"
  using assms
proof (induction b rule: bitmap_scan_read.induct)
  case (1 b)
  note sh = 1(2) and lt = 1(3)
  show ?case
  proof (cases "bm_go2 b = 0")
    case True
    then have "bitmap_scan_read b = Inr (None, b)" by (simp add: bitmap_scan_read.simps)
    moreover have "only_scan2 b b" using True unfolding only_scan2_def by (intro exI[of _ "bm_index2 b"] exI[of _ "bm_go2 b"]) simp
    ultimately show ?thesis using True by simp
  next
    case go: False
    let ?i = "unat (bm_index2 b)"
    note lt = lt[OF go]
    note adv = advance_ok[OF sh lt] and only = only_scan2_advance[OF sh lt]
    have at: "slab_at (bm_array2 b) (bm_index2 b) = Inr (bm_array2 b ! ?i)" using lt by (simp add: slab_at_def)
    show ?thesis
    proof (cases "bm_array2 b ! ?i = 0")
      case False
      have "?i * 2 ^ 6 < 2 ^ 32" using lt sh by (simp add: bitmap_shape_def)
      then have "unat (push_bit RTE_BITMAP_SLAB_BIT_SIZE_LOG2 (bm_index2 b)) = 64 * ?i"
        unfolding RTE_BITMAP_SLAB_BIT_SIZE_LOG2_def by (subst unat_push_bit) simp_all
      then have "reported b (push_bit RTE_BITMAP_SLAB_BIT_SIZE_LOG2 (bm_index2 b), bm_array2 b ! ?i)"
        using lt False by (auto simp: reported_def)
      then show ?thesis using go at False only by (subst bitmap_scan_read.simps) simp
    next
      case zero: True
      have "bm_go2 (bitmap_advance b) \<noteq> 0 \<Longrightarrow> unat (bm_index2 (bitmap_advance b)) < length (bm_array2 (bitmap_advance b))"
        using adv by simp
      from 1(1)[OF go at _ _ this] zero sh obtain out b' where
        run: "bitmap_scan_read (bitmap_advance b) = Inr (out, b')" and os: "only_scan2 (bitmap_advance b) b'" and
        res: "case out of None \<Rightarrow> bm_go2 b' = 0 \<and> (bm_go2 (bitmap_advance b) \<noteq> 0 \<longrightarrow>
          (\<forall>s. Suc ?i \<le> s \<and> s div 8 = Suc ?i div 8 \<longrightarrow> bm_array2 b ! s = 0)) | Some r \<Rightarrow> reported (bitmap_advance b) r"
        unfolding adv(1) advance_fields by auto
      have "bm_array2 b ! s = 0" if none: "out = None" and s: "?i \<le> s" "s div 8 = ?i div 8" for s
      proof (cases "s = ?i")
        case False
        then have "Suc ?i \<le> s" using s(1) by simp
        then have "Suc ?i div 8 \<le> ?i div 8" using div_le_mono[of "Suc ?i" s 8] s(2) by simp
        then have "Suc ?i mod 8 \<noteq> 0 \<and> s div 8 = Suc ?i div 8" using s(2) div_Suc[of ?i 8] by (auto split: if_splits)
        then show ?thesis using res none adv(2) \<open>Suc ?i \<le> s\<close> by simp
      qed (simp add: zero)
      then show ?thesis
        using go at zero run only_scan2_trans[OF only os] res
        by (subst bitmap_scan_read.simps) (auto simp: reported_def split: option.splits)
    qed
  qed
qed

lemma bsf64_safe_ok:
  "\<exists>found k. rte_bsf64_safe v off = Inr (found, k) \<and> (if found then unat k < 64 \<and> bit v (unat k) else v = 0 \<and> k = off)"
proof (cases "v = 0")
  case False
  then obtain i where i: "i < 64" "bit v i" by (auto simp: slab_zero_iff)
  define k where "k = (LEAST i. bit v i)"
  have k: "bit v k" "k \<le> i" "\<And>j. j < k \<Longrightarrow> \<not> bit v j"
    unfolding k_def using i(2) by (auto intro: LeastI Least_le dest: not_less_Least)
  then have "count_zeros (bit v) 64 = k" using i(1) by (intro count_zeros_eq) auto
  moreover have "unat (of_nat k :: u32) = k" using k(2) i(1) by (simp add: unat_of_nat)
  ultimately show ?thesis
    using False k i(1) by (intro exI[of _ True] exI[of _ "of_nat k"]) (simp add: rte_bsf64_safe_def rte_bsf64_def builtin_ctz_def)
qed (intro exI[of _ False], simp add: rte_bsf64_safe_def)

definition only_scan1 :: "rte_bitmap \<Rightarrow> rte_bitmap \<Rightarrow> bool" where
  "only_scan1 b b' \<longleftrightarrow> (\<exists>i k. b' = b\<lparr>bm_index1 := i, bm_offset1 := k\<rparr> \<and> i < bm_array1_size b \<and> k < 64)"

lemma index1_inc_ok:
  assumes "bitmap_shape b"
  shows "unat (bm_index1 (bitmap_index1_inc b)) = Suc (unat (bm_index1 b)) mod length (bm_array1 b)"
    and "bm_index1 (bitmap_index1_inc b) < bm_array1_size b"
proof -
  obtain k where k: "k < 32" "bm_array1_size b = 2 ^ k" "length (bm_array1 b) = 2 ^ k" using assms by (auto simp: bitmap_shape_def)
  show u: "unat (bm_index1 (bitmap_index1_inc b)) = Suc (unat (bm_index1 b)) mod length (bm_array1 b)"
    using unat_and_exp[of "bm_index1 b + 1" k] unat_add_mod_exp[of k "bm_index1 b" 1] k by (simp add: bitmap_index1_inc_def)
  show "bm_index1 (bitmap_index1_inc b) < bm_array1_size b"
    unfolding word_less_nat_alt u using k by simp
qed

lemma wrap_reaches:
  assumes "q < n" and "i < n"
  shows "\<exists>m < n. (i + m) mod n = (q :: nat)"
proof (cases "i \<le> q")
  case True
  then show ?thesis using assms by (intro exI[of _ "q - i"]) auto
next
  case False
  then have "i + (n + q - i) = q + n" "n + q - i < n" using assms by auto
  then show ?thesis using assms by (intro exI[of _ "n + q - i"]) simp
qed

lemma search_slabs_ok:
  assumes "bitmap_shape b" and "bm_index1 b < bm_array1_size b" and "bm_offset1 b < 64"
  shows "\<exists>found b'. bitmap_search_slabs n b = Inr (found, b') \<and> only_scan1 b b' \<and>
    (if found then bit (bm_array1 b ! unat (bm_index1 b')) (unat (bm_offset1 b'))
     else (\<forall>m < n. bm_array1 b ! ((unat (bm_index1 b) + m) mod length (bm_array1 b)) = 0))"
  using assms
proof (induction n arbitrary: b)
  case 0
  then show ?case unfolding only_scan1_def
    by (intro exI[of _ False] exI[of _ b] conjI exI[of _ "bm_index1 b"] exI[of _ "bm_offset1 b"]) simp_all
next
  case (Suc n)
  let ?i = "unat (bm_index1 b)" and ?N = "length (bm_array1 b)"
  have lt: "?i < ?N" using Suc.prems by (simp add: bitmap_shape_def word_less_nat_alt)
  have at: "slab_at (bm_array1 b) (bm_index1 b) = Inr (bm_array1 b ! ?i)" using lt by (simp add: slab_at_def)
  obtain found k where bsf: "rte_bsf64_safe (bm_array1 b ! ?i) (bm_offset1 b) = Inr (found, k)"
      "if found then unat k < 64 \<and> bit (bm_array1 b ! ?i) (unat k) else bm_array1 b ! ?i = 0 \<and> k = bm_offset1 b"
    using bsf64_safe_ok by blast
  show ?case
  proof (cases found)
    case True
    then have "only_scan1 b (b\<lparr>bm_offset1 := k\<rparr>)" unfolding only_scan1_def using bsf(2) Suc.prems(2)
      by (intro exI[of _ "bm_index1 b"] exI[of _ k]) (simp add: word_less_nat_alt)
    then show ?thesis using True at bsf by (intro exI[of _ True] exI[of _ "b\<lparr>bm_offset1 := k\<rparr>"]) simp
  next
    case False
    let ?b = "bitmap_index1_inc b"
    note inc = index1_inc_ok[OF Suc.prems(1)]
    have f: "bm_array1 ?b = bm_array1 b" "bm_array1_size ?b = bm_array1_size b" "bm_offset1 ?b = bm_offset1 b" "bitmap_shape ?b"
      using Suc.prems(1) by (simp_all add: bitmap_index1_inc_def)
    obtain found' b' where IH: "bitmap_search_slabs n ?b = Inr (found', b')" "only_scan1 ?b b'"
        "if found' then bit (bm_array1 b ! unat (bm_index1 b')) (unat (bm_offset1 b'))
         else (\<forall>m < n. bm_array1 b ! ((Suc ?i mod ?N + m) mod ?N) = 0)"
      using Suc.IH[OF f(4), unfolded f(1-3) inc(1)] inc(2) Suc.prems(3) by blast
    have "only_scan1 b b'" using IH(2) by (auto simp: only_scan1_def bitmap_index1_inc_def)
    moreover have "bm_array1 b ! ((?i + m) mod ?N) = 0" if "\<not> found'" "m < Suc n" for m
    proof (cases m)
      case 0
      then show ?thesis using bsf(2) False lt by simp
    next
      case (Suc m')
      then have "bm_array1 b ! ((Suc ?i mod ?N + m') mod ?N) = 0" using IH(3) that by simp
      then show ?thesis using Suc by (simp add: mod_add_left_eq)
    qed
    ultimately show ?thesis using False at bsf(1) IH(1,3) by (intro exI[of _ found'] exI[of _ b']) auto
  qed
qed

lemma scan_search_ok:
  assumes sh: "bitmap_shape b" and i: "bm_index1 b < bm_array1_size b" and off: "bm_offset1 b < 64"
  shows "\<exists>found b'. bitmap_scan_search b = Inr (found, b') \<and> only_scan1 b b' \<and>
    (if found then bit (bm_array1 b ! unat (bm_index1 b')) (unat (bm_offset1 b')) else (\<forall>v \<in> set (bm_array1 b). v = 0))"
proof -
  let ?i = "unat (bm_index1 b)" and ?N = "length (bm_array1 b)"
  have N: "?N = unat (bm_array1_size b)" using sh by (simp add: bitmap_shape_def)
  then have at: "slab_at (bm_array1 b) (bm_index1 b) = Inr (bm_array1 b ! ?i)" using i by (simp add: slab_at_def word_less_nat_alt)
  obtain found k where bsf: "rte_bsf64_safe (bm_array1 b ! ?i AND bitmap_mask1_get b) (bm_offset1 b) = Inr (found, k)"
      "if found then unat k < 64 \<and> bit (bm_array1 b ! ?i AND bitmap_mask1_get b) (unat k)
       else bm_array1 b ! ?i AND bitmap_mask1_get b = 0 \<and> k = bm_offset1 b"
    using bsf64_safe_ok by blast
  show ?thesis
  proof (cases found)
    case True
    then have "only_scan1 b (b\<lparr>bm_offset1 := k\<rparr>)" unfolding only_scan1_def using bsf(2) i
      by (intro exI[of _ "bm_index1 b"] exI[of _ k]) (simp add: word_less_nat_alt)
    then show ?thesis using True at bsf
      by (intro exI[of _ True] exI[of _ "b\<lparr>bm_offset1 := k\<rparr>"]) (simp add: bitmap_scan_search_def bit_and_iff)
  next
    case False
    let ?b = "(bitmap_index1_inc b)\<lparr>bm_offset1 := 0\<rparr>"
    note inc = index1_inc_ok[OF sh]
    have f: "bm_array1 ?b = bm_array1 b" "bm_array1_size ?b = bm_array1_size b" "bitmap_shape ?b"
        "bm_index1 ?b = bm_index1 (bitmap_index1_inc b)" "bm_offset1 ?b = 0"
      using sh by (simp_all add: bitmap_index1_inc_def)
    obtain found' b' where s: "bitmap_search_slabs ?N ?b = Inr (found', b')" "only_scan1 ?b b'"
        "if found' then bit (bm_array1 b ! unat (bm_index1 b')) (unat (bm_offset1 b'))
         else (\<forall>m < ?N. bm_array1 b ! ((Suc ?i mod ?N + m) mod ?N) = 0)"
      using search_slabs_ok[OF f(3), unfolded f inc(1), of ?N] inc(2) by auto
    have "only_scan1 b b'" using s(2) by (auto simp: only_scan1_def bitmap_index1_inc_def)
    moreover have "bm_array1 b ! q = 0" if "\<not> found'" "q < ?N" for q
    proof -
      have "\<exists>m < ?N. (Suc ?i mod ?N + m) mod ?N = q" using that(2) by (intro wrap_reaches mod_less_divisor) auto
      then show ?thesis using s(3) that(1) by auto
    qed
    then have "\<not> found' \<Longrightarrow> \<forall>v \<in> set (bm_array1 b). v = 0" by (auto simp: in_set_conv_nth)
    ultimately show ?thesis using False at bsf(1) s N
      by (intro exI[of _ found'] exI[of _ b']) (auto simp: bitmap_scan_search_def)
  qed
qed

lemma line_read_init:
  assumes "bitmap_shape b" and "line_used b l" and "l = 64 * unat (bm_index1 b) + unat (bm_offset1 b)"
  shows "unat (bm_index2 (bitmap_scan_read_init b)) = 8 * l" and "8 * l < length (bm_array2 b)"
proof -
  obtain s where s: "s < length (bm_array2 b)" "s div 8 = l" using assms(2) by (auto simp: line_used_def)
  then show lt: "8 * l < length (bm_array2 b)" using div_times_less_eq_dividend[of s 8] by simp
  moreover have "64 * length (bm_array2 b) \<le> 2 ^ 32" using assms(1) by (simp add: bitmap_shape_def)
  ultimately have small: "64 * (8 * l) < 2 ^ 32" by linarith
  then have "unat (push_bit 6 (bm_index1 b)) = unat (bm_index1 b) * 2 ^ 6" unfolding assms(3) by (intro unat_push_bit) simp_all
  then have "unat (push_bit 6 (bm_index1 b) + bm_offset1 b) = l" using small unfolding assms(3) by (subst unat_add_no_wrap) simp_all
  then have "unat (push_bit 3 (push_bit 6 (bm_index1 b) + bm_offset1 b)) = 8 * l" using small by (subst unat_push_bit) simp_all
  then show "unat (bm_index2 (bitmap_scan_read_init b)) = 8 * l"
    by (simp add: bitmap_scan_read_init_def bitmap_index2_set_def bitmap_consts)
qed

lemma scan_fields:
  assumes "only_scan2 b b' \<or> only_scan1 b b'"
  shows "bm_array1 b' = bm_array1 b" "bm_array2 b' = bm_array2 b" "bitmap_shape b' = bitmap_shape b" "summary_ok b' = summary_ok b"
    "bitmap_bits b' = bitmap_bits b" "bm_array1_size b' = bm_array1_size b" "reported b' = reported b" "line_used b' = line_used b"
  using assms
  by (auto simp: only_scan2_def only_scan1_def summary_ok_def line_used_def bitmap_bits_def reported_def fun_eq_iff)

lemma scan_search_line:
  assumes inv: "bitmap_inv b"
  shows "\<exists>found b'. bitmap_scan_search b = Inr (found, b') \<and> only_scan1 b b' \<and>
    (if found then line_used b (64 * unat (bm_index1 b') + unat (bm_offset1 b')) else bitmap_bits b = {})"
proof -
  have sh: "bitmap_shape b" and su: "summary_ok b" and sc: "bm_index1 b < bm_array1_size b" "bm_offset1 b < 64"
    using inv by (auto simp: bitmap_inv_def scan_ok_def)
  obtain found b' where s: "bitmap_scan_search b = Inr (found, b')" "only_scan1 b b'"
      "if found then bit (bm_array1 b ! unat (bm_index1 b')) (unat (bm_offset1 b')) else (\<forall>v \<in> set (bm_array1 b). v = 0)"
    using scan_search_ok[OF sh sc] by blast
  have "line_used b (64 * unat (bm_index1 b') + unat (bm_offset1 b'))" if found
  proof -
    have "unat (bm_index1 b') < length (bm_array1 b)" "unat (bm_offset1 b') < 64"
      using s(2) sh by (auto simp: only_scan1_def bitmap_shape_def word_less_nat_alt)
    then show ?thesis using su s(3) that by (simp add: summary_ok_def)
  qed
  moreover have "bitmap_bits b = {}" if "\<not> found"
  proof (rule ccontr)
    assume "bitmap_bits b \<noteq> {}"
    then obtain p where p: "p \<in> bitmap_bits b" by blast
    then have lt: "p < bitmap_cap b" using bits_finite by blast
    then have u: "unat (of_nat p :: u32) = p"
      using sh by (simp add: unat_of_nat bitmap_cap_def bitmap_shape_def take_bit_nat_eq_self)
    have i: "p div 512 div 64 < length (bm_array1 b)" using index1_bound[OF sh, of "of_nat p :: u32"] lt unfolding u by blast
    have "p div 512 = 64 * (p div 512 div 64) + p div 512 mod 64" by simp
    then have "bit (bm_array1 b ! (p div 512 div 64)) (p div 512 mod 64)"
      using su p i unfolding summary_iff by (metis mod_less_divisor zero_less_numeral)
    moreover have "bm_array1 b ! (p div 512 div 64) = 0" using s(3) that nth_mem[OF i] by auto
    ultimately show False by simp
  qed
  ultimately show ?thesis using s by auto
qed

lemma scan_keeps:
  assumes "bitmap_inv b"
  shows "only_scan2 b b' \<Longrightarrow> bitmap_inv b'" and "only_scan1 b b' \<Longrightarrow> bm_go2 b = 0 \<Longrightarrow> bitmap_inv b'"
proof -
  show "bitmap_inv b'" if o: "only_scan2 b b'"
    using assms scan_fields[OF disjI1[OF o]] o unfolding bitmap_inv_def scan_ok_def only_scan2_def by auto
  show "bitmap_inv b'" if o: "only_scan1 b b'" and "bm_go2 b = 0"
    using assms scan_fields[OF disjI2[OF o]] that unfolding bitmap_inv_def scan_ok_def only_scan1_def by auto
qed

lemma reported_nonempty: "reported b r \<Longrightarrow> bitmap_bits b \<noteq> {}"
proof -
  assume "reported b r"
  then obtain s j where "s < length (bm_array2 b)" "j < 64" "bit (bm_array2 b ! s) j"
    by (auto simp: reported_def slab_zero_iff)
  then have "64 * s + j \<in> bitmap_bits b" by (simp add: bitmap_bits_def)
  then show ?thesis by blast
qed

lemma scan_ok_run:
  assumes inv: "bitmap_inv b"
  shows "\<exists>ret out b'. rte_bitmap_scan b = Inr (ret, out, b') \<and> bitmap_inv b' \<and> bm_array1 b' = bm_array1 b \<and> bm_array2 b' = bm_array2 b \<and>
    (if bitmap_bits b = {} then ret = 0 \<and> out = None else ret = 1 \<and> (\<exists>r. out = Some r \<and> reported b r))"
proof -
  have sh: "bitmap_shape b" and sc: "bm_go2 b \<noteq> 0 \<Longrightarrow> unat (bm_index2 b) < length (bm_array2 b)"
    using inv by (auto simp: bitmap_inv_def scan_ok_def)
  obtain out b1 where r1: "bitmap_scan_read b = Inr (out, b1)" "only_scan2 b b1"
      "case out of None \<Rightarrow> bm_go2 b1 = 0 | Some r \<Rightarrow> reported b r"
    using scan_read_ok[OF sh sc] by (fastforce split: option.splits)
  note f1 = scan_fields[OF disjI1[OF r1(2)]]
  note inv1 = scan_keeps(1)[OF inv r1(2)]
  show ?thesis
  proof (cases out)
    case (Some r)
    then show ?thesis using r1 inv1 f1 reported_nonempty[of b r] by (simp add: rte_bitmap_scan_def del: split_paired_Ex)
  next
    case None
    then have go: "bm_go2 b1 = 0" using r1(3) by simp
    obtain found b2 where r2: "bitmap_scan_search b1 = Inr (found, b2)" "only_scan1 b1 b2"
        "if found then line_used b1 (64 * unat (bm_index1 b2) + unat (bm_offset1 b2)) else bitmap_bits b1 = {}"
      using scan_search_line[OF inv1] by blast
    note f2 = scan_fields[OF disjI2[OF r2(2)]]
    note inv2 = scan_keeps(2)[OF inv1 r2(2) go]
    show ?thesis
    proof (cases found)
      case False
      then show ?thesis using None r1(1) r2 inv2 f1 f2 by (simp add: rte_bitmap_scan_def del: split_paired_Ex)
    next
      case True
      let ?l = "64 * unat (bm_index1 b2) + unat (bm_offset1 b2)" and ?b3 = "bitmap_scan_read_init b2"
      have used: "line_used b2 ?l" using r2(3) True f2 by simp
      have sh2: "bitmap_shape b2" using inv2 by (simp add: bitmap_inv_def)
      note line = line_read_init[OF sh2 used refl]
      have "?b3 = b2\<lparr>bm_index2 := bm_index2 ?b3, bm_go2 := 1\<rparr>" by (simp add: bitmap_scan_read_init_def bitmap_index2_set_def)
      then have o3: "only_scan2 b2 ?b3" unfolding only_scan2_def using line by (metis (no_types))
      note f3 = scan_fields[OF disjI1[OF o3]]
      have "bitmap_shape ?b3" "unat (bm_index2 ?b3) < length (bm_array2 ?b3)" using sh2 line by (simp_all add: f3)
      from scan_read_ok[OF this] obtain out b4 where r4: "bitmap_scan_read ?b3 = Inr (out, b4)" "only_scan2 ?b3 b4"
          "case out of None \<Rightarrow> \<forall>s. 8 * ?l \<le> s \<and> s div 8 = ?l \<longrightarrow> bm_array2 b2 ! s = 0 | Some r \<Rightarrow> reported b2 r"
        unfolding line(1) f3 by (fastforce simp: bitmap_scan_read_init_def split: option.splits)
      note f4 = scan_fields[OF disjI1[OF r4(2)]]
      obtain r where r: "out = Some r" "reported b2 r"
      proof (cases out)
        case None
        obtain s where "s < length (bm_array2 b2)" "s div 8 = ?l" "bm_array2 b2 ! s \<noteq> 0" using used by (auto simp: line_used_def)
        moreover have "8 * ?l \<le> s" using calculation(2) div_times_less_eq_dividend[of s 8] by simp
        ultimately show ?thesis using r4(3) None by auto
      qed (use r4(3) that in auto)
      note inv4 = scan_keeps(1)[OF inv2 only_scan2_trans[OF o3 r4(2)]]
      have "reported b r" using r(2) f1 f2 by simp
      then show ?thesis using None True r1(1) r2(1) r4(1) r(1) f1 f2 f3 f4 inv4 reported_nonempty[of b r]
        by (simp add: rte_bitmap_scan_def del: split_paired_Ex)
    qed
  qed
qed

section \<open>Initialisation\<close>

lemma unat_div_exp: "unat ((x :: u32) div 2 ^ n) = unat x div 2 ^ n" if "n < 32"
  using that by (simp add: unat_div)

lemma unat_round_up:
  assumes "unat (x :: u32) + (2 ^ n - 1) < 2 ^ 32" and "n < 32"
  shows "unat ((x + 2 ^ n - 1) div 2 ^ n) = (unat x + (2 ^ n - 1)) div 2 ^ n"
proof -
  have one: "unat (2 ^ n - 1 :: u32) = 2 ^ n - 1" using assms(2) by (simp add: unat_minus_one)
  have eq: "x + 2 ^ n - 1 = x + (2 ^ n - 1)" by simp
  have add: "unat (x + (2 ^ n - 1)) = unat x + (2 ^ n - 1)" using assms(1) unfolding one[symmetric] by (intro unat_add_no_wrap) simp
  show ?thesis by (simp only: unat_div_exp[OF assms(2)] eq add)
qed

text \<open>The numbers of lines and slabs, without wrap-around.\<close>

lemma footprint_ok:
  assumes "n \<noteq> 0" and "unat n + 511 < 2 ^ 32"
  shows "\<exists>bytes off1 s1 off2 s2 l k. bitmap_memory_footprint n = (bytes, off1, s1, off2, s2) \<and> unat s2 = 8 * l \<and>
    k < 32 \<and> s1 = 2 ^ k \<and> l \<le> 64 * 2 ^ k \<and> unat n \<le> 512 * l \<and> 512 * l \<le> 2 ^ 32 \<and>
    unat off1 = 40 \<and> unat off1 + 8 * unat s1 \<le> unat off2 \<and> unat bytes = unat off2 + 8 * unat s2"
proof -
  define L where "L = (n + 512 - 1) div (512 :: u32)"
  define S where "S = (L + 64 - 1) div (64 :: u32)"
  define C where "C = (5 + rte_align32pow2 S + 8 - 1) div (8 :: u32)"
  have n: "0 < unat n" using assms(1) by (simp add: unat_gt_0)
  have uL: "unat L = (unat n + 511) div 512" using unat_round_up[of n 9] assms(2) by (simp add: L_def)
  have small: "unat n + 511 < 4294967296" using assms(2) by simp
  have L: "0 < unat L" "unat L \<le> 8388608" "unat n \<le> 512 * unat L" using n small unfolding uL by linarith+
  have uS: "unat S = (unat L + 63) div 64" using unat_round_up[of L 6] L(2) by (simp add: S_def)
  have S: "0 < unat S" "unat S \<le> 131072" "unat L \<le> 64 * unat S" using L unfolding uS by linarith+
  then have "S \<noteq> 0" "S \<le> 2 ^ 31" by (auto simp: word_le_nat_alt unat_gt_0)
  from align32pow2_word[OF this] obtain k where k: "k < 32" "rte_align32pow2 S = 2 ^ k" "unat S \<le> 2 ^ k" "\<forall>m. unat S \<le> 2 ^ m \<longrightarrow> k \<le> m"
    by blast
  have "unat S \<le> 2 ^ 17" using S(2) by simp
  then have "k \<le> 17" using k(4) by blast
  then have k17: "(2 :: nat) ^ k \<le> 2 ^ 17" by (intro power_increasing) simp_all
  have uC0: "unat (5 + 2 ^ k :: u32) = 5 + 2 ^ k" using k(1) k17 by (subst unat_add_no_wrap) simp_all
  then have uC: "unat C = (5 + 2 ^ k + 7) div 8" using unat_round_up[of "5 + 2 ^ k" 3] k17 by (simp add: C_def k(2))
  have "(2 :: nat) ^ k \<le> 131072" using k17 by simp
  then have C: "unat C \<le> 32768" "5 + 2 ^ k \<le> 8 * unat C" unfolding uC by linarith+
  have u2: "unat (L * 8) = 8 * unat L" using L(2) by (subst unat_mult_no_wrap) simp_all
  have u3: "unat (C * 64) = 64 * unat C" using C(1) by (subst unat_mult_no_wrap) simp_all
  have "unat (C + L) = unat C + unat L" using C(1) L(2) by (subst unat_add_no_wrap) simp_all
  then have u4: "unat ((C + L) * 64) = 64 * unat C + 64 * unat L" using C(1) L(2) by (subst unat_mult_no_wrap) simp_all
  have "bitmap_memory_footprint n = ((C + L) * 64, 40, 2 ^ k, C * 64, L * 8)"
    unfolding k(2)[symmetric]
    by (simp add: bitmap_memory_footprint_def Let_def SIZEOF_RTE_BITMAP_def bitmap_consts L_def S_def C_def)
  moreover have "unat L \<le> 64 * 2 ^ k" using S(3) k(3) by linarith
  moreover have "unat (2 ^ k :: u32) = 2 ^ k" using k(1) by simp
  ultimately show ?thesis
    using u2 u3 u4 k(1) L C(2) by (intro exI[of _ "unat L"] exI conjI) auto
qed

lemma zero_bitmap_inv:
  assumes "k < 32" and "length a1 = 2 ^ k" and "set a1 \<subseteq> {0}" and "set a2 \<subseteq> {0}" and "unat n2 = length a2"
    and "length a2 = 8 * l" and "l \<le> 64 * 2 ^ k" and "512 * l \<le> 2 ^ 32"
    and b: "b = bitmap_scan_init \<lparr>bm_array1 = a1, bm_array2 = a2, bm_array1_size = 2 ^ k, bm_array2_size = n2,
      bm_index1 = i1, bm_offset1 = o1, bm_index2 = i2, bm_go2 = g\<rparr>"
  shows "bitmap_inv b" and "bitmap_bits b = {}" and "bm_array1 b = a1" and "bm_array2 b = a2"
proof -
  have f: "bm_array1 b = a1" "bm_array2 b = a2" "bm_array1_size b = 2 ^ k" "bm_array2_size b = n2"
      "bm_index1 b = 2 ^ k - 1" "bm_offset1 b = 63" "bm_go2 b = 0"
    by (simp_all add: b bitmap_scan_init_def bitmap_index2_set_def RTE_BITMAP_SLAB_BIT_SIZE_def)
  have z1: "a1 ! i = 0" if "i < length a1" for i using assms(3) nth_mem[OF that] by blast
  have z2: "a2 ! s = 0" if "s < length a2" for s using assms(4) nth_mem[OF that] by blast
  show "bm_array1 b = a1" "bm_array2 b = a2" by (rule f)+
  have "bitmap_shape b" unfolding bitmap_shape_def f using assms by auto
  moreover have "summary_ok b" unfolding summary_ok_def line_used_def f using z1 z2 by auto
  moreover have "(2 ^ k - 1 :: u32) < 2 ^ k" using assms(1) by (simp add: word_less_nat_alt unat_minus_one)
  then have "scan_ok b" unfolding scan_ok_def f by simp
  ultimately show "bitmap_inv b" by (simp add: bitmap_inv_def)
  show "bitmap_bits b = {}" unfolding bitmap_bits_def f using z2 by auto
qed

section \<open>Statements\<close>

text \<open>C26: A bit map behaves as a set of positions: after any sequence of rte\_bitmap\_set and rte\_bitmap\_clear at
  positions below its capacity the invariant holds, with the summary array exact, and rte\_bitmap\_get reads exactly the
  positions that were set and not cleared since.\<close>

theorem bitmap_refines_set:
  assumes "bitmap_inv b" and "\<forall>r \<in> set ops. unat (bit_pos r) < bitmap_cap b" and "unat pos < bitmap_cap b"
  shows "\<exists>b' v. run_bits rte_bitmap_set rte_bitmap_clear ops b = Inr b' \<and> bitmap_inv b' \<and>
    bitmap_bits b' = set_bits ops (bitmap_bits b) \<and> rte_bitmap_get b' pos = Inr v \<and>
    (v \<noteq> 0 \<longleftrightarrow> unat pos \<in> set_bits ops (bitmap_bits b))"
proof -
  obtain b' where b': "run_bits rte_bitmap_set rte_bitmap_clear ops b = Inr b'" "bitmap_inv b'" "bitmap_cap b' = bitmap_cap b"
      "bitmap_bits b' = set_bits ops (bitmap_bits b)"
    using bitmap.run_refines[OF assms(1), of ops] assms(2) by blast
  moreover obtain v where "rte_bitmap_get b' pos = Inr v" "v \<noteq> 0 \<longleftrightarrow> unat pos \<in> bitmap_bits b'"
    using bitmap.get_law[OF b'(2)] assms(3) b'(3) by metis
  ultimately show ?thesis by auto
qed

definition demo_bitmap :: rte_bitmap where
  "demo_bitmap = bitmap_scan_init \<lparr>bm_array1 = [0], bm_array2 = replicate 8 0, bm_array1_size = 2 ^ 0, bm_array2_size = 8,
     bm_index1 = 0, bm_offset1 = 0, bm_index2 = 0, bm_go2 = 0\<rparr>"

lemma demo_bitmap_ok: "bitmap_inv demo_bitmap" "bitmap_bits demo_bitmap = {}" "bitmap_cap demo_bitmap = 512"
proof -
  note z = zero_bitmap_inv[OF _ _ _ _ _ _ _ _ demo_bitmap_def, of 1]
  show "bitmap_inv demo_bitmap" "bitmap_bits demo_bitmap = {}" by (rule z; simp)+
  have "bm_array2 demo_bitmap = replicate 8 0" by (rule z; simp)
  then show "bitmap_cap demo_bitmap = 512" by (simp add: bitmap_cap_def)
qed

theorem bitmap_refines_set_witness:
  "\<exists>b' v. run_bits rte_bitmap_set rte_bitmap_clear [SetBit 70, SetBit 300, ClearBit 70] demo_bitmap = Inr b' \<and>
    bitmap_bits b' = {300} \<and> rte_bitmap_get b' 300 = Inr v \<and> v \<noteq> 0"
proof -
  have "\<forall>r \<in> set [SetBit 70, SetBit 300, ClearBit 70]. unat (bit_pos r) < bitmap_cap demo_bitmap" "unat (300 :: u32) < bitmap_cap demo_bitmap"
    by (simp_all add: demo_bitmap_ok(3))
  from bitmap_refines_set[OF demo_bitmap_ok(1) this] show ?thesis by (auto simp: demo_bitmap_ok(2))
qed

text \<open>C27: A scan returns 0 exactly when no bit is set; otherwise it returns 1 with a slab that has a bit set
  and the position of its first bit.  It changes no bit and can be repeated.\<close>

theorem bitmap_scan_finds:
  assumes "bitmap_inv b"
  shows "\<exists>ret out b'. rte_bitmap_scan b = Inr (ret, out, b') \<and> bitmap_inv b' \<and> bitmap_bits b' = bitmap_bits b \<and>
    (if bitmap_bits b = {} then ret = 0 \<and> out = None
     else ret = 1 \<and> (\<exists>pos slab. out = Some (pos, slab) \<and> slab \<noteq> 0 \<and> unat pos mod 64 = 0 \<and>
       (\<forall>j < 64. bit slab j \<longleftrightarrow> unat pos + j \<in> bitmap_bits b)))"
proof -
  obtain ret out b' where run: "rte_bitmap_scan b = Inr (ret, out, b')" "bitmap_inv b'" "bm_array2 b' = bm_array2 b"
      "if bitmap_bits b = {} then ret = 0 \<and> out = None else ret = 1 \<and> (\<exists>r. out = Some r \<and> reported b r)"
    using scan_ok_run[OF assms] by blast
  have "slab \<noteq> 0 \<and> unat pos mod 64 = 0 \<and> (\<forall>j < 64. bit slab j \<longleftrightarrow> unat pos + j \<in> bitmap_bits b)"
    if "reported b (pos, slab)" for pos slab
    using that by (auto simp: reported_def bitmap_bits_def)
  moreover have "bitmap_bits b' = bitmap_bits b" using run(3) by (simp add: bitmap_bits_def)
  ultimately show ?thesis using run by (auto split: if_splits)
qed

theorem bitmap_scan_finds_witness:
  "\<exists>b out b'. rte_bitmap_set demo_bitmap 300 = Inr b \<and> rte_bitmap_scan b = Inr (1, Some out, b')"
proof -
  obtain b where b: "rte_bitmap_set demo_bitmap 300 = Inr b" "bitmap_inv b" "bitmap_bits b = {300}"
    using set_bits_ok[OF demo_bitmap_ok(1), of 300] by (auto simp: demo_bitmap_ok)
  show ?thesis using bitmap_scan_finds[OF b(2)] b by fastforce
qed

text \<open>A bit map for \<open>n\<close> bits, with \<open>n + 511\<close> below \<open>2^32\<close>, initialised in aligned memory of the size that
  rte\_bitmap\_get\_memory\_footprint returns or more, is empty, satisfies the invariant and has room for \<open>n\<close> bits; the two
  arrays lie behind the structure, one behind the other, and end where the footprint ends.\<close>

theorem bitmap_init_empty:
  assumes "n \<noteq> 0" and "unat n + 511 < 2 ^ 32" and "addr AND 63 = 0" and "rte_bitmap_get_memory_footprint n \<le> mem_size"
  shows "\<exists>b. rte_bitmap_init n (Some addr) mem_size = Some b \<and> bitmap_inv b \<and> bitmap_bits b = {} \<and> unat n \<le> bitmap_cap b \<and>
    (case bitmap_memory_footprint n of (bytes, off1, s1, off2, s2) \<Rightarrow>
       40 \<le> unat off1 \<and> unat off1 + 8 * length (bm_array1 b) \<le> unat off2 \<and> unat off2 + 8 * length (bm_array2 b) = unat bytes)"
proof -
  obtain bytes off1 s1 off2 s2 l k where fp: "bitmap_memory_footprint n = (bytes, off1, s1, off2, s2)"
    and f: "unat s2 = 8 * l" "k < 32" "s1 = 2 ^ k" "l \<le> 64 * 2 ^ k" "unat n \<le> 512 * l" "512 * l \<le> 2 ^ 32"
      "unat off1 = 40" "unat off1 + 8 * unat s1 \<le> unat off2" "unat bytes = unat off2 + 8 * unat s2"
    using footprint_ok[OF assms(1,2)] by blast
  let ?b = "bitmap_scan_init \<lparr>bm_array1 = replicate (unat s1) 0, bm_array2 = replicate (unat s2) 0, bm_array1_size = 2 ^ k,
    bm_array2_size = s2, bm_index1 = 0, bm_offset1 = 0, bm_index2 = 0, bm_go2 = 0\<rparr>"
  have "rte_bitmap_init n (Some addr) mem_size = Some ?b"
    using assms fp f(3) by (simp add: rte_bitmap_init_def rte_bitmap_get_memory_footprint_def not_less)
  moreover have "unat (2 ^ k :: u32) = 2 ^ k" using f(2) by simp
  then have "length (replicate (unat s1) (0 :: u64)) = 2 ^ k" using f(3) by simp
  note z = zero_bitmap_inv[OF f(2) this _ _ _ _ f(4,6) refl, of "replicate (unat s2) 0" s2 0 0 0 0]
  have "bitmap_inv ?b" "bitmap_bits ?b = {}" "bm_array1 ?b = replicate (unat s1) 0" "bm_array2 ?b = replicate (unat s2) 0"
    by (rule z; use f(1) in auto)+
  ultimately show ?thesis using f fp by (auto simp: bitmap_cap_def)
qed

theorem bitmap_init_empty_witness:
  "\<exists>b. rte_bitmap_init 1000 (Some 64) 256 = Some b \<and> bitmap_inv b \<and> bitmap_bits b = {}"
proof -
  have "(1000 :: u32) \<noteq> 0" "unat (1000 :: u32) + 511 < 2 ^ 32" "(64 :: u64) AND 63 = 0" by simp_all
  moreover have "rte_bitmap_get_memory_footprint 1000 \<le> 256" by code_simp
  ultimately show ?thesis using bitmap_init_empty[of 1000 64 256] by blast
qed

text \<open>rte\_bitmap\_set\_slab with the value 0 marks the line of an empty slab as used: the summary is no longer exact, and a scan
  returns 1 without having written a position.\<close>

theorem bitmap_set_slab_zero:
  "case bindc (rte_bitmap_set_slab demo_bitmap 0 0) rte_bitmap_scan of
     Inl _ \<Rightarrow> False
   | Inr (ret, out, b) \<Rightarrow> ret = 1 \<and> out = None \<and> bm_array2 b = replicate 8 0"
  by code_simp

text \<open>With exactly the memory it needs the variant sets all bits and no other; with more it refuses, with less it
  writes outside the memory.\<close>

lemma bitmap_all_set_sizes:
  "rte_bitmap_get_memory_footprint 100 = 128"
  "rte_bitmap_init_with_all_set 100 (Some 64) 192 = Inr None"
  "rte_bitmap_init_with_all_set 100 (Some 64) 64 = Inl OutOfBounds"
  "case rte_bitmap_init_with_all_set 100 (Some 64) 128 of
     Inr (Some b) \<Rightarrow> bm_array1 b = [1] \<and> bm_array2 b = [- 1, mask 36, 0, 0, 0, 0, 0, 0] | _ \<Rightarrow> False"
  by code_simp+

end
