(* ===== verification/Byte_Memory.thy ===== *)
theory Byte_Memory
  imports Jhash
begin

text \<open>
  Byte-addressed memory: what \<open>memcpy\<close> of a variable, typed loads through a cast pointer, and the byte order
  functions of the C library do on a little-endian machine.  Memory is the \<open>mem\<close> of \<open>Jhash\<close>.
  Addresses are 64-bit words, so a region may wrap around the end of the address space; \<open>apart\<close> says that
  two regions have no byte in common.
\<close>

unbundle bit_operations_syntax

section \<open>Stores and loads\<close>

definition store_bytes :: "mem \<Rightarrow> u64 \<Rightarrow> u8 list \<Rightarrow> mem" where
  "store_bytes m p bs = (\<lambda>a. let i = unat (a - p) in if i < length bs then bs ! i else m a)"

definition load_bytes :: "mem \<Rightarrow> u64 \<Rightarrow> nat \<Rightarrow> u8 list" where
  "load_bytes m p n = map (\<lambda>i. m (p + of_nat i)) [0..<n]"

definition bytes16 :: "u16 \<Rightarrow> u8 list" where
  "bytes16 w = [ucast w, ucast (drop_bit 8 w)]"

definition bytes32 :: "u32 \<Rightarrow> u8 list" where
  "bytes32 w = [ucast w, ucast (drop_bit 8 w), ucast (drop_bit 16 w), ucast (drop_bit 24 w)]"

definition le16 :: "u8 \<Rightarrow> u8 \<Rightarrow> u16" where
  "le16 b0 b1 = ucast b0 OR push_bit 8 (ucast b1)"

text \<open>The loads \<open>*((uint16_t * )p)\<close> and \<open>*((uint32_t * )p)\<close>.\<close>

definition ld_u16 :: "mem \<Rightarrow> u64 \<Rightarrow> u16" where
  "ld_u16 m p = le16 (m p) (m (p + 1))"

definition ld_u32 :: "mem \<Rightarrow> u64 \<Rightarrow> u32" where
  "ld_u32 m p = le32 (m p) (m (p + 1)) (m (p + 2)) (m (p + 3))"

text \<open>\<open>htons\<close> and \<open>htonl\<close> (and their inverses, the same functions) reverse the bytes.\<close>

definition htons :: "u16 \<Rightarrow> u16" where
  "htons w = le16 (ucast (drop_bit 8 w)) (ucast w)"

definition htonl :: "u32 \<Rightarrow> u32" where
  "htonl w = le32 (ucast (drop_bit 24 w)) (ucast (drop_bit 16 w)) (ucast (drop_bit 8 w)) (ucast w)"

text \<open>\<open>apart p a q b\<close>: the \<open>a\<close> bytes at \<open>p\<close> and the \<open>b\<close> bytes at \<open>q\<close> are disjoint.\<close>

definition apart :: "u64 \<Rightarrow> nat \<Rightarrow> u64 \<Rightarrow> nat \<Rightarrow> bool" where
  "apart p a q b \<longleftrightarrow> a = 0 \<or> b = 0 \<or> (a \<le> unat (q - p) \<and> b \<le> unat (p - q))"

text \<open>Overlapping regions are undefined behaviour for \<open>memcpy\<close>.\<close>

definition memcpy :: "mem \<Rightarrow> u64 \<Rightarrow> u64 \<Rightarrow> nat \<Rightarrow> mem cres" where
  "memcpy m d s n = (if apart d n s n then Inr (store_bytes m d (load_bytes m s n)) else Inl Undefined)"

section \<open>What a load finds\<close>

lemma unat_u64_minus_one [simp]: "unat (- 1 :: u64) = 18446744073709551615"
  by (simp add: unsigned_minus_1_eq_mask mask_eq_exp_minus_1)

lemma length_load_bytes [simp]: "length (load_bytes m p n) = n"
  by (simp add: load_bytes_def)

lemma load_bytes_0 [simp]: "load_bytes m p 0 = []"
  by (simp add: load_bytes_def)

lemma length_bytes [simp]: "length (bytes16 w) = 2" "length (bytes32 v) = 4"
  by (simp_all add: bytes16_def bytes32_def)

lemma le16_bytes [simp]: "le16 (ucast w) (ucast (drop_bit 8 w)) = w"
  by (rule bit_word_eqI) (auto simp: le16_def bit_simps)

lemma le32_bytes [simp]:
  "le32 (ucast w) (ucast (drop_bit 8 w)) (ucast (drop_bit 16 w)) (ucast (drop_bit 24 w)) = w"
proof (rule bit_word_eqI)
  fix n assume "n < LENGTH(32)"
  then show "bit (le32 (ucast w) (ucast (drop_bit 8 w)) (ucast (drop_bit 16 w)) (ucast (drop_bit 24 w))) n = bit w n"
    by (cases "n < 16"; cases "n < 24"; auto simp: le32_def bit_simps)
qed

lemma ucast_le16 [simp]:
  "(ucast (le16 a b) :: u8) = a" "(ucast (drop_bit 8 (le16 a b)) :: u8) = b"
  by (rule bit_word_eqI; auto simp: le16_def bit_simps)+

lemma ucast_le32 [simp]:
  "(ucast (le32 a b c d) :: u8) = a" "(ucast (drop_bit 8 (le32 a b c d)) :: u8) = b"
  "(ucast (drop_bit 16 (le32 a b c d)) :: u8) = c" "(ucast (drop_bit 24 (le32 a b c d)) :: u8) = d"
  by (rule bit_word_eqI; auto simp: le32_def bit_simps)+

lemma htons_htons [simp]: "htons (htons w) = w"
  by (simp add: htons_def)

lemma htonl_htonl [simp]: "htonl (htonl w) = w"
  by (simp add: htonl_def)

lemma store_bytes_same:
  "i < length bs \<Longrightarrow> i < 2 ^ 64 \<Longrightarrow> store_bytes m p bs (p + of_nat i) = bs ! i"
  by (simp add: store_bytes_def unat_of_nat take_bit_nat_eq_self)

lemma store_bytes_other: "length bs \<le> unat (a - p) \<Longrightarrow> store_bytes m p bs a = m a"
  by (simp add: store_bytes_def)

lemma load_store_same:
  "length bs \<le> 2 ^ 64 \<Longrightarrow> load_bytes (store_bytes m p bs) p (length bs) = bs"
  by (rule nth_equalityI) (simp_all add: load_bytes_def store_bytes_same del: of_nat_add)

text \<open>Stores and loads at offsets of one base address.\<close>

lemma store_bytes_offset [simp]:
  "store_bytes m (p + x) bs (p + y) = (if unat (y - x) < length bs then bs ! unat (y - x) else m (p + y))"
  by (simp add: store_bytes_def)

lemma store_bytes_base [simp]:
  "store_bytes m p bs (p + y) = (if unat y < length bs then bs ! unat y else m (p + y))"
  "store_bytes m (p + x) bs p = (if unat (- x) < length bs then bs ! unat (- x) else m p)"
  "store_bytes m p bs p = (if bs = [] then m p else bs ! 0)"
  by (simp_all add: store_bytes_def)

text \<open>Distances around the address space: if \<open>q\<close> starts at least \<open>a\<close> bytes behind \<open>p\<close> and \<open>p\<close> is at least
  \<open>b\<close> bytes behind \<open>q\<close>, every byte of the region at \<open>q\<close> is at least \<open>a\<close> bytes behind \<open>p\<close>.\<close>

lemma apart_distance:
  fixes p q :: u64
  assumes "a \<le> unat (q - p)" and "b \<le> unat (p - q)" and "i < b"
  shows "a \<le> unat (q + of_nat i - p)"
proof -
  have le: "unat (p - q) < 2 ^ 64" using unat_u64_lt[of "p - q"] by simp
  have i: "unat (of_nat i :: u64) = i" using assms le by (simp add: unat_of_nat take_bit_nat_eq_self)
  have "(unat (q - p) + unat (p - q)) mod 2 ^ 64 = unat ((q - p) + (p - q))"
    by (simp only: unat_word_ariths) simp
  then have "2 ^ 64 dvd unat (q - p) + unat (p - q)" by (simp add: mod_eq_0_iff_dvd)
  moreover have "unat (q - p) + unat (p - q) < 2 * 2 ^ 64"
    using le unat_u64_lt[of "q - p"] by simp
  moreover have "0 < unat (q - p) + unat (p - q)" using assms by simp
  ultimately have "unat (q - p) + unat (p - q) = 2 ^ 64"
    by (auto elim!: dvdE)
  then have "unat (q - p) + unat (of_nat i :: u64) < 2 ^ LENGTH(64)"
    using assms le i by simp
  then have "unat (q - p + of_nat i) = unat (q - p) + i"
    using i by (simp add: unat_add_no_wrap)
  moreover have "q + of_nat i - p = q - p + of_nat i" by simp
  ultimately have "unat (q + of_nat i - p) = unat (q - p) + i" by (simp only:)
  then show ?thesis using assms by linarith
qed

lemma load_store_apart:
  assumes "apart p (length bs) q n"
  shows "load_bytes (store_bytes m p bs) q n = load_bytes m q n"
  using assms apart_distance[of "length bs" q p n]
  by (auto simp: load_bytes_def apart_def store_bytes_other)

lemma apart_prefix: "apart p (a + b) q n \<Longrightarrow> apart p a q n"
  by (auto simp: apart_def)

lemma apart_suffix:
  assumes "apart p (a + b) q n"
  shows "apart (p + of_nat a) b q n"
proof (cases "b = 0 \<or> n = 0")
  case False
  with assms have d: "a + b \<le> unat (q - p)" "n \<le> unat (p - q)" by (auto simp: apart_def)
  have a: "unat (of_nat a :: u64) = a"
    using d unat_u64_lt[of "q - p"] by (simp add: unat_of_nat take_bit_nat_eq_self)
  then have "unat (q - p - of_nat a) = unat (q - p) - a"
    using d unat_sub[of "of_nat a" "q - p"] by (simp add: word_le_nat_alt)
  then have "b \<le> unat (q - (p + of_nat a))" using d by (simp add: diff_diff_eq)
  moreover have "n \<le> unat (p + of_nat a - q)"
    using apart_distance[OF d(2,1), of a] False by simp
  ultimately show ?thesis by (simp add: apart_def)
qed (auto simp: apart_def)

lemma load_bytes_cong:
  "(\<And>i. i < n \<Longrightarrow> m (p + of_nat i) = m' (p + of_nat i)) \<Longrightarrow> load_bytes m p n = load_bytes m' p n"
  by (simp add: load_bytes_def)

end
