(* ===== verification/Rpc_Pack.thy ===== *)
theory Rpc_Pack
  imports Byte_Memory
begin

text \<open>
  The message header of the RPC layer (\<^verbatim>\<open>src/rpc_shm/rpc.cpp\<close>): \<open>createRPCStruct\<close>, \<open>packPayload\<close> and
  \<open>unpackBufferToRPCLayer\<close>, in the variant for the simulators (FLEXUS, QFLEX, ZSIM) and in the one for sockets, which uses network byte
  order.  The buffer is an address in a byte memory; the alignment of the payload is computed from the address itself, as in the
  source.
\<close>

unbundle bit_operations_syntax

section \<open>Data and sizes\<close>

record RPCWithHeader =
  rpc_len :: u32
  rpc_type :: u8
  rpc_id :: u16
  senders_qp :: u16
  senders_nid :: u16
  payload :: u64
  payload_len :: u32

definition getAlignmentReq :: u32 where "getAlignmentReq = 8"

definition calcTotalHeaderBytes :: u32 where
  "calcTotalHeaderBytes =
     (let hbytes = 4 + 2 * 1 + 2 + 2 + 2; alignmentBytes = hbytes mod getAlignmentReq
      in hbytes + alignmentBytes)"

definition getLenParamBytes :: u32 where "getLenParamBytes = 4"

definition getPayloadBytes :: "RPCWithHeader \<Rightarrow> u32" where
  "getPayloadBytes r = rpc_len r - calcTotalHeaderBytes"

definition createRPCStruct :: "u8 \<Rightarrow> u16 \<Rightarrow> u16 \<Rightarrow> u16 \<Rightarrow> u32 \<Rightarrow> u64 \<Rightarrow> RPCWithHeader" where
  "createRPCStruct aType anRPCId aQPId aNID aPayloadLen aPayloadPointer =
     \<lparr>rpc_len = calcTotalHeaderBytes + aPayloadLen, rpc_type = aType, rpc_id = anRPCId,
      senders_qp = aQPId, senders_nid = aNID, payload = aPayloadPointer, payload_len = aPayloadLen\<rparr>"

text \<open>The adjustment of the buffer pointer after the header fields, in both directions.\<close>

definition align_buf :: "u64 \<Rightarrow> u64" where
  "align_buf buf = (if buf mod ucast getAlignmentReq \<noteq> 0 then buf + buf mod ucast getAlignmentReq else buf)"

section \<open>Packing\<close>

definition packPayload_zsim :: "RPCWithHeader \<Rightarrow> u64 \<Rightarrow> mem \<Rightarrow> mem cres" where
  "packPayload_zsim rpc buf m =
     (let m = store_bytes m buf (bytes32 (rpc_len rpc)); buf = buf + 4;
          m = store_bytes m buf [rpc_type rpc]; buf = buf + 2;
          m = store_bytes m buf (bytes16 (rpc_id rpc)); buf = buf + 2;
          m = store_bytes m buf (bytes16 (senders_qp rpc)); buf = buf + 2;
          m = store_bytes m buf (bytes16 (senders_nid rpc)); buf = buf + 2;
          buf = align_buf buf
      in memcpy m buf (payload rpc) (unat (payload_len rpc)))"

definition packPayload_vm :: "RPCWithHeader \<Rightarrow> u64 \<Rightarrow> mem \<Rightarrow> mem cres" where
  "packPayload_vm rpc buf m =
     (let m = store_bytes m buf (bytes32 (htonl (rpc_len rpc))); buf = buf + 4;
          m = store_bytes m buf [rpc_type rpc]; buf = buf + 2;
          m = store_bytes m buf (bytes16 (htons (rpc_id rpc))); buf = buf + 2;
          m = store_bytes m buf (bytes16 (htons (senders_qp rpc))); buf = buf + 2;
          m = store_bytes m buf (bytes16 (htons (senders_nid rpc))); buf = buf + 2;
          buf = align_buf buf
      in if payload_len rpc \<noteq> 0 then memcpy m buf (payload rpc) (unat (payload_len rpc)) else Inr m)"

section \<open>Unpacking\<close>

definition unpackBuffer_zsim :: "mem \<Rightarrow> u64 \<Rightarrow> RPCWithHeader" where
  "unpackBuffer_zsim m buf =
     (let p = buf; len = ld_u32 m p; p = p + 4;
          ty = m p; p = p + 2;
          i = ld_u16 m p; p = p + 2;
          qp = ld_u16 m p; p = p + 2;
          nid = ld_u16 m p
      in createRPCStruct ty i qp nid (len - calcTotalHeaderBytes) (buf + ucast calcTotalHeaderBytes))"

definition unpackBuffer_vm :: "mem \<Rightarrow> u64 \<Rightarrow> RPCWithHeader" where
  "unpackBuffer_vm m buf =
     (let p = buf; len = htonl (ld_u32 m p); p = p + 4;
          ty = m p; p = p + 1;
          i = htons (ld_u16 m p); p = p + 2;
          qp = htons (ld_u16 m p); p = p + 2;
          nid = htons (ld_u16 m p)
      in createRPCStruct ty i qp nid (len - calcTotalHeaderBytes) (buf + ucast calcTotalHeaderBytes))"

section \<open>The header in memory\<close>

lemma calcTotalHeaderBytes_eq [simp]: "calcTotalHeaderBytes = 16"
  by (simp add: calcTotalHeaderBytes_def getAlignmentReq_def Let_def)


text \<open>The memory after the header fields have been written; \<open>len\<close>, \<open>i\<close>, \<open>qp\<close> and \<open>nid\<close> are in the byte order
  of the buffer.\<close>

definition with_header :: "mem \<Rightarrow> u64 \<Rightarrow> u32 \<Rightarrow> u8 \<Rightarrow> u16 \<Rightarrow> u16 \<Rightarrow> u16 \<Rightarrow> mem" where
  "with_header m buf len ty i qp nid =
     store_bytes (store_bytes (store_bytes (store_bytes (store_bytes m buf (bytes32 len))
       (buf + 4) [ty]) (buf + 6) (bytes16 i)) (buf + 8) (bytes16 qp)) (buf + 10) (bytes16 nid)"

lemma pack_zsim_header:
  "packPayload_zsim rpc buf m =
     memcpy (with_header m buf (rpc_len rpc) (rpc_type rpc) (rpc_id rpc) (senders_qp rpc) (senders_nid rpc))
       (align_buf (buf + 12)) (payload rpc) (unat (payload_len rpc))"
  by (simp add: packPayload_zsim_def with_header_def Let_def add.assoc)

lemma with_header_bytes:
  "with_header m buf len ty i qp nid buf = ucast len"
  "with_header m buf len ty i qp nid (buf + 1) = ucast (drop_bit 8 len)"
  "with_header m buf len ty i qp nid (buf + 2) = ucast (drop_bit 16 len)"
  "with_header m buf len ty i qp nid (buf + 3) = ucast (drop_bit 24 len)"
  "with_header m buf len ty i qp nid (buf + 4) = ty"
  "with_header m buf len ty i qp nid (buf + 5) = m (buf + 5)"
  "with_header m buf len ty i qp nid (buf + 6) = ucast i"
  "with_header m buf len ty i qp nid (buf + 7) = ucast (drop_bit 8 i)"
  "with_header m buf len ty i qp nid (buf + 8) = ucast qp"
  "with_header m buf len ty i qp nid (buf + 9) = ucast (drop_bit 8 qp)"
  "with_header m buf len ty i qp nid (buf + 10) = ucast nid"
  "with_header m buf len ty i qp nid (buf + 11) = ucast (drop_bit 8 nid)"
  by (simp_all add: with_header_def bytes32_def bytes16_def)

lemma with_header_outside: "12 \<le> unat (a - buf) \<Longrightarrow> with_header m buf len ty i qp nid a = m a"
proof -
  assume far: "12 \<le> unat (a - buf)"
  define d where "d = a - buf"
  then have a: "a = buf + d" by simp
  have "12 \<le> d" using far by (simp add: d_def word_le_nat_alt)
  then have "unat (d - k) = unat d - unat k" if "k \<le> 12" for k :: u64
    using that by (intro unat_sub) simp
  from this[of 4] this[of 6] this[of 8] this[of 10] show ?thesis
    using far by (auto simp: a with_header_def)
qed


lemma ld_with_header:
  "ld_u32 (with_header m buf len ty i qp nid) buf = len"
  "ld_u16 (with_header m buf len ty i qp nid) (buf + 6) = i"
  "ld_u16 (with_header m buf len ty i qp nid) (buf + 8) = qp"
  "ld_u16 (with_header m buf len ty i qp nid) (buf + 10) = nid"
  by (simp_all add: ld_u32_def ld_u16_def add.assoc with_header_bytes)

section \<open>Alignment\<close>

lemma align_buf_eq: "align_buf buf = buf + buf mod 8"
  by (simp add: align_buf_def getAlignmentReq_def)

lemma unat_mod8: "unat (x mod 8 :: u64) = unat x mod 8"
  by (simp add: unat_mod_distrib)

text \<open>The pointer moves to the next multiple of eight exactly when its remainder is four; the header
  needs twelve bytes, so the buffer itself has to start at a multiple of eight.\<close>

lemma align_buf_iff: "align_buf (buf + 12) = buf + 16 \<longleftrightarrow> buf mod 8 = 0"
proof -
  have "align_buf (buf + 12) = buf + 16 \<longleftrightarrow> buf + (12 + (buf + 12) mod 8) = buf + (12 + 4)"
    by (simp add: align_buf_eq add.assoc)
  also have "\<dots> \<longleftrightarrow> (buf + 12) mod 8 = 4" by (simp only: add_left_cancel)
  also have "\<dots> \<longleftrightarrow> unat (buf + 12) mod 2 ^ 3 = 4"
    by (simp add: word_unat_eq_iff unat_mod8)
  also have "\<dots> \<longleftrightarrow> (unat buf + 12) mod 8 = 4"
    by (subst unat_add_mod_exp) simp_all
  also have "\<dots> \<longleftrightarrow> unat buf mod 8 = 0" by presburger
  also have "\<dots> \<longleftrightarrow> buf mod 8 = 0" by (simp add: word_unat_eq_iff unat_mod8)
  finally show ?thesis .
qed


section \<open>The round trip\<close>

lemma load_header_apart:
  assumes "apart buf (16 + k) src n"
  shows "load_bytes (with_header m buf len ty i qp nid) src n = load_bytes m src n"
proof (rule load_bytes_cong)
  fix j assume "j < n"
  with assms have "16 + k \<le> unat (src + of_nat j - buf)"
    using apart_distance[of "16 + k" src buf n j] by (auto simp: apart_def)
  then show "with_header m buf len ty i qp nid (src + of_nat j) = m (src + of_nat j)"
    by (intro with_header_outside) simp
qed

text \<open>Bytes stored behind the header do not change what is read from it.\<close>

lemma ld_behind_header:
  assumes "length bs < 2 ^ 32"
  shows "store_bytes m (buf + 16) bs buf = m buf"
    and "store_bytes m (buf + 16) bs (buf + 4) = m (buf + 4)"
    and "ld_u32 (store_bytes m (buf + 16) bs) buf = ld_u32 m buf"
    and "k \<in> {6, 8, 10} \<Longrightarrow> ld_u16 (store_bytes m (buf + 16) bs) (buf + k) = ld_u16 m (buf + k)"
  using assms by (auto simp: ld_u32_def ld_u16_def add.assoc)

text \<open>C19: In the simulator variant a message that \<open>packPayload\<close> writes to a buffer at a multiple of eight is read back by
  \<open>unpackBufferToRPCLayer\<close>: all header fields and the payload length are the sender's, the payload pointer is the place behind the
  sixteen header bytes, and the payload found there is the one the sender pointed to.  Nothing behind the message is written.
  The payload must not overlap the buffer.\<close>

theorem pack_unpack_zsim:
  assumes "buf mod 8 = 0" and "apart buf (16 + unat n) src (unat n)"
  shows "\<exists>m'. packPayload_zsim (createRPCStruct ty i qp nid n src) buf m = Inr m' \<and>
    unpackBuffer_zsim m' buf = createRPCStruct ty i qp nid n (buf + 16) \<and>
    load_bytes m' (buf + 16) (unat n) = load_bytes m src (unat n) \<and>
    (\<forall>a. 16 + unat n \<le> unat (a - buf) \<longrightarrow> m' a = m a)"
proof -
  let ?r = "createRPCStruct ty i qp nid n src"
  let ?h = "with_header m buf (rpc_len ?r) ty i qp nid"
  let ?bs = "load_bytes m src (unat n)"
  have len: "length ?bs < 2 ^ 32" by simp
  have ap: "apart (buf + 16) (unat n) src (unat n)" using apart_suffix[of buf 16] assms by simp
  have "packPayload_zsim ?r buf m = memcpy ?h (buf + 16) src (unat n)"
    using align_buf_iff[of buf] assms by (simp add: pack_zsim_header createRPCStruct_def)
  then have "packPayload_zsim ?r buf m = Inr (store_bytes ?h (buf + 16) ?bs)"
    using ap load_header_apart[OF assms(2)] by (simp add: memcpy_def)
  moreover have "unpackBuffer_zsim (store_bytes ?h (buf + 16) ?bs) buf = createRPCStruct ty i qp nid n (buf + 16)"
    using ld_behind_header[OF len] by (simp add: unpackBuffer_zsim_def Let_def add.assoc ld_with_header
        with_header_bytes createRPCStruct_def del: store_bytes_offset)
  moreover have "load_bytes (store_bytes ?h (buf + 16) ?bs) (buf + 16) (unat n) = ?bs"
    using load_store_same[of ?bs ?h "buf + 16"] unat_u32_lt[of n] by (simp del: unat_u32_lt)
  moreover have "store_bytes ?h (buf + 16) ?bs a = m a" if "16 + unat n \<le> unat (a - buf)" for a
  proof -
    have "unat (a - buf - 16) = unat (a - buf) - unat (16 :: u64)"
      using that by (intro unat_sub) (simp add: word_le_nat_alt)
    then have "unat n \<le> unat (a - (buf + 16))" using that by (simp add: diff_diff_eq)
    with that show ?thesis by (simp add: store_bytes_other with_header_outside)
  qed
  ultimately show ?thesis by blast
qed


theorem pack_unpack_zsim_witness:
  "\<exists>m'. packPayload_zsim (createRPCStruct 1 7 2 9 3 0x2003) 0x1000 (\<lambda>a. ucast a) = Inr m' \<and>
    unpackBuffer_zsim m' 0x1000 = createRPCStruct 1 7 2 9 3 0x1010 \<and> load_bytes m' 0x1010 3 = [3, 4, 5]"
proof -
  have "apart 0x1000 (16 + unat (3 :: u32)) 0x2003 (unat (3 :: u32))" by (simp add: apart_def)
  moreover have "load_bytes (\<lambda>a. ucast a) 0x2003 (unat (3 :: u32)) = [3, 4, 5]"
    by (simp add: load_bytes_def upt_rec)
  ultimately show ?thesis
    using pack_unpack_zsim[where buf = "0x1000" and n = 3 and src = "0x2003" and ty = 1 and i = 7 and qp = 2 and nid = 9
        and m = "\<lambda>a. ucast a"] by fastforce
qed

section \<open>The socket variant\<close>

lemma pack_vm_header:
  "packPayload_vm rpc buf m =
     (let h = with_header m buf (htonl (rpc_len rpc)) (rpc_type rpc) (htons (rpc_id rpc))
                (htons (senders_qp rpc)) (htons (senders_nid rpc))
      in if payload_len rpc \<noteq> 0 then memcpy h (align_buf (buf + 12)) (payload rpc) (unat (payload_len rpc)) else Inr h)"
  by (simp add: packPayload_vm_def with_header_def Let_def add.assoc)

lemma store_behind_header:
  assumes "length bs < 2 ^ 32" and "k \<in> {1, 2, 3, 4, 5, 6, 7, 8, 9, 10, 11}"
  shows "store_bytes m (buf + 16) bs (buf + k) = m (buf + k)"
  using assms by auto

lemma ucast_htons [simp]:
  "(ucast (htons w) :: u8) = ucast (drop_bit 8 w)" "(ucast (drop_bit 8 (htons w)) :: u8) = ucast w"
  by (simp_all add: htons_def)

text \<open>What the reader of the socket variant makes of a header: its fields after the message type are
  read one byte too early.\<close>

lemma unpack_vm_header:
  assumes "length bs < 2 ^ 32"
  shows "unpackBuffer_vm (store_bytes (with_header m buf (htonl (16 + n)) ty (htons i) (htons qp) (htons nid)) (buf + 16) bs) buf =
    createRPCStruct ty (le16 (ucast (drop_bit 8 i)) (m (buf + 5)))
      (le16 (ucast (drop_bit 8 qp)) (ucast i)) (le16 (ucast (drop_bit 8 nid)) (ucast qp)) n (buf + 16)"
  using ld_behind_header[OF assms] store_behind_header[OF assms]
  by (simp add: unpackBuffer_vm_def Let_def add.assoc ld_with_header ld_u16_def with_header_bytes htons_def
      del: store_bytes_offset)

text \<open>In the socket variant the two functions do not fit: \<open>packPayload\<close> leaves a byte after the message type, which
  \<open>unpackBufferToRPCLayer\<close> does not skip.  Length, type and payload arrive, but the id read has the
  sender's high byte as its low byte and an unwritten byte of the buffer as its high byte, and queue pair and node id are
  each put together from halves of two neighbouring fields.\<close>

theorem unpack_vm_shifted:
  assumes "buf mod 8 = 0" and "apart buf (16 + unat n) src (unat n)"
  shows "\<exists>m'. packPayload_vm (createRPCStruct ty i qp nid n src) buf m = Inr m' \<and>
    unpackBuffer_vm m' buf = createRPCStruct ty (le16 (ucast (drop_bit 8 i)) (m (buf + 5)))
      (le16 (ucast (drop_bit 8 qp)) (ucast i)) (le16 (ucast (drop_bit 8 nid)) (ucast qp)) n (buf + 16) \<and>
    load_bytes m' (buf + 16) (unat n) = load_bytes m src (unat n)"
proof -
  let ?r = "createRPCStruct ty i qp nid n src"
  let ?h = "with_header m buf (htonl (16 + n)) ty (htons i) (htons qp) (htons nid)"
  let ?bs = "load_bytes m src (unat n)"
  have len: "length ?bs < 2 ^ 32" by simp
  have ap: "apart (buf + 16) (unat n) src (unat n)" using apart_suffix[of buf 16] assms by simp
  have "store_bytes ?h (buf + 16) [] = ?h" by (auto simp: store_bytes_def)
  then have "packPayload_vm ?r buf m = Inr (store_bytes ?h (buf + 16) ?bs)"
    using align_buf_iff[of buf] assms ap load_header_apart[OF assms(2)]
    by (auto simp: pack_vm_header createRPCStruct_def memcpy_def Let_def unat_eq_zero)
  moreover have "load_bytes (store_bytes ?h (buf + 16) ?bs) (buf + 16) (unat n) = ?bs"
    using load_store_same[of ?bs ?h "buf + 16"] unat_u32_lt[of n] by (simp del: unat_u32_lt)
  ultimately show ?thesis using unpack_vm_header[OF len] by blast
qed

theorem unpack_vm_shifted_witness:
  "\<exists>m'. packPayload_vm (createRPCStruct 1 7 2 9 3 0x2003) 0x1000 (\<lambda>a. 0) = Inr m' \<and>
    rpc_id (unpackBuffer_vm m' 0x1000) = 0 \<and> senders_qp (unpackBuffer_vm m' 0x1000) = 0x700 \<and>
    senders_nid (unpackBuffer_vm m' 0x1000) = 0x200"
proof -
  have "apart 0x1000 (16 + unat (3 :: u32)) 0x2003 (unat (3 :: u32))" by (simp add: apart_def)
  then show ?thesis
    using unpack_vm_shifted[where buf = "0x1000" and n = 3 and src = "0x2003" and ty = 1 and i = 7 and qp = 2 and nid = 9
        and m = "\<lambda>a. 0"]
    by (auto simp: createRPCStruct_def le16_def)
qed

end
