(* ===== verification/Sense_Reversal.thy ===== *)
theory Sense_Reversal
  imports Prelude
begin

text \<open>
  Sense reversal, which the circular receive buffer, the work queue and the completion queue share: every
  entry of a circular array carries a bit, the writer stamps an entry with its own bit and flips that bit at every
  turn.  \<open>sense_ok n h sr v\<close> is the invariant of a writer at position \<open>h\<close> with bit \<open>sr\<close>; it says that the reader
  of entry \<open>i\<close> can tell from the bit \<open>v i\<close> whether the entry was written in this turn.
\<close>

definition sense_ok :: "nat \<Rightarrow> nat \<Rightarrow> bool \<Rightarrow> (nat \<Rightarrow> bool) \<Rightarrow> bool" where
  "sense_ok n h sr v \<longleftrightarrow> (\<forall>i < n. v i = (if i < h then sr else \<not> sr))"

lemma sense_okD: "sense_ok n h sr v \<Longrightarrow> i < n \<Longrightarrow> v i = (if i < h then sr else \<not> sr)"
  by (simp add: sense_ok_def)

lemma sense_ok_keep:
  "sense_ok n h sr v \<Longrightarrow> (\<And>i. i < n \<Longrightarrow> w i = v i) \<Longrightarrow> sense_ok n h sr w"
  by (simp add: sense_ok_def)

text \<open>Stamping the entry at the position and moving on, with a flip behind the last entry, keeps the invariant.\<close>

lemma sense_post:
  assumes ok: "sense_ok n h sr v" and h: "h < n" and w: "\<And>i. i < n \<Longrightarrow> w i = (if i = h then sr else v i)"
  shows "sense_ok n (if h + 1 = n then 0 else h + 1) (if h + 1 = n then \<not> sr else sr) w"
  unfolding sense_ok_def
proof (intro allI impI)
  fix i assume "i < n"
  then consider "i < h" | "i = h" | "h < i" "h + 1 \<noteq> n" using h by linarith
  then show "w i = (if i < (if h + 1 = n then 0 else h + 1) then if h + 1 = n then \<not> sr else sr
      else \<not> (if h + 1 = n then \<not> sr else sr))"
    using sense_okD[OF ok \<open>i < n\<close>] w[OF \<open>i < n\<close>] by cases auto
qed

text \<open>The entry the writer will write next carries the other bit.\<close>

lemma sense_next: "sense_ok n h sr v \<Longrightarrow> h < n \<Longrightarrow> v h = (\<not> sr)"
  by (simp add: sense_ok_def)

end
