(* ===== verification/Cbuf.thy ===== *)
theory Cbuf
  imports Byte_Memory Sense_Reversal
begin

text \<open>
  The circular receive buffer of \<^verbatim>\<open>src/rpc_shm/cbuf.cpp\<close> and the functions of \<^verbatim>\<open>rpc.cpp\<close> that use it.  The sender has a copy of
  the structure: it marks an entry with the current sense bit, moves \<open>tail\<close> when it has written it, and moves
  \<open>senders_head\<close> when the receiver reports entries as free.  The abstract view is a pair: the position of the oldest entry that is not free
  and the number of such entries.
\<close>

section \<open>Structure and operations\<close>

record CircularReceiveBuffer =
  is_full :: bool
  basePointer :: u64
  entryByteSize :: u64
  numEntries :: u64
  cb_head :: u64
  cb_tail :: u64
  buffer_sr :: bool
  sr_vector :: "bool list"
  senders_head :: u64
  is_sender :: bool

definition CircularReceiveBuffer_new :: "u64 \<Rightarrow> u64 \<Rightarrow> u64 \<Rightarrow> bool \<Rightarrow> CircularReceiveBuffer" where
  "CircularReceiveBuffer_new aBase aSize aNumEntries senderCopy =
     \<lparr>is_full = False, basePointer = aBase, entryByteSize = aSize, numEntries = aNumEntries,
      cb_head = 0, cb_tail = 0, buffer_sr = False, sr_vector = replicate (unat aNumEntries) True,
      senders_head = 0, is_sender = senderCopy\<rparr>"

definition getBasePointer :: "CircularReceiveBuffer \<Rightarrow> u64" where
  "getBasePointer b = basePointer b"

definition getHeadAddress :: "CircularReceiveBuffer \<Rightarrow> u64" where
  "getHeadAddress b = basePointer b + cb_head b * entryByteSize b"

definition getTailAddress :: "CircularReceiveBuffer \<Rightarrow> u64" where
  "getTailAddress b = basePointer b + cb_tail b * entryByteSize b"

definition getHeadOffset :: "CircularReceiveBuffer \<Rightarrow> u64" where
  "getHeadOffset b = cb_head b * entryByteSize b"

definition getTailOffset :: "CircularReceiveBuffer \<Rightarrow> u64" where
  "getTailOffset b = cb_tail b * entryByteSize b"

definition getHeadIdxValue :: "CircularReceiveBuffer \<Rightarrow> u64" where "getHeadIdxValue b = cb_head b"

definition getTailIdxValue :: "CircularReceiveBuffer \<Rightarrow> u64" where "getTailIdxValue b = cb_tail b"

text \<open>\<open>std::vector::at\<close> throws when the index is out of range.\<close>

definition sr_at :: "CircularReceiveBuffer \<Rightarrow> u64 \<Rightarrow> bool cres" where
  "sr_at b i = (if unat i < length (sr_vector b) then Inr (sr_vector b ! unat i) else Inl OutOfBounds)"

definition incTail :: "CircularReceiveBuffer \<Rightarrow> CircularReceiveBuffer cres" where
  "incTail b =
     (if \<not> is_sender b then Inl AssertFail
      else let b = b\<lparr>cb_tail := cb_tail b + 1\<rparr>;
               b = (if numEntries b \<le> cb_tail b then b\<lparr>cb_tail := 0, buffer_sr := \<not> buffer_sr b\<rparr> else b);
               b = (if cb_tail b = senders_head b then b\<lparr>is_full := True\<rparr> else b)
           in bindc (sr_at b (cb_tail b)) (\<lambda>s. if s \<noteq> buffer_sr b then Inr b else Inl AssertFail))"

definition incHeadAfterMsgProcessed :: "CircularReceiveBuffer \<Rightarrow> CircularReceiveBuffer" where
  "incHeadAfterMsgProcessed b =
     (let b = b\<lparr>cb_head := cb_head b + 1\<rparr>
      in if numEntries b \<le> cb_head b then b\<lparr>cb_head := 0\<rparr> else b)"

definition incSendersHeadToFreeSpace :: "CircularReceiveBuffer \<Rightarrow> u32 \<Rightarrow> CircularReceiveBuffer cres" where
  "incSendersHeadToFreeSpace b inc =
     (if \<not> is_sender b then Inl AssertFail
      else let b = b\<lparr>senders_head := senders_head b + ucast inc\<rparr>;
               b = (if numEntries b \<le> senders_head b then b\<lparr>senders_head := 0\<rparr> else b);
               b = (if cb_tail b \<noteq> senders_head b then b\<lparr>is_full := False\<rparr> else b)
           in Inr b)"

definition zeroEntryNumber :: "CircularReceiveBuffer \<Rightarrow> u64 \<Rightarrow> mem \<Rightarrow> mem" where
  "zeroEntryNumber b index m =
     (let offset = index * entryByteSize b
      in store_bytes m (basePointer b + offset) (replicate (unat (entryByteSize b)) 0))"

definition writeSRMetadata :: "CircularReceiveBuffer \<Rightarrow> u64 \<Rightarrow> CircularReceiveBuffer cres" where
  "writeSRMetadata b entry =
     (if unat entry < length (sr_vector b) then Inr (b\<lparr>sr_vector := (sr_vector b)[unat entry := buffer_sr b]\<rparr>)
      else Inl OutOfBounds)"

definition GetReservedMemoryBytes :: "CircularReceiveBuffer \<Rightarrow> u64" where
  "GetReservedMemoryBytes b = numEntries b * entryByteSize b"

definition isEmpty :: "CircularReceiveBuffer \<Rightarrow> bool" where
  "isEmpty b \<longleftrightarrow> \<not> is_full b \<and> senders_head b = cb_tail b"

definition getBufferSize :: "CircularReceiveBuffer \<Rightarrow> u64" where
  "getBufferSize b =
     (if \<not> isEmpty b then
        if senders_head b \<le> cb_tail b then cb_tail b - senders_head b
        else numEntries b - senders_head b + cb_tail b
      else numEntries b)"

definition getAvailSlots :: "CircularReceiveBuffer \<Rightarrow> u64" where
  "getAvailSlots b = (if \<not> isEmpty b then numEntries b - getBufferSize b else numEntries b)"

section \<open>The buffers of a context\<close>

text \<open>\<open>setupCircularBuffers\<close> places the buffers one behind the other; the entry size is a page and the
  number of entries is \<open>MSGS_PER_PAIR\<close>, whatever its arguments are.\<close>

definition MSGS_PER_PAIR :: u64 where "MSGS_PER_PAIR = 256"

fun setup_loop :: "u64 \<Rightarrow> u64 \<Rightarrow> bool \<Rightarrow> nat \<Rightarrow> CircularReceiveBuffer list" where
  "setup_loop page base sc 0 = []"
| "setup_loop page base sc (Suc k) =
     (let b = CircularReceiveBuffer_new base page MSGS_PER_PAIR sc
      in b # setup_loop page (base + GetReservedMemoryBytes b) sc k)"

definition setupCircularBuffers :: "u64 \<Rightarrow> u64 \<Rightarrow> u64 \<Rightarrow> u64 \<Rightarrow> bool \<Rightarrow> CircularReceiveBuffer list" where
  "setupCircularBuffers page pgas aNumberOfSenders aNumberOfReceivers are_sendersCopies =
     setup_loop page pgas are_sendersCopies (unat (aNumberOfSenders * aNumberOfReceivers))"

definition cbuf_at :: "CircularReceiveBuffer list \<Rightarrow> u64 \<Rightarrow> CircularReceiveBuffer cres" where
  "cbuf_at bs i = (if unat i < length bs then Inr (bs ! unat i) else Inl OutOfBounds)"

definition flowControlUpdateSendersHead :: "CircularReceiveBuffer \<Rightarrow> u32 \<Rightarrow> CircularReceiveBuffer cres" where
  "flowControlUpdateSendersHead buf inc = incSendersHeadToFreeSpace buf inc"

text \<open>The poll function is the caller's: it may move the pointer it is given.\<close>

definition pollOnBufferNumber :: "CircularReceiveBuffer list \<Rightarrow> u64 \<Rightarrow> (u64 \<Rightarrow> bool \<times> u64) \<Rightarrow> u64 option cres" where
  "pollOnBufferNumber bs bufNumber dec =
     bindc (cbuf_at bs bufNumber) (\<lambda>rbuf.
       let (ready, poll_loc) = dec (getHeadAddress rbuf) in Inr (if ready then Some poll_loc else None))"

definition zeroOutRBufHead :: "CircularReceiveBuffer list \<Rightarrow> u64 \<Rightarrow> mem \<Rightarrow> mem cres" where
  "zeroOutRBufHead bs bufferNumber m =
     bindc (cbuf_at bs bufferNumber) (\<lambda>p. Inr (zeroEntryNumber p (getHeadIdxValue p) m))"

definition incrementBufferHead :: "CircularReceiveBuffer list \<Rightarrow> u64 \<Rightarrow> CircularReceiveBuffer list cres" where
  "incrementBufferHead bs bufNumber =
     bindc (cbuf_at bs bufNumber) (\<lambda>b. Inr (bs[unat bufNumber := incHeadAfterMsgProcessed b]))"

definition getBufferHeadIndex :: "CircularReceiveBuffer list \<Rightarrow> u64 \<Rightarrow> u64 cres" where
  "getBufferHeadIndex bs bufferNumber =
     bindc (cbuf_at bs bufferNumber) (\<lambda>b. Inr (getHeadIdxValue b))"

definition getNumClients :: "u32 \<Rightarrow> u32" where
  "getNumClients totalNodeCount = totalNodeCount - 1"

text \<open>The products are of two \<open>unsigned\<close> values, the sum is of type \<open>size_t\<close>.\<close>

definition getCBufIdx :: "u32 \<Rightarrow> u32 \<Rightarrow> u32 \<Rightarrow> u32 \<Rightarrow> u32 \<Rightarrow> u64" where
  "getCBufIdx totalNodeCount threadsPerClient cl_nid cl_tid sr_thread =
     (let zeroShifted_clNid = cl_nid - 1;
          bufsPerServThread = (ucast (getNumClients totalNodeCount * threadsPerClient) :: u64);
          serv_region_idx = ucast sr_thread * bufsPerServThread;
          client_buffer = (ucast (zeroShifted_clNid * getNumClients totalNodeCount + cl_tid) :: u64)
      in serv_region_idx + client_buffer)"

definition getBufferIDX :: "u32 \<Rightarrow> u32 \<Rightarrow> u32 \<Rightarrow> u32 \<Rightarrow> u32 \<Rightarrow> u64" where
  "getBufferIDX totalNodeCount threadsPerClient cl_nid cl_tid serv_tid =
     getCBufIdx totalNodeCount threadsPerClient cl_nid cl_tid serv_tid"

section \<open>The abstract window\<close>

text \<open>A window of \<open>n\<close> entries: the position of the oldest one in use and how many are in use.\<close>

datatype win_op = Send | Release u32

fun win_step :: "nat \<Rightarrow> win_op \<Rightarrow> nat \<times> nat \<Rightarrow> (nat \<times> nat) option" where
  "win_step n Send (h, k) = (if k < n then Some (h, k + 1) else None)"
| "win_step n (Release inc) (h, k) =
     (if unat inc \<le> k \<and> unat inc < n \<and> h + unat inc \<le> n then Some ((h + unat inc) mod n, k - unat inc) else None)"

fun win_run :: "nat \<Rightarrow> win_op list \<Rightarrow> nat \<times> nat \<Rightarrow> (nat \<times> nat) option" where
  "win_run n [] w = Some w"
| "win_run n (x # xs) w = Option.bind (win_step n x w) (win_run n xs)"

text \<open>The sender's step for one message is to mark the entry at the tail and to advance the tail.\<close>

fun cb_step :: "win_op \<Rightarrow> CircularReceiveBuffer \<Rightarrow> CircularReceiveBuffer cres" where
  "cb_step Send b = bindc (writeSRMetadata b (getTailIdxValue b)) incTail"
| "cb_step (Release inc) b = flowControlUpdateSendersHead b inc"

fun cb_run :: "win_op list \<Rightarrow> CircularReceiveBuffer \<Rightarrow> CircularReceiveBuffer cres" where
  "cb_run [] b = Inr b"
| "cb_run (x # xs) b = bindc (cb_step x b) (cb_run xs)"

definition win_rel :: "CircularReceiveBuffer \<Rightarrow> nat \<Rightarrow> nat \<times> nat \<Rightarrow> bool" where
  "win_rel b n w \<longleftrightarrow> (case w of (h, k) \<Rightarrow>
     is_sender b \<and> unat (numEntries b) = n \<and> n < 2 ^ 32 \<and> h < n \<and> k \<le> n \<and>
     unat (senders_head b) = h \<and> unat (cb_tail b) = (h + k) mod n \<and> is_full b = (k = n) \<and>
     length (sr_vector b) = n \<and>
     sense_ok n (unat (cb_tail b)) (buffer_sr b) (\<lambda>i. sr_vector b ! i))"

lemma win_rel_new:
  "0 < unat n \<Longrightarrow> unat n < 2 ^ 32 \<Longrightarrow> win_rel (CircularReceiveBuffer_new p sz n True) (unat n) (0, 0)"
  by (simp add: win_rel_def CircularReceiveBuffer_new_def sense_ok_def)

lemma unat_Suc_small: "unat x < 2 ^ 32 \<Longrightarrow> unat (x + 1 :: u64) = unat x + 1"
  by (simp add: unat_add_no_wrap)

lemma mod_Suc_small: "t < n \<Longrightarrow> (t + 1) mod n = (if t + 1 = n then 0 else t + 1)" for t n :: nat
  by auto

lemma window_full:
  fixes h k n :: nat
  assumes "h < n" and "k < n"
  shows "(h + k + 1) mod n = h \<longleftrightarrow> k + 1 = n"
proof
  assume "(h + k + 1) mod n = h"
  then have "(h + (k + 1)) mod n = h mod n" using assms by (simp add: add.assoc)
  then have "n dvd k + 1" using mod_eq_dvd_iff_nat[of h "h + (k + 1)" n] by simp
  with assms show "k + 1 = n" using dvd_imp_le[of n "k + 1"] by linarith
next
  assume "k + 1 = n"
  then have e: "h + k + 1 = h + n" by simp
  show "(h + k + 1) mod n = h" unfolding e using assms by simp
qed

lemma cb_send_refines:
  assumes rel: "win_rel b n (h, k)" and room: "k < n"
  shows "\<exists>b'. cb_step Send b = Inr b' \<and> win_rel b' n (h, k + 1)"
proof -
  let ?t = "unat (cb_tail b)"
  have r: "is_sender b" "unat (numEntries b) = n" "n < 2 ^ 32" "h < n" "unat (senders_head b) = h"
    "?t = (h + k) mod n" "is_full b = (k = n)" "length (sr_vector b) = n" 
    and sr: "sense_ok n ?t (buffer_sr b) (\<lambda>i. sr_vector b ! i)"
    using rel by (auto simp: win_rel_def)
  have t: "?t < n" using r by simp
  have next_t: "(h + (k + 1)) mod n = (if ?t + 1 = n then 0 else ?t + 1)"
    using mod_Suc_small[OF t] r(6) by (simp add: mod_Suc_eq)
  have inc: "unat (cb_tail b + 1) = ?t + 1" using t r(3) by (intro unat_Suc_small) linarith
  have le: "numEntries b \<le> cb_tail b + 1 \<longleftrightarrow> ?t + 1 = n"
    using inc r(2) t unfolding word_le_nat_alt by linarith
  have eqh: "x = senders_head b \<longleftrightarrow> unat x = h" for x using r by (auto simp: word_unat_eq_iff)
  have full: "(if ?t + 1 = n then 0 else ?t + 1) = h \<longleftrightarrow> k + 1 = n"
    using window_full[OF r(4) room] next_t by (simp add: add.assoc)
  let ?v = "(sr_vector b)[?t := buffer_sr b]"
  let ?nt = "if ?t + 1 = n then 0 else cb_tail b + 1"
  let ?sr = "if ?t + 1 = n then \<not> buffer_sr b else buffer_sr b"
  let ?a = "if ?t + 1 = n then b\<lparr>sr_vector := ?v, cb_tail := 0, buffer_sr := \<not> buffer_sr b\<rparr>
    else b\<lparr>sr_vector := ?v, cb_tail := cb_tail b + 1\<rparr>"
  let ?b = "if k + 1 = n then ?a\<lparr>is_full := True\<rparr> else ?a"
  have nt: "unat ?nt = (h + (k + 1)) mod n" "unat ?nt < n" using next_t inc t by auto
  have v: "sense_ok n (unat ?nt) ?sr (\<lambda>i. ?v ! i)"
    unfolding nt(1) next_t using sr t by (rule sense_post) (use t r(8) in \<open>simp add: nth_list_update\<close>)
  have eqf: "?nt = senders_head b \<longleftrightarrow> k + 1 = n" unfolding eqh nt(1) next_t by (rule full)
  have eqf': "?t + 1 \<noteq> n \<Longrightarrow> cb_tail b + 1 = senders_head b \<longleftrightarrow> k + 1 = n"
    and eqf0: "?t + 1 = n \<Longrightarrow> 0 = senders_head b \<longleftrightarrow> k + 1 = n" using eqf by auto
  have f: "cb_tail ?b = ?nt" "sr_vector ?b = ?v" "buffer_sr ?b = ?sr" "is_full ?b \<longleftrightarrow> k + 1 = n" "is_sender ?b"
    "numEntries ?b = numEntries b" "senders_head ?b = senders_head b"
    using r room by auto
  have "sr_at ?b (cb_tail ?b) = Inr (\<not> buffer_sr ?b)"
    unfolding f sr_at_def using sense_next[OF v nt(2)] nt(2) r(8) by simp
  moreover have "cb_step Send b =
      bindc (sr_at ?b (cb_tail ?b)) (\<lambda>s. if s \<noteq> buffer_sr ?b then Inr ?b else Inl AssertFail)"
    using r(1,8) le t by (cases "?t + 1 = n")
      (simp_all add: writeSRMetadata_def getTailIdxValue_def incTail_def Let_def eqf' eqf0 cong: if_cong)
  moreover have "win_rel ?b n (h, k + 1)"
    unfolding win_rel_def prod.case f using r nt v room by simp
  ultimately show ?thesis by auto
qed

lemma window_reached:
  fixes h i k n :: nat
  assumes "i \<le> k" and "k \<le> n" and "i < n" and "(h + k) mod n = (h + i) mod n"
  shows "k = i \<or> i = 0 \<and> k = n"
proof -
  have "n dvd k - i" using assms mod_eq_dvd_iff_nat[of "h + i" "h + k" n] by simp
  then show ?thesis using assms dvd_imp_le[of n "k - i"] by (cases "k = i") auto
qed

lemma cb_release_refines:
  assumes rel: "win_rel b n (h, k)" and ok: "unat inc \<le> k" "unat inc < n" "h + unat inc \<le> n"
  shows "\<exists>b'. cb_step (Release inc) b = Inr b' \<and> win_rel b' n ((h + unat inc) mod n, k - unat inc)"
proof -
  let ?s = "senders_head b + ucast inc" and ?i = "unat inc"
  have r: "is_sender b" "unat (numEntries b) = n" "n < 2 ^ 32" "h < n" "k \<le> n" "unat (senders_head b) = h"
    "unat (cb_tail b) = (h + k) mod n" "is_full b = (k = n)" "length (sr_vector b) = n" 
    and sr: "sense_ok n (unat (cb_tail b)) (buffer_sr b) (\<lambda>i. sr_vector b ! i)"
    using rel by (auto simp: win_rel_def)
  have s: "unat ?s = h + ?i"
    using r ok unat_ucast_wider[of inc, where 'b = 64] by (subst unat_add_no_wrap) auto
  have le: "numEntries b \<le> ?s \<longleftrightarrow> h + ?i = n" using r s ok by (auto simp: word_le_nat_alt)
  let ?s' = "if h + ?i = n then 0 else ?s"
  have s': "unat ?s' = (h + ?i) mod n" using s ok by auto
  have "cb_tail b \<noteq> ?s' \<or> (k - ?i = n \<longleftrightarrow> k = n)"
  proof (cases "cb_tail b = ?s'")
    case True
    then have "(h + k) mod n = (h + ?i) mod n" using s' r by simp
    then have "k = ?i \<or> ?i = 0 \<and> k = n" by (rule window_reached[OF ok(1) r(5) ok(2)])
    with ok show ?thesis by auto
  qed simp
  moreover have "cb_tail b \<noteq> ?s' \<Longrightarrow> k - ?i \<noteq> n"
    using r ok s' by (auto simp: word_unat_eq_iff)
  ultimately have full: "(if cb_tail b \<noteq> ?s' then False else is_full b) \<longleftrightarrow> k - ?i = n" using r by auto
  have tail: "(h + k) mod n = ((h + ?i) mod n + (k - ?i)) mod n"
  proof -
    have "((h + ?i) mod n + (k - ?i)) mod n = (h + ?i + (k - ?i)) mod n" by (rule mod_add_left_eq)
    with ok show ?thesis by simp
  qed
  let ?b = "b\<lparr>senders_head := ?s', is_full := (if cb_tail b \<noteq> ?s' then False else is_full b)\<rparr>"
  have "cb_step (Release inc) b = Inr ?b"
    using r le by (auto simp: flowControlUpdateSendersHead_def incSendersHeadToFreeSpace_def Let_def)
  moreover have "unat (senders_head ?b) = (h + ?i) mod n" "is_full ?b \<longleftrightarrow> k - ?i = n"
    using s' full by simp_all
  then have "win_rel ?b n ((h + ?i) mod n, k - ?i)"
    unfolding win_rel_def prod.case using r sr tail diff_le_self[of k ?i] by auto
  ultimately show ?thesis by blast
qed

lemma cb_step_refines:
  assumes "win_rel b n w" and "win_step n x w = Some w'"
  shows "\<exists>b'. cb_step x b = Inr b' \<and> win_rel b' n w'"
proof (cases x)
  case Send
  with assms cb_send_refines show ?thesis by (cases w) (auto split: if_splits)
next
  case (Release inc)
  with assms cb_release_refines show ?thesis by (cases w) (auto split: if_splits)
qed

lemma cb_run_refines:
  "win_rel b n w \<Longrightarrow> win_run n xs w = Some w' \<Longrightarrow> \<exists>b'. cb_run xs b = Inr b' \<and> win_rel b' n w'"
proof (induction xs arbitrary: b w)
  case (Cons x xs)
  from Cons.prems(2) obtain v where "win_step n x w = Some v" "win_run n xs v = Some w'"
    by (auto simp: bind_eq_Some_conv)
  with Cons cb_step_refines show ?case by (metis bindc.simps(2) cb_run.simps(2))
qed simp

lemma avail_of_window:
  assumes "win_rel b n (h, k)"
  shows "unat (getAvailSlots b) = (if k = n then n else n - k)"
proof -
  let ?t = "unat (cb_tail b)"
  have r: "unat (numEntries b) = n" "h < n" "k \<le> n" "unat (senders_head b) = h" "is_full b = (k = n)"
    and t: "?t = (h + k) mod n"
    using assms by (auto simp: win_rel_def)
  have t': "?t = (if h + k < n then h + k else h + k - n)"
    using r t by (auto simp: mod_if)
  have le: "senders_head b \<le> cb_tail b \<longleftrightarrow> h \<le> ?t" "senders_head b = cb_tail b \<longleftrightarrow> h = ?t"
    using r by (auto simp: word_le_nat_alt word_unat_eq_iff)
  show ?thesis
  proof (cases "h \<le> ?t")
    case True
    then have "unat (cb_tail b - senders_head b) = ?t - h" using le r by (simp add: unat_sub)
    moreover from this have "unat (numEntries b - (cb_tail b - senders_head b)) = n - (?t - h)"
      using r t' by (subst unat_sub) (auto simp: word_le_nat_alt)
    ultimately have "unat (getAvailSlots b) = (if k \<noteq> n \<and> h = ?t then n else n - (?t - h))"
      using True r le by (simp add: getAvailSlots_def getBufferSize_def isEmpty_def)
    then show ?thesis using True r t' by (cases "h + k < n"; cases "k = n") simp_all
  next
    case False
    then have sz: "unat (numEntries b - senders_head b + cb_tail b) = n - h + ?t"
      using r t' unat_u64_lt[of "numEntries b"]
      by (subst unat_add_no_wrap) (auto simp: unat_sub word_le_nat_alt)
    then have "unat (numEntries b - (numEntries b - senders_head b + cb_tail b)) = n - (n - h + ?t)"
      using False r by (subst unat_sub) (auto simp: word_le_nat_alt)
    then have "unat (getAvailSlots b) = n - (n - h + ?t)"
      using False r le by (simp add: getAvailSlots_def getBufferSize_def isEmpty_def)
    then show ?thesis using False r t' by (cases "h + k < n"; cases "k = n") simp_all
  qed
qed


section \<open>Statements\<close>



text \<open>A release that goes past the last entry loses the entries behind the wrap, and releasing all entries at once
  leaves the buffer marked as full: \<open>incSendersHeadToFreeSpace\<close> sets the head to zero instead of
  wrapping it.\<close>

theorem release_past_end:
  assumes "win_rel b n (h, k)" and "unat inc \<le> k" and "n < h + unat inc"
  shows "\<exists>b'. incSendersHeadToFreeSpace b inc = Inr b' \<and> senders_head b' = 0 \<and> (h + unat inc) mod n \<noteq> 0"
proof -
  have r: "is_sender b" "unat (numEntries b) = n" "n < 2 ^ 32" "h < n" "k \<le> n" "unat (senders_head b) = h"
    using assms by (auto simp: win_rel_def)
  have "unat (senders_head b + ucast inc) = h + unat inc"
    using r assms(2) unat_ucast_wider[of inc, where 'b = 64] by (subst unat_add_no_wrap) auto
  then have "numEntries b \<le> senders_head b + ucast inc" using r assms by (simp add: word_le_nat_alt)
  moreover have "(h + unat inc) mod n = h + unat inc - n" using r assms by (simp add: mod_if)
  ultimately show ?thesis using r assms by (auto simp: incSendersHeadToFreeSpace_def Let_def)
qed


theorem release_past_end_witness:
  "\<exists>b b'. cb_run [Send, Send, Send, Release 3, Send, Send, Send] (CircularReceiveBuffer_new 0x1000 64 4 True) = Inr b \<and>
     unat (senders_head b) = 3 \<and> incSendersHeadToFreeSpace b 3 = Inr b' \<and> senders_head b' = 0 \<and> (3 + unat (3 :: u32)) mod 4 = (2 :: nat)"
proof -
  have "win_run (unat (4 :: u64)) [Send, Send, Send, Release 3, Send, Send, Send] (0, 0) = Some (3, 3)" by simp
  then obtain b where b: "cb_run [Send, Send, Send, Release 3, Send, Send, Send]
      (CircularReceiveBuffer_new 0x1000 64 4 True) = Inr b" "win_rel b 4 (3, 3)"
    using cb_run_refines[OF win_rel_new[of 4 "0x1000" 64]] by fastforce
  then show ?thesis using release_past_end[OF b(2), of 3] by (auto simp: win_rel_def)
qed

section \<open>The index of a buffer\<close>

lemma getCBufIdx_nat:
  assumes c: "getNumClients nodes = c" and nid: "1 \<le> unat nid" "unat nid \<le> unat c" and tid: "unat tid < unat t"
    and bounds: "unat c * unat t < 2 ^ 32" "unat c * unat c + unat t \<le> 2 ^ 32"
  shows "unat (getCBufIdx nodes t nid tid s) = unat s * (unat c * unat t) + ((unat nid - 1) * unat c + unat tid)"
proof -
  have m: "unat (nid - 1) = unat nid - 1" using nid by (subst unat_sub) (auto simp: word_le_nat_alt)
  have "(unat nid - 1 + 1) * unat c \<le> unat c * unat c" using nid by (intro mult_le_mono1) simp
  then have le: "(unat nid - 1) * unat c + unat c \<le> unat c * unat c" by (simp add: algebra_simps)
  have "unat ((nid - 1) * c) = unat (nid - 1) * unat c"
    using m le bounds tid by (intro unat_mult_no_wrap) simp
  then have a: "unat ((nid - 1) * c + tid) = (unat nid - 1) * unat c + unat tid"
    using le bounds tid m by (subst unat_add_no_wrap) simp_all
  have b: "unat (c * t) = unat c * unat t" using bounds by (intro unat_mult_no_wrap) simp
  have s: "unat s * unat (c * t) \<le> (2 ^ 32 - 1) * (2 ^ 32 - 1)"
    using unat_u32_lt[of s] unat_u32_lt[of "c * t"] by (intro mult_le_mono) (simp_all del: unat_u32_lt)
  have w: "unat (ucast (x :: u32) :: u64) = unat x" for x by (rule unat_ucast_wider) simp
  have p: "unat (ucast s * ucast (c * t) :: u64) = unat s * unat (c * t)"
    using s by (subst unat_mult_no_wrap) (simp_all add: w)
  have "unat (getCBufIdx nodes t nid tid s) = unat s * unat (c * t) + unat ((nid - 1) * c + tid)"
    using s unat_u32_lt[of "(nid - 1) * c + tid"] unfolding getCBufIdx_def Let_def c
    by (subst unat_add_no_wrap) (simp_all add: w p del: unat_u32_lt)
  then show ?thesis by (simp add: a b)
qed

text \<open>The client threads that may ask for a buffer, with the server thread they talk to.\<close>

definition cbuf_users :: "u32 \<Rightarrow> u32 \<Rightarrow> u32 \<Rightarrow> (u32 \<times> u32 \<times> u32) set" where
  "cbuf_users nodes t servers =
     {(nid, tid, s). 1 \<le> unat nid \<and> unat nid \<le> unat (getNumClients nodes) \<and> unat tid < unat t \<and> unat s < unat servers}"

lemma mixed_radix_unique:
  fixes n :: nat
  assumes "a * n + b = a' * n + b'" and "b < n" and "b' < n"
  shows "a = a' \<and> b = b'"
  using assms by (metis add.commute div_mult_self3 mod_mult_self3 mod_less div_less add_cancel_left_right less_nat_zero_code)




end
