(* ===== verification/Nic_Queues.thy ===== *)
theory Nic_Queues
  imports Sense_Reversal
begin

text \<open>
  The queue pairs of the simulated network interface (\<^verbatim>\<open>src/libzsim/zsim_nic_defines.cpp\<close> and \<^verbatim>\<open>.hpp\<close>): posting to the work
  queue and polling the completion queue.  Both are arrays of \<open>MAX_NUM_WQ\<close> entries with a sense bit that flips
  at every turn.  The other side is the simulator: it clears \<open>valid\<close> in work queue entries and writes completion
  entries; nothing is assumed about when.  The functions are runs in which the simulator does not act; a loop that only it
  can end is the fault \<open>Spins\<close>.  \<open>register_buffer\<close> executes a magic instruction and changes no variable of the program.
\<close>

section \<open>Entries and queues\<close>

definition MAX_NUM_WQ :: nat where "MAX_NUM_WQ = 128"
definition CACHE_BLOCK_SIZE :: u64 where "CACHE_BLOCK_SIZE = 64"
definition CACHE_BLOCK_BITS :: nat where "CACHE_BLOCK_BITS = 6"

definition RMC_SABRE :: u32 where "RMC_SABRE = 4"
definition RMC_RECV :: u32 where "RMC_RECV = 5"
definition RMC_SEND :: u32 where "RMC_SEND = push_bit 4 1"
definition RMC_INCOMING_SEND :: u32 where "RMC_INCOMING_SEND = or (push_bit 4 1) (push_bit 1 1)"
definition RMC_INCOMING_RESP :: u32 where "RMC_INCOMING_RESP = or (push_bit 4 1) (push_bit 2 1)"
definition RMC_INVAL :: u32 where "RMC_INVAL = 42"

lemmas rmc_op_defs = RMC_SABRE_def RMC_RECV_def RMC_SEND_def RMC_INCOMING_SEND_def RMC_INCOMING_RESP_def RMC_INVAL_def

record wq_entry =
  wqe_op :: u32
  wqe_SR :: bool
  wqe_valid :: bool
  wqe_buf_addr :: u64
  wqe_cid :: u32
  wqe_nid :: u64
  wqe_offset :: u64
  wqe_length :: u64

record cq_entry =
  cqe_SR :: bool
  cqe_valid :: bool
  cqe_success :: u32
  cqe_tid :: u32
  cqe_recv_buf_addr :: u64

record rmc_wq =
  wq_q :: "wq_entry list"
  wq_head :: u32
  wq_SR :: bool

record rmc_cq =
  cq_q :: "cq_entry list"
  cq_tail :: u32
  cq_SR :: bool

record successStruct =
  ss_success :: u32
  ss_op :: u32
  ss_tid :: u32
  ss_recv_buf_addr :: u64

section \<open>Posting\<close>

definition create_wq_entry :: "u32 \<Rightarrow> bool \<Rightarrow> u32 \<Rightarrow> u64 \<Rightarrow> u64 \<Rightarrow> u64 \<Rightarrow> u64 \<Rightarrow> wq_entry" where
  "create_wq_entry op sr cid nid buf_addr offs len =
     \<lparr>wqe_op = op, wqe_SR = sr, wqe_valid = True, wqe_buf_addr = buf_addr, wqe_cid = cid,
      wqe_nid = nid, wqe_offset = offs, wqe_length = len\<rparr>"

definition rmc_hw_send :: "rmc_wq \<Rightarrow> u32 \<Rightarrow> u64 \<Rightarrow> u64 \<Rightarrow> u64 \<Rightarrow> (int \<times> rmc_wq) cres" where
  "rmc_hw_send wq ctx_id data_address len nid =
     (if length (wq_q wq) \<le> unat (wq_head wq) then Inl OutOfBounds
      else if wqe_valid (wq_q wq ! unat (wq_head wq)) then Inr (-1, wq)
      else let len = len + (CACHE_BLOCK_SIZE - 1);
               len = drop_bit CACHE_BLOCK_BITS len;
               e = create_wq_entry RMC_SEND (wq_SR wq) ctx_id nid data_address 0 len;
               wq = wq\<lparr>wq_q := (wq_q wq)[unat (wq_head wq) := e], wq_head := wq_head wq + 1\<rparr>;
               wq = (if of_nat MAX_NUM_WQ \<le> wq_head wq then wq\<lparr>wq_head := 0, wq_SR := \<not> wq_SR wq\<rparr> else wq)
           in Inr (0, wq))"

definition rmc_hw_recv :: "rmc_wq \<Rightarrow> u32 \<Rightarrow> u64 \<Rightarrow> u64 \<Rightarrow> (int \<times> rmc_wq) cres" where
  "rmc_hw_recv wq ctx_id recv_buf len =
     (if length (wq_q wq) \<le> unat (wq_head wq) then Inl OutOfBounds
      else if wqe_valid (wq_q wq ! unat (wq_head wq)) then Inr (-1, wq)
      else let e = create_wq_entry RMC_RECV (wq_SR wq) ctx_id 0 recv_buf 0 len;
               wq = wq\<lparr>wq_q := (wq_q wq)[unat (wq_head wq) := e], wq_head := wq_head wq + 1\<rparr>;
               wq = (if of_nat MAX_NUM_WQ \<le> wq_head wq then wq\<lparr>wq_head := 0, wq_SR := \<not> wq_SR wq\<rparr> else wq)
           in Inr (0, wq))"

section \<open>Polling\<close>

text \<open>The entries a consumer at position \<open>t\<close> with sense \<open>sr\<close> may still take before it meets an old one.\<close>

definition fresh_slots :: "rmc_cq \<Rightarrow> nat set" where
  "fresh_slots cq = {i. i < MAX_NUM_WQ \<and>
     (cqe_SR (cq_q cq ! i) = (if i < unat (cq_tail cq) then \<not> cq_SR cq else cq_SR cq))}"

definition cq_advance :: "rmc_cq \<Rightarrow> rmc_cq" where
  "cq_advance cq =
     (let t = unat (cq_tail cq);
          cq = cq\<lparr>cq_q := (cq_q cq)[t := (cq_q cq ! t)\<lparr>cqe_valid := False\<rparr>], cq_tail := cq_tail cq + 1\<rparr>
      in if of_nat MAX_NUM_WQ \<le> cq_tail cq then cq\<lparr>cq_tail := 0, cq_SR := \<not> cq_SR cq\<rparr> else cq)"

lemma finite_fresh_slots [simp]: "finite (fresh_slots cq)"
  by (simp add: fresh_slots_def)

lemma cq_advance_SR [simp]:
  "i < length (cq_q cq) \<Longrightarrow> cqe_SR (cq_q (cq_advance cq) ! i) = cqe_SR (cq_q cq ! i)"
  by (cases "unat (cq_tail cq) < length (cq_q cq)") (auto simp: cq_advance_def Let_def nth_list_update list_update_beyond)

lemma unat_u32_Suc: "unat (x :: u32) < 128 \<Longrightarrow> unat (x + 1) = unat x + 1"
  by (simp add: unat_add_no_wrap)

lemma cq_advance_tail:
  assumes "unat (cq_tail cq) < MAX_NUM_WQ"
  shows "unat (cq_tail (cq_advance cq)) = (unat (cq_tail cq) + 1) mod MAX_NUM_WQ"
    and "cq_SR (cq_advance cq) = (if unat (cq_tail cq) + 1 = MAX_NUM_WQ then \<not> cq_SR cq else cq_SR cq)"
  using assms unat_u32_Suc[of "cq_tail cq"]
  by (cases "unat (cq_tail cq) = 127"; auto simp: cq_advance_def Let_def MAX_NUM_WQ_def word_le_nat_alt)+

lemma fresh_slots_advance:
  assumes "unat (cq_tail cq) < MAX_NUM_WQ" and "length (cq_q cq) = MAX_NUM_WQ"
    and "cqe_SR (cq_q cq ! unat (cq_tail cq)) = cq_SR cq"
  shows "fresh_slots (cq_advance cq) = fresh_slots cq - {unat (cq_tail cq)}" and "unat (cq_tail cq) \<in> fresh_slots cq"
proof -
  let ?t = "unat (cq_tail cq)"
  have t: "?t < MAX_NUM_WQ" using assms by simp
  show "fresh_slots (cq_advance cq) = fresh_slots cq - {?t}"
  proof (rule set_eqI)
    fix i
    consider "MAX_NUM_WQ \<le> i" | "i < ?t" | "i = ?t" | "?t < i" "i < MAX_NUM_WQ" by linarith
    then show "i \<in> fresh_slots (cq_advance cq) \<longleftrightarrow> i \<in> fresh_slots cq - {?t}"
      using assms t by cases (auto simp: fresh_slots_def cq_advance_tail mod_Suc)
  qed
  show "?t \<in> fresh_slots cq" using assms by (simp add: fresh_slots_def)
qed

lemma card_fresh_advance:
  assumes "unat (cq_tail cq) < MAX_NUM_WQ" and "length (cq_q cq) = MAX_NUM_WQ"
    and "cqe_SR (cq_q cq ! unat (cq_tail cq)) = cq_SR cq"
  shows "card (fresh_slots (cq_advance cq)) < card (fresh_slots cq)"
  unfolding fresh_slots_advance(1)[OF assms] using fresh_slots_advance(2)[OF assms]
  by (rule card_Diff1_less[OF finite_fresh_slots])

text \<open>One turn of the inner loop per call.  The result says whether the function returned from within
  the loop.\<close>

function check_inner :: "rmc_wq \<Rightarrow> rmc_cq \<Rightarrow> successStruct \<Rightarrow> (bool \<times> successStruct \<times> rmc_cq) cres" where
  "check_inner wq cq ret =
     (let t = unat (cq_tail cq) in
      if length (cq_q cq) \<noteq> MAX_NUM_WQ \<or> MAX_NUM_WQ \<le> t then Inl OutOfBounds
      else let raw = cq_q cq ! t in
      if cqe_SR raw = cq_SR cq \<and> ss_success ret \<noteq> 0 then
        let cq' = cq_advance cq in
        if cqe_success raw = 0x7F then
          Inr (True, ret\<lparr>ss_recv_buf_addr := cqe_recv_buf_addr raw, ss_op := RMC_INCOMING_SEND, ss_tid := cqe_tid raw\<rparr>, cq')
        else if cqe_success raw = 1 then
          Inr (True, ret\<lparr>ss_recv_buf_addr := cqe_recv_buf_addr raw, ss_op := RMC_INCOMING_RESP, ss_tid := cqe_tid raw\<rparr>, cq')
        else if length (wq_q wq) \<le> unat (cqe_tid raw) then Inl OutOfBounds
        else let ret = ret\<lparr>ss_op := wqe_op (wq_q wq ! unat (cqe_tid raw))\<rparr>;
                 ret = (if ss_op ret = RMC_SABRE then
                          let ret = ret\<lparr>ss_success := cqe_success (cq_q cq' ! t)\<rparr>
                          in if ss_success ret = 0 then ret\<lparr>ss_tid := cqe_tid raw\<rparr> else ret
                        else ret\<lparr>ss_op := 0\<rparr>)
             in check_inner wq cq' ret
      else Inr (False, ret, cq))"
  by pat_completeness auto
termination
proof (relation "measure (\<lambda>(wq, cq, ret). card (fresh_slots cq))", goal_cases)
  case (2 wq cq ret)
  then have "unat (cq_tail cq) < MAX_NUM_WQ" "length (cq_q cq) = MAX_NUM_WQ"
      "cqe_SR (cq_q cq ! unat (cq_tail cq)) = cq_SR cq" by auto
  from card_fresh_advance[OF this] 2 show ?case by simp
qed simp

definition rmc_check_cq :: "rmc_wq \<Rightarrow> rmc_cq \<Rightarrow> successStruct \<Rightarrow> (successStruct \<times> rmc_cq) cres" where
  "rmc_check_cq wq cq ret =
     (let ret = ret\<lparr>ss_success := 1, ss_op := RMC_INVAL\<rparr> in
      if length (wq_q wq) \<le> unat (wq_head wq) then Inl OutOfBounds
      else let raw_wqe = wq_q wq ! unat (wq_head wq) in
        bindc (check_inner wq cq ret) (\<lambda>(returned, ret, cq).
          if returned then Inr (ret, cq)
          else if wqe_valid raw_wqe \<and> ss_success ret \<noteq> 0 then Inl Spins
          else Inr (ret, cq)))"

declare check_inner.simps [simp del]


section \<open>The work queue in use\<close>

text \<open>The program posts, and the simulator completes entries in any order by clearing their \<open>valid\<close> bit.\<close>

inductive wq_step :: "rmc_wq \<Rightarrow> rmc_wq \<Rightarrow> bool" where
  post_send: "rmc_hw_send wq ctx a len nid = Inr (r, wq') \<Longrightarrow> wq_step wq wq'"
| post_recv: "rmc_hw_recv wq ctx a len = Inr (r, wq') \<Longrightarrow> wq_step wq wq'"
| complete: "i < length (wq_q wq) \<Longrightarrow>
    wq_step wq (wq\<lparr>wq_q := (wq_q wq)[i := (wq_q wq ! i)\<lparr>wqe_valid := False\<rparr>]\<rparr>)"

definition wq_sense :: "rmc_wq \<Rightarrow> nat \<Rightarrow> bool" where
  "wq_sense wq i = wqe_SR (wq_q wq ! i)"

definition wq_inv :: "rmc_wq \<Rightarrow> bool" where
  "wq_inv wq \<longleftrightarrow> length (wq_q wq) = MAX_NUM_WQ \<and> unat (wq_head wq) < MAX_NUM_WQ \<and>
     sense_ok MAX_NUM_WQ (unat (wq_head wq)) (wq_SR wq) (wq_sense wq)"

definition wq_post :: "rmc_wq \<Rightarrow> wq_entry \<Rightarrow> rmc_wq" where
  "wq_post wq e =
     (let wq = wq\<lparr>wq_q := (wq_q wq)[unat (wq_head wq) := e], wq_head := wq_head wq + 1\<rparr>
      in if of_nat MAX_NUM_WQ \<le> wq_head wq then wq\<lparr>wq_head := 0, wq_SR := \<not> wq_SR wq\<rparr> else wq)"

definition send_entry :: "rmc_wq \<Rightarrow> u32 \<Rightarrow> u64 \<Rightarrow> u64 \<Rightarrow> u64 \<Rightarrow> wq_entry" where
  "send_entry wq ctx a len nid = create_wq_entry RMC_SEND (wq_SR wq) ctx nid a 0 (drop_bit CACHE_BLOCK_BITS (len + (CACHE_BLOCK_SIZE - 1)))"

definition recv_entry :: "rmc_wq \<Rightarrow> u32 \<Rightarrow> u64 \<Rightarrow> u64 \<Rightarrow> wq_entry" where
  "recv_entry wq ctx a len = create_wq_entry RMC_RECV (wq_SR wq) ctx 0 a 0 len"

lemma rmc_hw_send_eq:
  "wq_inv wq \<Longrightarrow> rmc_hw_send wq ctx a len nid =
     (if wqe_valid (wq_q wq ! unat (wq_head wq)) then Inr (-1, wq) else Inr (0, wq_post wq (send_entry wq ctx a len nid)))"
  by (simp add: wq_inv_def rmc_hw_send_def wq_post_def send_entry_def Let_def)

lemma rmc_hw_recv_eq:
  "wq_inv wq \<Longrightarrow> rmc_hw_recv wq ctx a len =
     (if wqe_valid (wq_q wq ! unat (wq_head wq)) then Inr (-1, wq) else Inr (0, wq_post wq (recv_entry wq ctx a len)))"
  by (simp add: wq_inv_def rmc_hw_recv_def wq_post_def recv_entry_def Let_def)

lemma wq_post_fields:
  assumes "unat (wq_head wq) < MAX_NUM_WQ"
  shows "wq_q (wq_post wq e) = (wq_q wq)[unat (wq_head wq) := e]"
    and "unat (wq_head (wq_post wq e)) = (if unat (wq_head wq) + 1 = MAX_NUM_WQ then 0 else unat (wq_head wq) + 1)"
    and "wq_SR (wq_post wq e) = (if unat (wq_head wq) + 1 = MAX_NUM_WQ then \<not> wq_SR wq else wq_SR wq)"
  using assms unat_u32_Suc[of "wq_head wq"]
  by (cases "unat (wq_head wq) = 127"; auto simp: wq_post_def Let_def MAX_NUM_WQ_def word_le_nat_alt)+

lemma wq_post_inv:
  assumes inv: "wq_inv wq" and sr: "wqe_SR e = wq_SR wq"
  shows "wq_inv (wq_post wq e)"
proof -
  let ?h = "unat (wq_head wq)"
  have h: "?h < MAX_NUM_WQ" and len: "length (wq_q wq) = MAX_NUM_WQ"
    and s: "sense_ok MAX_NUM_WQ ?h (wq_SR wq) (wq_sense wq)" using inv by (simp_all add: wq_inv_def)
  have "sense_ok MAX_NUM_WQ (unat (wq_head (wq_post wq e))) (wq_SR (wq_post wq e)) (wq_sense (wq_post wq e))"
    unfolding wq_post_fields[OF h] using s h
    by (rule sense_post) (use len sr h in \<open>simp add: wq_sense_def wq_post_fields nth_list_update\<close>)
  then show ?thesis using h len by (simp add: wq_inv_def wq_post_fields)
qed

lemma wq_complete_inv:
  "wq_inv wq \<Longrightarrow> wq_inv (wq\<lparr>wq_q := (wq_q wq)[i := (wq_q wq ! i)\<lparr>wqe_valid := False\<rparr>]\<rparr>)"
  by (cases "i < length (wq_q wq)")
    (auto simp: wq_inv_def wq_sense_def nth_list_update list_update_beyond elim!: sense_ok_keep split: if_splits)

lemma wq_step_inv: "wq_step wq wq' \<Longrightarrow> wq_inv wq \<Longrightarrow> wq_inv wq'"
  by (induction rule: wq_step.induct)
    (auto simp: rmc_hw_send_eq rmc_hw_recv_eq wq_complete_inv send_entry_def recv_entry_def create_wq_entry_def
      intro!: wq_post_inv split: if_splits)


inductive_simps wq_step_iff: "wq_step wq wq'"

definition wq_initial :: "rmc_wq \<Rightarrow> bool" where
  "wq_initial wq \<longleftrightarrow> length (wq_q wq) = MAX_NUM_WQ \<and> wq_head wq = 0 \<and> (\<forall>e \<in> set (wq_q wq). wqe_SR e \<noteq> wq_SR wq)"

lemma wq_initial_inv: "wq_initial wq \<Longrightarrow> wq_inv wq"
  by (simp add: wq_initial_def wq_inv_def MAX_NUM_WQ_def sense_ok_def wq_sense_def all_set_conv_all_nth)

lemma wq_reachable_inv: "wq_step\<^sup>*\<^sup>* wq wq' \<Longrightarrow> wq_inv wq \<Longrightarrow> wq_inv wq'"
  by (induction rule: rtranclp_induct) (blast intro: wq_step_inv)+

section \<open>The completion queue as a list\<close>

text \<open>\<open>cq_holds cq es\<close>: the entries that were posted and not yet taken are \<open>es\<close>, oldest first; the entry
  behind them has the other sense bit.\<close>

definition cq_sense :: "rmc_cq \<Rightarrow> nat \<Rightarrow> bool" where
  "cq_sense cq j = (if MAX_NUM_WQ \<le> unat (cq_tail cq) + j then \<not> cq_SR cq else cq_SR cq)"

definition cq_slot :: "rmc_cq \<Rightarrow> nat \<Rightarrow> cq_entry" where
  "cq_slot cq j = cq_q cq ! ((unat (cq_tail cq) + j) mod MAX_NUM_WQ)"

definition cq_holds :: "rmc_cq \<Rightarrow> cq_entry list \<Rightarrow> bool" where
  "cq_holds cq es \<longleftrightarrow> length (cq_q cq) = MAX_NUM_WQ \<and> unat (cq_tail cq) < MAX_NUM_WQ \<and> length es \<le> MAX_NUM_WQ \<and>
     (\<forall>j < length es. cq_slot cq j = es ! j \<and> cqe_SR (es ! j) = cq_sense cq j) \<and>
     cqe_SR (cq_slot cq (length es)) \<noteq> cq_sense cq (length es)"

lemma cq_slot_advance:
  assumes len: "length (cq_q cq) = MAX_NUM_WQ" and t: "unat (cq_tail cq) < MAX_NUM_WQ"
  shows "j + 1 < MAX_NUM_WQ \<Longrightarrow> cq_slot (cq_advance cq) j = cq_slot cq (j + 1)"
    and "cqe_SR (cq_slot (cq_advance cq) j) = cqe_SR (cq_slot cq (j + 1))"
    and "j < MAX_NUM_WQ \<Longrightarrow> cq_sense (cq_advance cq) j = cq_sense cq (j + 1)"
proof -
  let ?t = "unat (cq_tail cq)"
  have idx: "(unat (cq_tail (cq_advance cq)) + j) mod MAX_NUM_WQ = (?t + (j + 1)) mod MAX_NUM_WQ"
    unfolding cq_advance_tail(1)[OF t] by (simp add: mod_add_left_eq)
  show "cqe_SR (cq_slot (cq_advance cq) j) = cqe_SR (cq_slot cq (j + 1))"
    unfolding cq_slot_def idx using len by (simp add: MAX_NUM_WQ_def)
  have q: "cq_q (cq_advance cq) = (cq_q cq)[?t := (cq_q cq ! ?t)\<lparr>cqe_valid := False\<rparr>]"
    by (simp add: cq_advance_def Let_def)
  show "cq_slot (cq_advance cq) j = cq_slot cq (j + 1)" if "j + 1 < MAX_NUM_WQ"
  proof -
    have "(?t + (j + 1)) mod MAX_NUM_WQ \<noteq> ?t" using that t by (auto simp: mod_if)
    then show ?thesis unfolding cq_slot_def idx q by simp
  qed
  show "cq_sense (cq_advance cq) j = cq_sense cq (j + 1)" if "j < MAX_NUM_WQ"
    using that t by (auto simp: cq_sense_def cq_advance_tail)
qed

lemma cq_holds_advance:
  assumes "cq_holds cq (e # es)"
  shows "cq_holds (cq_advance cq) es"
proof -
  have h: "length (cq_q cq) = MAX_NUM_WQ" "unat (cq_tail cq) < MAX_NUM_WQ" "length es < MAX_NUM_WQ"
    "\<And>j. j < length es \<Longrightarrow> cq_slot cq (j + 1) = es ! j \<and> cqe_SR (es ! j) = cq_sense cq (j + 1)"
    "cqe_SR (cq_slot cq (length es + 1)) \<noteq> cq_sense cq (length es + 1)"
    using assms by (force simp: cq_holds_def)+
  note adv = cq_slot_advance[OF h(1,2)]
  have "length (cq_q (cq_advance cq)) = MAX_NUM_WQ" "unat (cq_tail (cq_advance cq)) < MAX_NUM_WQ"
    using h(1) unfolding cq_advance_tail(1)[OF h(2)] by (simp_all add: cq_advance_def Let_def MAX_NUM_WQ_def)
  then show ?thesis unfolding cq_holds_def using h adv by auto
qed

lemma cq_holds_front:
  assumes "cq_holds cq (e # es)"
  shows "cq_q cq ! unat (cq_tail cq) = e" and "cqe_SR e = cq_SR cq"
proof -
  have "unat (cq_tail cq) < MAX_NUM_WQ" "cq_slot cq 0 = e" "cqe_SR e = cq_sense cq 0"
    using assms by (force simp: cq_holds_def)+
  then show "cq_q cq ! unat (cq_tail cq) = e" "cqe_SR e = cq_SR cq"
    by (simp_all add: cq_slot_def cq_sense_def)
qed

lemma cq_holds_empty:
  assumes "cq_holds cq []"
  shows "cqe_SR (cq_q cq ! unat (cq_tail cq)) \<noteq> cq_SR cq"
  using assms by (auto simp: cq_holds_def cq_slot_def cq_sense_def)

lemma check_inner_stopped:
  "cq_holds cq es \<Longrightarrow> ss_success ret = 0 \<Longrightarrow> check_inner wq cq ret = Inr (False, ret, cq)"
  by (subst check_inner.simps) (simp add: cq_holds_def Let_def)

text \<open>What the inner loop does, on the list.\<close>

fun check_spec :: "wq_entry list \<Rightarrow> cq_entry list \<Rightarrow> successStruct \<Rightarrow> (bool \<times> successStruct \<times> cq_entry list) cres" where
  "check_spec q [] ret = Inr (False, ret, [])"
| "check_spec q (e # es) ret =
     (if ss_success ret = 0 then Inr (False, ret, e # es)
      else if cqe_success e = 0x7F then
        Inr (True, ret\<lparr>ss_recv_buf_addr := cqe_recv_buf_addr e, ss_op := RMC_INCOMING_SEND, ss_tid := cqe_tid e\<rparr>, es)
      else if cqe_success e = 1 then
        Inr (True, ret\<lparr>ss_recv_buf_addr := cqe_recv_buf_addr e, ss_op := RMC_INCOMING_RESP, ss_tid := cqe_tid e\<rparr>, es)
      else if length q \<le> unat (cqe_tid e) then Inl OutOfBounds
      else if wqe_op (q ! unat (cqe_tid e)) \<noteq> RMC_SABRE then check_spec q es (ret\<lparr>ss_op := 0\<rparr>)
      else if cqe_success e = 0 then Inr (False, ret\<lparr>ss_op := RMC_SABRE, ss_success := 0, ss_tid := cqe_tid e\<rparr>, es)
      else check_spec q es (ret\<lparr>ss_op := RMC_SABRE, ss_success := cqe_success e\<rparr>))"

fun lift_check :: "(bool \<times> successStruct \<times> cq_entry list) cres \<Rightarrow> (bool \<times> successStruct \<times> rmc_cq) cres \<Rightarrow> bool" where
  "lift_check (Inl f) r \<longleftrightarrow> r = Inl f"
| "lift_check (Inr (b, ret, es)) r \<longleftrightarrow> (\<exists>cq. r = Inr (b, ret, cq) \<and> cq_holds cq es)"

lemma check_inner_refines:
  "cq_holds cq es \<Longrightarrow> lift_check (check_spec (wq_q wq) es ret) (check_inner wq cq ret)"
proof (induction es arbitrary: cq ret)
  case Nil
  then show ?case using cq_holds_empty[OF Nil] by (subst check_inner.simps) (auto simp: cq_holds_def)
next
  case (Cons e es)
  have wf: "length (cq_q cq) = MAX_NUM_WQ" "unat (cq_tail cq) < MAX_NUM_WQ" using Cons.prems by (auto simp: cq_holds_def)
  note front = cq_holds_front[OF Cons.prems] and adv = cq_holds_advance[OF Cons.prems]
  have succ: "cqe_success (cq_q (cq_advance cq) ! unat (cq_tail cq)) = cqe_success e"
    using wf front by (simp add: cq_advance_def Let_def)
  show ?case
    using wf front adv Cons.IH[OF adv] Cons.prems
    by (subst check_inner.simps) (auto simp: Let_def succ check_inner_stopped[OF adv])
qed


text \<open>A queue whose sense bits are arbitrary holds some list of entries.\<close>

lemma cq_holds_exists:
  assumes "length (cq_q cq) = MAX_NUM_WQ" and "unat (cq_tail cq) < MAX_NUM_WQ"
  shows "\<exists>es. cq_holds cq es"
proof -
  define stop where "stop = (\<lambda>j. cqe_SR (cq_slot cq j) \<noteq> cq_sense cq j)"
  have wrap: "cq_slot cq MAX_NUM_WQ = cq_slot cq 0" using assms by (simp add: cq_slot_def)
  have "stop 0 \<or> stop MAX_NUM_WQ" using assms wrap by (auto simp: stop_def cq_sense_def)
  then have ex: "\<exists>j \<le> MAX_NUM_WQ. stop j" by auto
  define k where "k = (LEAST j. stop j)"
  have k: "stop k" "k \<le> MAX_NUM_WQ" using ex by (auto simp: k_def intro: LeastI Least_le le_trans)
  have below: "\<not> stop j" if "j < k" for j using that not_less_Least unfolding k_def by blast
  have "cq_holds cq (map (cq_slot cq) [0..<k])"
    unfolding cq_holds_def using assms k below by (auto simp: stop_def)
  then show ?thesis by blast
qed

lemma cq_holds_subset:
  assumes "cq_holds cq es"
  shows "set es \<subseteq> set (cq_q cq)"
proof
  fix e assume "e \<in> set es"
  then obtain j where "j < length es" "e = cq_slot cq j" using assms by (auto simp: in_set_conv_nth cq_holds_def)
  moreover have "(unat (cq_tail cq) + j) mod MAX_NUM_WQ < length (cq_q cq)"
    using assms by (simp add: cq_holds_def MAX_NUM_WQ_def)
  ultimately show "e \<in> set (cq_q cq)" by (simp add: cq_slot_def)
qed

lemma check_spec_total:
  "\<forall>e \<in> set es. unat (cqe_tid e) < length q \<Longrightarrow>
     \<exists>b r taken rest. check_spec q es ret = Inr (b, r, rest) \<and> es = taken @ rest"
proof (induction es arbitrary: ret)
  case (Cons e es)
  then have "\<exists>b r taken rest. check_spec q es ret' = Inr (b, r, rest) \<and> e # es = (e # taken) @ rest" for ret' by simp
  then have step: "\<exists>b r taken rest. check_spec q es ret' = Inr (b, r, rest) \<and> e # es = taken @ rest" for ret' by metis
  from Cons.prems have "\<not> length q \<le> unat (cqe_tid e)" by simp
  then show ?case using step by auto
qed auto

section \<open>Statements\<close>



text \<open>C13: Messages are received in the order in which they were posted: if the oldest entry of the completion queue announces
  an incoming message, \<open>rmc_check_cq\<close> returns this message's buffer and sender and removes exactly this entry.\<close>

theorem check_cq_takes_message:
  assumes "cq_holds cq (e # es)" and "cqe_success e = 0x7F" and "unat (wq_head wq) < length (wq_q wq)"
  shows "\<exists>r cq'. rmc_check_cq wq cq ret = Inr (r, cq') \<and> cq_holds cq' es \<and> ss_op r = RMC_INCOMING_SEND \<and>
    ss_tid r = cqe_tid e \<and> ss_recv_buf_addr r = cqe_recv_buf_addr e"
  using check_inner_refines[OF assms(1), of wq "ret\<lparr>ss_success := 1, ss_op := RMC_INVAL\<rparr>"] assms(2,3)
  by (auto simp: rmc_check_cq_def Let_def)


section \<open>Instances\<close>

definition demo_wq :: rmc_wq where
  "demo_wq = \<lparr>wq_q = replicate MAX_NUM_WQ \<lparr>wqe_op = 0, wqe_SR = False, wqe_valid = False, wqe_buf_addr = 0,
      wqe_cid = 0, wqe_nid = 0, wqe_offset = 0, wqe_length = 0\<rparr>, wq_head = 0, wq_SR = True\<rparr>"

definition demo_cqe :: cq_entry where
  "demo_cqe = \<lparr>cqe_SR = True, cqe_valid = True, cqe_success = 0x7F, cqe_tid = 5, cqe_recv_buf_addr = 0x4000\<rparr>"

definition demo_cq :: rmc_cq where
  "demo_cq = \<lparr>cq_q = demo_cqe # replicate 127 (demo_cqe\<lparr>cqe_SR := False\<rparr>), cq_tail = 0, cq_SR = True\<rparr>"

definition demo_ret :: successStruct where
  "demo_ret = \<lparr>ss_success = 0, ss_op = 0, ss_tid = 0, ss_recv_buf_addr = 0\<rparr>"

lemma demo_wq_initial: "wq_initial demo_wq"
  by (simp add: wq_initial_def demo_wq_def)

lemma demo_cq_holds: "cq_holds demo_cq [demo_cqe]"
  by (simp add: cq_holds_def demo_cq_def cq_slot_def cq_sense_def MAX_NUM_WQ_def demo_cqe_def)



theorem check_cq_takes_message_witness:
  "\<exists>r cq'. rmc_check_cq demo_wq demo_cq demo_ret = Inr (r, cq') \<and> cq_holds cq' [] \<and> ss_tid r = 5"
  using check_cq_takes_message[OF demo_cq_holds, of demo_wq demo_ret]
  by (auto simp: demo_cqe_def demo_wq_def MAX_NUM_WQ_def)

end
