(* ===== verification/Rpc_Context.thy ===== *)
theory Rpc_Context
  imports Rpc_Pack Cbuf Nic_Queues
begin

text \<open>
  The context of the RPC layer (\<^verbatim>\<open>src/rpc_shm/rpc.cpp\<close>, ZSIM build): its creation, the registration of buffers and queue
  pairs, sending a reply, receiving a request and giving a receive buffer back.  The simulator chooses the addresses of the buffers and
  the queues it registers, and acts between two polls; both are parameters.  Members that the code never
  assigns have the values of an arbitrary record.
\<close>

section \<open>Data\<close>

definition SR_CTX_ID :: u16 where "SR_CTX_ID = 7"
definition RPC_MAX_PAYLOAD :: u32 where "RPC_MAX_PAYLOAD = 512"
definition EMULATOR_SW_PAGE_SIZE :: u64 where "EMULATOR_SW_PAGE_SIZE = 8192"

record send_buf_management =
  sbm_head :: u16
  sbm_tail :: u16
  sbm_lock :: u8

record ctx_entry =
  ctx_id :: u16
  send_buf_addr :: u64
  recv_buf_addr :: u64
  num_nodes :: u16
  msg_entry_size :: u64
  msgs_per_dest :: u64
  buf_management :: "send_buf_management list"

type_synonym qp = "rmc_wq \<times> rmc_cq"

text \<open>A queue pair or buffer that has not been registered is a null pointer.\<close>

record rpcNUMAContext =
  qps :: "qp option list"
  app_buffers :: "u64 option list"
  circ_buffers :: "CircularReceiveBuffer list"
  ctx_struct :: ctx_entry
  per_node_chunk :: u64
  pgas :: "u64 option"
  totalNodeCount :: u32
  threadsPerClient :: u32
  next_rpc_id :: u32
  lbuf_size_bytes :: u64

definition getRPCID :: "rpcNUMAContext \<Rightarrow> u32 \<times> rpcNUMAContext" where
  "getRPCID ctx = (next_rpc_id ctx, ctx\<lparr>next_rpc_id := next_rpc_id ctx + 1\<rparr>)"

definition getLBufSizeBytes :: "rpcNUMAContext \<Rightarrow> u64" where "getLBufSizeBytes ctx = lbuf_size_bytes ctx"

definition get_lbuf_size :: "rpcNUMAContext \<Rightarrow> u64" where "get_lbuf_size ctx = getLBufSizeBytes ctx"

text \<open>\<open>std::vector::at\<close> for reading and for assigning.\<close>

definition vec_at :: "'a list \<Rightarrow> u64 \<Rightarrow> 'a cres" where
  "vec_at xs i = (if unat i < length xs then Inr (xs ! unat i) else Inl OutOfBounds)"

definition vec_set :: "'a list \<Rightarrow> u64 \<Rightarrow> 'a \<Rightarrow> 'a list cres" where
  "vec_set xs i x = (if unat i < length xs then Inr (xs[unat i := x]) else Inl OutOfBounds)"

definition deref :: "'a option \<Rightarrow> 'a cres" where
  "deref p = (case p of None \<Rightarrow> Inl NullDeref | Some x \<Rightarrow> Inr x)"

section \<open>Creation and registration\<close>

text \<open>\<open>malloc\<close> gives an array of \<open>num_nodes\<close> uninitialised entries or \<open>NULL\<close>.\<close>

definition kal_reg_send_recv_bufs ::
  "(nat \<Rightarrow> send_buf_management list option) \<Rightarrow> ctx_entry option \<Rightarrow> u64 \<Rightarrow> u64 \<Rightarrow> u64 \<Rightarrow> u16 \<Rightarrow> u64 \<Rightarrow>
   int \<times> ctx_entry option \<times> send_buf_management list option" where
  "kal_reg_send_recv_bufs malloc ce send_buf_base send_buf_entries msize nodes recv_buf_base =
     (case ce of None \<Rightarrow> (-1, None, None)
      | Some c \<Rightarrow>
        if msize mod CACHE_BLOCK_SIZE \<noteq> 0 then (-1, Some c, None)
        else let c = c\<lparr>msg_entry_size := msize, num_nodes := nodes, msgs_per_dest := send_buf_entries\<rparr> in
          case malloc (unat nodes) of None \<Rightarrow> (-1, Some c, None)
          | Some arr \<Rightarrow>
            let arr = map (\<lambda>e. e\<lparr>sbm_head := 0, sbm_tail := ucast (send_buf_entries - 1), sbm_lock := 0\<rparr>) arr
            in (0, Some (c\<lparr>send_buf_addr := send_buf_base, recv_buf_addr := recv_buf_base, buf_management := arr\<rparr>), Some arr))"

text \<open>The result of the allocation is not looked at: the function returns 0 in every case.\<close>

definition kal_reg_ctx :: "(u64 \<Rightarrow> u64 option) \<Rightarrow> u64 option \<Rightarrow> u32 \<Rightarrow> int \<times> u64 option" where
  "kal_reg_ctx memalign ctx_ptr num_pages =
     (case ctx_ptr of None \<Rightarrow> (0, memalign (ucast num_pages * EMULATOR_SW_PAGE_SIZE)) | Some p \<Rightarrow> (0, Some p))"

definition createRPCNUMAContext ::
  "(nat \<Rightarrow> send_buf_management list option) \<Rightarrow> (u64 \<Rightarrow> u64 option) \<Rightarrow> rpcNUMAContext \<Rightarrow> u32 \<Rightarrow> u32 \<Rightarrow> u32 \<Rightarrow>
   rpcNUMAContext option" where
  "createRPCNUMAContext malloc memalign uninit totalNodes qp_start qp_end =
     (let ctx_size = EMULATOR_SW_PAGE_SIZE * 2;
          (rc, p) = kal_reg_ctx memalign None (ucast (ctx_size div EMULATOR_SW_PAGE_SIZE))
      in if rc < 0 then None
      else let ctx = uninit\<lparr>pgas := p\<rparr>;
               ctx = ctx\<lparr>ctx_struct := (ctx_struct ctx)\<lparr>ctx_id := SR_CTX_ID\<rparr>\<rparr>;
               msg_size = (ucast RPC_MAX_PAYLOAD :: u64); msgs_per_node = MSGS_PER_PAIR;
               (_, ce, _) = kal_reg_send_recv_bufs malloc (Some (ctx_struct ctx)) 0 msgs_per_node msg_size (ucast totalNodes) 0;
               ctx = (case ce of None \<Rightarrow> ctx | Some c \<Rightarrow> ctx\<lparr>ctx_struct := c\<rparr>);
               ctx = ctx\<lparr>per_node_chunk := (msg_entry_size (ctx_struct ctx) + CACHE_BLOCK_SIZE) * msgs_per_dest (ctx_struct ctx)\<rparr>;
               ctx = ctx\<lparr>lbuf_size_bytes := msgs_per_node * msg_size\<rparr>;
               num_qps = qp_end - qp_start + 1
           in Some (ctx\<lparr>qps := replicate (unat num_qps) None, app_buffers := replicate (unat num_qps) None,
                        circ_buffers := []\<rparr>))"

definition registerNewLocalBuffer :: "rpcNUMAContext \<Rightarrow> u64 \<Rightarrow> u64 \<Rightarrow> (u64 \<times> rpcNUMAContext) cres" where
  "registerNewLocalBuffer ctx tptr tidx =
     bindc (vec_set (app_buffers ctx) tidx (Some tptr)) (\<lambda>bs. Inr (tptr, ctx\<lparr>app_buffers := bs\<rparr>))"

definition registerNewSONUMAQP :: "rpcNUMAContext \<Rightarrow> rmc_wq \<Rightarrow> rmc_cq \<Rightarrow> u64 \<Rightarrow> rpcNUMAContext cres" where
  "registerNewSONUMAQP ctx wq cq tidx =
     bindc (vec_set (qps ctx) tidx (Some (wq, cq))) (\<lambda>q. Inr (ctx\<lparr>qps := q\<rparr>))"

section \<open>Sending\<close>

text \<open>The offset is an \<open>int\<close> and is added to a pointer to 32-bit words.\<close>

definition getUnderlyingAddress :: "u64 \<Rightarrow> u32 \<Rightarrow> u64" where
  "getUnderlyingAddress underlyingBuffer byteOffset = underlyingBuffer + 4 * scast byteOffset"

definition sendToNode_zsim ::
  "rpcNUMAContext \<Rightarrow> u64 \<Rightarrow> u64 \<Rightarrow> u32 \<Rightarrow> u32 \<Rightarrow> u64 \<Rightarrow> bool \<Rightarrow> u32 \<Rightarrow> mem \<Rightarrow> (rpcNUMAContext \<times> mem) cres" where
  "sendToNode_zsim ctx messageBuffer messageByteSize destNode sendQP raw_payload_data skipcpy rpc_send_count m =
     (let c = ctx_struct ctx in
      if msgs_per_dest c = 0 then Inl Undefined
      else let lbuf_offset = (ucast rpc_send_count mod msgs_per_dest c) * msg_entry_size c;
               net_buffer_vaddr = getUnderlyingAddress messageBuffer (ucast lbuf_offset)
      in bindc (vec_at (qps ctx) (ucast sendQP)) (\<lambda>q.
         bindc (if skipcpy then Inr (store_bytes m net_buffer_vaddr (bytes32 0x1234))
                else memcpy m net_buffer_vaddr raw_payload_data (unat messageByteSize)) (\<lambda>m.
         bindc (deref q) (\<lambda>(wq, cq).
         bindc (rmc_hw_send wq (ucast (ctx_id c)) net_buffer_vaddr messageByteSize (ucast destNode)) (\<lambda>(send_ret, wq).
         if send_ret \<noteq> 0 then Inl Spins
         else Inr (ctx\<lparr>qps := (qps ctx)[unat sendQP := Some (wq, cq)]\<rparr>, m))))))"

section \<open>Receiving\<close>

text \<open>The loop of the receiver.  Every element of the schedule is what the simulator does to the queue
  pair before a poll, and the value of \<open>*client_done\<close> after it; the loop is still polling when the schedule is used up.\<close>

fun poll_loop ::
  "('w \<Rightarrow> 'c \<Rightarrow> successStruct \<Rightarrow> (successStruct \<times> 'c) cres) \<Rightarrow> (('w \<times> 'c \<Rightarrow> 'w \<times> 'c) \<times> bool) list \<Rightarrow>
   'w \<times> 'c \<Rightarrow> successStruct \<Rightarrow> (successStruct \<times> bool \<times> 'w \<times> 'c) cres option" where
  "poll_loop check [] q ret = None"
| "poll_loop check ((sim, client_done) # sched) q ret =
     (case sim q of (wq, cq) \<Rightarrow>
        case check wq cq ret of
          Inl f \<Rightarrow> Some (Inl f)
        | Inr (r, cq') \<Rightarrow>
            if ss_op r \<noteq> RMC_INCOMING_SEND \<and> \<not> client_done then poll_loop check sched (wq, cq') r
            else Some (Inr (r, client_done, wq, cq')))"

text \<open>\<open>rpc0\<close> and \<open>ret0\<close> are the contents of uninitialised local variables.\<close>

definition receiveRPCRequest_zsim_l3fwd ::
  "((qp \<Rightarrow> qp) \<times> bool) list \<Rightarrow> RPCWithHeader \<Rightarrow> successStruct \<Rightarrow> rpcNUMAContext \<Rightarrow> u32 \<Rightarrow> u16 \<Rightarrow>
   (RPCWithHeader \<times> u16 \<times> rpcNUMAContext) cres option" where
  "receiveRPCRequest_zsim_l3fwd sched rpc0 ret0 ctx serv_qp_id source_node_id =
     (case bindc (vec_at (qps ctx) (ucast serv_qp_id)) deref of
        Inl f \<Rightarrow> Some (Inl f)
      | Inr q \<Rightarrow>
        (case poll_loop rmc_check_cq sched q ret0 of
           None \<Rightarrow> None
         | Some (Inl f) \<Rightarrow> Some (Inl f)
         | Some (Inr (r, client_done, q')) \<Rightarrow>
             (let ctx = ctx\<lparr>qps := (qps ctx)[unat serv_qp_id := Some q']\<rparr> in
              if client_done then Some (Inr (rpc0\<lparr>payload_len := 0xdead\<rparr>, source_node_id, ctx))
              else Some (Inr (rpc0\<lparr>payload := ss_recv_buf_addr r, senders_nid := ucast (ss_tid r)\<rparr>,
                              ucast (ss_tid r), ctx)))))"

text \<open>The result of \<open>rmc_hw_recv\<close> is not looked at.\<close>

definition do_Recv_zsim :: "rpcNUMAContext \<Rightarrow> u32 \<Rightarrow> u64 \<Rightarrow> u32 \<Rightarrow> rpcNUMAContext cres" where
  "do_Recv_zsim ctx cl_tid rbuf_slot_ptr freeSizeBytes =
     (if length (qps ctx) < unat cl_tid then Inl AssertFail
      else bindc (vec_at (qps ctx) (ucast cl_tid)) (\<lambda>q.
        bindc (deref q) (\<lambda>(wq, cq).
        bindc (rmc_hw_recv wq (ucast (ctx_id (ctx_struct ctx))) rbuf_slot_ptr (ucast freeSizeBytes)) (\<lambda>(_, wq).
        Inr (ctx\<lparr>qps := (qps ctx)[unat cl_tid := Some (wq, cq)]\<rparr>)))))"


section \<open>What the receiver relies on\<close>

text \<open>A step of the environment that delivers the entries \<open>es\<close> to an empty queue.\<close>

definition delivers ::
  "('w \<Rightarrow> bool) \<Rightarrow> ('c \<Rightarrow> cq_entry list \<Rightarrow> bool) \<Rightarrow> ('w \<times> 'c \<Rightarrow> 'w \<times> 'c) \<Rightarrow> cq_entry list \<Rightarrow> bool" where
  "delivers idle pending sim es \<longleftrightarrow>
     (\<forall>w c. idle w \<and> pending c [] \<longrightarrow> (case sim (w, c) of (w', c') \<Rightarrow> idle w' \<and> pending c' es))"

lemma deliversD:
  "delivers idle pending sim es \<Longrightarrow> idle w \<Longrightarrow> pending c [] \<Longrightarrow> sim (w, c) = (w', c') \<Longrightarrow> idle w' \<and> pending c' es"
  by (fastforce simp: delivers_def)

text \<open>A source of completions: \<open>pending c es\<close> says which entries wait in it, \<open>idle w\<close> that no request of the
  program blocks the poll.\<close>

locale completion_source =
  fixes check :: "'w \<Rightarrow> 'c \<Rightarrow> successStruct \<Rightarrow> (successStruct \<times> 'c) cres"
    and pending :: "'c \<Rightarrow> cq_entry list \<Rightarrow> bool"
    and idle :: "'w \<Rightarrow> bool"
  assumes take_message: "pending c (e # es) \<Longrightarrow> cqe_success e = 0x7F \<Longrightarrow> idle w \<Longrightarrow>
      \<exists>r c'. check w c ret = Inr (r, c') \<and> pending c' es \<and> ss_op r = RMC_INCOMING_SEND \<and>
        ss_tid r = cqe_tid e \<and> ss_recv_buf_addr r = cqe_recv_buf_addr e"
    and take_nothing: "pending c [] \<Longrightarrow> idle w \<Longrightarrow> \<exists>r. check w c ret = Inr (r, c) \<and> ss_op r \<noteq> RMC_INCOMING_SEND"
begin

lemma poll_delivered:
  assumes "delivers idle pending sim (e # es)" and "cqe_success e = 0x7F" and "idle w" and "pending c []"
  shows "\<exists>r c'. poll_loop check ((sim, d) # sched) (w, c) ret = Some (Inr (r, d, fst (sim (w, c)), c')) \<and> pending c' es \<and>
    ss_tid r = cqe_tid e \<and> ss_recv_buf_addr r = cqe_recv_buf_addr e"
proof -
  obtain w' c' where sim: "sim (w, c) = (w', c')" by fastforce
  then have "idle w'" "pending c' (e # es)" using deliversD assms by metis+
  from take_message[OF this(2) assms(2) this(1), of ret] show ?thesis using sim by auto
qed

lemma poll_waits:
  assumes "\<forall>x \<in> set quiet. delivers idle pending (fst x) [] \<and> \<not> snd x"
    and "delivers idle pending sim (e # es)" and "cqe_success e = 0x7F" and "idle w" and "pending c []"
  shows "\<exists>r w' c'. poll_loop check (quiet @ (sim, d) # sched) (w, c) ret = Some (Inr (r, d, w', c')) \<and>
    idle w' \<and> pending c' es \<and> ss_tid r = cqe_tid e \<and> ss_recv_buf_addr r = cqe_recv_buf_addr e"
  using assms
proof (induction quiet arbitrary: w c ret)
  case Nil
  obtain w' c' where sim: "sim (w, c) = (w', c')" by fastforce
  then have "idle (fst (sim (w, c)))" using deliversD[OF Nil.prems(2)] Nil.prems by simp
  with poll_delivered[of sim e es w c] Nil show ?case by fastforce
next
  case (Cons x quiet)
  obtain s where x: "x = (s, False)" "delivers idle pending s []" using Cons.prems(1) by (cases x) auto
  obtain w' c' where sim: "s (w, c) = (w', c')" by fastforce
  then have q: "idle w'" "pending c' []" using deliversD[OF x(2)] Cons.prems by metis+
  obtain r where r: "check w' c' ret = Inr (r, c')" "ss_op r \<noteq> RMC_INCOMING_SEND" using take_nothing[OF q(2) q(1), of ret] by auto
  have "\<forall>x \<in> set quiet. delivers idle pending (fst x) [] \<and> \<not> snd x" using Cons.prems(1) by simp
  from Cons.IH[OF this Cons.prems(2,3) q, of r] show ?case using x sim r by simp
qed

lemma poll_ends:
  assumes "\<forall>x \<in> set quiet. delivers idle pending (fst x) [] \<and> \<not> snd x"
    and "delivers idle pending sim []" and "idle w" and "pending c []"
  shows "\<exists>r w' c'. poll_loop check (quiet @ (sim, True) # sched) (w, c) ret = Some (Inr (r, True, w', c')) \<and>
    idle w' \<and> pending c' []"
  using assms
proof (induction quiet arbitrary: w c ret)
  case Nil
  obtain w' c' where sim: "sim (w, c) = (w', c')" by fastforce
  then have q: "idle w'" "pending c' []" using deliversD[OF Nil.prems(2)] Nil.prems by metis+
  obtain r where "check w' c' ret = Inr (r, c')" using take_nothing[OF q(2) q(1), of ret] by auto
  with sim q show ?case by simp
next
  case (Cons x quiet)
  obtain s where x: "x = (s, False)" "delivers idle pending s []" using Cons.prems(1) by (cases x) auto
  obtain w' c' where sim: "s (w, c) = (w', c')" by fastforce
  then have q: "idle w'" "pending c' []" using deliversD[OF x(2)] Cons.prems by metis+
  obtain r where r: "check w' c' ret = Inr (r, c')" "ss_op r \<noteq> RMC_INCOMING_SEND" using take_nothing[OF q(2) q(1), of ret] by auto
  have "\<forall>x \<in> set quiet. delivers idle pending (fst x) [] \<and> \<not> snd x" using Cons.prems(1) by simp
  from Cons.IH[OF this Cons.prems(2) q, of r] show ?case using x sim r by simp
qed

end

definition wq_idle :: "rmc_wq \<Rightarrow> bool" where
  "wq_idle wq \<longleftrightarrow> unat (wq_head wq) < length (wq_q wq) \<and> \<not> wqe_valid (wq_q wq ! unat (wq_head wq))"

lemma check_cq_message:
  assumes "cq_holds cq (e # es)" and "cqe_success e = 0x7F" and "wq_idle wq"
  shows "\<exists>r cq'. rmc_check_cq wq cq ret = Inr (r, cq') \<and> cq_holds cq' es \<and> ss_op r = RMC_INCOMING_SEND \<and>
    ss_tid r = cqe_tid e \<and> ss_recv_buf_addr r = cqe_recv_buf_addr e"
  using check_inner_refines[OF assms(1), of wq "ret\<lparr>ss_success := 1, ss_op := RMC_INVAL\<rparr>"] assms(2,3)
  by (auto simp: rmc_check_cq_def wq_idle_def Let_def)

lemma check_cq_nothing:
  assumes "cq_holds cq []" and "wq_idle wq"
  shows "\<exists>r. rmc_check_cq wq cq ret = Inr (r, cq) \<and> ss_op r \<noteq> RMC_INCOMING_SEND"
proof -
  have "check_inner wq cq ret' = Inr (False, ret', cq)" for ret'
    using cq_holds_empty[OF assms(1)] assms(1) by (subst check_inner.simps) (auto simp: cq_holds_def)
  then show ?thesis using assms(2) by (auto simp: rmc_check_cq_def wq_idle_def Let_def rmc_op_defs)
qed

interpretation nic: completion_source rmc_check_cq cq_holds wq_idle
  by unfold_locales (blast intro: check_cq_message check_cq_nothing)+


section \<open>Statements\<close>

lemma vec_at_Some: "unat i < length xs \<Longrightarrow> vec_at xs i = Inr (xs ! unat i)"
  by (simp add: vec_at_def)

lemma unat_ucast_u32 [simp]: "unat (ucast (k :: u32) :: u64) = unat k"
  by (rule unat_ucast_wider) simp

lemma receive_unfold:
  assumes "unat k < length (qps ctx)" and "qps ctx ! unat k = Some q"
    and "poll_loop rmc_check_cq sched q ret0 = Some (Inr (r, d, q'))"
  shows "receiveRPCRequest_zsim_l3fwd sched rpc0 ret0 ctx k src =
    (let ctx = ctx\<lparr>qps := (qps ctx)[unat k := Some q']\<rparr> in
     if d then Some (Inr (rpc0\<lparr>payload_len := 0xdead\<rparr>, src, ctx))
     else Some (Inr (rpc0\<lparr>payload := ss_recv_buf_addr r, senders_nid := ucast (ss_tid r)\<rparr>, ucast (ss_tid r), ctx)))"
  using assms by (cases q') (simp add: receiveRPCRequest_zsim_l3fwd_def vec_at_Some deref_def)


text \<open>A message that arrives together with the end of the client is taken from the queue and lost: the
  call returns the end mark, and the entry is gone.\<close>

theorem receive_drops_last:
  assumes "unat k < length (qps ctx)" and "qps ctx ! unat k = Some (wq, cq)" and "wq_idle wq" and "cq_holds cq []"
    and "delivers wq_idle cq_holds sim (e # es)" and "cqe_success e = 0x7F"
  shows "\<exists>wq' cq'. receiveRPCRequest_zsim_l3fwd ((sim, True) # sched) rpc0 ret0 ctx k src =
      Some (Inr (rpc0\<lparr>payload_len := 0xdead\<rparr>, src, ctx\<lparr>qps := (qps ctx)[unat k := Some (wq', cq')]\<rparr>)) \<and> cq_holds cq' es"
proof -
  obtain r wq' cq' where p: "poll_loop rmc_check_cq ((sim, True) # sched) (wq, cq) ret0 = Some (Inr (r, True, wq', cq'))"
    "cq_holds cq' es"
    using nic.poll_waits[OF _ assms(5,6) assms(3,4), of "[]" True sched ret0] by auto
  then show ?thesis using receive_unfold[OF assms(1,2) p(1)] by (auto simp: Let_def)
qed

subsection \<open>The local buffer\<close>

lemma created_context:
  assumes "createRPCNUMAContext malloc memalign uninit nodes qp_start qp_end = Some ctx"
  shows "msgs_per_dest (ctx_struct ctx) = 256" and "msg_entry_size (ctx_struct ctx) = 512"
    and "lbuf_size_bytes ctx = 131072" and "length (qps ctx) = unat (qp_end - qp_start + 1)"
    and "ctx_id (ctx_struct ctx) = 7" and "length (app_buffers ctx) = unat (qp_end - qp_start + 1)"
  using assms
  by (auto simp: createRPCNUMAContext_def kal_reg_ctx_def kal_reg_send_recv_bufs_def MSGS_PER_PAIR_def RPC_MAX_PAYLOAD_def
      CACHE_BLOCK_SIZE_def SR_CTX_ID_def Let_def split: option.splits)


lemma scast_small:
  assumes "unat (x :: u32) < 2 ^ 31"
  shows "(scast x :: u64) = of_nat (unat x)"
proof -
  have "sint x = int (unat x)" using assms by (intro sint_small) simp
  then have "(of_int (sint x) :: u64) = of_nat (unat x)" by simp
  then show ?thesis by (simp only: of_int_sint)
qed

text \<open>The place in the local buffer is a multiple of the entry size, in words instead of bytes.\<close>

lemma send_address:
  fixes c :: u32
  shows "getUnderlyingAddress base (ucast ((ucast c mod 256 :: u64) * 512)) = base + of_nat (2048 * (unat c mod 256))"
proof -
  let ?o = "(ucast c mod 256 :: u64) * 512"
  have lt: "unat c mod 256 * 512 < 2 ^ 17" by (rule less_le_trans[of _ "256 * 512"]) simp_all
  have o: "unat ?o = (unat c mod 256) * 512"
    using lt by (subst unat_mult_no_wrap) (simp_all add: unat_mod_distrib)
  have u: "unat (ucast ?o :: u32) = (unat c mod 256) * 512"
    using o lt by (simp add: unsigned_ucast_eq unsigned_take_bit_eq take_bit_nat_eq_self)
  have "(scast (ucast ?o :: u32) :: u64) = of_nat ((unat c mod 256) * 512)"
    using scast_small[of "ucast ?o"] u lt by simp
  then show ?thesis by (simp add: getUnderlyingAddress_def)
qed

lemma send_posts:
  fixes c :: u32 and base :: u64
  assumes "msgs_per_dest (ctx_struct ctx) = 256" and "msg_entry_size (ctx_struct ctx) = 512"
    and "unat k < length (qps ctx)" and "qps ctx ! unat k = Some (wq, cq)" and "wq_inv wq" and "wq_idle wq"
  defines "a \<equiv> base + of_nat (2048 * (unat c mod 256))"
  shows "sendToNode_zsim ctx base len dest k raw True c m =
    Inr (ctx\<lparr>qps := (qps ctx)[unat k := Some (wq_post wq (send_entry wq (ucast (ctx_id (ctx_struct ctx))) a len (ucast dest)), cq)]\<rparr>,
      store_bytes m a (bytes32 0x1234))"
  using assms rmc_hw_send_eq[OF assms(5)] send_address[of base c]
  by (simp add: sendToNode_zsim_def vec_at_Some deref_def wq_idle_def Let_def)

text \<open>C40: \<open>getUnderlyingAddress\<close> adds a byte offset to a pointer to 32-bit words, so the place of a reply in the local buffer is
  four times too far: the reply is written inside the registered buffer for the first 64 of every 256 replies, and behind its
  end for the other 192.\<close>

theorem send_address_in_buffer_iff:
  assumes "createRPCNUMAContext malloc memalign uninit nodes qp_start qp_end = Some ctx0"
    and "registerNewSONUMAQP ctx0 wq cq (ucast k) = Inr ctx" and "wq_inv wq" and "wq_idle wq"
  shows "\<exists>wq' m' a. sendToNode_zsim ctx base 64 dest k raw True c m =
      Inr (ctx\<lparr>qps := (qps ctx)[unat k := Some (wq', cq)]\<rparr>, m') \<and>
    wqe_buf_addr (wq_q wq' ! unat (wq_head wq)) = a \<and> ld_u32 m' a = 0x1234 \<and>
    (unat (a - base) + 64 \<le> unat (get_lbuf_size ctx) \<longleftrightarrow> unat c mod 256 < 64)"
proof -
  let ?a = "base + of_nat (2048 * (unat c mod 256)) :: u64"
  have ctx: "unat k < length (qps ctx0)" "ctx = ctx0\<lparr>qps := (qps ctx0)[unat k := Some (wq, cq)]\<rparr>"
    using assms(2) by (auto simp: registerNewSONUMAQP_def vec_set_def split: if_splits)
  note created = created_context[OF assms(1)]
  have "unat (of_nat (2048 * (unat c mod 256)) :: u64) = 2048 * (unat c mod 256)"
  proof -
    have "2048 * (unat c mod 256) < 2 ^ LENGTH(64)" by (rule less_le_trans[of _ "2048 * 256"]) simp_all
    then show ?thesis unfolding unat_of_nat by (rule mod_less)
  qed
  then have d: "unat (?a - base) = 2048 * (unat c mod 256)" by simp
  have "unat (get_lbuf_size ctx) = 131072" using created ctx by (simp add: get_lbuf_size_def getLBufSizeBytes_def)
  then have iff: "unat (?a - base) + 64 \<le> unat (get_lbuf_size ctx) \<longleftrightarrow> unat c mod 256 < 64"
    unfolding d by auto
  have ld: "ld_u32 (store_bytes m ?a (bytes32 0x1234)) ?a = 0x1234"
    by (simp add: ld_u32_def bytes32_def store_bytes_def le32_def)
  let ?e = "send_entry wq (ucast (ctx_id (ctx_struct ctx))) ?a 64 (ucast dest)"
  have "sendToNode_zsim ctx base 64 dest k raw True c m =
      Inr (ctx\<lparr>qps := (qps ctx)[unat k := Some (wq_post wq ?e, cq)]\<rparr>, store_bytes m ?a (bytes32 0x1234))"
    using created ctx assms(3,4) by (intro send_posts) simp_all
  moreover have "wqe_buf_addr (wq_q (wq_post wq ?e) ! unat (wq_head wq)) = ?a"
    using assms(3) by (simp add: wq_inv_def wq_post_fields send_entry_def create_wq_entry_def)
  ultimately show ?thesis using iff ld by blast
qed


subsection \<open>Instances\<close>

definition demo_ctx_entry :: ctx_entry where
  "demo_ctx_entry = \<lparr>ctx_id = 0, send_buf_addr = 0, recv_buf_addr = 0, num_nodes = 0, msg_entry_size = 0,
     msgs_per_dest = 0, buf_management = []\<rparr>"

definition demo_uninit :: rpcNUMAContext where
  "demo_uninit = \<lparr>qps = [], app_buffers = [], circ_buffers = [], ctx_struct = demo_ctx_entry, per_node_chunk = 0,
     pgas = None, totalNodeCount = 0, threadsPerClient = 0, next_rpc_id = 0, lbuf_size_bytes = 0\<rparr>"

definition demo_rpc :: RPCWithHeader where
  "demo_rpc = createRPCStruct 0 0 0 0 0 0"

definition demo_ctx :: rpcNUMAContext where
  "demo_ctx = the (createRPCNUMAContext (\<lambda>n. None) (\<lambda>n. Some 0x10000) demo_uninit 2 0 0)"

lemma demo_ctx_created: "createRPCNUMAContext (\<lambda>n. None) (\<lambda>n. Some 0x10000) demo_uninit 2 0 0 = Some demo_ctx"
  by (simp add: demo_ctx_def createRPCNUMAContext_def kal_reg_ctx_def Let_def split: prod.splits)

definition empty_cq :: rmc_cq where
  "empty_cq = \<lparr>cq_q = replicate MAX_NUM_WQ (demo_cqe\<lparr>cqe_SR := False\<rparr>), cq_tail = 0, cq_SR = True\<rparr>"

lemma empty_cq_holds: "cq_holds empty_cq []"
  by (simp add: cq_holds_def empty_cq_def cq_slot_def cq_sense_def MAX_NUM_WQ_def)

lemma demo_wq_idle: "wq_idle demo_wq"
  by (simp add: wq_idle_def demo_wq_def MAX_NUM_WQ_def)

lemma demo_delivers: "delivers wq_idle cq_holds (\<lambda>(wq, cq). (wq, demo_cq)) [demo_cqe]"
  using demo_cq_holds by (simp add: delivers_def)

lemma demo_quiet: "delivers wq_idle cq_holds id []"
  by (simp add: delivers_def)

lemma demo_ctx_length: "length (qps demo_ctx) = 1"
  using created_context(4)[OF demo_ctx_created] by simp


theorem receive_drops_last_witness:
  "\<exists>wq' cq'. receiveRPCRequest_zsim_l3fwd [(\<lambda>(wq, cq). (wq, demo_cq), True)] demo_rpc demo_ret
      (demo_ctx\<lparr>qps := [Some (demo_wq, empty_cq)]\<rparr>) 0 0 =
    Some (Inr (demo_rpc\<lparr>payload_len := 0xdead\<rparr>, 0, demo_ctx\<lparr>qps := [Some (wq', cq')]\<rparr>)) \<and> cq_holds cq' []"
  using receive_drops_last[of 0 "demo_ctx\<lparr>qps := [Some (demo_wq, empty_cq)]\<rparr>" demo_wq empty_cq,
      OF _ _ demo_wq_idle empty_cq_holds demo_delivers, of "[]" demo_rpc demo_ret 0]
  by (auto simp: demo_cqe_def)

theorem send_address_in_buffer_iff_witness:
  "\<exists>wq' m' a. sendToNode_zsim (demo_ctx\<lparr>qps := [Some (demo_wq, empty_cq)]\<rparr>) 0x20000 64 3 0 0 True 100 (\<lambda>x. 0) =
      Inr (demo_ctx\<lparr>qps := [Some (wq', empty_cq)]\<rparr>, m') \<and> wqe_buf_addr (wq_q wq' ! 0) = a \<and> ld_u32 m' a = 0x1234 \<and>
      \<not> unat (a - 0x20000) + 64 \<le> unat (get_lbuf_size demo_ctx)"
proof -
  have "registerNewSONUMAQP demo_ctx demo_wq empty_cq (ucast (0 :: u32)) = Inr (demo_ctx\<lparr>qps := [Some (demo_wq, empty_cq)]\<rparr>)"
    using demo_ctx_length by (auto simp: registerNewSONUMAQP_def vec_set_def length_Suc_conv)
  moreover have "wq_head demo_wq = 0" by (simp add: demo_wq_def)
  ultimately show ?thesis
    using send_address_in_buffer_iff[OF demo_ctx_created _ wq_initial_inv[OF demo_wq_initial] demo_wq_idle,
        where base = "0x20000" and dest = 3 and raw = 0 and c = 100 and m = "\<lambda>x. 0"]
    by (fastforce simp: get_lbuf_size_def getLBufSizeBytes_def)
qed

end
