(* ===== verification/L3fwd_Worker.thy ===== *)
theory L3fwd_Worker
  imports Rpc_Context
begin

text \<open>
  The worker of the forwarding application (\<^verbatim>\<open>src/l3fwd/worker.c\<close>): the table of destination addresses and the loop that
  receives a request, sends a reply of one cache block and gives the receive buffer back.  Binding to a
  core, printing and time stamps are left out.  What the simulator does to the queue pair between the calls is part of the
  input of an iteration, as are the contents of uninitialised variables.
\<close>

unbundle bit_operations_syntax

section \<open>Destination addresses\<close>

definition RTE_MAX_ETHPORTS :: nat where "RTE_MAX_ETHPORTS = 64"
definition RTE_ETHER_LOCAL_ADMIN_ADDR :: u64 where "RTE_ETHER_LOCAL_ADMIN_ADDR = 0x02"

definition init_dest_eth_addr :: "u64 list" where
  "init_dest_eth_addr = map (\<lambda>portid. RTE_ETHER_LOCAL_ADMIN_ADDR + push_bit 40 (of_nat portid)) [0..<RTE_MAX_ETHPORTS]"

section \<open>The loop\<close>

text \<open>The steps of the simulator: before the receive call, during its polling (with the end of the client), before the reply and
  before the buffer is given back.  \<open>wi_src\<close> is the uninitialised \<open>source_node_id\<close>.\<close>

record worker_input =
  wi_sim0 :: "qp \<Rightarrow> qp"
  wi_sched :: "((qp \<Rightarrow> qp) \<times> bool) list"
  wi_sim1 :: "qp \<Rightarrow> qp"
  wi_sim2 :: "qp \<Rightarrow> qp"
  wi_rpc :: RPCWithHeader
  wi_ret :: successStruct
  wi_src :: u64

text \<open>\<open>w_posted\<close> is a history variable, not a variable of the code: the entries the worker has put into its work queue.  The simulator
  may change the queue at any time, so the final queue does not tell.\<close>

record worker_state =
  w_ctx :: rpcNUMAContext
  w_mem :: mem
  nb_tx_tot :: u64
  tmp_count :: u32
  w_posted :: "wq_entry list"

definition posted :: "u32 \<Rightarrow> rpcNUMAContext \<Rightarrow> rpcNUMAContext \<Rightarrow> wq_entry list" where
  "posted k ctx ctx' = (case (qps ctx ! unat k, qps ctx' ! unat k) of
     (Some (wq, _), Some (wq', _)) \<Rightarrow> if wq_head wq' = wq_head wq then [] else [wq_q wq' ! unat (wq_head wq)]
   | _ \<Rightarrow> [])"

definition sim_act :: "(qp \<Rightarrow> qp) \<Rightarrow> u32 \<Rightarrow> rpcNUMAContext \<Rightarrow> rpcNUMAContext" where
  "sim_act sim k ctx = ctx\<lparr>qps := (qps ctx)[unat k := map_option sim (qps ctx ! unat k)]\<rparr>"

text \<open>Only the low half of a quarter of \<open>source_node_id\<close> is written, through a pointer to a 16-bit integer.\<close>

definition source_node :: "u64 \<Rightarrow> u16 \<Rightarrow> u64" where
  "source_node old low = (old AND NOT 0xFFFF) OR ucast low"

text \<open>One turn of \<open>while (1)\<close>; the flag says whether the loop goes on.\<close>

definition worker_iter ::
  "u32 \<Rightarrow> u64 \<Rightarrow> u64 \<Rightarrow> worker_input \<Rightarrow> worker_state \<Rightarrow> (bool \<times> worker_state) cres option" where
  "worker_iter wrkr_lid lbuf raw_data inp st =
     (case receiveRPCRequest_zsim_l3fwd (wi_sched inp) (wi_rpc inp) (wi_ret inp) (sim_act (wi_sim0 inp) wrkr_lid (w_ctx st))
             wrkr_lid (ucast (wi_src inp)) of
        None \<Rightarrow> None
      | Some (Inl f) \<Rightarrow> Some (Inl f)
      | Some (Inr (rpc, src, ctx)) \<Rightarrow>
          if payload_len rpc = 0xdead then Some (Inr (False, st\<lparr>w_ctx := ctx\<rparr>))
          else Some (
            let source_node_id = source_node (wi_src inp) src;
                st = st\<lparr>tmp_count := tmp_count st + 1\<rparr>;
                ctx1 = sim_act (wi_sim1 inp) wrkr_lid ctx
            in bindc (sendToNode_zsim ctx1 lbuf 64 (ucast source_node_id) wrkr_lid raw_data True
                        (ucast (nb_tx_tot st)) (w_mem st)) (\<lambda>(ctx2, m).
               let ctx3 = sim_act (wi_sim2 inp) wrkr_lid ctx2
               in bindc (do_Recv_zsim ctx3 wrkr_lid (payload rpc) 64) (\<lambda>ctx4.
               Inr (True, st\<lparr>w_ctx := ctx4, w_mem := m, nb_tx_tot := nb_tx_tot st + 1,
                            w_posted := w_posted st @ posted wrkr_lid ctx1 ctx2 @ posted wrkr_lid ctx3 ctx4\<rparr>)))))"

text \<open>The loop over a list of inputs, with the state in which it was left; \<open>None\<close> when it is still running at
  the end of the list.\<close>

fun worker_loop :: "u32 \<Rightarrow> u64 \<Rightarrow> u64 \<Rightarrow> worker_input list \<Rightarrow> worker_state \<Rightarrow> worker_state cres option" where
  "worker_loop k lbuf raw [] st = None"
| "worker_loop k lbuf raw (inp # inps) st =
     (case worker_iter k lbuf raw inp st of
        None \<Rightarrow> None
      | Some (Inl f) \<Rightarrow> Some (Inl f)
      | Some (Inr (go, st')) \<Rightarrow> if go then worker_loop k lbuf raw inps st' else Some (Inr st'))"

text \<open>\<open>run_worker\<close> up to the barrier: the simulator provides the local buffer and the queue pair.\<close>

definition worker_setup :: "u32 \<Rightarrow> u64 \<Rightarrow> rmc_wq \<Rightarrow> rmc_cq \<Rightarrow> mem \<Rightarrow> rpcNUMAContext \<Rightarrow> (u64 \<times> worker_state) cres" where
  "worker_setup wrkr_lid lbuf wq cq m ctx =
     bindc (registerNewLocalBuffer ctx lbuf (ucast wrkr_lid)) (\<lambda>(myLocalBuffer, ctx).
     bindc (registerNewSONUMAQP ctx wq cq (ucast wrkr_lid)) (\<lambda>ctx.
     Inr (myLocalBuffer, \<lparr>w_ctx = ctx, w_mem = m, nb_tx_tot = 0, tmp_count = 0, w_posted = []\<rparr>)))"

section \<open>The addresses\<close>

lemma eth_addr_bytes:
  assumes "i < RTE_MAX_ETHPORTS"
  shows "map (\<lambda>j. ucast (drop_bit (8 * j) (init_dest_eth_addr ! i)) :: u8) [0, 1, 2, 3, 4, 5, 6, 7] =
    [2, 0, 0, 0, 0, of_nat i, 0, 0]"
proof -
  have "map (\<lambda>a. map (\<lambda>j. ucast (drop_bit (8 * j) a) :: u8) [0, 1, 2, 3, 4, 5, 6, 7]) init_dest_eth_addr =
      map (\<lambda>i. [2, 0, 0, 0, 0, of_nat i, 0, 0]) [0..<RTE_MAX_ETHPORTS]"
    by code_simp
  then show ?thesis using assms
    by (simp only: init_dest_eth_addr_def map_map list_eq_iff_nth_eq) simp
qed

section \<open>Serving requests\<close>

definition wq_ready :: "rmc_wq \<Rightarrow> bool" where
  "wq_ready wq \<longleftrightarrow> wq_inv wq \<and> wq_idle wq"

interpretation ready_nic: completion_source rmc_check_cq cq_holds wq_ready
  by unfold_locales (auto simp: wq_ready_def intro: check_cq_message check_cq_nothing)

text \<open>\<open>sim_to P Q sim\<close>: the simulator brings a work queue with \<open>P\<close> to one with \<open>Q\<close> and delivers nothing.\<close>

definition sim_to :: "(rmc_wq \<Rightarrow> bool) \<Rightarrow> (rmc_wq \<Rightarrow> bool) \<Rightarrow> (qp \<Rightarrow> qp) \<Rightarrow> bool" where
  "sim_to P Q sim \<longleftrightarrow> (\<forall>w c. P w \<and> cq_holds c [] \<longrightarrow> (case sim (w, c) of (w', c') \<Rightarrow> Q w' \<and> cq_holds c' []))"

lemma sim_toE:
  assumes "sim_to P Q sim" and "P w" and "cq_holds c []"
  obtains w' c' where "sim (w, c) = (w', c')" and "Q w'" and "cq_holds c' []"
  using assms by (cases "sim (w, c)") (fastforce simp: sim_to_def)

definition quiet_steps :: "((qp \<Rightarrow> qp) \<times> bool) list \<Rightarrow> bool" where
  "quiet_steps quiet \<longleftrightarrow> (\<forall>x \<in> set quiet. delivers wq_ready cq_holds (fst x) [] \<and> \<not> snd x)"

text \<open>An input in which the simulator completes requests before the next one is posted, delivers the entry \<open>e\<close>
  for an incoming message, and the uninitialised length is not the end mark.\<close>

definition serves :: "worker_input \<Rightarrow> cq_entry \<Rightarrow> bool" where
  "serves inp e \<longleftrightarrow> sim_to wq_inv wq_ready (wi_sim0 inp) \<and> sim_to wq_ready wq_ready (wi_sim1 inp) \<and>
     sim_to wq_inv wq_ready (wi_sim2 inp) \<and> payload_len (wi_rpc inp) \<noteq> 0xdead \<and> cqe_success e = 0x7F \<and>
     (\<exists>quiet sim rest. wi_sched inp = quiet @ (sim, False) # rest \<and> quiet_steps quiet \<and> delivers wq_ready cq_holds sim [e])"

definition ends :: "worker_input \<Rightarrow> bool" where
  "ends inp \<longleftrightarrow> sim_to wq_inv wq_ready (wi_sim0 inp) \<and>
     (\<exists>quiet sim rest. wi_sched inp = quiet @ (sim, True) # rest \<and> quiet_steps quiet \<and> delivers wq_ready cq_holds sim [])"

definition worker_ok :: "u32 \<Rightarrow> worker_state \<Rightarrow> bool" where
  "worker_ok k st \<longleftrightarrow> (let ctx = w_ctx st in
     msgs_per_dest (ctx_struct ctx) = 256 \<and> msg_entry_size (ctx_struct ctx) = 512 \<and> ctx_id (ctx_struct ctx) = 7 \<and>
     unat k < length (qps ctx) \<and> (\<exists>wq cq. qps ctx ! unat k = Some (wq, cq) \<and> wq_inv wq \<and> cq_holds cq []))"

lemma sim_act_qps:
  assumes "unat k < length (qps ctx)" and "qps ctx ! unat k = Some q"
  shows "sim_act sim k ctx = ctx\<lparr>qps := (qps ctx)[unat k := Some (sim q)]\<rparr>"
  using assms by (simp add: sim_act_def)


lemma do_Recv_posts:
  assumes "unat k < length (qps ctx)" and "qps ctx ! unat k = Some (wq, cq)" and "wq_ready wq"
  shows "do_Recv_zsim ctx k a len = Inr (ctx\<lparr>qps := (qps ctx)[unat k :=
    Some (wq_post wq (recv_entry wq (ucast (ctx_id (ctx_struct ctx))) a (ucast len)), cq)]\<rparr>)"
  using assms by (auto simp: do_Recv_zsim_def vec_at_Some deref_def wq_ready_def wq_idle_def rmc_hw_recv_eq)

lemma posted_entries_inv:
  "wq_inv wq \<Longrightarrow> wq_inv (wq_post wq (send_entry wq ctx a len nid))"
  "wq_inv wq \<Longrightarrow> wq_inv (wq_post wq (recv_entry wq ctx a len))"
  by (intro wq_post_inv; simp add: send_entry_def recv_entry_def create_wq_entry_def)+

lemma posted_post:
  assumes "unat k < length (qps ctx)" and "wq_inv w"
  shows "posted k (ctx\<lparr>qps := (qps ctx)[unat k := Some (w, c)]\<rparr>) (ctx\<lparr>qps := (qps ctx)[unat k := Some (wq_post w e, c)]\<rparr>) = [e]"
proof -
  have h: "unat (wq_head w) < MAX_NUM_WQ" "length (wq_q w) = MAX_NUM_WQ" using assms(2) by (simp_all add: wq_inv_def)
  have "wq_head (wq_post w e) \<noteq> wq_head w" using wq_post_fields(2)[OF h(1), of e] by (auto simp: MAX_NUM_WQ_def split: if_splits)
  then show ?thesis using assms(1) h by (simp add: posted_def wq_post_fields)
qed

text \<open>What a worker posts for the message \<open>e\<close> as its \<open>n\<close>-th: the reply, one cache block from the \<open>n\<close>-th place of its buffer to the node it takes
  for the sender, and the receive buffer of the message, which it gives back.\<close>

definition reply_addr :: "u64 \<Rightarrow> u64 \<Rightarrow> u64" where
  "reply_addr lbuf n = lbuf + of_nat (2048 * (unat (ucast n :: u32) mod 256))"

definition request_of :: "wq_entry \<Rightarrow> u32 \<times> u64 \<times> u64 \<times> u64" where
  "request_of w = (wqe_op w, wqe_nid w, wqe_buf_addr w, wqe_length w)"

definition served_requests :: "u64 \<Rightarrow> u64 \<Rightarrow> worker_input \<Rightarrow> cq_entry \<Rightarrow> (u32 \<times> u64 \<times> u64 \<times> u64) list" where
  "served_requests lbuf n inp e =
     [(RMC_SEND, ucast (ucast (source_node (wi_src inp) (ucast (cqe_tid e))) :: u32), reply_addr lbuf n, 1),
      (RMC_RECV, 0, cqe_recv_buf_addr e, 64)]"

text \<open>The receive call of an iteration, after the first step of the simulator.\<close>

lemma receive_served:
  assumes "worker_ok k st" and "serves inp e"
  shows "\<exists>wq cq. receiveRPCRequest_zsim_l3fwd (wi_sched inp) (wi_rpc inp) (wi_ret inp) (sim_act (wi_sim0 inp) k (w_ctx st)) k src =
      Some (Inr ((wi_rpc inp)\<lparr>payload := cqe_recv_buf_addr e, senders_nid := ucast (cqe_tid e)\<rparr>, ucast (cqe_tid e),
        (w_ctx st)\<lparr>qps := (qps (w_ctx st))[unat k := Some (wq, cq)]\<rparr>)) \<and> wq_ready wq \<and> cq_holds cq []"
proof -
  obtain wq cq where q: "unat k < length (qps (w_ctx st))" "qps (w_ctx st) ! unat k = Some (wq, cq)" "wq_inv wq" "cq_holds cq []"
    using assms(1) by (auto simp: worker_ok_def Let_def)
  have s0: "sim_to wq_inv wq_ready (wi_sim0 inp)" and e: "cqe_success e = 0x7F" using assms(2) by (simp_all add: serves_def)
  obtain quiet sim rest where sched: "wi_sched inp = quiet @ (sim, False) # rest" "quiet_steps quiet"
      "delivers wq_ready cq_holds sim [e]" using assms(2) by (auto simp: serves_def)
  obtain w0 c0 where w0: "wi_sim0 inp (wq, cq) = (w0, c0)" "wq_ready w0" "cq_holds c0 []" using sim_toE[OF s0 q(3,4)] .
  obtain r w1 c1 where p: "poll_loop rmc_check_cq (wi_sched inp) (w0, c0) (wi_ret inp) = Some (Inr (r, False, w1, c1))"
    "wq_ready w1" "cq_holds c1 []" "ss_tid r = cqe_tid e" "ss_recv_buf_addr r = cqe_recv_buf_addr e"
    using ready_nic.poll_waits[OF sched(2)[unfolded quiet_steps_def] sched(3) e w0(2,3), of False rest "wi_ret inp"] sched(1) by auto
  have "sim_act (wi_sim0 inp) k (w_ctx st) = (w_ctx st)\<lparr>qps := (qps (w_ctx st))[unat k := Some (w0, c0)]\<rparr>"
    using sim_act_qps[OF q(1,2)] w0(1) by simp
  then show ?thesis
    using receive_unfold[OF _ _ p(1), of k "sim_act (wi_sim0 inp) k (w_ctx st)" "wi_rpc inp" src] q p by auto
qed

text \<open>A whole iteration.\<close>

lemma worker_iter_serves:
  assumes ok: "worker_ok k st" and srv: "serves inp e"
  shows "\<exists>st'. worker_iter k lbuf raw inp st = Some (Inr (True, st')) \<and> worker_ok k st' \<and>
    nb_tx_tot st' = nb_tx_tot st + 1 \<and> tmp_count st' = tmp_count st + 1 \<and>
    w_mem st' = store_bytes (w_mem st) (reply_addr lbuf (nb_tx_tot st)) (bytes32 0x1234) \<and>
    map request_of (w_posted st') = map request_of (w_posted st) @ served_requests lbuf (nb_tx_tot st) inp e"
proof -
  let ?c = "w_ctx st"
  let ?ctx = "\<lambda>q. ?c\<lparr>qps := (qps ?c)[unat k := Some q]\<rparr>"
  have c: "msgs_per_dest (ctx_struct ?c) = 256" "msg_entry_size (ctx_struct ?c) = 512" "ctx_id (ctx_struct ?c) = 7"
    "unat k < length (qps ?c)" using ok by (auto simp: worker_ok_def Let_def)
  let ?rpc = "(wi_rpc inp)\<lparr>payload := cqe_recv_buf_addr e, senders_nid := ucast (cqe_tid e)\<rparr>"
  obtain w1 c1 where r: "receiveRPCRequest_zsim_l3fwd (wi_sched inp) (wi_rpc inp) (wi_ret inp) (sim_act (wi_sim0 inp) k ?c) k (ucast (wi_src inp)) =
      Some (Inr (?rpc, ucast (cqe_tid e), ?ctx (w1, c1)))" "wq_ready w1" "cq_holds c1 []"
    using receive_served[OF ok srv] by blast
  have sims: "sim_to wq_ready wq_ready (wi_sim1 inp)" "sim_to wq_inv wq_ready (wi_sim2 inp)" and len: "payload_len ?rpc \<noteq> 0xdead"
    using srv by (simp_all add: serves_def)
  obtain w2 c2 where s1: "wi_sim1 inp (w1, c1) = (w2, c2)" "wq_ready w2" "cq_holds c2 []" using sim_toE[OF sims(1) r(2,3)] .
  have a1: "sim_act (wi_sim1 inp) k (?ctx (w1, c1)) = ?ctx (w2, c2)" using c s1 by (simp add: sim_act_def)
  define a where "a = reply_addr lbuf (nb_tx_tot st)"
  let ?E = "send_entry w2 7 a 64 (ucast (ucast (source_node (wi_src inp) (ucast (cqe_tid e))) :: u32))"
  have snd: "sendToNode_zsim (?ctx (w2, c2)) lbuf 64 (ucast (source_node (wi_src inp) (ucast (cqe_tid e)))) k raw True (ucast (nb_tx_tot st)) (w_mem st)
      = Inr (?ctx (wq_post w2 ?E, c2), store_bytes (w_mem st) a (bytes32 0x1234))"
    using send_posts[of "?ctx (w2, c2)" k w2 c2] c s1(2) by (simp add: wq_ready_def a_def reply_addr_def)
  have inv2: "wq_inv w2" using s1(2) by (simp add: wq_ready_def)
  then have "wq_inv (wq_post w2 ?E)" using s1(2) posted_entries_inv by (simp add: wq_ready_def)
  from sim_toE[OF sims(2) this s1(3)] obtain w4 c4 where s2: "wi_sim2 inp (wq_post w2 ?E, c2) = (w4, c4)" "wq_ready w4" "cq_holds c4 []" .
  have a2: "sim_act (wi_sim2 inp) k (?ctx (wq_post w2 ?E, c2)) = ?ctx (w4, c4)" using c s2 by (simp add: sim_act_def)
  let ?R = "recv_entry w4 7 (cqe_recv_buf_addr e) 64"
  have rcv: "do_Recv_zsim (?ctx (w4, c4)) k (cqe_recv_buf_addr e) 64 = Inr (?ctx (wq_post w4 ?R, c4))"
    using do_Recv_posts[of k "?ctx (w4, c4)" w4 c4] c s2(2) by simp
  let ?st = "st\<lparr>w_ctx := ?ctx (wq_post w4 ?R, c4), w_mem := store_bytes (w_mem st) a (bytes32 0x1234),
      nb_tx_tot := nb_tx_tot st + 1, tmp_count := tmp_count st + 1, w_posted := w_posted st @ [?E] @ [?R]\<rparr>"
  have inv4: "wq_inv w4" "wq_inv (wq_post w4 ?R)" using s2(2) posted_entries_inv by (simp_all add: wq_ready_def)
  have run: "worker_iter k lbuf raw inp st = Some (Inr (True, ?st))"
    using len by (simp add: worker_iter_def r(1) a1 snd a2 rcv Let_def posted_post[OF c(4) inv2] posted_post[OF c(4) inv4(1)])
  have req: "map request_of ([?E] @ [?R]) = served_requests lbuf (nb_tx_tot st) inp e"
    by (simp add: request_of_def served_requests_def send_entry_def recv_entry_def create_wq_entry_def a_def CACHE_BLOCK_SIZE_def CACHE_BLOCK_BITS_def)
  have ok': "worker_ok k ?st" using c inv4 s2(3) by (simp add: worker_ok_def Let_def)
  have "map request_of (w_posted ?st) = map request_of (w_posted st) @ served_requests lbuf (nb_tx_tot st) inp e"
    unfolding req [symmetric] by simp
  then show ?thesis using run ok' by (intro exI[of _ ?st] conjI) (assumption | simp add: a_def)+
qed


lemma worker_iter_ends:
  assumes ok: "worker_ok k st" and "ends inp"
  shows "\<exists>ctx. worker_iter k lbuf raw inp st = Some (Inr (False, st\<lparr>w_ctx := ctx\<rparr>))"
proof -
  obtain wq cq where q: "unat k < length (qps (w_ctx st))" "qps (w_ctx st) ! unat k = Some (wq, cq)" "wq_inv wq" "cq_holds cq []"
    using ok by (auto simp: worker_ok_def Let_def)
  have s0: "sim_to wq_inv wq_ready (wi_sim0 inp)" using assms(2) by (simp add: ends_def)
  obtain quiet sim rest where sched: "wi_sched inp = quiet @ (sim, True) # rest" "quiet_steps quiet"
      "delivers wq_ready cq_holds sim []" using assms(2) by (auto simp: ends_def)
  obtain w0 c0 where w0: "wi_sim0 inp (wq, cq) = (w0, c0)" "wq_ready w0" "cq_holds c0 []" using sim_toE[OF s0 q(3,4)] .
  obtain r w1 c1 where p: "poll_loop rmc_check_cq (wi_sched inp) (w0, c0) (wi_ret inp) = Some (Inr (r, True, w1, c1))"
    using ready_nic.poll_ends[OF sched(2)[unfolded quiet_steps_def] sched(3) w0(2,3), of rest "wi_ret inp"] sched(1) by auto
  have "sim_act (wi_sim0 inp) k (w_ctx st) = (w_ctx st)\<lparr>qps := (qps (w_ctx st))[unat k := Some (w0, c0)]\<rparr>"
    using sim_act_qps[OF q(1,2)] w0(1) by simp
  then show ?thesis
    using receive_unfold[OF _ _ p, of k "sim_act (wi_sim0 inp) k (w_ctx st)" "wi_rpc inp"] q by (auto simp: worker_iter_def)
qed

section \<open>Statements\<close>


text \<open>The reply goes back to the node that sent the request exactly when bits 16 to 31 of the uninitialised variable \<open>source_node_id\<close>
  happen to be those of the node id: \<open>receiveRPCRequest_zsim_l3fwd\<close> writes its low 16 bits only, and the send call uses 32.\<close>

theorem reply_node_iff:
  "(ucast (ucast (source_node garbage (ucast tid)) :: u32) :: u64) = ucast tid \<longleftrightarrow>
     drop_bit 16 (ucast garbage :: u32) = drop_bit 16 (tid :: u32)" (is "?L \<longleftrightarrow> ?R")
proof -
  have mask: "(0xFFFF :: u64) = mask 16" by (simp add: mask_eq_exp_minus_1)
  let ?s = "source_node garbage (ucast tid)"
  have s: "bit ?s n \<longleftrightarrow> (if n < 16 then bit tid n else n < 64 \<and> bit garbage n)" for n
    unfolding source_node_def mask by (auto simp: bit_simps)
  have t: "bit tid n \<Longrightarrow> n < 32" and l: "n < 32 \<Longrightarrow> n < (64 :: nat)" for n
    using bit_imp_le_length[of tid n] by simp_all
  have "?L \<longleftrightarrow> (\<forall>n < 64. (n < 32 \<and> bit ?s n) = bit tid n)"
    by (simp add: bit_eq_iff bit_simps)
  also have "\<dots> \<longleftrightarrow> (\<forall>n < 32. bit ?s n = bit tid n)"
    using t l by blast
  also have "\<dots> \<longleftrightarrow> (\<forall>n. 16 \<le> n \<and> n < 32 \<longrightarrow> bit garbage n = bit tid n)"
    unfolding s by auto
  also have "\<dots> \<longleftrightarrow> ?R"
  proof
    assume h: "\<forall>n. 16 \<le> n \<and> n < 32 \<longrightarrow> bit garbage n = bit tid n"
    show ?R
    proof (rule bit_word_eqI)
      fix n assume "n < LENGTH(32)"
      then show "bit (drop_bit 16 (ucast garbage :: u32)) n = bit (drop_bit 16 tid) n"
        using h[rule_format, of "16 + n"] bit_imp_le_length[of tid "16 + n"] by (auto simp: bit_simps)
    qed
  next
    assume r: ?R
    have "bit garbage n = bit tid n" if "16 \<le> n" "n < 32" for n
      using arg_cong[OF r, of "\<lambda>w. bit w (n - 16)"] that by (simp add: bit_simps)
    then show "\<forall>n. 16 \<le> n \<and> n < 32 \<longrightarrow> bit garbage n = bit tid n" by blast
  qed
  finally show ?thesis .
qed

text \<open>A receive buffer is given back only if the entry at the head of the work queue happens to be free: \<open>do_Recv_zsim\<close> does not look
  at the result of \<open>rmc_hw_recv\<close>, so with an entry that is still in use it returns normally, nothing has
  been posted, and the buffer is lost.\<close>

theorem do_Recv_dropped:
  assumes "unat k < length (qps ctx)" and "qps ctx ! unat k = Some (wq, cq)" and "wq_inv wq"
    and "wqe_valid (wq_q wq ! unat (wq_head wq))"
  shows "do_Recv_zsim ctx k a len = Inr ctx"
  using assms by (simp add: do_Recv_zsim_def vec_at_Some deref_def rmc_hw_recv_eq list_update_same_conv)


subsection \<open>Instances\<close>

text \<open>A simulator that completes all requests.\<close>

definition complete_all :: "qp \<Rightarrow> qp" where
  "complete_all = (\<lambda>(wq, cq). (wq\<lparr>wq_q := map (\<lambda>e. e\<lparr>wqe_valid := False\<rparr>) (wq_q wq)\<rparr>, cq))"

lemma complete_all_ready: "sim_to wq_inv wq_ready complete_all"
  by (auto simp: sim_to_def complete_all_def wq_ready_def wq_inv_def wq_idle_def wq_sense_def elim!: sense_ok_keep)

lemma ready_inv: "sim_to wq_inv Q sim \<Longrightarrow> sim_to wq_ready Q sim"
  by (auto simp: sim_to_def wq_ready_def)

definition demo_input :: "bool \<Rightarrow> worker_input" where
  "demo_input fin = \<lparr>wi_sim0 = complete_all,
     wi_sched = (if fin then [(id, True)] else [(\<lambda>(wq, cq). (wq, demo_cq), False)]),
     wi_sim1 = complete_all, wi_sim2 = complete_all, wi_rpc = demo_rpc, wi_ret = demo_ret, wi_src = 0\<rparr>"

lemma demo_input_serves: "serves (demo_input False) demo_cqe"
proof -
  have "delivers wq_ready cq_holds (\<lambda>(wq, cq). (wq, demo_cq)) [demo_cqe]"
    using demo_cq_holds by (simp add: delivers_def)
  then show ?thesis using complete_all_ready ready_inv[OF complete_all_ready]
    by (force simp: serves_def demo_input_def quiet_steps_def demo_rpc_def createRPCStruct_def demo_cqe_def)
qed

lemma demo_input_ends: "ends (demo_input True)"
  using complete_all_ready by (force simp: ends_def demo_input_def quiet_steps_def delivers_def)

definition demo_worker :: worker_state where
  "demo_worker = \<lparr>w_ctx = demo_ctx\<lparr>qps := [Some (demo_wq, empty_cq)]\<rparr>, w_mem = (\<lambda>a. 0), nb_tx_tot = 0, tmp_count = 0, w_posted = []\<rparr>"

lemma demo_worker_ok: "worker_ok 0 demo_worker"
  using created_context[OF demo_ctx_created] wq_initial_inv[OF demo_wq_initial] empty_cq_holds
  by (simp add: worker_ok_def demo_worker_def)


definition busy_wq :: rmc_wq where
  "busy_wq = demo_wq\<lparr>wq_q := (wq_q demo_wq)[0 := (wq_q demo_wq ! 0)\<lparr>wqe_valid := True\<rparr>]\<rparr>"

theorem do_Recv_dropped_witness:
  "do_Recv_zsim (demo_ctx\<lparr>qps := [Some (busy_wq, empty_cq)]\<rparr>) 0 0x4000 64 = Inr (demo_ctx\<lparr>qps := [Some (busy_wq, empty_cq)]\<rparr>)"
proof -
  have "wq_initial busy_wq"
    by (simp add: wq_initial_def busy_wq_def demo_wq_def MAX_NUM_WQ_def replicate_Suc numeral_eq_Suc)
  moreover have "wqe_valid (wq_q busy_wq ! unat (wq_head busy_wq))" by (simp add: busy_wq_def demo_wq_def MAX_NUM_WQ_def)
  ultimately show ?thesis
    using do_Recv_dropped[of 0 "demo_ctx\<lparr>qps := [Some (busy_wq, empty_cq)]\<rparr>" busy_wq empty_cq, OF _ _ wq_initial_inv] by simp
qed

end
