(* ===== verification/Rte_Strings.thy ===== *)
theory Rte_Strings
  imports Ring_Init
begin

text \<open>
  Strings: \<open>rte_str_to_size\<close> of \<^verbatim>\<open>src/rte_lib/include/rte_common.h\<close>, which reads a number with a unit, and \<open>rte_strlcat\<close> of
  \<^verbatim>\<open>src/rte_lib/include/rte_string_fns.h\<close>.  A string is the list of its characters before the terminating zero.  \<open>strtoull0\<close> is
  \<open>strtoull\<close> of the C library with base 0: optional white space and sign, a prefix that selects the base, then digits; it gives the
  number and the rest of the string, or \<open>None\<close> where it sets \<open>errno\<close>.
\<close>

section \<open>Operations\<close>

definition is_space :: "char \<Rightarrow> bool" where
  "is_space c \<longleftrightarrow> (of_char c :: nat) \<in> {32, 9, 10, 11, 12, 13}"

definition is_digit :: "char \<Rightarrow> bool" where
  "is_digit c \<longleftrightarrow> 48 \<le> (of_char c :: nat) \<and> (of_char c :: nat) \<le> 57"

definition digit_val :: "char \<Rightarrow> nat" where
  "digit_val c = (let k = of_char c in
     if is_digit c then k - 48 else if 65 \<le> k \<and> k \<le> 90 then k - 55 else if 97 \<le> k \<and> k \<le> 122 then k - 87 else 36)"

fun scan_digits :: "nat \<Rightarrow> string \<Rightarrow> nat \<Rightarrow> nat \<times> string" where
  "scan_digits base [] acc = (acc, [])"
| "scan_digits base (c # cs) acc = (if digit_val c < base then scan_digits base cs (base * acc + digit_val c) else (acc, c # cs))"

definition scan_number :: "string \<Rightarrow> (nat \<times> string) option" where
  "scan_number t = (case t of [] \<Rightarrow> None
     | c # cs \<Rightarrow>
       if c = CHR ''0'' then
         (case cs of x # d # r \<Rightarrow> if (x = CHR ''x'' \<or> x = CHR ''X'') \<and> digit_val d < 16 then Some (scan_digits 16 (d # r) 0)
                                 else Some (scan_digits 8 t 0)
          | _ \<Rightarrow> Some (scan_digits 8 t 0))
       else if is_digit c then Some (scan_digits 10 t 0) else None)"

definition strtoull0 :: "string \<Rightarrow> (u64 \<times> string) option" where
  "strtoull0 s =
     (let t = dropWhile is_space s; neg = (t \<noteq> [] \<and> hd t = CHR ''-'');
          u = (if t \<noteq> [] \<and> (hd t = CHR ''-'' \<or> hd t = CHR ''+'') then tl t else t) in
      case scan_number u of None \<Rightarrow> Some (0, s)
      | Some (v, rest) \<Rightarrow> if v < 2 ^ 64 then Some (if neg then - of_nat v else of_nat v, rest) else None)"

definition unit_shift :: "char \<Rightarrow> nat" where
  "unit_shift c = (if c = CHR ''G'' \<or> c = CHR ''g'' then 3 else if c = CHR ''M'' \<or> c = CHR ''m'' then 2
     else if c = CHR ''K'' \<or> c = CHR ''k'' then 1 else 0)"

definition rte_str_to_size :: "string \<Rightarrow> u64" where
  "rte_str_to_size s =
     (let str = dropWhile is_space s in
      if str \<noteq> [] \<and> hd str = CHR ''-'' then 0
      else case strtoull0 str of None \<Rightarrow> 0
      | Some (sz, endptr) \<Rightarrow>
        let endptr = (if endptr \<noteq> [] \<and> hd endptr = CHR '' '' then tl endptr else endptr) in
        if endptr = [] then sz else sz * 1024 ^ unit_shift (hd endptr))"

text \<open>\<open>rte_strlcat\<close>: the string in the buffer of \<open>sz\<close> bytes and the result.  \<open>dst\<close> is unterminated when it fills the buffer.\<close>

definition rte_strlcat :: "string \<Rightarrow> string \<Rightarrow> nat \<Rightarrow> string \<times> nat" where
  "rte_strlcat dst src sz =
     (let l = min (length dst) sz in
      if l < sz then let (copied, n) = strlcpy src (sz - l) in (dst @ copied, l + n)
      else (dst, l + length src))"

text \<open>The buffer holds as much of both strings as fits; a result of \<open>sz\<close> or more tells that something was cut off.\<close>

lemma strlcat_appends:
  assumes "length dst < sz"
  shows "rte_strlcat dst src sz = (take (sz - 1) (dst @ src), length dst + length src)"
  using assms by (simp add: rte_strlcat_def strlcpy_def Let_def)

section \<open>Decimal numbers\<close>

definition dig :: "nat \<Rightarrow> char" where "dig k = char_of (48 + k)"

fun dec :: "nat \<Rightarrow> string" where
  "dec n = (if n < 10 then [dig n] else dec (n div 10) @ [dig (n mod 10)])"

declare dec.simps [simp del]

lemma of_char_dig: "k < 10 \<Longrightarrow> of_char (dig k) = 48 + k"
  by (simp add: dig_def)

lemma dig_simps [simp]:
  assumes "k < 10"
  shows "digit_val (dig k) = k" and "is_digit (dig k)" and "\<not> is_space (dig k)"
  using of_char_dig[OF assms] assms by (simp_all add: digit_val_def is_digit_def is_space_def Let_def)

lemma scan_dec: "scan_digits 10 (dec n @ r) acc = scan_digits 10 r (acc * 10 ^ length (dec n) + n)"
proof (induction n arbitrary: r acc rule: dec.induct)
  case (1 n)
  show ?case
  proof (cases "n < 10")
    case True then show ?thesis by (simp add: dec.simps[of n] mult.commute)
  next
    case False
    then show ?thesis using 1[OF False, of "dig (n mod 10) # r" acc] by (simp add: dec.simps[of n] algebra_simps)
  qed
qed

lemma dec_first: "\<exists>k cs. dec n = dig k # cs \<and> k < 10 \<and> (0 < n \<longrightarrow> 0 < k)"
proof (induction n rule: dec.induct)
  case (1 n)
  show ?case
  proof (cases "n < 10")
    case True then show ?thesis by (auto simp: dec.simps[of n])
  next
    case False
    with 1[OF False] show ?thesis by (auto simp: dec.simps[of n])
  qed
qed

text \<open>What follows a number: a space, or a letter that is no digit.\<close>

lemma scan_number_dec:
  assumes "r = [] \<or> 10 \<le> digit_val (hd r)" and "r = [] \<or> hd r \<noteq> CHR ''x'' \<and> hd r \<noteq> CHR ''X''"
  shows "scan_number (dec n @ r) = Some (n, r)"
proof (cases "n = 0")
  case True
  have z: "dec 0 = [CHR ''0'']" by (simp add: dec.simps[of 0] dig_def char_of_def bit_0)
  have "scan_digits 8 r 0 = (0, r)" using assms(1) by (cases r) auto
  moreover have "digit_val CHR ''0'' = 0" by (simp add: digit_val_def is_digit_def of_char_def)
  ultimately show ?thesis using assms(2) True by (cases r) (auto simp: scan_number_def z split: list.splits)
next
  case False
  then obtain k cs where k: "dec n = dig k # cs" "0 < k" "k < 10" using dec_first[of n] by auto
  have "scan_digits 10 r n = (n, r)" using assms(1) by (cases r) auto
  then have "scan_digits 10 (dec n @ r) 0 = (n, r)" by (simp add: scan_dec)
  moreover have "dig k \<noteq> CHR ''0''" using of_char_dig[OF k(3)] k(2) by (auto simp: of_char_def)
  ultimately show ?thesis using k by (simp add: scan_number_def)
qed

lemma first_not_sign: "k < 10 \<Longrightarrow> dig k \<noteq> CHR ''-'' \<and> dig k \<noteq> CHR ''+'' \<and> dig k \<noteq> CHR '' ''"
  using of_char_dig[of k] by (auto simp: of_char_def)

lemma drop_pad:
  assumes "\<forall>c \<in> set pad. is_space c"
  shows "dropWhile is_space (pad @ dec n @ r) = dec n @ r"
  using assms dec_first[of n] by (auto simp: dropWhile_append)

text \<open>A decimal number below \<open>2 ^ 64\<close>, with white space before it, at most one space behind it and then a unit, is read as the number times
  the power of 1024 the unit stands for, modulo \<open>2 ^ 64\<close>; without a unit it is read as it is.\<close>

theorem str_to_size_reads:
  assumes "n < 2 ^ 64" and "\<forall>c \<in> set pad. is_space c" and "gap = [] \<or> gap = '' ''" and "0 < unit_shift c"
  shows "rte_str_to_size (pad @ dec n @ gap @ c # rest) = of_nat (n * 1024 ^ unit_shift c) \<and>
    rte_str_to_size (pad @ dec n) = of_nat n"
proof -
  have c: "c \<noteq> CHR '' ''" "c \<noteq> CHR ''x''" "c \<noteq> CHR ''X''" "10 \<le> digit_val c"
    using assms(4) by (auto simp: unit_shift_def digit_val_def is_digit_def of_char_def Let_def split: if_splits)
  have sp: "10 \<le> digit_val CHR '' ''" by (simp add: digit_val_def is_digit_def of_char_def)
  obtain k cs where k: "dec n = dig k # cs" "k < 10" using dec_first[of n] by blast
  have rd: "strtoull0 (dec n @ r) = Some (of_nat n, r)" if "scan_number (dec n @ r) = Some (n, r)" for r
    using that k first_not_sign[of k] assms(1) by (simp add: strtoull0_def)
  have "scan_number (dec n @ gap @ c # rest) = Some (n, gap @ c # rest)" using c sp assms(3) by (intro scan_number_dec) auto
  note unit = rd[OF this]
  have "scan_number (dec n @ []) = Some (n, [])" by (rule scan_number_dec) simp_all
  note plain = rd[OF this]
  show ?thesis
  proof
    show "rte_str_to_size (pad @ dec n @ gap @ c # rest) = of_nat (n * 1024 ^ unit_shift c)"
      using unit assms(3) c(1) k first_not_sign[of k] drop_pad[OF assms(2), of n "gap @ c # rest"] by (auto simp: rte_str_to_size_def)
    show "rte_str_to_size (pad @ dec n) = of_nat n"
      using drop_pad[OF assms(2), of n "[]"] plain k first_not_sign[of k] by (simp add: rte_str_to_size_def)
  qed
qed

theorem str_to_size_reads_witness: "rte_str_to_size '' 512 MB'' = 536870912 \<and> rte_str_to_size '' 512'' = 512"
proof -
  have d: "dec 512 = ''512''" by (simp add: dec.simps dig_def char_of_def bit_0)
  have "\<forall>c \<in> set '' ''. is_space c" "0 < unit_shift CHR ''M''" by (simp_all add: is_space_def of_char_def unit_shift_def)
  from str_to_size_reads[of 512, OF _ this(1) _ this(2), of "'' ''" "''B''"] d show ?thesis by (simp add: unit_shift_def)
qed

text \<open>A size that does not fit into 64 bits is not reported: it wraps around.\<close>

lemma str_to_size_wraps: "rte_str_to_size ''17179869184G'' = 0"
  by (simp add: rte_str_to_size_def strtoull0_def scan_number_def digit_val_def is_digit_def is_space_def of_char_def unit_shift_def)

end
