(* ===== verification/L3fwd_Main.thy ===== *)
theory L3fwd_Main
  imports L3fwd_Worker Rte_Strings
begin

text \<open>
  The main program of the forwarder (\<^verbatim>\<open>src/l3fwd/main.c\<close>): its options, the checks, and the parameters of the worker threads; and the route
  table of \<^verbatim>\<open>em_l3f.c\<close>.  \<open>getopt_long\<close>, \<open>atoi\<close> and \<open>atol\<close> are those of the C library: an option letter without a colon in the option
  string has no argument, the table of long options ends with an element of zeros, a number out of range is
  undefined.  The results of \<open>malloc\<close> and of the thread library are parameters.
\<close>

section \<open>Numbers\<close>

fun digits_val :: "string \<Rightarrow> int \<Rightarrow> int" where
  "digits_val [] acc = acc"
| "digits_val (c # cs) acc = (if is_digit c then digits_val cs (10 * acc + (of_char c - 48)) else acc)"

definition strtol10 :: "string \<Rightarrow> int" where
  "strtol10 s = (case dropWhile is_space s of [] \<Rightarrow> 0
     | c # cs \<Rightarrow> if c = CHR ''-'' then - digits_val cs 0 else if c = CHR ''+'' then digits_val cs 0 else digits_val (c # cs) 0)"

definition atoi :: "string option \<Rightarrow> u32 cres" where
  "atoi s = (case s of None \<Rightarrow> Inl NullDeref
     | Some t \<Rightarrow> let v = strtol10 t in if - (2 ^ 31) \<le> v \<and> v < 2 ^ 31 then Inr (of_int v) else Inl Undefined)"

definition atol :: "string option \<Rightarrow> u64 cres" where
  "atol s = (case s of None \<Rightarrow> Inl NullDeref
     | Some t \<Rightarrow> let v = strtol10 t in if - (2 ^ 63) \<le> v \<and> v < 2 ^ 63 then Inr (of_int v) else Inl Undefined)"

section \<open>Options\<close>

record main_opts =
  o_num_threads :: u32
  o_num_rem_threads :: u32
  o_node_cnt :: u32
  o_qps :: u32
  o_postlist :: u32
  o_update_percentage :: u32
  o_machine_id :: u32
  o_base_port_index :: u32
  o_num_server_ports :: u32
  o_num_client_ports :: u32
  o_run_debug_mode :: u32
  o_start_core :: u32
  o_num_client_keys :: u64
  o_num_hash_buckets :: u64
  o_log_cap :: u64

definition default_opts :: main_opts where
  "default_opts = \<lparr>o_num_threads = 0, o_num_rem_threads = 0, o_node_cnt = 0, o_qps = 0, o_postlist = -1,
     o_update_percentage = -1, o_machine_id = 1, o_base_port_index = -1, o_num_server_ports = -1,
     o_num_client_ports = -1, o_run_debug_mode = 0, o_start_core = 3, o_num_client_keys = 1024 * 1024,
     o_num_hash_buckets = 2 * 1024 * 1024, o_log_cap = 8 * 1024 * 1024\<rparr>"

definition long_opts :: "(string \<times> char) list" where
  "long_opts = [(''master'', CHR ''M''), (''num-threads'', CHR ''t''), (''start-core'', CHR ''s''),
     (''base-port-index'', CHR ''b''), (''num-server-ports'', CHR ''N''), (''num-client-ports'', CHR ''n''),
     (''is-client'', CHR ''c''), (''update-percentage'', CHR ''u''), (''machine-id'', CHR ''m''),
     (''total-nodes'', CHR ''C''), (''qps-to-create'', CHR ''q''), (''num-remote-threads'', CHR ''O''),
     (''num-keys'', CHR ''K''), (''num-server-buckets'', CHR ''B''), (''log-capacity-bytes'', CHR ''L''),
     (''debug'', CHR ''D''), (''postlist'', CHR ''p'')]"

definition short_opts :: string where "short_opts = ''M:t:b:N:n:c:u:m:C:q:O:K:B:L:D:p''"

text \<open>An argument of the command line, with the text that follows it.\<close>

datatype cmd_arg = ShortOpt char string | LongOpt string string

fun short_lookup :: "string \<Rightarrow> char \<Rightarrow> bool option" where
  "short_lookup [] c = None"
| "short_lookup (x # xs) c =
     (if x = c \<and> c \<noteq> CHR '':'' then Some (case xs of [] \<Rightarrow> False | y # _ \<Rightarrow> y = CHR '':'') else short_lookup xs c)"

text \<open>A long option that is not in the table is searched for behind its end, because the table of the program has no
  element of zeros.\<close>

fun getopt_long :: "cmd_arg \<Rightarrow> (char \<times> string option) cres" where
  "getopt_long (ShortOpt c s) =
     (case short_lookup short_opts c of
        None \<Rightarrow> Inr (CHR ''?'', None)
      | Some takes_arg \<Rightarrow> Inr (c, if takes_arg then Some s else None))"
| "getopt_long (LongOpt name s) =
     (case map_of long_opts name of None \<Rightarrow> Inl Undefined | Some c \<Rightarrow> Inr (c, Some s))"

text \<open>The \<open>switch\<close>.\<close>

definition handle_option :: "char \<Rightarrow> string option \<Rightarrow> main_opts \<Rightarrow> main_opts cres" where
  "handle_option c optarg opt =
     (if c = CHR ''K'' then bindc (atol optarg) (\<lambda>v. Inr (opt\<lparr>o_num_client_keys := v\<rparr>))
      else if c = CHR ''s'' then bindc (atol optarg) (\<lambda>v. Inr (opt\<lparr>o_start_core := ucast v\<rparr>))
      else if c = CHR ''L'' then bindc (atol optarg) (\<lambda>v. Inr (opt\<lparr>o_log_cap := v\<rparr>))
      else if c = CHR ''B'' then bindc (atol optarg) (\<lambda>v. Inr (opt\<lparr>o_num_hash_buckets := v\<rparr>))
      else if c = CHR ''D'' then bindc (atoi optarg) (\<lambda>v. Inr (opt\<lparr>o_run_debug_mode := v\<rparr>))
      else if c = CHR ''t'' then bindc (atol optarg) (\<lambda>v. Inr (opt\<lparr>o_num_threads := ucast v\<rparr>))
      else if c = CHR ''b'' then bindc (atoi optarg) (\<lambda>v. Inr (opt\<lparr>o_base_port_index := v\<rparr>))
      else if c = CHR ''N'' then bindc (atoi optarg) (\<lambda>v. Inr (opt\<lparr>o_num_server_ports := v\<rparr>))
      else if c = CHR ''n'' then bindc (atoi optarg) (\<lambda>v. Inr (opt\<lparr>o_num_client_ports := v\<rparr>))
      else if c = CHR ''u'' then bindc (atoi optarg) (\<lambda>v. Inr (opt\<lparr>o_update_percentage := v\<rparr>))
      else if c = CHR ''m'' then bindc (atoi optarg) (\<lambda>v. Inr (opt\<lparr>o_machine_id := v\<rparr>))
      else if c = CHR ''p'' then bindc (atoi optarg) (\<lambda>v. Inr (opt\<lparr>o_postlist := v\<rparr>))
      else if c = CHR ''C'' then bindc (atoi optarg) (\<lambda>v. Inr (opt\<lparr>o_node_cnt := v\<rparr>))
      else if c = CHR ''O'' then bindc (atoi optarg) (\<lambda>v. Inr (opt\<lparr>o_num_rem_threads := v\<rparr>))
      else if c = CHR ''q'' then bindc (atoi optarg) (\<lambda>v. Inr (opt\<lparr>o_qps := v\<rparr>))
      else Inl AssertFail)"

fun parse_args :: "cmd_arg list \<Rightarrow> main_opts \<Rightarrow> main_opts cres" where
  "parse_args [] opt = Inr opt"
| "parse_args (a # as) opt = bindc (getopt_long a) (\<lambda>(c, optarg). bindc (handle_option c optarg opt) (parse_args as))"

section \<open>Threads\<close>

record thread_params =
  tp_id :: u32
  tp_start_core :: u32
  tp_local_tid :: u32
  tp_base_port_index :: u32
  tp_num_server_ports :: u32
  tp_num_client_ports :: u32
  tp_update_percentage :: u32
  tp_postlist :: u32
  tp_node_cnt :: u32
  tp_sonuma_nid :: u32
  tp_qps_per_node :: u32
  tp_num_serv_threads :: u32
  tp_num_client_threads :: u32
  tp_num_keys :: u64
  tp_num_hash_buckets :: u64
  tp_log_capacity_bytes :: u64
  tp_run_debug_mode :: u32
  tp_ctx :: "rpcNUMAContext option"
  tp_barrier :: u64
  tp_init_lock :: u64

definition set_params ::
  "main_opts \<Rightarrow> rpcNUMAContext option \<Rightarrow> u64 \<Rightarrow> u64 \<Rightarrow> u32 \<Rightarrow> thread_params \<Rightarrow> thread_params" where
  "set_params opt ctx start_barrier init_lock i p = p\<lparr>
     tp_barrier := start_barrier, tp_init_lock := init_lock, tp_postlist := o_postlist opt,
     tp_sonuma_nid := o_machine_id opt, tp_node_cnt := o_node_cnt opt, tp_qps_per_node := o_qps opt, tp_ctx := ctx,
     tp_num_keys := o_num_client_keys opt, tp_num_hash_buckets := o_num_hash_buckets opt,
     tp_log_capacity_bytes := o_log_cap opt, tp_run_debug_mode := o_run_debug_mode opt, tp_start_core := o_start_core opt,
     tp_id := i, tp_base_port_index := o_base_port_index opt, tp_num_server_ports := o_num_server_ports opt,
     tp_num_client_ports := o_num_client_ports opt, tp_num_client_threads := o_num_rem_threads opt,
     tp_num_serv_threads := o_num_threads opt\<rparr>"

text \<open>What \<open>main\<close> gets from the C library: uninitialised parameter blocks, the barrier and the lock (or \<open>NULL\<close>), the results of
  their initialisation, and whether the two arrays for the threads could be allocated.\<close>

record main_env =
  env_params :: "thread_params list option"
  env_barrier :: "u64 option"
  env_lock :: "u64 option"
  env_barrier_init :: "u32 \<Rightarrow> int"
  env_mutex_init :: int
  env_threads :: bool
  env_pins :: bool

definition main_run ::
  "(rpcNUMAContext \<Rightarrow> u32 \<Rightarrow> u32 \<Rightarrow> u32 \<Rightarrow> rpcNUMAContext option) \<Rightarrow> rpcNUMAContext \<Rightarrow> main_env \<Rightarrow> cmd_arg list \<Rightarrow>
   (int \<times> thread_params list) cres" where
  "main_run create uninit env args =
     bindc (parse_args args default_opts) (\<lambda>opt.
       if \<not> o_num_threads opt \<le> o_qps opt then Inl AssertFail
       else let ctx = create uninit (o_node_cnt opt) 0 (o_num_threads opt - 1) in
       case env_barrier env of None \<Rightarrow> Inr (1, [])
       | Some start_barrier \<Rightarrow>
         (case env_lock env of None \<Rightarrow> Inr (1, [])
          | Some init_lock \<Rightarrow>
            if env_barrier_init env (o_num_threads opt) \<noteq> 0 then Inr (1, [])
            else if env_mutex_init env \<noteq> 0 then Inr (1, [])
            else if o_num_threads opt \<noteq> 0 \<and> (env_params env = None \<or> \<not> env_threads env \<or> \<not> env_pins env) then Inl NullDeref
            else Inr (0, map (\<lambda>i. set_params opt ctx start_barrier init_lock (of_nat i) (the (env_params env) ! i))
                       [0..<unat (o_num_threads opt)])))"

section \<open>Routes\<close>

record ipv6_5tuple =
  ip_dst :: "u8 list"
  ip_src :: "u8 list"
  port_dst :: u16
  port_src :: u16
  proto :: u8

definition route_addr :: "u8 \<Rightarrow> u8 \<Rightarrow> u8 list" where
  "route_addr net host = [32, 1, 2, 0, 0, 0, 0, net, 0, 0, 0, 0, 0, 0, 0, host]"

definition ipv6_l3fwd_em_route_array :: "(ipv6_5tuple \<times> u8) list" where
  "ipv6_l3fwd_em_route_array = map (\<lambda>i. (\<lparr>ip_dst = route_addr i 0, ip_src = route_addr i 1, port_dst = 9,
     port_src = 9, proto = 17\<rparr>, i)) [0, 1, 2, 3, 4, 5, 6, 7, 8, 9, 10, 11, 12, 13, 14, 15]"

definition ipv6_hash_crc :: "u8 list \<Rightarrow> u32 \<Rightarrow> u32" where "ipv6_hash_crc data init_val = 0"

definition get_random_permutation :: "u32 \<Rightarrow> u32 \<Rightarrow> u64 \<Rightarrow> u64" where "get_random_permutation n clt_gid seed = 0"


section \<open>Statements\<close>

lemma main_run_threads:
  assumes "main_run create uninit env args = Inr (0, ps)"
  obtains opt b l where "parse_args args default_opts = Inr opt" and "o_num_threads opt \<le> o_qps opt"
    and "ps = map (\<lambda>i. set_params opt (create uninit (o_node_cnt opt) 0 (o_num_threads opt - 1)) b l (of_nat i) (the (env_params env) ! i))
       [0..<unat (o_num_threads opt)]"
  using assms by (auto simp: main_run_def Let_def bindc_Inr_iff split: if_splits option.splits)

lemma unat_of_nat_u32: "i < unat (n :: u32) \<Longrightarrow> unat (of_nat i :: u32) = i"
  using unat_u32_lt[of n] by (simp add: unat_of_nat take_bit_nat_eq_self del: unat_u32_lt)

lemma created_exists: "\<exists>ctx. createRPCNUMAContext malloc memalign uninit nodes a b = Some ctx"
  by (simp add: createRPCNUMAContext_def kal_reg_ctx_def Let_def split: prod.splits)

text \<open>C11: Whatever options main accepts, every worker it starts has an id of its own, pins itself to a core of its own, and finds a place
  for its buffer and its queue pair in the context that main created; registered with a work queue in order and an empty completion
  queue, it is ready to serve requests.\<close>

theorem main_workers_ready:
  assumes "main_run (createRPCNUMAContext malloc memalign) uninit env args = Inr (0, ps)"
    and "p \<in> set ps" and "wq_inv wq" and "cq_holds cq []"
  shows "distinct (map tp_id ps) \<and> distinct (map (\<lambda>p. tp_id p + tp_start_core p) ps) \<and>
    (\<exists>ctx st. tp_ctx p = Some ctx \<and> worker_setup (tp_id p) lbuf wq cq m ctx = Inr (lbuf, st) \<and> worker_ok (tp_id p) st)"
proof -
  obtain opt b l where opt: "ps = map (\<lambda>i. set_params opt (createRPCNUMAContext malloc memalign uninit (o_node_cnt opt) 0 (o_num_threads opt - 1))
      b l (of_nat i) (the (env_params env) ! i)) [0..<unat (o_num_threads opt)]"
    using main_run_threads[OF assms(1)] by metis
  obtain ctx where ctx: "createRPCNUMAContext malloc memalign uninit (o_node_cnt opt) 0 (o_num_threads opt - 1) = Some ctx"
    using created_exists by blast
  note created = created_context[OF ctx]
  obtain i where i: "i < unat (o_num_threads opt)" "tp_id p = of_nat i" "tp_ctx p = Some ctx"
    using assms(2) ctx by (auto simp: opt set_params_def)
  have "unat (tp_id p) = i" using i unat_of_nat_u32 by simp
  then have "\<exists>st. worker_setup (tp_id p) lbuf wq cq m ctx = Inr (lbuf, st) \<and> worker_ok (tp_id p) st"
    using i created assms(3,4)
    by (simp add: worker_setup_def registerNewLocalBuffer_def registerNewSONUMAQP_def vec_set_def worker_ok_def)
  moreover have inj: "inj_on (of_nat :: nat \<Rightarrow> u32) {0..<unat (o_num_threads opt)}"
    by (rule inj_onI) (metis atLeastLessThan_iff unat_of_nat_u32)
  ultimately show ?thesis using i(3)
    by (auto simp: opt set_params_def distinct_map comp_def inj_on_def)
qed

text \<open>Some options that the program declares cannot be used: \<open>-p\<close> is declared without an argument and then converts a null pointer, \<open>-s\<close> is
  missing in the option string, \<open>-M\<close>, \<open>-c\<close> and their long forms are accepted by \<open>getopt_long\<close> and end in the
  assertion of the default case, and an unknown long option is looked for behind the end of the table.  The long form of \<open>-p\<close> and \<open>-s\<close> works.\<close>

theorem options_rejected:
  "parse_args (ShortOpt CHR ''p'' a # as) opt = Inl NullDeref \<and>
   parse_args (ShortOpt CHR ''s'' a # as) opt = Inl AssertFail \<and>
   parse_args (ShortOpt CHR ''M'' a # as) opt = Inl AssertFail \<and> parse_args (LongOpt ''master'' a # as) opt = Inl AssertFail \<and>
   parse_args (ShortOpt CHR ''c'' a # as) opt = Inl AssertFail \<and> parse_args (LongOpt ''is-client'' a # as) opt = Inl AssertFail \<and>
   parse_args (LongOpt ''verbose'' a # as) opt = Inl Undefined \<and>
   parse_args [LongOpt ''postlist'' ''4''] opt = Inr (opt\<lparr>o_postlist := 4\<rparr>) \<and>
   parse_args [LongOpt ''start-core'' ''5''] opt = Inr (opt\<lparr>o_start_core := 5\<rparr>)"
  by (simp add: short_opts_def long_opts_def handle_option_def atoi_def atol_def strtol10_def is_space_def is_digit_def of_char_def Let_def)


definition demo_thread_params :: thread_params where
  "demo_thread_params = \<lparr>tp_id = 0, tp_start_core = 0, tp_local_tid = 0, tp_base_port_index = 0, tp_num_server_ports = 0,
     tp_num_client_ports = 0, tp_update_percentage = 0, tp_postlist = 0, tp_node_cnt = 0, tp_sonuma_nid = 0,
     tp_qps_per_node = 0, tp_num_serv_threads = 0, tp_num_client_threads = 0, tp_num_keys = 0, tp_num_hash_buckets = 0,
     tp_log_capacity_bytes = 0, tp_run_debug_mode = 0, tp_ctx = None, tp_barrier = 0, tp_init_lock = 0\<rparr>"

definition demo_env :: main_env where
  "demo_env = \<lparr>env_params = Some [demo_thread_params, demo_thread_params], env_barrier = Some 0x100, env_lock = Some 0x200,
     env_barrier_init = (\<lambda>n. 0), env_mutex_init = 0, env_threads = True, env_pins = True\<rparr>"

definition demo_args :: "cmd_arg list" where
  "demo_args = [ShortOpt CHR ''t'' ''2'', LongOpt ''qps-to-create'' ''2'', ShortOpt CHR ''C'' ''3'']"

lemma demo_args_parsed:
  "parse_args demo_args default_opts = Inr (default_opts\<lparr>o_num_threads := 2, o_qps := 2, o_node_cnt := 3\<rparr>)"
  by (simp add: demo_args_def short_opts_def long_opts_def handle_option_def atoi_def atol_def strtol10_def is_space_def
      is_digit_def of_char_def Let_def)

theorem main_workers_ready_witness:
  "\<exists>ps ctx st. main_run (createRPCNUMAContext (\<lambda>n. None) (\<lambda>n. Some 0x10000)) demo_uninit demo_env demo_args = Inr (0, ps) \<and>
     distinct (map tp_id ps) \<and> length ps = 2 \<and> tp_ctx (ps ! 1) = Some ctx \<and>
     worker_setup (tp_id (ps ! 1)) 0x20000 demo_wq empty_cq (\<lambda>a. 0) ctx = Inr (0x20000, st)"
proof -
  obtain ps where ps: "main_run (createRPCNUMAContext (\<lambda>n. None) (\<lambda>n. Some 0x10000)) demo_uninit demo_env demo_args = Inr (0, ps)"
      "length ps = 2"
    unfolding main_run_def demo_args_parsed bindc.simps by (simp add: demo_env_def default_opts_def Let_def)
  then have "ps ! 1 \<in> set ps" by simp
  from main_workers_ready[OF ps(1) this wq_initial_inv[OF demo_wq_initial] empty_cq_holds, of "0x20000" "\<lambda>a. 0"]
  have "distinct (map tp_id ps)" and "\<exists>ctx st. tp_ctx (ps ! 1) = Some ctx \<and>
      worker_setup (tp_id (ps ! 1)) 0x20000 demo_wq empty_cq (\<lambda>a. 0) ctx = Inr (0x20000, st)" by blast+
  with ps show ?thesis by blast
qed

lemma routes_distinct:
  "distinct (map fst ipv6_l3fwd_em_route_array)" "map snd ipv6_l3fwd_em_route_array = [0, 1, 2, 3, 4, 5, 6, 7, 8, 9, 10, 11, 12, 13, 14, 15]"
  by (simp_all add: ipv6_l3fwd_em_route_array_def route_addr_def)

end
