(* ===== verification/Rpc_Stats.thy ===== *)
theory Rpc_Stats
  imports Rpc_Context
begin

text \<open>
  The statistics of the RPC layer, \<^verbatim>\<open>statContainer.tpp\<close> and its users in \<^verbatim>\<open>rpc.cpp\<close>: a vector of elements that is
  written to a binary file and read back.  An element is its object representation, \<open>sz\<close> bytes; a new element is
  value-initialised, which is zero bytes for \<open>double\<close>.  Files are a map from names to bytes.
\<close>

type_synonym elem = "u8 list"
type_synonym files = "string \<Rightarrow> u8 list option"

definition stats_append :: "elem \<Rightarrow> elem list \<Rightarrow> elem list" where
  "stats_append appendMe underlyingContainer = underlyingContainer @ [appendMe]"

text \<open>\<open>std::vector::at\<close> throws for an index outside the vector.\<close>

definition stats_get :: "elem list \<Rightarrow> nat \<Rightarrow> elem cres" where
  "stats_get underlyingContainer idx = (if idx < length underlyingContainer then Inr (underlyingContainer ! idx) else Inl OutOfBounds)"

text \<open>Opening an output stream empties the file; then one write for each element.\<close>

fun write_elems :: "elem list \<Rightarrow> u8 list \<Rightarrow> u8 list" where
  "write_elems [] fout = fout"
| "write_elems (x # xs) fout = write_elems xs (fout @ x)"

definition writeToFile :: "elem list \<Rightarrow> string \<Rightarrow> files \<Rightarrow> files" where
  "writeToFile underlyingContainer fname fs = fs(fname \<mapsto> write_elems underlyingContainer [])"

text \<open>
  An input stream is what is left of the file, or \<open>None\<close> after a failure.  A read that finds too few bytes stores those it
  finds and fails; after a failure nothing is stored.
\<close>

definition stream_read :: "elem \<Rightarrow> nat \<Rightarrow> u8 list option \<Rightarrow> elem \<times> u8 list option" where
  "stream_read old sz fin =
     (case fin of
        None \<Rightarrow> (old, None)
      | Some bytes \<Rightarrow> (if sz \<le> length bytes then (take sz bytes, Some (drop sz bytes))
                       else (bytes @ drop (length bytes) old, None)))"

fun read_elems :: "nat \<Rightarrow> elem list \<Rightarrow> u8 list option \<Rightarrow> elem list" where
  "read_elems sz [] fin = []"
| "read_elems sz (x # xs) fin = (let (y, fin) = stream_read x sz fin in y # read_elems sz xs fin)"

definition resize :: "nat \<Rightarrow> nat \<Rightarrow> elem list \<Rightarrow> elem list" where
  "resize sz n xs = take n xs @ replicate (n - length xs) (replicate sz 0)"

definition readFromFile :: "nat \<Rightarrow> string \<Rightarrow> nat \<Rightarrow> files \<Rightarrow> elem list \<Rightarrow> elem list" where
  "readFromFile sz fname num_elements fs underlyingContainer =
     read_elems sz (resize sz num_elements underlyingContainer) (fs fname)"

section \<open>The context's container of doubles\<close>

record stats_context = rpcNUMAContext +
  rpcServiceTimeStats :: "elem list"

definition addToContainer :: "elem \<Rightarrow> stats_context \<Rightarrow> stats_context" where
  "addToContainer element ctx = ctx\<lparr>rpcServiceTimeStats := stats_append element (rpcServiceTimeStats ctx)\<rparr>"

definition writeContainerToFile :: "stats_context \<Rightarrow> string \<Rightarrow> files \<Rightarrow> files" where
  "writeContainerToFile ctx fname fs = writeToFile (rpcServiceTimeStats ctx) fname fs"

definition readContainerFromFile :: "string \<Rightarrow> nat \<Rightarrow> files \<Rightarrow> stats_context \<Rightarrow> stats_context" where
  "readContainerFromFile fname num_elements fs ctx =
     ctx\<lparr>rpcServiceTimeStats := readFromFile 8 fname num_elements fs (rpcServiceTimeStats ctx)\<rparr>"

section \<open>Writing and reading back\<close>

lemma write_elems_concat: "write_elems xs fout = fout @ concat xs"
  by (induction xs arbitrary: fout) simp_all

lemma length_resize [simp]: "length (resize sz n xs) = n"
  by (simp add: resize_def)

lemma read_elems_failed: "read_elems sz xs None = xs"
  by (induction xs) (simp_all add: stream_read_def)

lemma read_elems_concat:
  assumes "\<forall>x \<in> set xs. length x = sz" and "length olds \<le> length xs"
  shows "read_elems sz olds (Some (concat xs)) = take (length olds) xs"
  using assms
proof (induction olds arbitrary: xs)
  case (Cons y olds)
  then obtain x zs where "xs = x # zs" by (cases xs) auto
  then show ?case using Cons by (simp add: stream_read_def)
qed simp

lemma read_elems_short:
  assumes "\<forall>x \<in> set xs. length x = sz" and "length xs \<le> length olds" and "0 < sz"
  shows "read_elems sz olds (Some (concat xs)) = xs @ drop (length xs) olds"
  using assms
proof (induction xs arbitrary: olds)
  case Nil
  then show ?case by (cases olds) (simp_all add: stream_read_def read_elems_failed)
next
  case (Cons x xs)
  then obtain y ys where "olds = y # ys" by (cases olds) auto
  then show ?case using Cons by (simp add: stream_read_def)
qed

text \<open>
  A container that was written is read back, or as much of it as was asked for; when more elements are asked for
  than the file has, the rest keeps its old values and new elements are zero.  Other files do not change.
\<close>

theorem stats_round_trip:
  assumes "\<forall>x \<in> set xs. length x = sz"
  shows "n \<le> length xs \<Longrightarrow> readFromFile sz fname n (writeToFile xs fname fs) ys = take n xs"
    and "0 < sz \<Longrightarrow> length xs \<le> n \<Longrightarrow> readFromFile sz fname n (writeToFile xs fname fs) ys = xs @ drop (length xs) (resize sz n ys)"
    and "fname' \<noteq> fname \<Longrightarrow> writeToFile xs fname fs fname' = fs fname'"
  using assms read_elems_concat[of xs sz "resize sz n ys"] read_elems_short[of xs sz "resize sz n ys"]
  by (simp_all add: readFromFile_def writeToFile_def write_elems_concat)

theorem container_round_trip:
  assumes "\<forall>x \<in> set (rpcServiceTimeStats ctx). length x = 8" and "n = length (rpcServiceTimeStats ctx)"
  shows "readContainerFromFile fname n (writeContainerToFile ctx fname fs) (ctx\<lparr>rpcServiceTimeStats := ys\<rparr>) = ctx"
  using assms stats_round_trip(1)[of "rpcServiceTimeStats ctx" 8 n fname fs ys]
  by (simp add: readContainerFromFile_def writeContainerToFile_def)

lemma missing_file: "fs fname = None \<Longrightarrow> readFromFile sz fname n fs ys = resize sz n ys"
  by (simp add: readFromFile_def read_elems_failed)

lemma stats_get_append: "stats_get (stats_append x xs) (length xs) = Inr x" "idx < length xs \<Longrightarrow> stats_get (stats_append x xs) idx = stats_get xs idx"
  by (simp_all add: stats_get_def stats_append_def nth_append)

end
