(* ===== verification/Queue_Macros.thy ===== *)
theory Queue_Macros
  imports Prelude
begin

text \<open>
  The list macros of \<^verbatim>\<open>src/rte_lib/include/queue.h\<close> on an explicit heap.  A link is a structure whose first member points to an element
  and whose second member, where the kind of list has one, points to such a first member: a list head with its
  \<open>first\<close> and \<open>last\<close>, or the entry of an element with its \<open>next\<close> and \<open>prev\<close>.  A \<open>loc\<close> names a link, and so the address of its
  first member; the cast in \<open>TAILQ_LAST\<close> and \<open>TAILQ_PREV\<close>, which treats an entry as a head, is the identity on it.  The
  checks of the debugging build are in \<open>Queue_Checks\<close>.
\<close>

datatype loc = Hd nat | El nat

record lheap =
  cell :: "loc \<Rightarrow> nat option"
  backp :: "loc \<Rightarrow> loc"

definition set_cell :: "loc \<Rightarrow> nat option \<Rightarrow> lheap \<Rightarrow> lheap" where
  "set_cell l v h = h\<lparr>cell := (cell h)(l := v)\<rparr>"

definition set_backp :: "loc \<Rightarrow> loc \<Rightarrow> lheap \<Rightarrow> lheap" where
  "set_backp l v h = h\<lparr>backp := (backp h)(l := v)\<rparr>"

lemma cell_set [simp]:
  "cell (set_cell l v h) l' = (if l' = l then v else cell h l')" "cell (set_backp l b h) = cell h"
  "backp (set_cell l v h) = backp h" "backp (set_backp l b h) l' = (if l' = l then b else backp h l')"
  by (simp_all add: set_cell_def set_backp_def)

section \<open>Loops\<close>

text \<open>\<open>nxt\<close> is the step of the loop (to the next or to the previous element), \<open>body\<close> what the loop does with an element; the result
  lists the elements visited.  A loop along a cycle has no result.\<close>

partial_function (option) foreach_loop ::
  "(lheap \<Rightarrow> nat \<Rightarrow> nat option) \<Rightarrow> (nat \<Rightarrow> lheap \<Rightarrow> lheap) \<Rightarrow> nat option \<Rightarrow> lheap \<Rightarrow> (nat list \<times> lheap) option" where
  "foreach_loop nxt body v h =
     (case v of None \<Rightarrow> Some ([], h)
      | Some x \<Rightarrow> Option.bind (foreach_loop nxt body (nxt (body x h) x) (body x h)) (\<lambda>(xs, h'). Some (x # xs, h')))"

partial_function (option) foreach_safe_loop ::
  "(lheap \<Rightarrow> nat \<Rightarrow> nat option) \<Rightarrow> (nat \<Rightarrow> lheap \<Rightarrow> lheap) \<Rightarrow> nat option \<Rightarrow> lheap \<Rightarrow> (nat list \<times> lheap) option" where
  "foreach_safe_loop nxt body v h =
     (case v of None \<Rightarrow> Some ([], h)
      | Some x \<Rightarrow> Option.bind (foreach_safe_loop nxt body (nxt h x) (body x h)) (\<lambda>(xs, h'). Some (x # xs, h')))"

text \<open>\<open>while (NEXT(curelm) != elm) curelm = NEXT(curelm)\<close>, which dereferences \<open>NULL\<close> when the end is
  reached; \<open>elm\<close> is \<open>None\<close> where the last element is sought.\<close>

partial_function (option) find_before :: "lheap \<Rightarrow> nat option \<Rightarrow> nat option \<Rightarrow> nat cres option" where
  "find_before h elm cur =
     (case cur of None \<Rightarrow> Some (Inl NullDeref)
      | Some c \<Rightarrow> if cell h (El c) = elm then Some (Inr c) else find_before h elm (cell h (El c)))"

definition on_found :: "(nat \<Rightarrow> lheap) \<Rightarrow> nat cres option \<Rightarrow> lheap cres option" where
  "on_found f r = map_option (\<lambda>c. bindc c (\<lambda>x. Inr (f x))) r"

section \<open>Singly-linked lists\<close>

definition SLIST_FIRST :: "lheap \<Rightarrow> nat \<Rightarrow> nat option" where "SLIST_FIRST h q = cell h (Hd q)"
definition SLIST_NEXT :: "lheap \<Rightarrow> nat \<Rightarrow> nat option" where "SLIST_NEXT h e = cell h (El e)"
definition SLIST_EMPTY :: "lheap \<Rightarrow> nat \<Rightarrow> bool" where "SLIST_EMPTY h q \<longleftrightarrow> cell h (Hd q) = None"
definition SLIST_INIT :: "nat \<Rightarrow> lheap \<Rightarrow> lheap" where "SLIST_INIT q h = set_cell (Hd q) None h"

definition SLIST_FOREACH :: "nat \<Rightarrow> (nat \<Rightarrow> lheap \<Rightarrow> lheap) \<Rightarrow> lheap \<Rightarrow> (nat list \<times> lheap) option" where
  "SLIST_FOREACH q body h = foreach_loop SLIST_NEXT body (SLIST_FIRST h q) h"

definition SLIST_FOREACH_FROM :: "nat option \<Rightarrow> nat \<Rightarrow> (nat \<Rightarrow> lheap \<Rightarrow> lheap) \<Rightarrow> lheap \<Rightarrow> (nat list \<times> lheap) option" where
  "SLIST_FOREACH_FROM v q body h =
     foreach_loop SLIST_NEXT body (case v of Some x \<Rightarrow> Some x | None \<Rightarrow> SLIST_FIRST h q) h"

definition SLIST_FOREACH_SAFE :: "nat \<Rightarrow> (nat \<Rightarrow> lheap \<Rightarrow> lheap) \<Rightarrow> lheap \<Rightarrow> (nat list \<times> lheap) option" where
  "SLIST_FOREACH_SAFE q body h = foreach_safe_loop SLIST_NEXT body (SLIST_FIRST h q) h"

definition SLIST_FOREACH_FROM_SAFE ::
  "nat option \<Rightarrow> nat \<Rightarrow> (nat \<Rightarrow> lheap \<Rightarrow> lheap) \<Rightarrow> lheap \<Rightarrow> (nat list \<times> lheap) option" where
  "SLIST_FOREACH_FROM_SAFE v q body h =
     foreach_safe_loop SLIST_NEXT body (case v of Some x \<Rightarrow> Some x | None \<Rightarrow> SLIST_FIRST h q) h"

text \<open>The body gets the address of the pointer to the element, which \<open>SLIST_REMOVE_PREVPTR\<close> needs.\<close>

partial_function (option) prevptr_loop ::
  "(loc \<Rightarrow> nat \<Rightarrow> lheap \<Rightarrow> lheap) \<Rightarrow> loc \<Rightarrow> lheap \<Rightarrow> (nat list \<times> lheap) option" where
  "prevptr_loop body varp h =
     (case cell h varp of None \<Rightarrow> Some ([], h)
      | Some x \<Rightarrow> Option.bind (prevptr_loop body (El x) (body varp x h)) (\<lambda>(xs, h'). Some (x # xs, h')))"

definition SLIST_FOREACH_PREVPTR :: "nat \<Rightarrow> (loc \<Rightarrow> nat \<Rightarrow> lheap \<Rightarrow> lheap) \<Rightarrow> lheap \<Rightarrow> (nat list \<times> lheap) option" where
  "SLIST_FOREACH_PREVPTR q body h = prevptr_loop body (Hd q) h"

definition SLIST_INSERT_AFTER :: "nat \<Rightarrow> nat \<Rightarrow> lheap \<Rightarrow> lheap" where
  "SLIST_INSERT_AFTER slistelm elm h =
     (let h = set_cell (El elm) (cell h (El slistelm)) h in set_cell (El slistelm) (Some elm) h)"

definition SLIST_INSERT_HEAD :: "nat \<Rightarrow> nat \<Rightarrow> lheap \<Rightarrow> lheap" where
  "SLIST_INSERT_HEAD q elm h = (let h = set_cell (El elm) (cell h (Hd q)) h in set_cell (Hd q) (Some elm) h)"

definition SLIST_REMOVE_AFTER :: "nat \<Rightarrow> lheap \<Rightarrow> lheap cres" where
  "SLIST_REMOVE_AFTER elm h =
     (case cell h (El elm) of None \<Rightarrow> Inl NullDeref | Some n \<Rightarrow> Inr (set_cell (El elm) (cell h (El n)) h))"

definition SLIST_REMOVE_HEAD :: "nat \<Rightarrow> lheap \<Rightarrow> lheap cres" where
  "SLIST_REMOVE_HEAD q h =
     (case cell h (Hd q) of None \<Rightarrow> Inl NullDeref | Some n \<Rightarrow> Inr (set_cell (Hd q) (cell h (El n)) h))"

definition SLIST_REMOVE :: "nat \<Rightarrow> nat \<Rightarrow> lheap \<Rightarrow> lheap cres option" where
  "SLIST_REMOVE q elm h =
     (if cell h (Hd q) = Some elm then Some (SLIST_REMOVE_HEAD q h)
      else map_option (\<lambda>c. bindc c (\<lambda>curelm. SLIST_REMOVE_AFTER curelm h)) (find_before h (Some elm) (cell h (Hd q))))"

definition SLIST_REMOVE_PREVPTR :: "loc \<Rightarrow> nat \<Rightarrow> lheap \<Rightarrow> lheap" where
  "SLIST_REMOVE_PREVPTR prevp elm h = set_cell prevp (cell h (El elm)) h"

definition SLIST_CONCAT :: "nat \<Rightarrow> nat \<Rightarrow> lheap \<Rightarrow> lheap cres option" where
  "SLIST_CONCAT q1 q2 h =
     (if cell h (Hd q1) = None then
        let h' = set_cell (Hd q1) (cell h (Hd q2)) h
        in Some (Inr (if cell h (Hd q2) \<noteq> None then SLIST_INIT q2 h' else h'))
      else if cell h (Hd q2) \<noteq> None then
        on_found (\<lambda>curelm. SLIST_INIT q2 (set_cell (El curelm) (cell h (Hd q2)) h)) (find_before h None (cell h (Hd q1)))
      else Some (Inr h))"

definition SLIST_SWAP :: "nat \<Rightarrow> nat \<Rightarrow> lheap \<Rightarrow> lheap" where
  "SLIST_SWAP q1 q2 h =
     (let swap_first = cell h (Hd q1); h = set_cell (Hd q1) (cell h (Hd q2)) h in set_cell (Hd q2) swap_first h)"

section \<open>Singly-linked tail queues\<close>

definition STAILQ_FIRST :: "lheap \<Rightarrow> nat \<Rightarrow> nat option" where "STAILQ_FIRST h q = cell h (Hd q)"
definition STAILQ_NEXT :: "lheap \<Rightarrow> nat \<Rightarrow> nat option" where "STAILQ_NEXT h e = cell h (El e)"
definition STAILQ_EMPTY :: "lheap \<Rightarrow> nat \<Rightarrow> bool" where "STAILQ_EMPTY h q \<longleftrightarrow> cell h (Hd q) = None"

definition STAILQ_INIT :: "nat \<Rightarrow> lheap \<Rightarrow> lheap" where
  "STAILQ_INIT q h = set_backp (Hd q) (Hd q) (set_cell (Hd q) None h)"

definition STAILQ_FOREACH :: "nat \<Rightarrow> (nat \<Rightarrow> lheap \<Rightarrow> lheap) \<Rightarrow> lheap \<Rightarrow> (nat list \<times> lheap) option" where
  "STAILQ_FOREACH q body h = foreach_loop STAILQ_NEXT body (STAILQ_FIRST h q) h"

definition STAILQ_FOREACH_SAFE :: "nat \<Rightarrow> (nat \<Rightarrow> lheap \<Rightarrow> lheap) \<Rightarrow> lheap \<Rightarrow> (nat list \<times> lheap) option" where
  "STAILQ_FOREACH_SAFE q body h = foreach_safe_loop STAILQ_NEXT body (STAILQ_FIRST h q) h"

definition STAILQ_FOREACH_FROM ::
  "nat option \<Rightarrow> nat \<Rightarrow> (nat \<Rightarrow> lheap \<Rightarrow> lheap) \<Rightarrow> lheap \<Rightarrow> (nat list \<times> lheap) option" where
  "STAILQ_FOREACH_FROM v q body h =
     foreach_loop STAILQ_NEXT body (case v of Some x \<Rightarrow> Some x | None \<Rightarrow> STAILQ_FIRST h q) h"

definition STAILQ_FOREACH_FROM_SAFE ::
  "nat option \<Rightarrow> nat \<Rightarrow> (nat \<Rightarrow> lheap \<Rightarrow> lheap) \<Rightarrow> lheap \<Rightarrow> (nat list \<times> lheap) option" where
  "STAILQ_FOREACH_FROM_SAFE v q body h =
     foreach_safe_loop STAILQ_NEXT body (case v of Some x \<Rightarrow> Some x | None \<Rightarrow> STAILQ_FIRST h q) h"

definition STAILQ_CONCAT :: "nat \<Rightarrow> nat \<Rightarrow> lheap \<Rightarrow> lheap" where
  "STAILQ_CONCAT q1 q2 h =
     (if \<not> STAILQ_EMPTY h q2 then
        let h = set_cell (backp h (Hd q1)) (cell h (Hd q2)) h;
            h = set_backp (Hd q1) (backp h (Hd q2)) h
        in STAILQ_INIT q2 h
      else h)"

definition STAILQ_INSERT_AFTER :: "nat \<Rightarrow> nat \<Rightarrow> nat \<Rightarrow> lheap \<Rightarrow> lheap" where
  "STAILQ_INSERT_AFTER q tqelm elm h =
     (let h = set_cell (El elm) (cell h (El tqelm)) h;
          h = (if cell h (El elm) = None then set_backp (Hd q) (El elm) h else h)
      in set_cell (El tqelm) (Some elm) h)"

definition STAILQ_INSERT_HEAD :: "nat \<Rightarrow> nat \<Rightarrow> lheap \<Rightarrow> lheap" where
  "STAILQ_INSERT_HEAD q elm h =
     (let h = set_cell (El elm) (cell h (Hd q)) h;
          h = (if cell h (El elm) = None then set_backp (Hd q) (El elm) h else h)
      in set_cell (Hd q) (Some elm) h)"

definition STAILQ_INSERT_TAIL :: "nat \<Rightarrow> nat \<Rightarrow> lheap \<Rightarrow> lheap" where
  "STAILQ_INSERT_TAIL q elm h =
     (let h = set_cell (El elm) None h;
          h = set_cell (backp h (Hd q)) (Some elm) h
      in set_backp (Hd q) (El elm) h)"

text \<open>\<open>containerof\<close> of the address of a \<open>next\<close> member is the element; there is none around the head.\<close>

definition containerof :: "loc \<Rightarrow> nat cres" where
  "containerof l = (case l of El e \<Rightarrow> Inr e | Hd q \<Rightarrow> Inl Undefined)"

definition STAILQ_LAST :: "lheap \<Rightarrow> nat \<Rightarrow> nat option cres" where
  "STAILQ_LAST h q = (if STAILQ_EMPTY h q then Inr None else bindc (containerof (backp h (Hd q))) (\<lambda>e. Inr (Some e)))"

definition STAILQ_REMOVE_AFTER :: "nat \<Rightarrow> nat \<Rightarrow> lheap \<Rightarrow> lheap cres" where
  "STAILQ_REMOVE_AFTER q elm h =
     (case cell h (El elm) of None \<Rightarrow> Inl NullDeref
      | Some n \<Rightarrow> let h = set_cell (El elm) (cell h (El n)) h
                  in Inr (if cell h (El elm) = None then set_backp (Hd q) (El elm) h else h))"

definition STAILQ_REMOVE_HEAD :: "nat \<Rightarrow> lheap \<Rightarrow> lheap cres" where
  "STAILQ_REMOVE_HEAD q h =
     (case cell h (Hd q) of None \<Rightarrow> Inl NullDeref
      | Some n \<Rightarrow> let h = set_cell (Hd q) (cell h (El n)) h
                  in Inr (if cell h (Hd q) = None then set_backp (Hd q) (Hd q) h else h))"

definition STAILQ_REMOVE :: "nat \<Rightarrow> nat \<Rightarrow> lheap \<Rightarrow> lheap cres option" where
  "STAILQ_REMOVE q elm h =
     (if cell h (Hd q) = Some elm then Some (STAILQ_REMOVE_HEAD q h)
      else map_option (\<lambda>c. bindc c (\<lambda>curelm. STAILQ_REMOVE_AFTER q curelm h)) (find_before h (Some elm) (cell h (Hd q))))"

definition STAILQ_SWAP :: "nat \<Rightarrow> nat \<Rightarrow> lheap \<Rightarrow> lheap" where
  "STAILQ_SWAP q1 q2 h =
     (let swap_first = cell h (Hd q1); swap_last = backp h (Hd q1);
          h = set_cell (Hd q1) (cell h (Hd q2)) h;
          h = set_backp (Hd q1) (backp h (Hd q2)) h;
          h = set_cell (Hd q2) swap_first h;
          h = set_backp (Hd q2) swap_last h;
          h = (if STAILQ_EMPTY h q1 then set_backp (Hd q1) (Hd q1) h else h)
      in if STAILQ_EMPTY h q2 then set_backp (Hd q2) (Hd q2) h else h)"


section \<open>Lists\<close>

definition LIST_FIRST :: "lheap \<Rightarrow> nat \<Rightarrow> nat option" where "LIST_FIRST h q = cell h (Hd q)"
definition LIST_NEXT :: "lheap \<Rightarrow> nat \<Rightarrow> nat option" where "LIST_NEXT h e = cell h (El e)"
definition LIST_EMPTY :: "lheap \<Rightarrow> nat \<Rightarrow> bool" where "LIST_EMPTY h q \<longleftrightarrow> cell h (Hd q) = None"
definition LIST_INIT :: "nat \<Rightarrow> lheap \<Rightarrow> lheap" where "LIST_INIT q h = set_cell (Hd q) None h"

definition LIST_FOREACH :: "nat \<Rightarrow> (nat \<Rightarrow> lheap \<Rightarrow> lheap) \<Rightarrow> lheap \<Rightarrow> (nat list \<times> lheap) option" where
  "LIST_FOREACH q body h = foreach_loop LIST_NEXT body (LIST_FIRST h q) h"

definition LIST_FOREACH_SAFE :: "nat \<Rightarrow> (nat \<Rightarrow> lheap \<Rightarrow> lheap) \<Rightarrow> lheap \<Rightarrow> (nat list \<times> lheap) option" where
  "LIST_FOREACH_SAFE q body h = foreach_safe_loop LIST_NEXT body (LIST_FIRST h q) h"

definition LIST_FOREACH_FROM ::
  "nat option \<Rightarrow> nat \<Rightarrow> (nat \<Rightarrow> lheap \<Rightarrow> lheap) \<Rightarrow> lheap \<Rightarrow> (nat list \<times> lheap) option" where
  "LIST_FOREACH_FROM v q body h =
     foreach_loop LIST_NEXT body (case v of Some x \<Rightarrow> Some x | None \<Rightarrow> LIST_FIRST h q) h"

definition LIST_FOREACH_FROM_SAFE ::
  "nat option \<Rightarrow> nat \<Rightarrow> (nat \<Rightarrow> lheap \<Rightarrow> lheap) \<Rightarrow> lheap \<Rightarrow> (nat list \<times> lheap) option" where
  "LIST_FOREACH_FROM_SAFE v q body h =
     foreach_safe_loop LIST_NEXT body (case v of Some x \<Rightarrow> Some x | None \<Rightarrow> LIST_FIRST h q) h"

text \<open>Writing the back pointer of an element that may be \<open>NULL\<close>.\<close>

definition set_prev_of :: "nat option \<Rightarrow> loc \<Rightarrow> lheap \<Rightarrow> lheap" where
  "set_prev_of v l h = (case v of None \<Rightarrow> h | Some x \<Rightarrow> set_backp (El x) l h)"

definition LIST_CONCAT :: "nat \<Rightarrow> nat \<Rightarrow> lheap \<Rightarrow> lheap cres option" where
  "LIST_CONCAT q1 q2 h =
     (if cell h (Hd q1) = None then
        let h' = set_cell (Hd q1) (cell h (Hd q2)) h
        in Some (Inr (if cell h (Hd q2) \<noteq> None then LIST_INIT q2 (set_prev_of (cell h (Hd q2)) (Hd q1) h') else h'))
      else if cell h (Hd q2) \<noteq> None then
        on_found (\<lambda>curelm. LIST_INIT q2 (set_prev_of (cell h (Hd q2)) (El curelm) (set_cell (El curelm) (cell h (Hd q2)) h)))
          (find_before h None (cell h (Hd q1)))
      else Some (Inr h))"

definition LIST_INSERT_AFTER :: "nat \<Rightarrow> nat \<Rightarrow> lheap \<Rightarrow> lheap" where
  "LIST_INSERT_AFTER listelm elm h =
     (let h = set_cell (El elm) (cell h (El listelm)) h;
          h = set_prev_of (cell h (El listelm)) (El elm) h;
          h = set_cell (El listelm) (Some elm) h
      in set_backp (El elm) (El listelm) h)"

definition LIST_INSERT_BEFORE :: "nat \<Rightarrow> nat \<Rightarrow> lheap \<Rightarrow> lheap" where
  "LIST_INSERT_BEFORE listelm elm h =
     (let h = set_backp (El elm) (backp h (El listelm)) h;
          h = set_cell (El elm) (Some listelm) h;
          h = set_cell (backp h (El listelm)) (Some elm) h
      in set_backp (El listelm) (El elm) h)"

definition LIST_INSERT_HEAD :: "nat \<Rightarrow> nat \<Rightarrow> lheap \<Rightarrow> lheap" where
  "LIST_INSERT_HEAD q elm h =
     (let h = set_cell (El elm) (cell h (Hd q)) h;
          h = set_prev_of (cell h (Hd q)) (El elm) h;
          h = set_cell (Hd q) (Some elm) h
      in set_backp (El elm) (Hd q) h)"

definition LIST_PREV :: "lheap \<Rightarrow> nat \<Rightarrow> nat \<Rightarrow> nat option cres" where
  "LIST_PREV h elm q =
     (if backp h (El elm) = Hd q then Inr None else bindc (containerof (backp h (El elm))) (\<lambda>e. Inr (Some e)))"

definition LIST_REMOVE :: "nat \<Rightarrow> lheap \<Rightarrow> lheap" where
  "LIST_REMOVE elm h =
     (let h = set_prev_of (cell h (El elm)) (backp h (El elm)) h
      in set_cell (backp h (El elm)) (cell h (El elm)) h)"

definition LIST_SWAP :: "nat \<Rightarrow> nat \<Rightarrow> lheap \<Rightarrow> lheap" where
  "LIST_SWAP q1 q2 h =
     (let swap_tmp = cell h (Hd q1);
          h = set_cell (Hd q1) (cell h (Hd q2)) h;
          h = set_cell (Hd q2) swap_tmp h;
          h = set_prev_of (cell h (Hd q1)) (Hd q1) h
      in set_prev_of (cell h (Hd q2)) (Hd q2) h)"

section \<open>Tail queues\<close>

definition TAILQ_FIRST :: "lheap \<Rightarrow> nat \<Rightarrow> nat option" where "TAILQ_FIRST h q = cell h (Hd q)"
definition TAILQ_NEXT :: "lheap \<Rightarrow> nat \<Rightarrow> nat option" where "TAILQ_NEXT h e = cell h (El e)"
definition TAILQ_EMPTY :: "lheap \<Rightarrow> nat \<Rightarrow> bool" where "TAILQ_EMPTY h q \<longleftrightarrow> cell h (Hd q) = None"

definition TAILQ_INIT :: "nat \<Rightarrow> lheap \<Rightarrow> lheap" where
  "TAILQ_INIT q h = set_backp (Hd q) (Hd q) (set_cell (Hd q) None h)"

text \<open>The entry at \<open>tqh_last\<close> read as a head: its \<open>tqh_last\<close> is the back pointer of the last element.\<close>

definition TAILQ_LAST :: "lheap \<Rightarrow> nat \<Rightarrow> nat option" where
  "TAILQ_LAST h q = cell h (backp h (backp h (Hd q)))"

definition TAILQ_PREV :: "lheap \<Rightarrow> nat \<Rightarrow> nat option" where
  "TAILQ_PREV h elm = cell h (backp h (backp h (El elm)))"

definition TAILQ_LAST_FAST :: "lheap \<Rightarrow> nat \<Rightarrow> nat option cres" where
  "TAILQ_LAST_FAST h q = (if TAILQ_EMPTY h q then Inr None else bindc (containerof (backp h (Hd q))) (\<lambda>e. Inr (Some e)))"

definition TAILQ_PREV_FAST :: "lheap \<Rightarrow> nat \<Rightarrow> nat \<Rightarrow> nat option cres" where
  "TAILQ_PREV_FAST h elm q =
     (if backp h (El elm) = Hd q then Inr None else bindc (containerof (backp h (El elm))) (\<lambda>e. Inr (Some e)))"

definition TAILQ_FOREACH :: "nat \<Rightarrow> (nat \<Rightarrow> lheap \<Rightarrow> lheap) \<Rightarrow> lheap \<Rightarrow> (nat list \<times> lheap) option" where
  "TAILQ_FOREACH q body h = foreach_loop TAILQ_NEXT body (TAILQ_FIRST h q) h"

definition TAILQ_FOREACH_FROM :: "nat option \<Rightarrow> nat \<Rightarrow> (nat \<Rightarrow> lheap \<Rightarrow> lheap) \<Rightarrow> lheap \<Rightarrow> (nat list \<times> lheap) option" where
  "TAILQ_FOREACH_FROM v q body h =
     foreach_loop TAILQ_NEXT body (case v of Some x \<Rightarrow> Some x | None \<Rightarrow> TAILQ_FIRST h q) h"

definition TAILQ_FOREACH_SAFE :: "nat \<Rightarrow> (nat \<Rightarrow> lheap \<Rightarrow> lheap) \<Rightarrow> lheap \<Rightarrow> (nat list \<times> lheap) option" where
  "TAILQ_FOREACH_SAFE q body h = foreach_safe_loop TAILQ_NEXT body (TAILQ_FIRST h q) h"

definition TAILQ_FOREACH_REVERSE :: "nat \<Rightarrow> (nat \<Rightarrow> lheap \<Rightarrow> lheap) \<Rightarrow> lheap \<Rightarrow> (nat list \<times> lheap) option" where
  "TAILQ_FOREACH_REVERSE q body h = foreach_loop TAILQ_PREV body (TAILQ_LAST h q) h"

definition TAILQ_FOREACH_REVERSE_SAFE :: "nat \<Rightarrow> (nat \<Rightarrow> lheap \<Rightarrow> lheap) \<Rightarrow> lheap \<Rightarrow> (nat list \<times> lheap) option" where
  "TAILQ_FOREACH_REVERSE_SAFE q body h = foreach_safe_loop TAILQ_PREV body (TAILQ_LAST h q) h"

definition TAILQ_FOREACH_FROM_SAFE ::
  "nat option \<Rightarrow> nat \<Rightarrow> (nat \<Rightarrow> lheap \<Rightarrow> lheap) \<Rightarrow> lheap \<Rightarrow> (nat list \<times> lheap) option" where
  "TAILQ_FOREACH_FROM_SAFE v q body h =
     foreach_safe_loop TAILQ_NEXT body (case v of Some x \<Rightarrow> Some x | None \<Rightarrow> TAILQ_FIRST h q) h"

definition TAILQ_FOREACH_REVERSE_FROM ::
  "nat option \<Rightarrow> nat \<Rightarrow> (nat \<Rightarrow> lheap \<Rightarrow> lheap) \<Rightarrow> lheap \<Rightarrow> (nat list \<times> lheap) option" where
  "TAILQ_FOREACH_REVERSE_FROM v q body h =
     foreach_loop TAILQ_PREV body (case v of Some x \<Rightarrow> Some x | None \<Rightarrow> TAILQ_LAST h q) h"

definition TAILQ_FOREACH_REVERSE_FROM_SAFE ::
  "nat option \<Rightarrow> nat \<Rightarrow> (nat \<Rightarrow> lheap \<Rightarrow> lheap) \<Rightarrow> lheap \<Rightarrow> (nat list \<times> lheap) option" where
  "TAILQ_FOREACH_REVERSE_FROM_SAFE v q body h =
     foreach_safe_loop TAILQ_PREV body (case v of Some x \<Rightarrow> Some x | None \<Rightarrow> TAILQ_LAST h q) h"

definition TAILQ_CONCAT :: "nat \<Rightarrow> nat \<Rightarrow> lheap \<Rightarrow> lheap" where
  "TAILQ_CONCAT q1 q2 h =
     (if \<not> TAILQ_EMPTY h q2 then
        let h = set_cell (backp h (Hd q1)) (cell h (Hd q2)) h;
            h = set_prev_of (cell h (Hd q2)) (backp h (Hd q1)) h;
            h = set_backp (Hd q1) (backp h (Hd q2)) h
        in TAILQ_INIT q2 h
      else h)"

definition TAILQ_INSERT_AFTER :: "nat \<Rightarrow> nat \<Rightarrow> nat \<Rightarrow> lheap \<Rightarrow> lheap" where
  "TAILQ_INSERT_AFTER q listelm elm h =
     (let h = set_cell (El elm) (cell h (El listelm)) h;
          h = (case cell h (El elm) of Some x \<Rightarrow> set_backp (El x) (El elm) h | None \<Rightarrow> set_backp (Hd q) (El elm) h);
          h = set_cell (El listelm) (Some elm) h
      in set_backp (El elm) (El listelm) h)"

definition TAILQ_INSERT_BEFORE :: "nat \<Rightarrow> nat \<Rightarrow> lheap \<Rightarrow> lheap" where
  "TAILQ_INSERT_BEFORE listelm elm h =
     (let h = set_backp (El elm) (backp h (El listelm)) h;
          h = set_cell (El elm) (Some listelm) h;
          h = set_cell (backp h (El listelm)) (Some elm) h
      in set_backp (El listelm) (El elm) h)"

definition TAILQ_INSERT_HEAD :: "nat \<Rightarrow> nat \<Rightarrow> lheap \<Rightarrow> lheap" where
  "TAILQ_INSERT_HEAD q elm h =
     (let h = set_cell (El elm) (cell h (Hd q)) h;
          h = (case cell h (Hd q) of Some x \<Rightarrow> set_backp (El x) (El elm) h | None \<Rightarrow> set_backp (Hd q) (El elm) h);
          h = set_cell (Hd q) (Some elm) h
      in set_backp (El elm) (Hd q) h)"

definition TAILQ_INSERT_TAIL :: "nat \<Rightarrow> nat \<Rightarrow> lheap \<Rightarrow> lheap" where
  "TAILQ_INSERT_TAIL q elm h =
     (let h = set_cell (El elm) None h;
          h = set_backp (El elm) (backp h (Hd q)) h;
          h = set_cell (backp h (Hd q)) (Some elm) h
      in set_backp (Hd q) (El elm) h)"

definition TAILQ_REMOVE :: "nat \<Rightarrow> nat \<Rightarrow> lheap \<Rightarrow> lheap" where
  "TAILQ_REMOVE q elm h =
     (let h = (case cell h (El elm) of Some x \<Rightarrow> set_backp (El x) (backp h (El elm)) h
               | None \<Rightarrow> set_backp (Hd q) (backp h (El elm)) h)
      in set_cell (backp h (El elm)) (cell h (El elm)) h)"

definition TAILQ_SWAP :: "nat \<Rightarrow> nat \<Rightarrow> lheap \<Rightarrow> lheap" where
  "TAILQ_SWAP q1 q2 h =
     (let swap_first = cell h (Hd q1); swap_last = backp h (Hd q1);
          h = set_cell (Hd q1) (cell h (Hd q2)) h;
          h = set_backp (Hd q1) (backp h (Hd q2)) h;
          h = set_cell (Hd q2) swap_first h;
          h = set_backp (Hd q2) swap_last h;
          h = (case cell h (Hd q1) of Some x \<Rightarrow> set_backp (El x) (Hd q1) h | None \<Rightarrow> set_backp (Hd q1) (Hd q1) h)
      in case cell h (Hd q2) of Some x \<Rightarrow> set_backp (El x) (Hd q2) h | None \<Rightarrow> set_backp (Hd q2) (Hd q2) h)"

end
