(* ===== verification/Queue_Lists.thy ===== *)
theory Queue_Lists
  imports Queue_Macros
begin

text \<open>
  What the list macros do to the lists in the heap.  \<open>seg h l xs m\<close>: starting at link \<open>l\<close>, the elements \<open>xs\<close> are linked one
  behind the other, each with its back pointer, and \<open>m\<close> is the last link.  The statements are about
  tail queues and lists; singly-linked kinds use \<open>path\<close>, which is the same without back pointers.
\<close>

section \<open>Paths and segments\<close>

fun path :: "lheap \<Rightarrow> loc \<Rightarrow> nat list \<Rightarrow> loc \<Rightarrow> bool" where
  "path h l [] m \<longleftrightarrow> m = l"
| "path h l (x # xs) m \<longleftrightarrow> cell h l = Some x \<and> path h (El x) xs m"

fun backs :: "lheap \<Rightarrow> loc \<Rightarrow> nat list \<Rightarrow> bool" where
  "backs h l [] \<longleftrightarrow> True"
| "backs h l (x # xs) \<longleftrightarrow> backp h (El x) = l \<and> backs h (El x) xs"

fun end_loc :: "loc \<Rightarrow> nat list \<Rightarrow> loc" where
  "end_loc l [] = l"
| "end_loc l (x # xs) = end_loc (El x) xs"

text \<open>The links whose first member a path reads: all but the last.\<close>

fun inner :: "loc \<Rightarrow> nat list \<Rightarrow> loc set" where
  "inner l [] = {}"
| "inner l (x # xs) = insert l (inner (El x) xs)"

lemma end_loc_append [simp]: "end_loc l (xs @ ys) = end_loc (end_loc l xs) ys"
  by (induction xs arbitrary: l) auto

lemma path_append [simp]: "path h l (xs @ ys) m \<longleftrightarrow> path h l xs (end_loc l xs) \<and> path h (end_loc l xs) ys m"
  by (induction xs arbitrary: l) auto

lemma path_end: "path h l xs m \<Longrightarrow> m = end_loc l xs"
  by (induction xs arbitrary: l) auto

lemma backs_append [simp]: "backs h l (xs @ ys) \<longleftrightarrow> backs h l xs \<and> backs h (end_loc l xs) ys"
  by (induction xs arbitrary: l) auto

lemma inner_append [simp]: "inner l (xs @ ys) = inner l xs \<union> inner (end_loc l xs) ys"
  by (induction xs arbitrary: l) auto

lemma inner_subset: "inner l xs \<subseteq> insert l (El ` set xs)"
  by (induction xs arbitrary: l) auto

lemma end_loc_in: "end_loc l xs \<in> insert l (El ` set xs)"
  by (induction xs arbitrary: l) auto

lemma end_loc_not_inner: "distinct xs \<Longrightarrow> l \<notin> El ` set xs \<Longrightarrow> end_loc l xs \<notin> inner l xs"
proof (induction xs arbitrary: l)
  case (Cons x xs)
  then have "end_loc (El x) xs \<notin> inner (El x) xs" by auto
  moreover have "end_loc (El x) xs \<noteq> l" using Cons.prems end_loc_in[of "El x" xs] by auto
  ultimately show ?case by simp
qed simp

lemma end_loc_elem: "xs \<noteq> [] \<Longrightarrow> end_loc l xs = El (last xs)"
  by (induction xs arbitrary: l) auto

text \<open>Updates elsewhere do not matter.\<close>

lemma path_set_cell [simp]: "c \<notin> inner l xs \<Longrightarrow> path (set_cell c v h) l xs m = path h l xs m"
  by (induction xs arbitrary: l) auto

lemma path_set_backp [simp]: "path (set_backp c v h) l xs m = path h l xs m"
  by (induction xs arbitrary: l) auto

lemma backs_set_cell [simp]: "backs (set_cell c v h) l xs = backs h l xs"
  by (induction xs arbitrary: l) auto

lemma backs_set_backp [simp]: "c \<notin> El ` set xs \<Longrightarrow> backs (set_backp c v h) l xs = backs h l xs"
  by (induction xs arbitrary: l) auto

section \<open>The four kinds of lists\<close>

definition is_slist :: "lheap \<Rightarrow> nat \<Rightarrow> nat list \<Rightarrow> bool" where
  "is_slist h q xs \<longleftrightarrow> distinct xs \<and> path h (Hd q) xs (end_loc (Hd q) xs) \<and> cell h (end_loc (Hd q) xs) = None"

definition is_stailq :: "lheap \<Rightarrow> nat \<Rightarrow> nat list \<Rightarrow> bool" where
  "is_stailq h q xs \<longleftrightarrow> is_slist h q xs \<and> backp h (Hd q) = end_loc (Hd q) xs"

definition is_list :: "lheap \<Rightarrow> nat \<Rightarrow> nat list \<Rightarrow> bool" where
  "is_list h q xs \<longleftrightarrow> is_slist h q xs \<and> backs h (Hd q) xs"

definition is_tailq :: "lheap \<Rightarrow> nat \<Rightarrow> nat list \<Rightarrow> bool" where
  "is_tailq h q xs \<longleftrightarrow> is_stailq h q xs \<and> backs h (Hd q) xs"

lemmas list_kinds = is_tailq_def is_list_def is_stailq_def is_slist_def

lemma El_image [simp]: "El x \<in> El ` A \<longleftrightarrow> x \<in> A" "Hd q \<notin> El ` A"
  by auto

lemma inner_elems: "El x \<in> inner (Hd q) xs \<Longrightarrow> x \<in> set xs" "El x \<in> inner (El y) xs \<Longrightarrow> x = y \<or> x \<in> set xs"
  using inner_subset[of "Hd q" xs] inner_subset[of "El y" xs] by auto

lemma Hd_inner: "Hd q \<notin> inner (El y) xs" "q \<noteq> q' \<Longrightarrow> Hd q \<notin> inner (Hd q') xs"
  using inner_subset[of "El y" xs] inner_subset[of "Hd q'" xs] by auto

lemma end_not_inner [simp]: "distinct xs \<Longrightarrow> end_loc (Hd q) xs \<notin> inner (Hd q) xs"
  by (rule end_loc_not_inner) auto

text \<open>Facts about a list split at an element, which all operations in the middle need.\<close>

lemma split_facts:
  assumes "distinct (as @ y # bs)"
  shows "El y \<notin> inner (Hd q) as" and "end_loc (Hd q) as \<notin> inner (Hd q) as" and "end_loc (Hd q) as \<noteq> El y"
    and "end_loc (Hd q) as \<notin> inner (El y) bs" and "end_loc (El y) bs \<notin> inner (Hd q) as"
    and "end_loc (El y) bs \<noteq> end_loc (Hd q) as" and "inner (Hd q) as \<inter> inner (El y) bs = {}"
    and "x \<in> set bs \<Longrightarrow> end_loc (Hd q) as \<noteq> El x"
proof -
  note e1 = end_loc_in[of "Hd q" as] and e2 = end_loc_in[of "El y" bs]
  note i1 = inner_subset[of "Hd q" as] and i2 = inner_subset[of "El y" bs]
  show "El y \<notin> inner (Hd q) as" "end_loc (Hd q) as \<noteq> El y" "end_loc (El y) bs \<notin> inner (Hd q) as"
    "inner (Hd q) as \<inter> inner (El y) bs = {}" "end_loc (Hd q) as \<notin> inner (El y) bs"
    "x \<in> set bs \<Longrightarrow> end_loc (Hd q) as \<noteq> El x" "end_loc (El y) bs \<noteq> end_loc (Hd q) as"
    using assms e1 e2 i1 i2 by fastforce+
  show "end_loc (Hd q) as \<notin> inner (Hd q) as"
    using assms end_loc_not_inner[of as "Hd q"] by auto
qed

lemma split_end: "distinct (as @ y # bs) \<Longrightarrow> end_loc (El y) bs \<notin> inner (El y) bs"
  using end_loc_not_inner[of bs "El y"] by auto

lemma fresh_facts:
  assumes "e \<notin> set xs"
  shows "El e \<notin> inner (Hd q) xs" and "end_loc (Hd q) xs \<noteq> El e"
  using assms inner_subset[of "Hd q" xs] end_loc_in[of "Hd q" xs] by auto

lemma fresh_behind:
  assumes "e \<notin> set xs" and "y \<noteq> e"
  shows "El e \<notin> inner (El y) xs" and "end_loc (El y) xs \<noteq> El e"
  using assms inner_subset[of "El y" xs] end_loc_in[of "El y" xs] by auto

section \<open>Tail queues\<close>

lemma tailq_init: "is_tailq (TAILQ_INIT q h) q []"
  by (simp add: TAILQ_INIT_def list_kinds)

lemma tailq_insert_tail:
  assumes "is_tailq h q xs" and "e \<notin> set xs"
  shows "is_tailq (TAILQ_INSERT_TAIL q e h) q (xs @ [e])"
  using assms fresh_facts[OF assms(2), where q = q] by (auto simp: TAILQ_INSERT_TAIL_def Let_def list_kinds)

lemma tailq_insert_head:
  assumes "is_tailq h q xs" and "e \<notin> set xs"
  shows "is_tailq (TAILQ_INSERT_HEAD q e h) q (e # xs)"
proof (cases xs)
  case (Cons y ys)
  with assms fresh_behind[of e ys y] Hd_inner[of q y ys] end_loc_in[of "El y" ys] show ?thesis
    by (auto simp: TAILQ_INSERT_HEAD_def Let_def list_kinds)
qed (use assms in \<open>auto simp: TAILQ_INSERT_HEAD_def Let_def list_kinds\<close>)

lemma tailq_insert_after:
  assumes "is_tailq h q (as @ y # bs)" and "e \<notin> set (as @ y # bs)"
  shows "is_tailq (TAILQ_INSERT_AFTER q y e h) q (as @ y # e # bs)"
proof -
  have d: "distinct (as @ y # bs)" using assms(1) by (simp add: list_kinds)
  note f = split_facts[OF d, where q = q] split_end[OF d] fresh_facts[of e as q] fresh_behind[of e bs y]
  show ?thesis
  proof (cases bs)
    case (Cons z zs)
    with assms f fresh_behind[of e zs z] fresh_behind[of y zs z] Hd_inner[of q z zs] end_loc_in[of "El z" zs] show ?thesis
      by (auto simp: TAILQ_INSERT_AFTER_def Let_def list_kinds)
  qed (use assms f in \<open>auto simp: TAILQ_INSERT_AFTER_def Let_def list_kinds\<close>)
qed

lemma tailq_insert_before:
  assumes "is_tailq h q (as @ y # bs)" and "e \<notin> set (as @ y # bs)"
  shows "is_tailq (TAILQ_INSERT_BEFORE y e h) q (as @ e # y # bs)"
proof -
  have d: "distinct (as @ y # bs)" using assms(1) by (simp add: list_kinds)
  note f = split_facts[OF d, where q = q] split_end[OF d] fresh_facts[of e as q] fresh_behind[of e bs y]
  show ?thesis using assms f by (auto simp: TAILQ_INSERT_BEFORE_def Let_def list_kinds)
qed

lemma tailq_remove:
  assumes "is_tailq h q (as @ e # bs)"
  shows "is_tailq (TAILQ_REMOVE q e h) q (as @ bs)"
proof -
  have d: "distinct (as @ e # bs)" using assms(1) by (simp add: list_kinds)
  note f = split_facts[OF d, where q = q] split_end[OF d]
  show ?thesis
  proof (cases bs)
    case (Cons z zs)
    with assms f show ?thesis by (auto simp: TAILQ_REMOVE_def Let_def list_kinds)
  qed (use assms f in \<open>auto simp: TAILQ_REMOVE_def Let_def list_kinds\<close>)
qed


section \<open>Loops\<close>

lemma foreach_path:
  assumes "\<And>e. nxt h e = cell h (El e)"
  shows "path h l xs m \<Longrightarrow> cell h m = None \<Longrightarrow> foreach_loop nxt (\<lambda>x h. h) (cell h l) h = Some (xs, h)"
proof (induction xs arbitrary: l)
  case Nil
  then show ?case by (subst foreach_loop.simps) simp
next
  case (Cons x xs)
  then show ?case using assms by (subst foreach_loop.simps) simp
qed

lemma tailq_foreach: "is_tailq h q xs \<Longrightarrow> TAILQ_FOREACH q (\<lambda>x h. h) h = Some (xs, h)"
  unfolding TAILQ_FOREACH_def TAILQ_FIRST_def by (rule foreach_path) (auto simp: TAILQ_NEXT_def list_kinds)

lemma tailq_last:
  assumes "is_tailq h q xs"
  shows "TAILQ_LAST h q = (if xs = [] then None else Some (last xs))"
proof (cases xs rule: rev_cases)
  case (snoc ys y)
  with assms show ?thesis by (simp add: TAILQ_LAST_def list_kinds)
qed (use assms in \<open>simp add: TAILQ_LAST_def list_kinds\<close>)

lemma tailq_prev:
  assumes "is_tailq h q (as @ y # bs)"
  shows "TAILQ_PREV h y = (if as = [] then None else Some (last as))"
proof (cases as rule: rev_cases)
  case (snoc zs z)
  with assms show ?thesis by (simp add: TAILQ_PREV_def list_kinds)
qed (use assms in \<open>simp add: TAILQ_PREV_def list_kinds\<close>)

text \<open>A walk that is resumed at an element visits this element and those behind it.\<close>

lemma tailq_foreach_from:
  assumes "is_tailq h q (as @ x # bs)"
  shows "TAILQ_FOREACH_FROM (Some x) q (\<lambda>x h. h) h = Some (x # bs, h)"
proof -
  have "path h (Hd q) (as @ x # bs) (end_loc (Hd q) (as @ x # bs))" "cell h (end_loc (Hd q) (as @ x # bs)) = None"
    using assms by (auto simp: list_kinds)
  then have "path h (El x) bs (end_loc (El x) bs)" "cell h (end_loc (El x) bs) = None" by (auto simp: path_append)
  then have "foreach_loop TAILQ_NEXT (\<lambda>x h. h) (cell h (El x)) h = Some (bs, h)" by (intro foreach_path) (auto simp: TAILQ_NEXT_def)
  then show ?thesis unfolding TAILQ_FOREACH_FROM_def by (subst foreach_loop.simps) (simp add: TAILQ_NEXT_def)
qed

lemma tailq_foreach_prev:
  "is_tailq h q (as @ bs) \<Longrightarrow>
     foreach_loop TAILQ_PREV (\<lambda>x h. h) (if as = [] then None else Some (last as)) h = Some (rev as, h)"
proof (induction as arbitrary: bs rule: rev_induct)
  case Nil
  then show ?case by (subst foreach_loop.simps) simp
next
  case (snoc a as)
  then have t: "is_tailq h q (as @ a # bs)" by simp
  from tailq_prev[OF t] snoc.IH[OF t] show ?case by (subst foreach_loop.simps) simp
qed

lemma tailq_foreach_reverse: "is_tailq h q xs \<Longrightarrow> TAILQ_FOREACH_REVERSE q (\<lambda>x h. h) h = Some (rev xs, h)"
  using tailq_foreach_prev[of h q xs "[]"] by (simp add: TAILQ_FOREACH_REVERSE_def tailq_last)

lemma tailq_next:
  "is_tailq h q (as @ y # bs) \<Longrightarrow> TAILQ_NEXT h y = (case bs of [] \<Rightarrow> None | z # zs \<Rightarrow> Some z)"
  by (cases bs) (auto simp: TAILQ_NEXT_def list_kinds)

lemma tailq_first:
  "is_tailq h q xs \<Longrightarrow> TAILQ_FIRST h q = (case xs of [] \<Rightarrow> None | z # zs \<Rightarrow> Some z)"
  by (cases xs) (auto simp: TAILQ_FIRST_def list_kinds)

lemma tailq_safe_remove:
  "is_tailq h q xs \<Longrightarrow> \<exists>h'. TAILQ_FOREACH_SAFE q (TAILQ_REMOVE q) h = Some (xs, h') \<and> is_tailq h' q []"
proof (induction xs arbitrary: h)
  case Nil
  then show ?case unfolding TAILQ_FOREACH_SAFE_def by (subst foreach_safe_loop.simps) (simp add: tailq_first)
next
  case (Cons x xs)
  have r: "is_tailq (TAILQ_REMOVE q x h) q xs" using tailq_remove[of h q "[]" x xs] Cons.prems by simp
  have "TAILQ_NEXT h x = TAILQ_FIRST (TAILQ_REMOVE q x h) q"
    using tailq_next[of h q "[]" x xs] tailq_first[OF r] Cons.prems by simp
  with Cons.IH[OF r] tailq_first[OF Cons.prems] show ?case
    unfolding TAILQ_FOREACH_SAFE_def by (subst foreach_safe_loop.simps) auto
qed

section \<open>Two queues\<close>

lemma tailq_concat:
  assumes "is_tailq h q1 xs" and "is_tailq h q2 ys" and "q1 \<noteq> q2" and "set xs \<inter> set ys = {}"
  shows "is_tailq (TAILQ_CONCAT q1 q2 h) q1 (xs @ ys) \<and> is_tailq (TAILQ_CONCAT q1 q2 h) q2 []"
proof (cases ys)
  case Nil
  with assms show ?thesis by (auto simp: TAILQ_CONCAT_def TAILQ_EMPTY_def list_kinds)
next
  case (Cons y ys')
  have d: "distinct (xs @ y # ys')" using assms Cons by (auto simp: list_kinds)
  note f = split_facts[OF d, where q = q1] split_end[OF d]
  have g: "Hd q2 \<notin> inner (Hd q1) xs" "Hd q2 \<notin> inner (El y) ys'" "end_loc (Hd q1) xs \<noteq> Hd q2" "end_loc (El y) ys' \<noteq> Hd q2"
    using assms(3) Hd_inner end_loc_in[of "Hd q1" xs] end_loc_in[of "El y" ys'] by auto
  show ?thesis using assms Cons f g
    by (auto simp: TAILQ_CONCAT_def TAILQ_EMPTY_def TAILQ_INIT_def set_prev_of_def Let_def list_kinds)
qed

lemma tailq_swap:
  assumes "is_tailq h q1 xs" and "is_tailq h q2 ys" and "q1 \<noteq> q2" and "set xs \<inter> set ys = {}"
  shows "is_tailq (TAILQ_SWAP q1 q2 h) q1 ys \<and> is_tailq (TAILQ_SWAP q1 q2 h) q2 xs"
proof -
  have "end_loc (El z) zs \<noteq> Hd q" for z zs q using end_loc_in[of "El z" zs] by auto
  note f = assms Hd_inner this
  show ?thesis
    by (cases xs; cases ys) (use f in \<open>auto simp: TAILQ_SWAP_def Let_def list_kinds\<close>)
qed

section \<open>Lists\<close>

lemma list_init: "is_list (LIST_INIT q h) q []"
  by (simp add: LIST_INIT_def list_kinds)

lemma list_insert_head:
  assumes "is_list h q xs" and "e \<notin> set xs"
  shows "is_list (LIST_INSERT_HEAD q e h) q (e # xs)"
proof (cases xs)
  case (Cons y ys)
  with assms fresh_behind[of e ys y] Hd_inner[of q y ys] end_loc_in[of "El y" ys] show ?thesis
    by (auto simp: LIST_INSERT_HEAD_def set_prev_of_def Let_def list_kinds)
qed (use assms in \<open>auto simp: LIST_INSERT_HEAD_def set_prev_of_def Let_def list_kinds\<close>)

lemma list_insert_after:
  assumes "is_list h q (as @ y # bs)" and "e \<notin> set (as @ y # bs)"
  shows "is_list (LIST_INSERT_AFTER y e h) q (as @ y # e # bs)"
proof -
  have d: "distinct (as @ y # bs)" using assms(1) by (simp add: list_kinds)
  note f = split_facts[OF d, where q = q] split_end[OF d] fresh_facts[of e as q] fresh_behind[of e bs y]
  show ?thesis
  proof (cases bs)
    case (Cons z zs)
    with assms f fresh_behind[of e zs z] fresh_behind[of y zs z] Hd_inner[of q z zs] end_loc_in[of "El z" zs] show ?thesis
      by (auto simp: LIST_INSERT_AFTER_def set_prev_of_def Let_def list_kinds)
  qed (use assms f in \<open>auto simp: LIST_INSERT_AFTER_def set_prev_of_def Let_def list_kinds\<close>)
qed

lemma list_insert_before:
  assumes "is_list h q (as @ y # bs)" and "e \<notin> set (as @ y # bs)"
  shows "is_list (LIST_INSERT_BEFORE y e h) q (as @ e # y # bs)"
proof -
  have d: "distinct (as @ y # bs)" using assms(1) by (simp add: list_kinds)
  note f = split_facts[OF d, where q = q] split_end[OF d] fresh_facts[of e as q] fresh_behind[of e bs y]
  show ?thesis using assms f by (auto simp: LIST_INSERT_BEFORE_def Let_def list_kinds)
qed

lemma list_remove:
  assumes "is_list h q (as @ e # bs)"
  shows "is_list (LIST_REMOVE e h) q (as @ bs)"
proof -
  have d: "distinct (as @ e # bs)" using assms(1) by (simp add: list_kinds)
  note f = split_facts[OF d, where q = q] split_end[OF d]
  show ?thesis
  proof (cases bs)
    case (Cons z zs)
    with assms f show ?thesis by (auto simp: LIST_REMOVE_def set_prev_of_def Let_def list_kinds)
  qed (use assms f in \<open>auto simp: LIST_REMOVE_def set_prev_of_def Let_def list_kinds\<close>)
qed

lemma list_prev:
  assumes "is_list h q (as @ y # bs)"
  shows "LIST_PREV h y q = Inr (if as = [] then None else Some (last as))"
proof (cases as rule: rev_cases)
  case (snoc zs z)
  with assms show ?thesis by (simp add: LIST_PREV_def list_kinds containerof_def)
qed (use assms in \<open>simp add: LIST_PREV_def list_kinds\<close>)

lemma find_before_elem:
  "path h (El c) (as @ [e]) (El e) \<Longrightarrow> e \<notin> set as \<Longrightarrow> find_before h (Some e) (Some c) = Some (Inr (last (c # as)))"
proof (induction as arbitrary: c)
  case Nil
  then show ?case by (subst find_before.simps) simp
next
  case (Cons a as)
  then show ?case by (subst find_before.simps) simp
qed

lemma find_before_end:
  "path h (El c) as m \<Longrightarrow> cell h m = None \<Longrightarrow> find_before h None (Some c) = Some (Inr (last (c # as)))"
proof (induction as arbitrary: c)
  case Nil
  then show ?case by (subst find_before.simps) simp
next
  case (Cons a as)
  then show ?case by (subst find_before.simps) simp
qed

lemma El_last: "El (last (c # as)) = end_loc (El c) as"
  by (induction as arbitrary: c) auto

lemma list_concat:
  assumes "is_list h q1 xs" and "is_list h q2 ys" and "q1 \<noteq> q2" and "set xs \<inter> set ys = {}"
  shows "\<exists>h'. LIST_CONCAT q1 q2 h = Some (Inr h') \<and> is_list h' q1 (xs @ ys) \<and> is_list h' q2 []"
proof (cases ys)
  case Nil
  with assms show ?thesis by (cases xs) (auto simp: LIST_CONCAT_def set_cell_def list_kinds)
next
  case (Cons y ys')
  have d: "distinct (xs @ y # ys')" using assms Cons by (auto simp: list_kinds)
  note f = split_facts[OF d, where q = q1] split_end[OF d]
  have g: "Hd q2 \<notin> inner (Hd q1) xs" "Hd q2 \<notin> inner (El y) ys'" "end_loc (Hd q1) xs \<noteq> Hd q2" "end_loc (El y) ys' \<noteq> Hd q2"
    using assms(3) Hd_inner end_loc_in[of "Hd q1" xs] end_loc_in[of "El y" ys'] by auto
  show ?thesis
  proof (cases xs)
    case Nil
    with assms Cons f g show ?thesis
      by (auto simp: LIST_CONCAT_def LIST_INIT_def set_prev_of_def Let_def list_kinds)
  next
    case x: (Cons x xs')
    have "find_before h None (cell h (Hd q1)) = Some (Inr (last (x # xs')))"
      using assms(1) x find_before_end[of h x xs'] by (auto simp: list_kinds)
    moreover have "El (last (x # xs')) = end_loc (Hd q1) xs" using x El_last[of x xs'] by simp
    ultimately show ?thesis using assms Cons x f g
      by (auto simp: LIST_CONCAT_def LIST_INIT_def set_prev_of_def on_found_def Let_def list_kinds simp del: last.simps)
  qed
qed

section \<open>Singly-linked tail queues\<close>

lemma stailq_init: "is_stailq (STAILQ_INIT q h) q []"
  by (simp add: STAILQ_INIT_def list_kinds)

lemma stailq_insert_tail:
  assumes "is_stailq h q xs" and "e \<notin> set xs"
  shows "is_stailq (STAILQ_INSERT_TAIL q e h) q (xs @ [e])"
  using assms fresh_facts[OF assms(2), where q = q] by (auto simp: STAILQ_INSERT_TAIL_def Let_def list_kinds)

lemma stailq_insert_head:
  assumes "is_stailq h q xs" and "e \<notin> set xs"
  shows "is_stailq (STAILQ_INSERT_HEAD q e h) q (e # xs)"
proof (cases xs)
  case (Cons y ys)
  with assms fresh_behind[of e ys y] Hd_inner[of q y ys] end_loc_in[of "El y" ys] show ?thesis
    by (auto simp: STAILQ_INSERT_HEAD_def Let_def list_kinds)
qed (use assms in \<open>auto simp: STAILQ_INSERT_HEAD_def Let_def list_kinds\<close>)

lemma stailq_insert_after:
  assumes "is_stailq h q (as @ y # bs)" and "e \<notin> set (as @ y # bs)"
  shows "is_stailq (STAILQ_INSERT_AFTER q y e h) q (as @ y # e # bs)"
proof -
  have d: "distinct (as @ y # bs)" using assms(1) by (simp add: list_kinds)
  note f = split_facts[OF d, where q = q] split_end[OF d] fresh_facts[of e as q] fresh_behind[of e bs y]
  show ?thesis
  proof (cases bs)
    case (Cons z zs)
    with assms f fresh_behind[of e zs z] fresh_behind[of y zs z] Hd_inner[of q z zs] end_loc_in[of "El z" zs] show ?thesis
      by (auto simp: STAILQ_INSERT_AFTER_def Let_def list_kinds)
  qed (use assms f in \<open>auto simp: STAILQ_INSERT_AFTER_def Let_def list_kinds\<close>)
qed

lemma stailq_remove_after:
  assumes "is_stailq h q (as @ y # e # bs)"
  shows "\<exists>h'. STAILQ_REMOVE_AFTER q y h = Inr h' \<and> is_stailq h' q (as @ y # bs)"
proof -
  have d: "distinct (as @ y # e # bs)" and d': "distinct (as @ y # bs)" using assms(1) by (auto simp: list_kinds)
  note f = split_facts[OF d, where q = q] split_end[OF d] split_facts[OF d', where q = q] split_end[OF d']
  show ?thesis
  proof (cases bs)
    case (Cons z zs)
    with assms f fresh_behind[of y zs z] show ?thesis
      by (auto simp: STAILQ_REMOVE_AFTER_def Let_def list_kinds)
  qed (use assms f in \<open>auto simp: STAILQ_REMOVE_AFTER_def Let_def list_kinds\<close>)
qed

lemma stailq_remove_head:
  assumes "is_stailq h q (e # xs)"
  shows "\<exists>h'. STAILQ_REMOVE_HEAD q h = Inr h' \<and> is_stailq h' q xs"
proof (cases xs)
  case (Cons y ys)
  with assms Hd_inner[of q y ys] end_loc_in[of "El y" ys] show ?thesis
    by (auto simp: STAILQ_REMOVE_HEAD_def Let_def list_kinds)
qed (use assms in \<open>auto simp: STAILQ_REMOVE_HEAD_def Let_def list_kinds\<close>)

text \<open>Both singly-linked kinds search for the predecessor of the element to be removed.\<close>

lemma find_predecessor:
  assumes "is_slist h q (as @ e # bs)" and "as \<noteq> []"
  shows "find_before h (Some e) (cell h (Hd q)) = Some (Inr (last as))" and "cell h (Hd q) \<noteq> Some e"
proof -
  obtain c cs where as: "as = c # cs" using assms(2) by (cases as) auto
  have "path h (El c) (cs @ [e]) (El e)" "e \<notin> set cs" "e \<noteq> c" "cell h (Hd q) = Some c"
    using assms(1) as by (auto simp: list_kinds)
  then show "find_before h (Some e) (cell h (Hd q)) = Some (Inr (last as))" "cell h (Hd q) \<noteq> Some e"
    using find_before_elem[of h c cs e] as by auto
qed

lemma stailq_remove:
  assumes "is_stailq h q (as @ e # bs)"
  shows "\<exists>h'. STAILQ_REMOVE q e h = Some (Inr h') \<and> is_stailq h' q (as @ bs)"
proof (cases as rule: rev_cases)
  case Nil
  with assms show ?thesis using stailq_remove_head[of h q e bs] by (auto simp: STAILQ_REMOVE_def list_kinds)
next
  case (snoc ds y)
  have "is_slist h q (as @ e # bs)" using assms by (simp add: is_stailq_def)
  from find_predecessor[OF this] snoc stailq_remove_after[of h q ds y e bs] assms show ?thesis by (auto simp: STAILQ_REMOVE_def)
qed

lemma slist_foreach_prevptr: "is_slist h q xs \<Longrightarrow> SLIST_FOREACH_PREVPTR q (\<lambda>p x h. h) h = Some (xs, h)"
proof -
  have "path h l xs m \<Longrightarrow> cell h m = None \<Longrightarrow> prevptr_loop (\<lambda>p x h. h) l h = Some (xs, h)" for l m
  proof (induction xs arbitrary: l)
    case Nil then show ?case by (subst prevptr_loop.simps) simp
  next
    case (Cons x xs) then show ?case by (subst prevptr_loop.simps) simp
  qed
  then show "is_slist h q xs \<Longrightarrow> ?thesis" by (auto simp: SLIST_FOREACH_PREVPTR_def is_slist_def)
qed

lemma stailq_foreach: "is_stailq h q xs \<Longrightarrow> STAILQ_FOREACH q (\<lambda>x h. h) h = Some (xs, h)"
  unfolding STAILQ_FOREACH_def STAILQ_FIRST_def by (rule foreach_path) (auto simp: STAILQ_NEXT_def list_kinds)

lemma stailq_last:
  assumes "is_stailq h q xs"
  shows "STAILQ_LAST h q = Inr (if xs = [] then None else Some (last xs))"
proof (cases xs rule: rev_cases)
  case (snoc ys y)
  with assms show ?thesis by (cases ys) (auto simp: STAILQ_LAST_def STAILQ_EMPTY_def containerof_def list_kinds)
qed (use assms in \<open>simp add: STAILQ_LAST_def STAILQ_EMPTY_def list_kinds\<close>)


lemma stailq_concat:
  assumes "is_stailq h q1 xs" and "is_stailq h q2 ys" and "q1 \<noteq> q2" and "set xs \<inter> set ys = {}"
  shows "is_stailq (STAILQ_CONCAT q1 q2 h) q1 (xs @ ys) \<and> is_stailq (STAILQ_CONCAT q1 q2 h) q2 []"
proof (cases ys)
  case Nil
  with assms show ?thesis by (auto simp: STAILQ_CONCAT_def STAILQ_EMPTY_def list_kinds)
next
  case (Cons y ys')
  have d: "distinct (xs @ y # ys')" using assms Cons by (auto simp: list_kinds)
  note f = split_facts[OF d, where q = q1] split_end[OF d]
  have g: "Hd q2 \<notin> inner (Hd q1) xs" "Hd q2 \<notin> inner (El y) ys'" "end_loc (Hd q1) xs \<noteq> Hd q2" "end_loc (El y) ys' \<noteq> Hd q2"
    using assms(3) Hd_inner end_loc_in[of "Hd q1" xs] end_loc_in[of "El y" ys'] by auto
  show ?thesis using assms Cons f g
    by (auto simp: STAILQ_CONCAT_def STAILQ_EMPTY_def STAILQ_INIT_def Let_def list_kinds)
qed

section \<open>Singly-linked lists\<close>

lemma slist_insert_head:
  assumes "is_slist h q xs" and "e \<notin> set xs"
  shows "is_slist (SLIST_INSERT_HEAD q e h) q (e # xs)"
proof (cases xs)
  case (Cons y ys)
  with assms fresh_behind[of e ys y] Hd_inner[of q y ys] end_loc_in[of "El y" ys] show ?thesis
    by (auto simp: SLIST_INSERT_HEAD_def Let_def list_kinds)
qed (use assms in \<open>auto simp: SLIST_INSERT_HEAD_def Let_def list_kinds\<close>)

lemma slist_insert_after:
  assumes "is_slist h q (as @ y # bs)" and "e \<notin> set (as @ y # bs)"
  shows "is_slist (SLIST_INSERT_AFTER y e h) q (as @ y # e # bs)"
proof -
  have d: "distinct (as @ y # bs)" using assms(1) by (simp add: list_kinds)
  note f = split_facts[OF d, where q = q] split_end[OF d] fresh_facts[of e as q] fresh_behind[of e bs y]
  show ?thesis
  proof (cases bs)
    case (Cons z zs)
    with assms f fresh_behind[of e zs z] fresh_behind[of y zs z] end_loc_in[of "El z" zs] show ?thesis
      by (auto simp: SLIST_INSERT_AFTER_def Let_def list_kinds)
  qed (use assms f in \<open>auto simp: SLIST_INSERT_AFTER_def Let_def list_kinds\<close>)
qed

lemma slist_remove_after:
  assumes "is_slist h q (as @ y # e # bs)"
  shows "\<exists>h'. SLIST_REMOVE_AFTER y h = Inr h' \<and> is_slist h' q (as @ y # bs)"
proof -
  have d: "distinct (as @ y # e # bs)" and d': "distinct (as @ y # bs)" using assms(1) by (auto simp: list_kinds)
  note f = split_facts[OF d, where q = q] split_end[OF d] split_facts[OF d', where q = q] split_end[OF d']
  show ?thesis
  proof (cases bs)
    case (Cons z zs)
    with assms f fresh_behind[of y zs z] show ?thesis by (auto simp: SLIST_REMOVE_AFTER_def list_kinds)
  qed (use assms f in \<open>auto simp: SLIST_REMOVE_AFTER_def list_kinds\<close>)
qed

lemma slist_remove_head:
  assumes "is_slist h q (e # xs)"
  shows "\<exists>h'. SLIST_REMOVE_HEAD q h = Inr h' \<and> is_slist h' q xs"
proof (cases xs)
  case (Cons y ys)
  with assms Hd_inner[of q y ys] end_loc_in[of "El y" ys] show ?thesis by (auto simp: SLIST_REMOVE_HEAD_def list_kinds)
qed (use assms in \<open>auto simp: SLIST_REMOVE_HEAD_def list_kinds\<close>)

lemma slist_remove:
  assumes "is_slist h q (as @ e # bs)"
  shows "\<exists>h'. SLIST_REMOVE q e h = Some (Inr h') \<and> is_slist h' q (as @ bs)"
proof (cases as rule: rev_cases)
  case Nil
  with assms show ?thesis using slist_remove_head[of h q e bs] by (auto simp: SLIST_REMOVE_def list_kinds)
next
  case (snoc ds y)
  with find_predecessor[OF assms] slist_remove_after[of h q ds y e bs] assms show ?thesis by (auto simp: SLIST_REMOVE_def)
qed

section \<open>The interface\<close>

text \<open>What a component that keeps its objects in such a queue relies on.\<close>

locale linked_queue =
  fixes rep :: "lheap \<Rightarrow> nat list \<Rightarrow> bool"
    and add :: "nat \<Rightarrow> lheap \<Rightarrow> lheap"
    and del :: "nat \<Rightarrow> lheap \<Rightarrow> lheap"
    and walk :: "lheap \<Rightarrow> (nat list \<times> lheap) option"
  assumes rep_distinct: "rep h xs \<Longrightarrow> distinct xs"
    and rep_add: "rep h xs \<Longrightarrow> x \<notin> set xs \<Longrightarrow> rep (add x h) (xs @ [x])"
    and rep_del: "rep h (xs @ x # ys) \<Longrightarrow> rep (del x h) (xs @ ys)"
    and rep_walk: "rep h xs \<Longrightarrow> walk h = Some (xs, h)"
begin

lemma walk_unique: "rep h xs \<Longrightarrow> rep h ys \<Longrightarrow> xs = ys"
  using rep_walk[of h xs] rep_walk[of h ys] by simp

lemma del_added: "rep h xs \<Longrightarrow> x \<notin> set xs \<Longrightarrow> rep (del x (add x h)) xs"
  using rep_del[OF rep_add, of h xs x] by (metis append.right_neutral)

lemma walk_added: "rep h xs \<Longrightarrow> x \<notin> set xs \<Longrightarrow> walk (add x h) = Some (xs @ [x], add x h)"
  by (intro rep_walk rep_add)

end

interpretation tailq: linked_queue "\<lambda>h. is_tailq h q" "TAILQ_INSERT_TAIL q" "TAILQ_REMOVE q" "TAILQ_FOREACH q (\<lambda>x h. h)" for q
proof unfold_locales
  show "is_tailq h q xs \<Longrightarrow> distinct xs" for h xs by (simp add: list_kinds)
qed (auto intro: tailq_insert_tail tailq_remove tailq_foreach)

interpretation stailq: linked_queue "\<lambda>h. is_stailq h q" "STAILQ_INSERT_TAIL q"
  "\<lambda>x h. case STAILQ_REMOVE q x h of Some (Inr h') \<Rightarrow> h' | _ \<Rightarrow> h" "STAILQ_FOREACH q (\<lambda>x h. h)" for q
proof unfold_locales
  show "is_stailq h q xs \<Longrightarrow> distinct xs" for h xs by (simp add: list_kinds)
  show "is_stailq (case STAILQ_REMOVE q x h of Some (Inr h') \<Rightarrow> h' | _ \<Rightarrow> h) q (xs @ ys)" if "is_stailq h q (xs @ x # ys)" for h xs x ys
    using stailq_remove[OF that] by auto
qed (auto intro: stailq_insert_tail stailq_foreach)


section \<open>Statements\<close>

datatype tq_op = InsHead nat | InsTail nat | InsAfter nat nat | InsBefore nat nat | Rem nat

fun tq_heap :: "nat \<Rightarrow> tq_op \<Rightarrow> lheap \<Rightarrow> lheap" where
  "tq_heap q (InsHead e) h = TAILQ_INSERT_HEAD q e h"
| "tq_heap q (InsTail e) h = TAILQ_INSERT_TAIL q e h"
| "tq_heap q (InsAfter y e) h = TAILQ_INSERT_AFTER q y e h"
| "tq_heap q (InsBefore y e) h = TAILQ_INSERT_BEFORE y e h"
| "tq_heap q (Rem e) h = TAILQ_REMOVE q e h"

definition before :: "nat \<Rightarrow> nat list \<Rightarrow> nat list" where "before y xs = takeWhile (\<lambda>x. x \<noteq> y) xs"
definition behind :: "nat \<Rightarrow> nat list \<Rightarrow> nat list" where "behind y xs = tl (dropWhile (\<lambda>x. x \<noteq> y) xs)"

text \<open>The same operations on a list; \<open>None\<close> for a use the macros do not allow: inserting an element that is in the queue, or naming
  one that is not.\<close>

fun tq_list :: "tq_op \<Rightarrow> nat list \<Rightarrow> nat list option" where
  "tq_list (InsHead e) xs = (if e \<in> set xs then None else Some (e # xs))"
| "tq_list (InsTail e) xs = (if e \<in> set xs then None else Some (xs @ [e]))"
| "tq_list (InsAfter y e) xs = (if e \<in> set xs \<or> y \<notin> set xs then None else Some (before y xs @ y # e # behind y xs))"
| "tq_list (InsBefore y e) xs = (if e \<in> set xs \<or> y \<notin> set xs then None else Some (before y xs @ e # y # behind y xs))"
| "tq_list (Rem e) xs = (if e \<notin> set xs then None else Some (before e xs @ behind e xs))"

fun tq_lists :: "tq_op list \<Rightarrow> nat list \<Rightarrow> nat list option" where
  "tq_lists [] xs = Some xs"
| "tq_lists (x # ops) xs = Option.bind (tq_list x xs) (tq_lists ops)"

lemma split_at: "y \<in> set xs \<Longrightarrow> xs = before y xs @ y # behind y xs"
  by (induction xs) (auto simp: before_def behind_def)

lemma tq_heap_refines:
  assumes "is_tailq h q xs" and "tq_list x xs = Some ys"
  shows "is_tailq (tq_heap q x h) q ys"
proof (cases x)
  case (InsAfter y e)
  then have y: "y \<in> set xs" "e \<notin> set xs" using assms(2) by (auto split: if_splits)
  with tailq_insert_after[of h q "before y xs" y "behind y xs" e] split_at[OF y(1)] InsAfter assms show ?thesis by auto
next
  case (InsBefore y e)
  then have y: "y \<in> set xs" "e \<notin> set xs" using assms(2) by (auto split: if_splits)
  with tailq_insert_before[of h q "before y xs" y "behind y xs" e] split_at[OF y(1)] InsBefore assms show ?thesis by auto
next
  case (Rem e)
  then have y: "e \<in> set xs" using assms(2) by (auto split: if_splits)
  with tailq_remove[of h q "before e xs" e "behind e xs"] split_at[OF y] Rem assms show ?thesis by auto
qed (use assms tailq_insert_head tailq_insert_tail in \<open>auto split: if_splits\<close>)

lemma tq_run_refines:
  "is_tailq h q xs \<Longrightarrow> tq_lists ops xs = Some ys \<Longrightarrow> is_tailq (fold (tq_heap q) ops h) q ys"
proof (induction ops arbitrary: h xs)
  case (Cons x ops)
  then obtain zs where "tq_list x xs = Some zs" "tq_lists ops zs = Some ys" by (auto simp: bind_eq_Some_conv)
  with Cons.IH[OF tq_heap_refines[OF Cons.prems(1)]] show ?case by simp
qed simp

text \<open>C16: A tail queue that was initialised and then only changed by insertions at either end, insertions next to an element and
  removals is the list these operations give: walking it forwards visits the elements of this list in order and ends,
  walking it backwards (through the cast of an entry to a head) visits them in reverse order, and its last
  element is the last of the list.\<close>

theorem tailq_refines_list:
  assumes "tq_lists ops [] = Some ys"
  shows "TAILQ_FOREACH q (\<lambda>x h. h) (fold (tq_heap q) ops (TAILQ_INIT q h)) = Some (ys, fold (tq_heap q) ops (TAILQ_INIT q h)) \<and>
    TAILQ_FOREACH_REVERSE q (\<lambda>x h. h) (fold (tq_heap q) ops (TAILQ_INIT q h)) = Some (rev ys, fold (tq_heap q) ops (TAILQ_INIT q h)) \<and>
    TAILQ_LAST (fold (tq_heap q) ops (TAILQ_INIT q h)) q = (if ys = [] then None else Some (last ys))"
  using tq_run_refines[OF tailq_init assms, of q h] tailq_foreach tailq_foreach_reverse tailq_last by blast

definition demo_heap :: lheap where
  "demo_heap = \<lparr>cell = (\<lambda>l. None), backp = (\<lambda>l. l)\<rparr>"

theorem tailq_refines_list_witness:
  "TAILQ_FOREACH_REVERSE 0 (\<lambda>x h. h) (fold (tq_heap 0) [InsTail 1, InsHead 2, InsAfter 2 3, InsBefore 3 4, Rem 2] (TAILQ_INIT 0 demo_heap)) =
     Some ([1, 3, 4], fold (tq_heap 0) [InsTail 1, InsHead 2, InsAfter 2 3, InsBefore 3 4, Rem 2] (TAILQ_INIT 0 demo_heap))"
proof -
  have "tq_lists [InsTail 1, InsHead 2, InsAfter 2 3, InsBefore 3 4, Rem 2] [] = Some [4, 3, 1]"
    by (simp add: before_def behind_def)
  from tailq_refines_list[OF this, of 0 demo_heap] show ?thesis by simp
qed

text \<open>\<open>TAILQ_FOREACH_SAFE\<close> ends even if its body removes every element it is at: it visits all
  elements in order and leaves an empty queue.\<close>

theorem tailq_foreach_safe_removes:
  assumes "tq_lists ops [] = Some ys"
  shows "\<exists>h'. TAILQ_FOREACH_SAFE q (TAILQ_REMOVE q) (fold (tq_heap q) ops (TAILQ_INIT q h)) = Some (ys, h') \<and> TAILQ_EMPTY h' q"
  using tailq_safe_remove[OF tq_run_refines[OF tailq_init assms, of q h]] tailq_first[of _ q "[]"]
  by (auto simp: TAILQ_EMPTY_def TAILQ_FIRST_def)

theorem tailq_foreach_safe_removes_witness:
  "\<exists>h'. TAILQ_FOREACH_SAFE 0 (TAILQ_REMOVE 0) (fold (tq_heap 0) [InsTail 1, InsTail 2] (TAILQ_INIT 0 demo_heap)) = Some ([1, 2], h') \<and>
     TAILQ_EMPTY h' 0"
proof -
  have "tq_lists [InsTail 1, InsTail 2] [] = Some [1, 2]" by simp
  from tailq_foreach_safe_removes[OF this] show ?thesis by blast
qed

end
