(* ===== verification/Tailq_Registry.thy ===== *)
theory Tailq_Registry
  imports Queue_Lists Ring_Init
begin

text \<open>
  The registry of tail queues (\<^verbatim>\<open>src/rte_lib/include/eal_common_tailqs.c\<close>).  A library registers an element with the name of its queue;
  the elements are in a local tail queue, on the heap of \<open>Queue_Macros\<close>, and the heads of the queues in an array in shared memory.  The
  configuration and the kind of the process come from the environment layer, which is not in the repository; they are arguments.
  A result \<open>None\<close> would be a walk along the local queue that does not end.
\<close>

section \<open>Data\<close>

definition RTE_MAX_TAILQ :: nat where "RTE_MAX_TAILQ = 32"
definition RTE_TAILQ_NAMESIZE :: nat where "RTE_TAILQ_NAMESIZE = 32"

text \<open>The heads in shared memory are the list heads 1, 2, \<dots> of the heap, the local queue has head 0.  \<open>elem_head\<close> is the index of the
  head of an element.\<close>

record registry =
  reg_heap :: lheap
  elem_name :: "nat \<Rightarrow> string"
  elem_head :: "nat \<Rightarrow> nat option"
  head_name :: "string list"
  rte_tailqs_count :: int

definition tailq_slot :: "nat \<Rightarrow> nat" where "tailq_slot i = Suc i"

text \<open>\<open>strncmp\<close> of two strings without their terminating zeros.\<close>

definition strncmp_eq :: "string \<Rightarrow> string \<Rightarrow> nat \<Rightarrow> bool" where
  "strncmp_eq a b n \<longleftrightarrow> take n a = take n b"

section \<open>Operations\<close>

definition rte_eal_tailq_lookup :: "registry \<Rightarrow> string option \<Rightarrow> nat option" where
  "rte_eal_tailq_lookup r name =
     (case name of None \<Rightarrow> None
      | Some nm \<Rightarrow> List.find (\<lambda>i. strncmp_eq nm (head_name r ! i) (RTE_TAILQ_NAMESIZE - 1)) [0..<RTE_MAX_TAILQ])"

definition rte_eal_tailq_create :: "string \<Rightarrow> registry \<Rightarrow> (nat option \<times> registry) cres" where
  "rte_eal_tailq_create name r =
     (if rte_eal_tailq_lookup r (Some name) = None \<and> rte_tailqs_count r + 1 < int RTE_MAX_TAILQ then
        if rte_tailqs_count r < 0 then Inl OutOfBounds
        else let i = nat (rte_tailqs_count r) in
          Inr (Some i, r\<lparr>head_name := (head_name r)[i := fst (strlcpy name (RTE_TAILQ_NAMESIZE - 1))],
                         reg_heap := TAILQ_INIT (tailq_slot i) (reg_heap r),
                         rte_tailqs_count := rte_tailqs_count r + 1\<rparr>)
      else Inr (None, r))"

definition rte_eal_tailq_local_register :: "nat \<Rightarrow> registry \<Rightarrow> (int \<times> registry) option" where
  "rte_eal_tailq_local_register t r =
     Option.bind (TAILQ_FOREACH 0 (\<lambda>x h. h) (reg_heap r)) (\<lambda>(elems, _).
       if \<exists>temp \<in> set elems. strncmp_eq (elem_name r t) (elem_name r temp) RTE_TAILQ_NAMESIZE then Some (-1, r)
       else Some (0, r\<lparr>reg_heap := TAILQ_INSERT_TAIL 0 t (reg_heap r)\<rparr>))"

definition rte_eal_tailq_update :: "bool \<Rightarrow> nat \<Rightarrow> registry \<Rightarrow> registry cres" where
  "rte_eal_tailq_update primary t r =
     (if primary then bindc (rte_eal_tailq_create (elem_name r t) r) (\<lambda>(hd, r). Inr (r\<lparr>elem_head := (elem_head r)(t := hd)\<rparr>))
      else Inr (r\<lparr>elem_head := (elem_head r)(t := rte_eal_tailq_lookup r (Some (elem_name r t)))\<rparr>))"

definition rte_eal_tailq_register :: "bool \<Rightarrow> nat \<Rightarrow> registry \<Rightarrow> (int \<times> registry) cres option" where
  "rte_eal_tailq_register primary t r =
     Option.bind (rte_eal_tailq_local_register t r) (\<lambda>(ret, r).
       if ret < 0 then Some (Inr (-1, r\<lparr>elem_head := (elem_head r)(t := None)\<rparr>))
       else if 0 \<le> rte_tailqs_count r then
         Some (bindc (rte_eal_tailq_update primary t r) (\<lambda>r.
           if elem_head r t = None then
             Inr (-1, r\<lparr>reg_heap := TAILQ_REMOVE 0 t (reg_heap r), elem_head := (elem_head r)(t := None)\<rparr>)
           else Inr (0, r)))
       else Some (Inr (0, r)))"

fun init_loop :: "bool \<Rightarrow> nat list \<Rightarrow> registry \<Rightarrow> (int \<times> registry) cres" where
  "init_loop primary [] r = Inr (0, r)"
| "init_loop primary (t # ts) r =
     bindc (rte_eal_tailq_update primary t r) (\<lambda>r. if elem_head r t = None then Inr (-1, r) else init_loop primary ts r)"

text \<open>The loop changes the heads in shared memory and not the links of the local queue, so the elements it visits are those of a walk
  before it.\<close>

definition rte_eal_tailqs_init :: "bool \<Rightarrow> registry \<Rightarrow> (int \<times> registry) cres option" where
  "rte_eal_tailqs_init primary r =
     (let r = r\<lparr>rte_tailqs_count := 0\<rparr> in
      Option.bind (TAILQ_FOREACH 0 (\<lambda>x h. h) (reg_heap r)) (\<lambda>(elems, _). Some (init_loop primary elems r)))"

section \<open>The abstract registry\<close>

text \<open>The names registered, in order.  Before \<open>rte_eal_tailqs_init\<close> the array of heads is not in use.\<close>

definition valid_name :: "string \<Rightarrow> bool" where
  "valid_name nm \<longleftrightarrow> nm \<noteq> [] \<and> length nm \<le> 30"

definition names_ok :: "registry \<Rightarrow> nat list \<Rightarrow> bool" where
  "names_ok r xs \<longleftrightarrow> distinct (map (elem_name r) xs) \<and> (\<forall>x \<in> set xs. valid_name (elem_name r x))"

definition table_rel :: "registry \<Rightarrow> nat list \<Rightarrow> bool" where
  "table_rel r xs \<longleftrightarrow> names_ok r xs \<and> length xs < RTE_MAX_TAILQ \<and> rte_tailqs_count r = int (length xs) \<and>
     head_name r = map (elem_name r) xs @ replicate (RTE_MAX_TAILQ - length xs) [] \<and>
     (\<forall>i < length xs. elem_head r (xs ! i) = Some i)"

definition reg_rel :: "registry \<Rightarrow> nat list \<Rightarrow> bool" where
  "reg_rel r xs \<longleftrightarrow> is_tailq (reg_heap r) 0 xs \<and> names_ok r xs \<and>
     (if rte_tailqs_count r < 0 then head_name r = replicate RTE_MAX_TAILQ [] else table_rel r xs)"

lemma tailq_init_other:
  assumes "q \<noteq> q'"
  shows "is_tailq (TAILQ_INIT q' h) q xs = is_tailq h q xs"
proof -
  have "end_loc (Hd q) xs \<noteq> Hd q'" using assms end_loc_in[of "Hd q" xs] by auto
  with assms Hd_inner(2)[of q' q xs] show ?thesis by (simp add: TAILQ_INIT_def list_kinds)
qed

lemma strncmp_valid:
  assumes "length a \<le> 30" and "length b \<le> 30"
  shows "strncmp_eq a b (RTE_TAILQ_NAMESIZE - 1) \<longleftrightarrow> a = b" and "strncmp_eq a b RTE_TAILQ_NAMESIZE \<longleftrightarrow> a = b"
  using assms by (simp_all add: strncmp_eq_def RTE_TAILQ_NAMESIZE_def)

lemma table_slots:
  assumes "table_rel r xs" and "i < RTE_MAX_TAILQ"
  shows "head_name r ! i = (if i < length xs then elem_name r (xs ! i) else [])" and "length (head_name r ! i) \<le> 30"
proof -
  show n: "head_name r ! i = (if i < length xs then elem_name r (xs ! i) else [])"
    using assms by (auto simp: table_rel_def names_ok_def nth_append)
  show "length (head_name r ! i) \<le> 30" using assms unfolding n by (auto simp: table_rel_def names_ok_def valid_name_def)
qed

lemma lookup_Some:
  assumes "table_rel r xs" and "valid_name nm"
  shows "rte_eal_tailq_lookup r (Some nm) = Some i \<longleftrightarrow> i < length xs \<and> elem_name r (xs ! i) = nm"
proof -
  let ?P = "\<lambda>i. strncmp_eq nm (head_name r ! i) (RTE_TAILQ_NAMESIZE - 1)"
  have P: "?P j \<longleftrightarrow> j < length xs \<and> elem_name r (xs ! j) = nm" if "j < RTE_MAX_TAILQ" for j
    using table_slots[OF assms(1) that] strncmp_valid(1)[of nm "head_name r ! j"] assms(2) by (auto simp: valid_name_def)
  have len: "length xs < RTE_MAX_TAILQ" and d: "distinct (map (elem_name r) xs)" using assms by (auto simp: table_rel_def names_ok_def)
  show ?thesis
  proof
    assume "rte_eal_tailq_lookup r (Some nm) = Some i"
    then have "i < RTE_MAX_TAILQ" "?P i" by (auto simp: rte_eal_tailq_lookup_def find_Some_iff)
    then show "i < length xs \<and> elem_name r (xs ! i) = nm" using P by blast
  next
    assume i: "i < length xs \<and> elem_name r (xs ! i) = nm"
    have "\<not> ?P j" if "j < i" for j
      using that i P[of j] len d nth_eq_iff_index_eq[OF d, of j i] by auto
    then show "rte_eal_tailq_lookup r (Some nm) = Some i"
      using i len P[of i] by (auto simp: rte_eal_tailq_lookup_def find_Some_iff intro!: exI[of _ i])
  qed
qed

lemma lookup_None:
  assumes "table_rel r xs" and "valid_name nm"
  shows "rte_eal_tailq_lookup r (Some nm) = None \<longleftrightarrow> nm \<notin> elem_name r ` set xs"
proof -
  have "nm \<in> elem_name r ` set xs \<longleftrightarrow> (\<exists>i < length xs. elem_name r (xs ! i) = nm)"
    by (metis imageE image_eqI in_set_conv_nth)
  also have "\<dots> \<longleftrightarrow> (\<exists>i. rte_eal_tailq_lookup r (Some nm) = Some i)" using lookup_Some[OF assms] by blast
  finally show ?thesis by auto
qed

lemma local_register:
  assumes "reg_rel r xs" and "valid_name (elem_name r t)" and "t \<notin> set xs"
  shows "rte_eal_tailq_local_register t r =
    (if elem_name r t \<in> elem_name r ` set xs then Some (-1, r) else Some (0, r\<lparr>reg_heap := TAILQ_INSERT_TAIL 0 t (reg_heap r)\<rparr>))"
proof -
  have "strncmp_eq (elem_name r t) (elem_name r x) RTE_TAILQ_NAMESIZE \<longleftrightarrow> elem_name r t = elem_name r x" if "x \<in> set xs" for x
    using that assms strncmp_valid(2) by (auto simp: reg_rel_def names_ok_def valid_name_def)
  then show ?thesis using assms tailq.rep_walk[of "reg_heap r" 0 xs]
    by (auto simp: rte_eal_tailq_local_register_def reg_rel_def)
qed

text \<open>The second half of a registration: the entry in the array.\<close>

lemma update_registers:
  assumes tab: "table_rel r xs" and nm: "valid_name (elem_name r t)" and t: "t \<notin> set xs"
    and new: "elem_name r t \<notin> elem_name r ` set xs" and room: "length xs < RTE_MAX_TAILQ - 1"
  shows "\<exists>r'. rte_eal_tailq_update True t r = Inr r' \<and> elem_head r' t = Some (length xs) \<and>
    elem_name r' = elem_name r \<and> table_rel r' (xs @ [t]) \<and> is_tailq (reg_heap r') 0 ys = is_tailq (reg_heap r) 0 ys"
proof -
  have cnt: "rte_tailqs_count r = int (length xs)" and hn: "head_name r = map (elem_name r) xs @ replicate (RTE_MAX_TAILQ - length xs) []"
    and eh: "\<forall>i < length xs. elem_head r (xs ! i) = Some i" and ok: "names_ok r xs" using tab by (auto simp: table_rel_def)
  have l: "rte_eal_tailq_lookup r (Some (elem_name r t)) = None" using lookup_None[OF tab nm] new by simp
  have cp: "fst (strlcpy (elem_name r t) (RTE_TAILQ_NAMESIZE - 1)) = elem_name r t"
    using nm by (simp add: strlcpy_def RTE_TAILQ_NAMESIZE_def valid_name_def)
  obtain k where k: "RTE_MAX_TAILQ - length xs = Suc k" using room by (cases "RTE_MAX_TAILQ - length xs") auto
  have hn': "(head_name r)[length xs := elem_name r t] = map (elem_name r) xs @ elem_name r t # replicate k []"
    unfolding hn k by (simp add: list_update_append)
  let ?r = "r\<lparr>head_name := (head_name r)[length xs := elem_name r t], reg_heap := TAILQ_INIT (tailq_slot (length xs)) (reg_heap r),
      rte_tailqs_count := int (length xs) + 1, elem_head := (elem_head r)(t := Some (length xs))\<rparr>"
  have "rte_eal_tailq_update True t r = Inr ?r"
    using l cnt room cp by (simp add: rte_eal_tailq_update_def rte_eal_tailq_create_def RTE_MAX_TAILQ_def Let_def)
  moreover have "names_ok ?r (xs @ [t])" using ok nm new by (auto simp: names_ok_def)
  then have "table_rel ?r (xs @ [t])"
    using hn' k room eh t by (auto simp: table_rel_def nth_append less_Suc_eq dest: nth_mem)
  moreover have "is_tailq (reg_heap ?r) 0 ys = is_tailq (reg_heap r) 0 ys"
    using tailq_init_other[of 0 "tailq_slot (length xs)" "reg_heap r" ys] by (simp add: tailq_slot_def)
  ultimately show ?thesis by (intro exI[of _ ?r]) simp
qed

lemma init_loop_registers:
  assumes "table_rel r ys" and "is_tailq (reg_heap r) 0 (ys @ zs)" and "names_ok r (ys @ zs)" and "length (ys @ zs) < RTE_MAX_TAILQ"
  shows "\<exists>r'. init_loop True zs r = Inr (0, r') \<and> table_rel r' (ys @ zs) \<and> is_tailq (reg_heap r') 0 (ys @ zs) \<and> elem_name r' = elem_name r"
  using assms
proof (induction zs arbitrary: ys r)
  case (Cons z zs)
  have z: "z \<notin> set ys" "valid_name (elem_name r z)" "elem_name r z \<notin> elem_name r ` set ys" "length ys < RTE_MAX_TAILQ - 1"
    using Cons.prems(3,4) by (auto simp: names_ok_def)
  obtain r1 where r1: "rte_eal_tailq_update True z r = Inr r1" "elem_head r1 z = Some (length ys)" "elem_name r1 = elem_name r"
      "table_rel r1 (ys @ [z])" "is_tailq (reg_heap r1) 0 (ys @ z # zs) = is_tailq (reg_heap r) 0 (ys @ z # zs)"
    using update_registers[OF Cons.prems(1) z(2) z(1) z(3) z(4)] by blast
  have "names_ok r1 ((ys @ [z]) @ zs)" using Cons.prems(3) r1(3) by (simp add: names_ok_def)
  with Cons.IH[OF r1(4)] r1 Cons.prems show ?case by simp
qed simp

section \<open>Statements\<close>


text \<open>Queues registered early, before the environment is initialised, all get their head when it is: with at most
  31 of them \<open>rte_eal_tailqs_init\<close> succeeds, the list of names is the same, and every element has the head with its name.\<close>

theorem registry_init:
  assumes "reg_rel r xs" and "rte_tailqs_count r < 0" and "length xs < RTE_MAX_TAILQ"
  shows "\<exists>r'. rte_eal_tailqs_init True r = Some (Inr (0, r')) \<and> reg_rel r' xs \<and> elem_name r' = elem_name r \<and>
    (\<forall>i < length xs. rte_eal_tailq_lookup r' (Some (elem_name r (xs ! i))) = elem_head r' (xs ! i))"
proof -
  let ?r = "r\<lparr>rte_tailqs_count := 0\<rparr>"
  have q: "is_tailq (reg_heap r) 0 xs" and ok: "names_ok r xs" and "table_rel ?r []"
    using assms by (auto simp: reg_rel_def table_rel_def names_ok_def RTE_MAX_TAILQ_def)
  then obtain r' where r': "init_loop True xs ?r = Inr (0, r')" "table_rel r' xs" "is_tailq (reg_heap r') 0 xs" "elem_name r' = elem_name r"
    using init_loop_registers[of ?r "[]" xs] assms by (auto simp: names_ok_def)
  have "rte_eal_tailq_lookup r' (Some (elem_name r (xs ! i))) = elem_head r' (xs ! i)" if "i < length xs" for i
    using lookup_Some[OF r'(2), of "elem_name r (xs ! i)" i] that r' ok by (auto simp: table_rel_def names_ok_def)
  moreover have "reg_rel r' xs" using r' by (auto simp: reg_rel_def table_rel_def)
  ultimately show ?thesis using r' tailq.rep_walk[OF q] by (simp add: rte_eal_tailqs_init_def Let_def)
qed

text \<open>A name of 31 characters, which fits in the name field, is registered under its first 30 characters, and a lookup with
  the name does not find it: the copy takes one character less than the comparison.\<close>

theorem long_name_lost:
  assumes "table_rel r xs" and "length nm = 31" and "length xs < RTE_MAX_TAILQ - 1"
  shows "\<exists>r'. rte_eal_tailq_create nm r = Inr (Some (length xs), r') \<and> head_name r' ! length xs = take 30 nm \<and>
    rte_eal_tailq_lookup r' (Some nm) = None"
proof -
  have len: "length (head_name r) = RTE_MAX_TAILQ" using assms(1) by (simp add: table_rel_def)
  have no: "\<not> strncmp_eq nm b (RTE_TAILQ_NAMESIZE - 1)" if "length b \<le> 30" for b
  proof
    assume "strncmp_eq nm b (RTE_TAILQ_NAMESIZE - 1)"
    then have "length (take 31 nm) = length (take 31 b)" by (simp add: strncmp_eq_def RTE_TAILQ_NAMESIZE_def)
    with that assms(2) show False by simp
  qed
  then have "rte_eal_tailq_lookup r (Some nm) = None"
    using table_slots(2)[OF assms(1)] by (simp add: rte_eal_tailq_lookup_def find_None_iff)
  then obtain r' where r': "rte_eal_tailq_create nm r = Inr (Some (length xs), r')"
      "head_name r' = (head_name r)[length xs := take 30 nm]"
    using assms by (simp add: rte_eal_tailq_create_def table_rel_def RTE_MAX_TAILQ_def RTE_TAILQ_NAMESIZE_def strlcpy_def Let_def)
  have "length (head_name r' ! i) \<le> 30" if "i < RTE_MAX_TAILQ" for i
    using table_slots(2)[OF assms(1) that] that len by (cases "i = length xs") (simp_all add: r'(2))
  then have "rte_eal_tailq_lookup r' (Some nm) = None" using no by (simp add: rte_eal_tailq_lookup_def find_None_iff)
  then show ?thesis using r' len assms(3) by simp
qed

subsection \<open>Instances\<close>

definition demo_registry :: registry where
  "demo_registry = \<lparr>reg_heap = TAILQ_INIT 0 demo_heap, elem_name = (\<lambda>t. if t = 1 then ''ring'' else ''hash''),
     elem_head = (\<lambda>t. None), head_name = replicate RTE_MAX_TAILQ [], rte_tailqs_count = 0\<rparr>"

lemma demo_registry_rel: "reg_rel demo_registry []"
  using tailq_init[of 0 demo_heap] by (simp add: reg_rel_def table_rel_def names_ok_def demo_registry_def RTE_MAX_TAILQ_def)

lemma demo_registry_early: "reg_rel (demo_registry\<lparr>rte_tailqs_count := -1, reg_heap := TAILQ_INSERT_TAIL 0 1 (reg_heap demo_registry)\<rparr>) [1]"
  using tailq_insert_tail[OF tailq_init[of 0 demo_heap], of 1]
  by (simp add: reg_rel_def names_ok_def demo_registry_def RTE_MAX_TAILQ_def valid_name_def)


theorem registry_init_witness:
  "\<exists>r'. rte_eal_tailqs_init True (demo_registry\<lparr>rte_tailqs_count := -1, reg_heap := TAILQ_INSERT_TAIL 0 1 (reg_heap demo_registry)\<rparr>) =
     Some (Inr (0, r')) \<and> reg_rel r' [1] \<and> elem_name r' 1 = ''ring''"
  using registry_init[OF demo_registry_early] by (auto simp: demo_registry_def RTE_MAX_TAILQ_def)

theorem long_name_lost_witness:
  "\<exists>r'. rte_eal_tailq_create (replicate 31 CHR ''x'') demo_registry = Inr (Some 0, r') \<and>
     rte_eal_tailq_lookup r' (Some (replicate 31 CHR ''x'')) = None"
proof -
  have "table_rel demo_registry []" using demo_registry_rel by (simp add: reg_rel_def demo_registry_def)
  from long_name_lost[OF this, of "replicate 31 CHR ''x''"] show ?thesis by (auto simp: RTE_MAX_TAILQ_def)
qed

end
