(* ===== verification/Queue_Checks.thy ===== *)
theory Queue_Checks
  imports Queue_Lists
begin

text \<open>
  The consistency checks that \<^verbatim>\<open>queue.h\<close> compiles into its macros with \<open>INVARIANTS\<close>.  A check is true when the
  macro does not panic.  On the lists that the operations build no check fails, and for the doubly linked kinds
  the checks are complete: a chain of elements that passes them has every back pointer right.
\<close>

definition QMD_SLIST_CHECK_PREVPTR :: "lheap \<Rightarrow> loc \<Rightarrow> nat \<Rightarrow> bool" where
  "QMD_SLIST_CHECK_PREVPTR h prevp elm \<longleftrightarrow> \<not> (cell h prevp \<noteq> Some elm)"

definition QMD_LIST_CHECK_HEAD :: "lheap \<Rightarrow> nat \<Rightarrow> bool" where
  "QMD_LIST_CHECK_HEAD h q \<longleftrightarrow> (case LIST_FIRST h q of None \<Rightarrow> True | Some x \<Rightarrow> \<not> (backp h (El x) \<noteq> Hd q))"

definition QMD_LIST_CHECK_NEXT :: "lheap \<Rightarrow> nat \<Rightarrow> bool" where
  "QMD_LIST_CHECK_NEXT h elm \<longleftrightarrow> (case LIST_NEXT h elm of None \<Rightarrow> True | Some x \<Rightarrow> \<not> (backp h (El x) \<noteq> El elm))"

definition QMD_LIST_CHECK_PREV :: "lheap \<Rightarrow> nat \<Rightarrow> bool" where
  "QMD_LIST_CHECK_PREV h elm \<longleftrightarrow> \<not> (cell h (backp h (El elm)) \<noteq> Some elm)"

definition QMD_TAILQ_CHECK_HEAD :: "lheap \<Rightarrow> nat \<Rightarrow> bool" where
  "QMD_TAILQ_CHECK_HEAD h q \<longleftrightarrow>
     (if TAILQ_EMPTY h q then True else (case TAILQ_FIRST h q of None \<Rightarrow> True | Some x \<Rightarrow> \<not> (backp h (El x) \<noteq> Hd q)))"

definition QMD_TAILQ_CHECK_TAIL :: "lheap \<Rightarrow> nat \<Rightarrow> bool" where
  "QMD_TAILQ_CHECK_TAIL h q \<longleftrightarrow> \<not> (cell h (backp h (Hd q)) \<noteq> None)"

definition QMD_TAILQ_CHECK_NEXT :: "lheap \<Rightarrow> nat \<Rightarrow> bool" where
  "QMD_TAILQ_CHECK_NEXT h elm \<longleftrightarrow> (case TAILQ_NEXT h elm of None \<Rightarrow> True | Some x \<Rightarrow> \<not> (backp h (El x) \<noteq> El elm))"

definition QMD_TAILQ_CHECK_PREV :: "lheap \<Rightarrow> nat \<Rightarrow> bool" where
  "QMD_TAILQ_CHECK_PREV h elm \<longleftrightarrow> \<not> (cell h (backp h (El elm)) \<noteq> Some elm)"

lemmas list_checks = QMD_LIST_CHECK_HEAD_def QMD_LIST_CHECK_NEXT_def QMD_LIST_CHECK_PREV_def LIST_FIRST_def LIST_NEXT_def
lemmas tailq_checks = QMD_TAILQ_CHECK_HEAD_def QMD_TAILQ_CHECK_TAIL_def QMD_TAILQ_CHECK_NEXT_def QMD_TAILQ_CHECK_PREV_def
  TAILQ_FIRST_def TAILQ_NEXT_def TAILQ_EMPTY_def

text \<open>The back pointers of a chain, link by link.\<close>

definition back_ok :: "lheap \<Rightarrow> loc \<Rightarrow> bool" where
  "back_ok h l \<longleftrightarrow> (case cell h l of None \<Rightarrow> True | Some x \<Rightarrow> backp h (El x) = l)"

lemma backs_links:
  assumes "path h l xs (end_loc l xs)" and "cell h (end_loc l xs) = None"
  shows "backs h l xs \<longleftrightarrow> back_ok h l \<and> (\<forall>x \<in> set xs. back_ok h (El x))"
  using assms by (induction xs arbitrary: l) (auto simp: back_ok_def)

lemma backs_prev:
  assumes "path h l xs (end_loc l xs)" and "backs h l xs" and "x \<in> set xs"
  shows "cell h (backp h (El x)) = Some x"
  using assms by (induction xs arbitrary: l) auto

lemma path_inside:
  assumes "path h l xs (end_loc l xs)" and "m \<in> insert l (El ` set xs)" and "m \<noteq> end_loc l xs"
  shows "cell h m \<noteq> None"
  using assms
proof (induction xs arbitrary: l)
  case (Cons x xs)
  then show ?case by (cases "m = l") auto
qed simp

lemma head_check [simp]: "QMD_LIST_CHECK_HEAD h q = back_ok h (Hd q)" "QMD_TAILQ_CHECK_HEAD h q = back_ok h (Hd q)"
  by (auto simp: list_checks tailq_checks back_ok_def split: option.splits)

lemma next_check [simp]: "QMD_LIST_CHECK_NEXT h x = back_ok h (El x)" "QMD_TAILQ_CHECK_NEXT h x = back_ok h (El x)"
  by (auto simp: list_checks tailq_checks back_ok_def split: option.splits)

lemma slist_check: "path h (Hd q) (as @ x # bs) m \<Longrightarrow> QMD_SLIST_CHECK_PREVPTR h (end_loc (Hd q) as) x"
  by (simp add: QMD_SLIST_CHECK_PREVPTR_def)

theorem list_checks_complete:
  assumes "is_slist h q xs"
  shows "is_list h q xs \<longleftrightarrow> QMD_LIST_CHECK_HEAD h q \<and> (\<forall>x \<in> set xs. QMD_LIST_CHECK_NEXT h x)"
  using assms backs_links[of h "Hd q" xs] by (simp add: is_list_def is_slist_def)

theorem tailq_checks_complete:
  assumes "is_slist h q xs" and "backp h (Hd q) \<in> insert (Hd q) (El ` set xs)"
  shows "is_tailq h q xs \<longleftrightarrow> QMD_TAILQ_CHECK_HEAD h q \<and> QMD_TAILQ_CHECK_TAIL h q \<and> (\<forall>x \<in> set xs. QMD_TAILQ_CHECK_NEXT h x)"
proof -
  have p: "path h (Hd q) xs (end_loc (Hd q) xs)" "cell h (end_loc (Hd q) xs) = None" using assms(1) by (simp_all add: is_slist_def)
  have "QMD_TAILQ_CHECK_TAIL h q \<longleftrightarrow> backp h (Hd q) = end_loc (Hd q) xs"
    using path_inside[OF p(1) assms(2)] p(2) unfolding QMD_TAILQ_CHECK_TAIL_def by metis
  then show ?thesis using assms(1) backs_links[OF p] by (auto simp: is_tailq_def is_stailq_def)
qed

theorem prev_checks:
  shows "is_list h q xs \<Longrightarrow> x \<in> set xs \<Longrightarrow> QMD_LIST_CHECK_PREV h x"
    and "is_tailq h q xs \<Longrightarrow> x \<in> set xs \<Longrightarrow> QMD_TAILQ_CHECK_PREV h x"
  using backs_prev[of h "Hd q" xs x] by (auto simp: list_kinds QMD_LIST_CHECK_PREV_def QMD_TAILQ_CHECK_PREV_def)

end
