(* ===== verification/Rte_Reciprocal.thy ===== *)
theory Rte_Reciprocal
  imports Prelude
begin

text \<open>
  Division by multiplication with a reciprocal (\<^verbatim>\<open>src/rte_lib/include/rte_reciprocal.h\<close>).  The functions that compute a reciprocal are only
  declared in the repository; the header names the paper whose constants they use (Granlund and Montgomery, Division by Invariant
  Integers Using Multiplication), and \<open>gm_reciprocal\<close> says that a reciprocal has these constants.
\<close>

section \<open>Operations\<close>

record rte_reciprocal =
  rc_m :: u32
  rc_sh1 :: u8
  rc_sh2 :: u8

record rte_reciprocal_u64 =
  rc64_m :: u64
  rc64_sh1 :: u8
  rc64_sh2 :: u8

text \<open>A shift by the width of the operand or more is undefined in C.\<close>

definition shift_right :: "'a::len word \<Rightarrow> u8 \<Rightarrow> 'a word cres" where
  "shift_right w n = (if unat n < LENGTH('a) then Inr (drop_bit (unat n) w) else Inl Undefined)"

definition rte_reciprocal_divide :: "u32 \<Rightarrow> rte_reciprocal \<Rightarrow> u32 cres" where
  "rte_reciprocal_divide a R =
     (let t = ucast (drop_bit 32 (ucast a * ucast (rc_m R) :: u64)) :: u32 in
      bindc (shift_right (a - t) (rc_sh1 R)) (\<lambda>s. shift_right (t + s) (rc_sh2 R)))"

text \<open>\<open>mullhi_u64\<close> with a type of 128 bits, and without.\<close>

definition mullhi_u64_int128 :: "u64 \<Rightarrow> u64 \<Rightarrow> u64" where
  "mullhi_u64_int128 x y = ucast (drop_bit 64 (ucast x * ucast y :: 128 word))"

definition mullhi_u64_portable :: "u64 \<Rightarrow> u64 \<Rightarrow> u64" where
  "mullhi_u64_portable x y =
     (let u1 = drop_bit 32 x; u0 = x AND 0xFFFFFFFF; v1 = drop_bit 32 y; v0 = y AND 0xFFFFFFFF;
          t = u0 * v0; k = drop_bit 32 t;
          t = u1 * v0 + k; w1 = t AND 0xFFFFFFFF; w2 = drop_bit 32 t;
          t = u0 * v1 + w1; k = drop_bit 32 t
      in u1 * v1 + w2 + k)"

definition rte_reciprocal_divide_u64 :: "u64 \<Rightarrow> rte_reciprocal_u64 \<Rightarrow> u64 cres" where
  "rte_reciprocal_divide_u64 a R =
     (let t = mullhi_u64_int128 a (rc64_m R) in
      bindc (shift_right (a - t) (rc64_sh1 R)) (\<lambda>s. shift_right (t + s) (rc64_sh2 R)))"

section \<open>The high half of a product\<close>

lemma unat_and_half: "unat ((w :: u64) AND 0xFFFFFFFF) = unat w mod 2 ^ 32"
  using unat_and_mask[of w 32] by (simp add: mask_eq_exp_minus_1)

lemma high_half_nat:
  fixes B :: nat
  assumes "0 < B"
  shows "((u1 * B + u0) * (v1 * B + v0)) div (B * B) =
    u1 * v1 + (u1 * v0 + u0 * v0 div B) div B + (u0 * v1 + (u1 * v0 + u0 * v0 div B) mod B) div B"
    (is "_ = ?q")
proof -
  define t where "t = u1 * v0 + u0 * v0 div B"
  define s where "s = u0 * v1 + t mod B"
  have "(u1 * B + u0) * (v1 * B + v0) = u1 * v1 * (B * B) + (u0 * v1 + u1 * v0) * B + (u0 * v0 div B * B + u0 * v0 mod B)"
    by (simp add: algebra_simps)
  also have "\<dots> = u1 * v1 * (B * B) + (u0 * v1 + t) * B + u0 * v0 mod B" by (simp add: t_def algebra_simps)
  also have "u0 * v1 + t = s + t div B * B" by (simp add: s_def)
  also have "u1 * v1 * (B * B) + (s + t div B * B) * B = (u1 * v1 + t div B) * (B * B) + s * B" by (simp add: algebra_simps)
  also have "s * B = s div B * (B * B) + s mod B * B"
    by (metis div_mult_mod_eq distrib_right mult.assoc)
  also have "(u1 * v1 + t div B) * (B * B) + (s div B * (B * B) + s mod B * B) + u0 * v0 mod B =
      (u1 * v1 + t div B + s div B) * (B * B) + (s mod B * B + u0 * v0 mod B)"
    by (simp add: algebra_simps)
  finally have eq: "(u1 * B + u0) * (v1 * B + v0) = (u1 * v1 + t div B + s div B) * (B * B) + (s mod B * B + u0 * v0 mod B)" .
  have "s mod B * B + u0 * v0 mod B < (s mod B + 1) * B" using assms by simp
  also have "\<dots> \<le> B * B" using assms by (intro mult_right_mono) (simp_all add: Suc_leI)
  finally have r: "s mod B * B + u0 * v0 mod B < B * B" .
  then have "(u1 * B + u0) * (v1 * B + v0) div (B * B) = u1 * v1 + t div B + s div B"
    unfolding eq by (intro div_nat_eqI) (simp_all add: mult.commute)
  then show ?thesis by (simp add: t_def s_def)
qed

lemma unat_mullhi_int128: "unat (mullhi_u64_int128 x y) = unat x * unat y div 2 ^ 64"
proof -
  have x: "unat x < 2 ^ 64" and y: "unat y < 2 ^ 64" using unsigned_less[of x] unsigned_less[of y] by simp_all
  have p: "unat x * unat y < 2 ^ 64 * 2 ^ 64" using x y by (intro mult_strict_mono) simp_all
  then have "unat (ucast x * ucast y :: 128 word) = unat x * unat y"
    by (subst unat_word_ariths) (simp add: unat_ucast_wider)
  then have "unat (drop_bit 64 (ucast x * ucast y :: 128 word)) = unat x * unat y div 2 ^ 64"
    by (simp add: unat_drop_bit)
  moreover have "unat x * unat y div 2 ^ 64 < 2 ^ 64" using p by (simp add: less_mult_imp_div_less)
  ultimately show ?thesis by (simp add: mullhi_u64_int128_def unsigned_ucast_eq take_bit_nat_eq_self)
qed

lemma half_product: "a < 2 ^ 32 \<Longrightarrow> b < 2 ^ 32 \<Longrightarrow> c < 2 ^ 32 \<Longrightarrow> a * b + c < (2 ^ 64 :: nat)"
proof -
  assume a: "a < 2 ^ 32" and b: "b < 2 ^ 32" and c: "c < (2 :: nat) ^ 32"
  then have "a * b \<le> (2 ^ 32 - 1) * (2 ^ 32 - 1)" by (intro mult_mono) simp_all
  with c show ?thesis by simp
qed

lemma unat_mullhi_portable: "unat (mullhi_u64_portable x y) = unat x * unat y div 2 ^ 64"
proof -
  define u1 u0 v1 v0 where uv: "u1 = drop_bit 32 x" "u0 = x AND 0xFFFFFFFF" "v1 = drop_bit 32 y" "v0 = y AND 0xFFFFFFFF"
  have hl: "unat u1 < 2 ^ 32" "unat u0 < 2 ^ 32" "unat v1 < 2 ^ 32" "unat v0 < 2 ^ 32"
    using unat_u64_lt[of x] unat_u64_lt[of y]
    by (simp_all add: uv unat_drop_bit unat_and_half less_mult_imp_div_less)
  have xy: "unat x = unat u1 * 2 ^ 32 + unat u0" "unat y = unat v1 * 2 ^ 32 + unat v0"
    by (simp_all add: uv unat_drop_bit unat_and_half)
  define k where "k = drop_bit 32 (u0 * v0)"
  define t where "t = u1 * v0 + k"
  define s where "s = u0 * v1 + (t AND 0xFFFFFFFF)"
  have k: "unat k = unat u0 * unat v0 div 2 ^ 32" "unat k < 2 ^ 32"
    using half_product[OF hl(2) hl(4), of 0] by (simp_all add: k_def unat_drop_bit unat_mult_no_wrap less_mult_imp_div_less)
  have t: "unat t = unat u1 * unat v0 + unat k"
    using half_product[OF hl(1) hl(4) k(2)] by (simp add: t_def unat_add_no_wrap unat_mult_no_wrap)
  have tm: "unat (t AND 0xFFFFFFFF) = unat t mod 2 ^ 32" by (rule unat_and_half)
  have s: "unat s = unat u0 * unat v1 + unat t mod 2 ^ 32"
    using half_product[OF hl(2) hl(3), of "unat t mod 2 ^ 32"] by (simp add: s_def unat_add_no_wrap unat_mult_no_wrap tm)
  have q: "unat x * unat y div 2 ^ 64 = unat u1 * unat v1 + unat t div 2 ^ 32 + unat s div 2 ^ 32"
    using high_half_nat[of "2 ^ 32" "unat u1" "unat u0" "unat v1" "unat v0"] by (simp add: xy t s k)
  have "unat x * unat y < 2 ^ 64 * 2 ^ 64" using unsigned_less[of x] unsigned_less[of y] by (intro mult_strict_mono) simp_all
  then have "unat x * unat y div 2 ^ 64 < 2 ^ 64" by (simp add: less_mult_imp_div_less)
  then have "unat (u1 * v1 + drop_bit 32 t + drop_bit 32 s) = unat x * unat y div 2 ^ 64"
    unfolding q by (simp add: unat_add_no_wrap unat_mult_no_wrap unat_drop_bit)
  then show ?thesis by (simp add: mullhi_u64_portable_def Let_def uv k_def t_def s_def)
qed

section \<open>Division\<close>

definition gm_reciprocal :: "nat \<Rightarrow> nat \<Rightarrow> nat \<Rightarrow> nat \<Rightarrow> nat \<Rightarrow> bool" where
  "gm_reciprocal N d m sh1 sh2 \<longleftrightarrow> 0 < d \<and> (\<exists>l \<le> N. d \<le> 2 ^ l \<and> (l = 0 \<or> 2 ^ (l - 1) < d) \<and>
     m = 2 ^ N * (2 ^ l - d) div d + 1 \<and> sh1 = min l 1 \<and> sh2 = l - 1)"

text \<open>Multiplication with a reciprocal of \<open>N + 1\<close> bits and a shift is the division.\<close>

lemma reciprocal_exact:
  fixes M :: nat
  assumes a: "a < 2 ^ N" and d: "0 < d" and lo: "2 ^ (N + l) \<le> M * d" and hi: "M * d \<le> 2 ^ (N + l) + 2 ^ l"
  shows "M * a div 2 ^ (N + l) = a div d"
proof (rule div_nat_eqI)
  let ?P = "2 ^ (N + l) :: nat"
  have "?P * (a div d) \<le> M * d * (a div d)" using lo by (rule mult_right_mono) simp
  also have "\<dots> \<le> M * a" by (simp add: mult.assoc)
  finally show "?P * (a div d) \<le> M * a" .
  have "M * a * d = M * d * a" by simp
  also have "\<dots> \<le> (?P + 2 ^ l) * a" using hi by (rule mult_right_mono) simp
  also have "\<dots> < ?P * a + 2 ^ l * 2 ^ N" using a by (simp add: distrib_right)
  also have "\<dots> = ?P * (a + 1)" by (simp add: power_add)
  also have "\<dots> \<le> ?P * ((a div d + 1) * d)"
    using d by (intro mult_left_mono) (simp_all add: Suc_leI dividend_less_div_times)
  finally have "M * a * d < ?P * Suc (a div d) * d" by (simp only: Suc_eq_plus1 mult.assoc)
  then show "M * a < ?P * Suc (a div d)" by (simp only: mult_less_cancel2)
qed

text \<open>The sum of the two shifts, on natural numbers.\<close>

lemma gm_divide_nat:
  assumes a: "a < 2 ^ N" and gm: "gm_reciprocal N d m sh1 sh2"
  defines "t \<equiv> m * a div 2 ^ N"
  shows "t \<le> a" and "(t + (a - t) div 2 ^ sh1) div 2 ^ sh2 = a div d" and "sh1 < 2" and "sh2 < N \<or> sh2 = 0"
proof -
  from gm obtain l where d: "0 < d" and l: "l \<le> N" "d \<le> 2 ^ l" "l = 0 \<or> 2 ^ (l - 1) < d"
    and m: "m = 2 ^ N * (2 ^ l - d) div d + 1" and sh: "sh1 = min l 1" "sh2 = l - 1"
    by (auto simp: gm_reciprocal_def)
  have md: "m * d = 2 ^ N * (2 ^ l - d) div d * d + d" by (simp add: m distrib_right)
  have split: "(2 ^ N + m) * d = 2 ^ N * d + m * d" by (rule distrib_right)
  have pow: "2 ^ N * d + 2 ^ N * (2 ^ l - d) = 2 ^ (N + l)"
    using l(2) by (simp add: power_add flip: distrib_left)
  have "2 ^ N * (2 ^ l - d) \<le> m * d"
    unfolding md using d dividend_less_div_times[of d "2 ^ N * (2 ^ l - d)"] by simp
  then have lo: "2 ^ (N + l) \<le> (2 ^ N + m) * d" using pow split by simp
  have "m * d \<le> 2 ^ N * (2 ^ l - d) + 2 ^ l" unfolding md using l(2) by (intro add_mono) simp_all
  then have hi: "(2 ^ N + m) * d \<le> 2 ^ (N + l) + 2 ^ l" using pow split by simp
  have sum: "(2 ^ N + m) * a div 2 ^ N = a + t" by (simp add: t_def distrib_right)
  have q: "(a + t) div 2 ^ l = a div d"
    using reciprocal_exact[OF a d lo hi] sum by (simp add: power_add div_mult2_eq)
  have "m \<le> 2 ^ N"
  proof (cases "l = 0")
    case True with l(2) d m show ?thesis by (simp add: not_less_eq_eq)
  next
    case False
    then have "2 ^ l = 2 * (2 :: nat) ^ (l - 1)" by (simp add: power_eq_if)
    with l(3) False have "2 ^ l - d < d" by linarith
    then have "2 ^ N * (2 ^ l - d) < 2 ^ N * d" by simp
    then have "2 ^ N * (2 ^ l - d) div d < 2 ^ N" by (simp add: less_mult_imp_div_less)
    then show ?thesis by (simp add: m)
  qed
  then have "m * a \<le> 2 ^ N * a" by (rule mult_right_mono) simp
  then show ta: "t \<le> a" unfolding t_def by (metis div_le_mono nonzero_mult_div_cancel_left power_not_zero zero_neq_numeral)
  show "sh1 < 2" "sh2 < N \<or> sh2 = 0" using sh l(1) by auto
  show "(t + (a - t) div 2 ^ sh1) div 2 ^ sh2 = a div d"
  proof (cases "l = 0")
    case True
    with l(2) d have "d = 1" by simp
    with True sh q ta show ?thesis by simp
  next
    case False
    then have "2 ^ l = 2 * (2 :: nat) ^ (l - 1)" by (simp add: power_eq_if)
    moreover have "(a + t) div 2 = t + (a - t) div 2" using ta by linarith
    moreover have "sh1 = 1" using sh False by simp
    ultimately show ?thesis using sh(2) q by (simp add: div_mult2_eq)
  qed
qed

lemma gm_divide_word:
  fixes a t :: "'a::len word"
  assumes gm: "gm_reciprocal LENGTH('a) (unat d) m (unat sh1) (unat sh2)" and len: "2 \<le> LENGTH('a)"
    and t: "unat t = m * unat a div 2 ^ LENGTH('a)"
  shows "bindc (shift_right (a - t) sh1) (\<lambda>s. shift_right (t + s) sh2) = Inr (a div d)"
proof -
  note nat = gm_divide_nat[OF unsigned_less[of a] gm, folded t]
  have sh: "unat sh1 < LENGTH('a)" "unat sh2 < LENGTH('a)" using nat(3,4) len by auto
  have "t \<le> a" using nat(1) by (simp add: word_le_nat_alt)
  then have s: "unat (drop_bit (unat sh1) (a - t)) = (unat a - unat t) div 2 ^ unat sh1"
    by (simp add: unat_drop_bit unat_sub)
  have "(unat a - unat t) div 2 ^ unat sh1 \<le> unat a - unat t" "unat a < 2 ^ LENGTH('a)" by simp_all
  then have "unat t + (unat a - unat t) div 2 ^ unat sh1 < 2 ^ LENGTH('a)" using nat(1) by linarith
  then have "unat (t + drop_bit (unat sh1) (a - t)) = unat t + (unat a - unat t) div 2 ^ unat sh1"
    by (simp add: unat_add_no_wrap s)
  then have "unat (drop_bit (unat sh2) (t + drop_bit (unat sh1) (a - t))) = unat (a div d)"
    by (simp add: unat_drop_bit nat(2) unat_div)
  then show ?thesis using sh by (simp add: shift_right_def word_unat_eq_iff)
qed

lemma mullhi_variants_agree: "mullhi_u64_portable x y = mullhi_u64_int128 x y"
  by (simp add: word_unat_eq_iff unat_mullhi_portable unat_mullhi_int128)

text \<open>C34: With the constants of the paper, the multiplication and the two shifts compute the exact quotient for every dividend, in 32 and in
  64 bits, and no shift is by the width of its operand or more.\<close>

theorem reciprocal_divide_exact:
  assumes "gm_reciprocal 32 (unat d) (unat (rc_m R)) (unat (rc_sh1 R)) (unat (rc_sh2 R))"
    and "gm_reciprocal 64 (unat d') (unat (rc64_m R')) (unat (rc64_sh1 R')) (unat (rc64_sh2 R'))"
  shows "rte_reciprocal_divide a R = Inr (a div d) \<and> rte_reciprocal_divide_u64 a' R' = Inr (a' div d')"
proof
  have lt: "unat a * unat (rc_m R) < 2 ^ 32 * 2 ^ 32" using unsigned_less[of a] unsigned_less[of "rc_m R"] by (intro mult_strict_mono) simp_all
  then have "unat (ucast a * ucast (rc_m R) :: u64) = unat a * unat (rc_m R)" by (simp add: unat_mult_no_wrap unat_ucast_wider)
  moreover have "unat a * unat (rc_m R) div 2 ^ 32 < 2 ^ 32" using lt by (simp add: less_mult_imp_div_less)
  ultimately have "unat (ucast (drop_bit 32 (ucast a * ucast (rc_m R) :: u64)) :: u32) = unat (rc_m R) * unat a div 2 ^ LENGTH(32)"
    by (simp add: unsigned_ucast_eq take_bit_nat_eq_self unat_drop_bit mult.commute)
  from gm_divide_word[OF _ _ this] assms(1) show "rte_reciprocal_divide a R = Inr (a div d)"
    by (simp add: rte_reciprocal_divide_def Let_def)
  have "unat (mullhi_u64_int128 a' (rc64_m R')) = unat (rc64_m R') * unat a' div 2 ^ LENGTH(64)"
    by (simp add: unat_mullhi_int128 mult.commute)
  from gm_divide_word[OF _ _ this] assms(2) show "rte_reciprocal_divide_u64 a' R' = Inr (a' div d')"
    by (simp add: rte_reciprocal_divide_u64_def Let_def)
qed

theorem reciprocal_divide_exact_witness:
  "rte_reciprocal_divide 100 \<lparr>rc_m = 613566757, rc_sh1 = 1, rc_sh2 = 2\<rparr> = Inr 14 \<and>
     rte_reciprocal_divide_u64 (2 ^ 64 - 1) \<lparr>rc64_m = 11068046444225730970, rc64_sh1 = 1, rc64_sh2 = 2\<rparr> = Inr 3689348814741910323"
proof -
  have "gm_reciprocal 32 7 613566757 1 2" unfolding gm_reciprocal_def by (intro conjI exI[of _ 3]) simp_all
  moreover have "gm_reciprocal 64 5 11068046444225730970 1 2" unfolding gm_reciprocal_def by (intro conjI exI[of _ 3]) simp_all
  ultimately show ?thesis
    using reciprocal_divide_exact[of 7 "\<lparr>rc_m = 613566757, rc_sh1 = 1, rc_sh2 = 2\<rparr>" 5
      "\<lparr>rc64_m = 11068046444225730970, rc64_sh1 = 1, rc64_sh2 = 2\<rparr>" 100 "2 ^ 64 - 1"] by simp
qed

end
