(* ===== verification/Rte_Time.thy ===== *)
theory Rte_Time
  imports Prelude
begin

text \<open>
  The cycle counter of \<^verbatim>\<open>src/rte_lib/include/rte_time.h\<close>: a hardware counter of \<open>w\<close> bits that wraps around is turned into
  nanoseconds, the fraction of a nanosecond being kept for the next reading.  It is proved to follow the true number of ticks exactly.
\<close>

section \<open>Operations\<close>

definition NSEC_PER_SEC :: u64 where "NSEC_PER_SEC = 1000000000"

record rte_timecounter =
  cycle_last :: u64
  nsec :: u64
  nsec_mask :: u64
  nsec_frac :: u64
  cc_mask :: u64
  cc_shift :: u32

definition rte_cyclecounter_cycles_to_ns :: "rte_timecounter \<Rightarrow> u64 \<Rightarrow> (u64 \<times> rte_timecounter) cres" where
  "rte_cyclecounter_cycles_to_ns tc cycles =
     (let ns = cycles + nsec_frac tc; tc = tc\<lparr>nsec_frac := ns AND nsec_mask tc\<rparr> in
      if unat (cc_shift tc) < 64 then Inr (drop_bit (unat (cc_shift tc)) ns, tc) else Inl Undefined)"

definition rte_timecounter_update :: "rte_timecounter \<Rightarrow> u64 \<Rightarrow> (u64 \<times> rte_timecounter) cres" where
  "rte_timecounter_update tc cycle_now =
     (let cycle_delta =
        (if cycle_last tc \<le> cycle_now then (cycle_now - cycle_last tc) AND cc_mask tc
         else (NOT (cycle_last tc - cycle_now) AND cc_mask tc) + 1) in
      bindc (rte_cyclecounter_cycles_to_ns tc cycle_delta) (\<lambda>(ns_offset, tc).
      let tc = tc\<lparr>cycle_last := cycle_now, nsec := nsec tc + ns_offset\<rparr> in Inr (nsec tc, tc)))"

text \<open>The members are signed in C; the conversions to \<open>uint64_t\<close> keep their bits.\<close>

record timespec =
  tv_sec :: u64
  tv_nsec :: u64

definition rte_timespec_to_ns :: "timespec \<Rightarrow> u64" where
  "rte_timespec_to_ns ts = tv_sec ts * NSEC_PER_SEC + tv_nsec ts"

definition rte_ns_to_timespec :: "u64 \<Rightarrow> timespec" where
  "rte_ns_to_timespec n =
     (if n = 0 then \<lparr>tv_sec = 0, tv_nsec = 0\<rparr> else \<lparr>tv_sec = n div NSEC_PER_SEC, tv_nsec = n mod NSEC_PER_SEC\<rparr>)"

section \<open>The ticks behind the readings\<close>

text \<open>A time counter for a hardware counter of \<open>w\<close> bits, the time it has measured in ticks, and a series of readings.\<close>

definition timecounter_ok :: "nat \<Rightarrow> rte_timecounter \<Rightarrow> bool" where
  "timecounter_ok w tc \<longleftrightarrow> 0 < w \<and> w < 64 \<and> cc_mask tc = mask w \<and> unat (cc_shift tc) < 64 \<and>
     nsec_mask tc = mask (unat (cc_shift tc)) \<and> unat (nsec_frac tc) < 2 ^ unat (cc_shift tc)"

definition ticks_of :: "rte_timecounter \<Rightarrow> nat" where
  "ticks_of tc = unat (nsec tc) * 2 ^ unat (cc_shift tc) + unat (nsec_frac tc)"

definition reading :: "nat \<Rightarrow> nat \<Rightarrow> u64" where
  "reading w t = of_nat (t mod 2 ^ w)"

fun ticks_rise :: "nat \<Rightarrow> nat \<Rightarrow> nat list \<Rightarrow> bool" where
  "ticks_rise w t [] \<longleftrightarrow> True"
| "ticks_rise w t (t' # ts) \<longleftrightarrow> t \<le> t' \<and> t' - t < 2 ^ w \<and> ticks_rise w t' ts"

fun read_all :: "nat \<Rightarrow> nat list \<Rightarrow> rte_timecounter \<Rightarrow> rte_timecounter cres" where
  "read_all w [] tc = Inr tc"
| "read_all w (t # ts) tc = bindc (rte_timecounter_update tc (reading w t)) (\<lambda>(_, tc). read_all w ts tc)"

lemma pow2_less_64: "w < 64 \<Longrightarrow> (2 :: nat) ^ w \<le> 2 ^ 63"
  by (intro power_increasing) simp_all

lemma unat_reading: "w < 64 \<Longrightarrow> unat (reading w t) = t mod 2 ^ w"
proof -
  assume "w < 64"
  then have "t mod 2 ^ w < 2 ^ 63" by (intro less_le_trans[OF _ pow2_less_64]) simp_all
  then show ?thesis by (simp add: reading_def unat_of_nat take_bit_nat_eq_self)
qed

lemma wrapped_distance:
  fixes t t' :: nat
  assumes "t \<le> t'" and "t' - t < p"
  shows "t' - t = (if t mod p \<le> t' mod p then t' mod p - t mod p else p - (t mod p - t' mod p))"
proof -
  define k where "k = t' - t"
  have r: "t mod p < p" using assms(2) by (intro mod_less_divisor) simp
  have "t' = t + k" using assms(1) by (simp add: k_def)
  then have m: "t' mod p = (t mod p + k) mod p" by (simp only: mod_add_left_eq)
  have "t' mod p = (if t mod p + k < p then t mod p + k else t mod p + k - p)"
  proof (cases "t mod p + k < p")
    case False
    then have "(t mod p + k) mod p = (t mod p + k - p) mod p" by (simp add: le_mod_geq)
    also have "\<dots> = t mod p + k - p" using r assms(2) unfolding k_def [symmetric] by (intro mod_less) linarith
    finally show ?thesis using False by (simp add: m)
  qed (simp add: m)
  then show ?thesis using r assms(2) by (auto simp: k_def)
qed

lemma unat_not_mask:
  assumes "w < 64" and "unat (x :: u64) < 2 ^ w"
  shows "unat (NOT x AND mask w) = 2 ^ w - 1 - unat x"
proof -
  have "NOT x AND mask w = mask w - x"
    using unat_and_mask[of x w] assms(2) unfolding take_bit_eq_mask [symmetric]
    by (simp add: take_bit_not_eq_mask_diff unsigned_word_eqI)
  moreover have m: "(mask w :: u64) = of_nat (2 ^ w - 1)" by (simp add: mask_eq_exp_minus_1 of_nat_diff)
  have "unat (mask w :: u64) = 2 ^ w - 1"
    unfolding m unat_of_nat using pow2_less_64[OF assms(1)] by (intro mod_less) simp
  ultimately show ?thesis using assms(2) by (simp add: unat_sub word_le_nat_alt)
qed

lemma update_delta:
  assumes "w < 64" and "t \<le> t'" and "t' - t < 2 ^ w"
  shows "unat (if reading w t \<le> reading w t' then (reading w t' - reading w t) AND mask w
         else (NOT (reading w t - reading w t') AND mask w) + 1) = t' - t"
proof (cases "reading w t \<le> reading w t'")
  case True
  then show ?thesis using wrapped_distance[OF assms(2,3)] assms
    by (simp add: unat_and_mask unat_sub unat_reading word_le_nat_alt)
next
  case False
  then have "unat (reading w t - reading w t') = t mod 2 ^ w - t' mod 2 ^ w" using assms(1)
    by (simp add: unat_sub unat_reading word_le_nat_alt)
  moreover have "t mod 2 ^ w < 2 ^ w" by simp
  ultimately have "unat (NOT (reading w t - reading w t') AND mask w) = 2 ^ w - 1 - (t mod 2 ^ w - t' mod 2 ^ w)"
    using assms(1) by (subst unat_not_mask) linarith+
  moreover have "t' mod 2 ^ w < t mod 2 ^ w" using False assms(1) by (simp add: unat_reading word_le_nat_alt)
  ultimately have "unat ((NOT (reading w t - reading w t') AND mask w) + 1) = 2 ^ w - (t mod 2 ^ w - t' mod 2 ^ w)"
    using pow2_less_64[OF assms(1)] \<open>t mod 2 ^ w < 2 ^ w\<close> by (subst unat_add_no_wrap) (simp, unfold unat_1, linarith)
  then show ?thesis using False wrapped_distance[OF assms(2,3)] assms(1) by (simp add: unat_reading word_le_nat_alt)
qed

section \<open>Statements\<close>

lemma timecounter_step:
  assumes ok: "timecounter_ok w tc" and last: "cycle_last tc = reading w t" and rise: "t \<le> t'" "t' - t < 2 ^ w"
    and fits: "ticks_of tc + (t' - t) < 2 ^ 64 * 2 ^ unat (cc_shift tc)"
  shows "\<exists>tc'. rte_timecounter_update tc (reading w t') = Inr (nsec tc', tc') \<and> timecounter_ok w tc' \<and>
    cycle_last tc' = reading w t' \<and> cc_shift tc' = cc_shift tc \<and> ticks_of tc' = ticks_of tc + (t' - t)"
proof -
  from ok have w: "w < 64" "cc_mask tc = mask w" and sh: "unat (cc_shift tc) < 64"
    and ns: "nsec_mask tc = mask (unat (cc_shift tc))" "unat (nsec_frac tc) < 2 ^ unat (cc_shift tc)"
    by (simp_all add: timecounter_ok_def)
  define s where "s = unat (cc_shift tc)"
  define c where "c = (if reading w t \<le> reading w t' then (reading w t' - reading w t) AND mask w
         else (NOT (reading w t - reading w t') AND mask w) + 1)"
  have c: "unat c = t' - t" unfolding c_def by (rule update_delta[OF w(1) rise])
  have "unat c + unat (nsec_frac tc) < 2 ^ 63 + 2 ^ 63"
    using pow2_less_64[OF w(1)] pow2_less_64[OF sh] rise(2) ns(2) c by linarith
  then have sum: "unat (c + nsec_frac tc) = t' - t + unat (nsec_frac tc)" by (simp add: unat_add_no_wrap c)
  let ?n = "t' - t + unat (nsec_frac tc)"
  have frac: "unat ((c + nsec_frac tc) AND nsec_mask tc) = ?n mod 2 ^ s" unfolding ns(1) s_def unat_and_mask sum ..
  have off: "unat (drop_bit s (c + nsec_frac tc)) = ?n div 2 ^ s" by (simp add: unat_drop_bit sum)
  have total: "ticks_of tc + (t' - t) = (unat (nsec tc) + ?n div 2 ^ s) * 2 ^ s + ?n mod 2 ^ s"
    unfolding distrib_right add.assoc div_mult_mod_eq by (simp add: ticks_of_def s_def)
  have "unat (nsec tc) + ?n div 2 ^ s < 2 ^ 64"
  proof (rule ccontr)
    assume "\<not> ?thesis"
    then have "2 ^ 64 * 2 ^ s \<le> (unat (nsec tc) + ?n div 2 ^ s) * 2 ^ s" by (intro mult_right_mono) simp_all
    with fits total show False unfolding s_def [symmetric] by linarith
  qed
  then have nsec: "unat (nsec tc + drop_bit s (c + nsec_frac tc)) = unat (nsec tc) + ?n div 2 ^ s"
    by (simp add: unat_add_no_wrap off)
  define tc' where "tc' = tc\<lparr>nsec_frac := (c + nsec_frac tc) AND nsec_mask tc, cycle_last := reading w t',
    nsec := nsec tc + drop_bit s (c + nsec_frac tc)\<rparr>"
  have "rte_timecounter_update tc (reading w t') = Inr (nsec tc', tc')"
    unfolding rte_timecounter_update_def last w(2) c_def [symmetric] Let_def
    using sh by (simp add: rte_cyclecounter_cycles_to_ns_def Let_def tc'_def s_def)
  moreover have "timecounter_ok w tc'" using ok frac by (simp add: timecounter_ok_def tc'_def s_def)
  moreover have "ticks_of tc' = ticks_of tc + (t' - t)" unfolding total
    by (simp add: ticks_of_def tc'_def nsec frac s_def [symmetric])
  ultimately show ?thesis by (intro exI[of _ tc']) (simp add: tc'_def)
qed

lemma ticks_rise_last: "ticks_rise w t ts \<Longrightarrow> t \<le> last (t # ts)"
  by (induction ts arbitrary: t) (auto split: if_splits intro: order_trans)

text \<open>C35: However often the hardware counter wraps around, as long as it is read at least once per turn and the nanoseconds fit into 64 bits, the time
  counter has measured exactly the ticks that passed: no fraction of a nanosecond is lost or counted twice.\<close>

theorem timecounter_exact:
  assumes "timecounter_ok w tc" and "cycle_last tc = reading w t" and "ticks_rise w t ts"
    and "ticks_of tc + (last (t # ts) - t) < 2 ^ 64 * 2 ^ unat (cc_shift tc)"
  shows "\<exists>tc'. read_all w ts tc = Inr tc' \<and> timecounter_ok w tc' \<and> ticks_of tc' = ticks_of tc + (last (t # ts) - t)"
  using assms
proof (induction ts arbitrary: t tc)
  case (Cons t' ts)
  from Cons.prems(3) have rise: "t \<le> t'" "t' - t < 2 ^ w" "ticks_rise w t' ts" by simp_all
  have le: "t' \<le> last (t' # ts)" using ticks_rise_last[OF rise(3)] .
  from Cons.prems(4) rise(1) le have fits: "ticks_of tc + (t' - t) + (last (t' # ts) - t') < 2 ^ 64 * 2 ^ unat (cc_shift tc)" by simp
  then have "ticks_of tc + (t' - t) < 2 ^ 64 * 2 ^ unat (cc_shift tc)" by linarith
  from timecounter_step[OF Cons.prems(1,2) rise(1,2) this] obtain tc1 where tc1:
    "rte_timecounter_update tc (reading w t') = Inr (nsec tc1, tc1)" "timecounter_ok w tc1" "cycle_last tc1 = reading w t'"
    "cc_shift tc1 = cc_shift tc" "ticks_of tc1 = ticks_of tc + (t' - t)" by blast
  from Cons.IH[OF tc1(2,3) rise(3)] fits tc1(4,5) show ?case using tc1(1) rise(1) le by auto
qed simp

theorem timecounter_exact_witness:
  "\<exists>tc'. read_all 8 [250, 260, 300, 520] \<lparr>cycle_last = 200, nsec = 7, nsec_mask = 3, nsec_frac = 1, cc_mask = 255, cc_shift = 2\<rparr> = Inr tc' \<and>
     timecounter_ok 8 tc' \<and> ticks_of tc' = 29 + 320"
proof -
  have "timecounter_ok 8 \<lparr>cycle_last = 200, nsec = 7, nsec_mask = 3, nsec_frac = 1, cc_mask = 255, cc_shift = 2\<rparr>"
    by (simp add: timecounter_ok_def mask_eq_exp_minus_1)
  from timecounter_exact[OF this, of 200 "[250, 260, 300, 520]"] show ?thesis by (simp add: reading_def ticks_of_def)
qed

text \<open>A number of nanoseconds survives the conversion to seconds and nanoseconds and back.\<close>

lemma timespec_roundtrip: "rte_timespec_to_ns (rte_ns_to_timespec n) = n"
  by (simp add: rte_timespec_to_ns_def rte_ns_to_timespec_def div_mult_mod_eq)

end
