(* ===== verification/Rte_Bits.thy ===== *)
theory Rte_Bits
  imports Byte_Memory Rte_Common
begin

text \<open>
  Single bits of a word (\<^verbatim>\<open>src/rte_lib/include/rte_bitops.h\<close>), the order of its bytes (\<^verbatim>\<open>src/rte_lib/include/generic/rte_byteorder.h\<close>, on a
  little-endian host) and the pointer and cache line macros of \<^verbatim>\<open>src/rte_lib/include/rte_common.h\<close>.  The word at the address is an argument
  and, where it is written, part of the result.  \<open>RTE_ASSERT\<close> is switched off in the build; a shift by the width or more is undefined.
\<close>

section \<open>Bits\<close>

definition RTE_BIT64 :: "u32 \<Rightarrow> u64 cres" where
  "RTE_BIT64 nr = (if nr < 64 then Inr (push_bit (unat nr) 1) else Inl Undefined)"

definition RTE_BIT32 :: "u32 \<Rightarrow> u32 cres" where
  "RTE_BIT32 nr = (if nr < 32 then Inr (push_bit (unat nr) 1) else Inl Undefined)"

definition rte_bit_relaxed_get32 :: "u32 \<Rightarrow> u32 \<Rightarrow> u32 cres" where
  "rte_bit_relaxed_get32 nr v = bindc (RTE_BIT32 nr) (\<lambda>msk. Inr (v AND msk))"

definition rte_bit_relaxed_set32 :: "u32 \<Rightarrow> u32 \<Rightarrow> u32 cres" where
  "rte_bit_relaxed_set32 nr v = bindc (RTE_BIT32 nr) (\<lambda>msk. Inr (v OR msk))"

definition rte_bit_relaxed_clear32 :: "u32 \<Rightarrow> u32 \<Rightarrow> u32 cres" where
  "rte_bit_relaxed_clear32 nr v = bindc (RTE_BIT32 nr) (\<lambda>msk. Inr (v AND NOT msk))"

definition rte_bit_relaxed_test_and_set32 :: "u32 \<Rightarrow> u32 \<Rightarrow> (u32 \<times> u32) cres" where
  "rte_bit_relaxed_test_and_set32 nr v = bindc (RTE_BIT32 nr) (\<lambda>msk. Inr (v AND msk, v OR msk))"

definition rte_bit_relaxed_test_and_clear32 :: "u32 \<Rightarrow> u32 \<Rightarrow> (u32 \<times> u32) cres" where
  "rte_bit_relaxed_test_and_clear32 nr v = bindc (RTE_BIT32 nr) (\<lambda>msk. Inr (v AND msk, v AND NOT msk))"

definition rte_bit_relaxed_get64 :: "u32 \<Rightarrow> u64 \<Rightarrow> u64 cres" where
  "rte_bit_relaxed_get64 nr v = bindc (RTE_BIT64 nr) (\<lambda>msk. Inr (v AND msk))"

definition rte_bit_relaxed_set64 :: "u32 \<Rightarrow> u64 \<Rightarrow> u64 cres" where
  "rte_bit_relaxed_set64 nr v = bindc (RTE_BIT64 nr) (\<lambda>msk. Inr (v OR msk))"

definition rte_bit_relaxed_clear64 :: "u32 \<Rightarrow> u64 \<Rightarrow> u64 cres" where
  "rte_bit_relaxed_clear64 nr v = bindc (RTE_BIT64 nr) (\<lambda>msk. Inr (v AND NOT msk))"

definition rte_bit_relaxed_test_and_set64 :: "u32 \<Rightarrow> u64 \<Rightarrow> (u64 \<times> u64) cres" where
  "rte_bit_relaxed_test_and_set64 nr v = bindc (RTE_BIT64 nr) (\<lambda>msk. Inr (v, v OR msk))"

definition rte_bit_relaxed_test_and_clear64 :: "u32 \<Rightarrow> u64 \<Rightarrow> (u64 \<times> u64) cres" where
  "rte_bit_relaxed_test_and_clear64 nr v = bindc (RTE_BIT64 nr) (\<lambda>msk. Inr (v AND msk, v AND NOT msk))"

section \<open>Byte order\<close>

definition RTE_STATIC_BSWAP16 :: "u16 \<Rightarrow> u16" where
  "RTE_STATIC_BSWAP16 v = push_bit 8 (v AND 0x00ff) OR drop_bit 8 (v AND 0xff00)"

definition RTE_STATIC_BSWAP32 :: "u32 \<Rightarrow> u32" where
  "RTE_STATIC_BSWAP32 v =
     push_bit 24 (v AND 0x000000ff) OR push_bit 8 (v AND 0x0000ff00) OR
     drop_bit 8 (v AND 0x00ff0000) OR drop_bit 24 (v AND 0xff000000)"

definition RTE_STATIC_BSWAP64 :: "u64 \<Rightarrow> u64" where
  "RTE_STATIC_BSWAP64 v =
     push_bit 56 (v AND 0x00000000000000ff) OR push_bit 40 (v AND 0x000000000000ff00) OR
     push_bit 24 (v AND 0x0000000000ff0000) OR push_bit 8 (v AND 0x00000000ff000000) OR
     drop_bit 8 (v AND 0x000000ff00000000) OR drop_bit 24 (v AND 0x0000ff0000000000) OR
     drop_bit 40 (v AND 0x00ff000000000000) OR drop_bit 56 (v AND 0xff00000000000000)"

definition rte_constant_bswap16 :: "u16 \<Rightarrow> u16" where "rte_constant_bswap16 x = RTE_STATIC_BSWAP16 x"
definition rte_constant_bswap32 :: "u32 \<Rightarrow> u32" where "rte_constant_bswap32 x = RTE_STATIC_BSWAP32 x"
definition rte_constant_bswap64 :: "u64 \<Rightarrow> u64" where "rte_constant_bswap64 x = RTE_STATIC_BSWAP64 x"

definition RTE_BE16 :: "u16 \<Rightarrow> u16" where "RTE_BE16 v = RTE_STATIC_BSWAP16 v"
definition RTE_BE32 :: "u32 \<Rightarrow> u32" where "RTE_BE32 v = RTE_STATIC_BSWAP32 v"
definition RTE_BE64 :: "u64 \<Rightarrow> u64" where "RTE_BE64 v = RTE_STATIC_BSWAP64 v"
definition RTE_LE16 :: "u16 \<Rightarrow> u16" where "RTE_LE16 v = v"
definition RTE_LE32 :: "u32 \<Rightarrow> u32" where "RTE_LE32 v = v"
definition RTE_LE64 :: "u64 \<Rightarrow> u64" where "RTE_LE64 v = v"

section \<open>Pointers and cache lines\<close>

definition RTE_PTR_ADD :: "u64 \<Rightarrow> u64 \<Rightarrow> u64" where "RTE_PTR_ADD ptr x = ptr + x"
definition RTE_PTR_SUB :: "u64 \<Rightarrow> u64 \<Rightarrow> u64" where "RTE_PTR_SUB ptr x = ptr - x"
definition RTE_PTR_DIFF :: "u64 \<Rightarrow> u64 \<Rightarrow> u64" where "RTE_PTR_DIFF ptr1 ptr2 = ptr1 - ptr2"
definition RTE_PTR_ALIGN_FLOOR :: "u64 \<Rightarrow> u64 \<Rightarrow> u64" where "RTE_PTR_ALIGN_FLOOR ptr align = RTE_ALIGN_FLOOR ptr align"
definition RTE_PTR_ALIGN_CEIL :: "u64 \<Rightarrow> u64 \<Rightarrow> u64" where
  "RTE_PTR_ALIGN_CEIL ptr align = RTE_PTR_ALIGN_FLOOR (RTE_PTR_ADD ptr (align - 1)) align"
definition RTE_PTR_ALIGN :: "u64 \<Rightarrow> u64 \<Rightarrow> u64" where "RTE_PTR_ALIGN ptr align = RTE_PTR_ALIGN_CEIL ptr align"

definition RTE_CACHE_LINE_ROUNDUP :: "u64 \<Rightarrow> u64" where
  "RTE_CACHE_LINE_ROUNDUP n = 64 * ((n + 64 - 1) div 64)"

definition RTE_MIN :: "'a::len word \<Rightarrow> 'a word \<Rightarrow> 'a word" where "RTE_MIN a b = (if a < b then a else b)"
definition RTE_MAX :: "'a::len word \<Rightarrow> 'a word \<Rightarrow> 'a word" where "RTE_MAX a b = (if a > b then a else b)"

section \<open>Bits as a set\<close>

definition bits_of :: "'a::len word \<Rightarrow> nat set" where "bits_of w = {n. bit w n}"

lemma bits_of_upd:
  fixes v :: "'a::len word"
  assumes "n < LENGTH('a)"
  shows "bits_of (v OR push_bit n 1) = insert n (bits_of v)" and "bits_of (v AND NOT (push_bit n 1)) = bits_of v - {n}"
    and "v AND push_bit n 1 \<noteq> 0 \<longleftrightarrow> n \<in> bits_of v"
proof -
  show "bits_of (v OR push_bit n 1) = insert n (bits_of v)" "bits_of (v AND NOT (push_bit n 1)) = bits_of v - {n}"
    using assms bit_imp_le_length[of v] by (auto simp: bits_of_def bit_simps)
  show "v AND push_bit n 1 \<noteq> 0 \<longleftrightarrow> n \<in> bits_of v"
    using assms unfolding bit_eq_iff[of "v AND push_bit n 1"] by (auto simp: bits_of_def bit_simps)
qed

lemma RTE_BIT_Inr: "unat nr < 32 \<Longrightarrow> RTE_BIT32 nr = Inr (push_bit (unat nr) 1)" "unat nr < 64 \<Longrightarrow> RTE_BIT64 nr = Inr (push_bit (unat nr) 1)"
  by (simp_all add: RTE_BIT32_def RTE_BIT64_def word_less_nat_alt)

text \<open>Set, clear and test work on exactly the bit asked for, and the functions that test first report the bit as it was: the 32-bit ones
  and \<open>rte_bit_relaxed_test_and_clear64\<close>.\<close>

lemma bitops32_set:
  assumes "unat nr < 32"
  shows "\<exists>w. rte_bit_relaxed_set32 nr v = Inr w \<and> bits_of w = insert (unat nr) (bits_of v)"
    and "\<exists>w. rte_bit_relaxed_clear32 nr v = Inr w \<and> bits_of w = bits_of v - {unat nr}"
    and "\<exists>b. rte_bit_relaxed_get32 nr v = Inr b \<and> (b \<noteq> 0 \<longleftrightarrow> unat nr \<in> bits_of v)"
    and "\<exists>b w. rte_bit_relaxed_test_and_set32 nr v = Inr (b, w) \<and> (b \<noteq> 0 \<longleftrightarrow> unat nr \<in> bits_of v) \<and> bits_of w = insert (unat nr) (bits_of v)"
    and "\<exists>b w. rte_bit_relaxed_test_and_clear32 nr v = Inr (b, w) \<and> (b \<noteq> 0 \<longleftrightarrow> unat nr \<in> bits_of v) \<and> bits_of w = bits_of v - {unat nr}"
  using assms bits_of_upd[of "unat nr" v]
  by (simp_all add: rte_bit_relaxed_set32_def rte_bit_relaxed_clear32_def rte_bit_relaxed_get32_def
    rte_bit_relaxed_test_and_set32_def rte_bit_relaxed_test_and_clear32_def RTE_BIT_Inr)

lemma bitops64_set:
  assumes "unat nr < 64"
  shows "\<exists>w. rte_bit_relaxed_set64 nr v = Inr w \<and> bits_of w = insert (unat nr) (bits_of v)"
    and "\<exists>w. rte_bit_relaxed_clear64 nr v = Inr w \<and> bits_of w = bits_of v - {unat nr}"
    and "\<exists>b. rte_bit_relaxed_get64 nr v = Inr b \<and> (b \<noteq> 0 \<longleftrightarrow> unat nr \<in> bits_of v)"
    and "\<exists>b w. rte_bit_relaxed_test_and_clear64 nr v = Inr (b, w) \<and> (b \<noteq> 0 \<longleftrightarrow> unat nr \<in> bits_of v) \<and> bits_of w = bits_of v - {unat nr}"
  using assms bits_of_upd[of "unat nr" v]
  by (simp_all add: rte_bit_relaxed_set64_def rte_bit_relaxed_clear64_def rte_bit_relaxed_get64_def
    rte_bit_relaxed_test_and_clear64_def RTE_BIT_Inr)

text \<open>\<open>rte_bit_relaxed_test_and_set64\<close> returns the whole word instead of the bit: its result is zero exactly when no bit was set at all.\<close>

lemma test_and_set64_returns_word:
  assumes "unat nr < 64"
  shows "\<exists>b w. rte_bit_relaxed_test_and_set64 nr v = Inr (b, w) \<and> (b \<noteq> 0 \<longleftrightarrow> bits_of v \<noteq> {}) \<and> bits_of w = insert (unat nr) (bits_of v)"
proof -
  have "v \<noteq> 0 \<longleftrightarrow> bits_of v \<noteq> {}" using bit_eqI[of v 0] by (auto simp: bits_of_def)
  then show ?thesis using assms bits_of_upd[of "unat nr" v] by (simp add: rte_bit_relaxed_test_and_set64_def RTE_BIT_Inr)
qed

section \<open>Byte order as a reversal\<close>

lemma byte_masks:
  "(0xff :: 'a::len word) = mask 8" "(0xff00 :: 'a word) = push_bit 8 (mask 8)" "(0xff0000 :: 'a word) = push_bit 16 (mask 8)"
  "(0xff000000 :: 'a word) = push_bit 24 (mask 8)" "(0xff00000000 :: 'a word) = push_bit 32 (mask 8)" "(0xff0000000000 :: 'a word) = push_bit 40 (mask 8)"
  "(0xff000000000000 :: 'a word) = push_bit 48 (mask 8)" "(0xff00000000000000 :: 'a word) = push_bit 56 (mask 8)"
  by (simp_all add: mask_eq_exp_minus_1 push_bit_eq_mult)

lemma bit_bswap16: "bit (RTE_STATIC_BSWAP16 v) n \<longleftrightarrow> n < 16 \<and> bit v (if n < 8 then n + 8 else n - 8)"
  unfolding RTE_STATIC_BSWAP16_def byte_masks by (auto simp: bit_simps add.commute[of n])

lemma bit_bswap32:
  "bit (RTE_STATIC_BSWAP32 v) n \<longleftrightarrow> n < 32 \<and> bit v (if n < 8 then n + 24 else if n < 16 then n + 8 else if n < 24 then n - 8 else n - 24)"
  unfolding RTE_STATIC_BSWAP32_def byte_masks by (auto simp: bit_simps add.commute[of n])

lemma bit_bswap64:
  "bit (RTE_STATIC_BSWAP64 v) n \<longleftrightarrow> n < 64 \<and> bit v (if n < 8 then n + 56 else if n < 16 then n + 40 else if n < 24 then n + 24 else if n < 32 then n + 8
     else if n < 40 then n - 8 else if n < 48 then n - 24 else if n < 56 then n - 40 else n - 56)"
  unfolding RTE_STATIC_BSWAP64_def byte_masks by (auto simp: bit_simps add.commute[of n])


text \<open>Swapping the bytes twice gives the word back, and the swap of 16 and 32 bits is the conversion to network order that the RPC layer
  uses: the conversions to big-endian are right on a little-endian host.\<close>

theorem bswap_reverses:
  "RTE_STATIC_BSWAP16 (RTE_STATIC_BSWAP16 a) = a \<and> RTE_STATIC_BSWAP32 (RTE_STATIC_BSWAP32 b) = b \<and>
   RTE_STATIC_BSWAP64 (RTE_STATIC_BSWAP64 c) = c \<and> RTE_BE16 a = htons a \<and> RTE_BE32 b = htonl b \<and>
   bytes32 (RTE_BE32 b) = rev (bytes32 (RTE_LE32 b)) \<and> bytes16 (RTE_BE16 a) = rev (bytes16 (RTE_LE16 a))"
proof (intro conjI)
  show "RTE_STATIC_BSWAP16 (RTE_STATIC_BSWAP16 a) = a" by (rule bit_word_eqI) (auto simp: bit_bswap16)
  show "RTE_STATIC_BSWAP32 (RTE_STATIC_BSWAP32 b) = b" by (rule bit_word_eqI) (auto simp: bit_bswap32)
  show "RTE_STATIC_BSWAP64 (RTE_STATIC_BSWAP64 c) = c" by (rule bit_word_eqI) (auto simp: bit_bswap64)
  show be16: "RTE_BE16 a = htons a" unfolding RTE_BE16_def
    by (rule bit_word_eqI) (auto simp: bit_bswap16 htons_def le16_def bit_simps add.commute)
  show be32: "RTE_BE32 b = htonl b" unfolding RTE_BE32_def
    by (rule bit_word_eqI) (auto simp: bit_bswap32 htonl_def le32_def bit_simps add.commute)
  show "bytes32 (RTE_BE32 b) = rev (bytes32 (RTE_LE32 b))" "bytes16 (RTE_BE16 a) = rev (bytes16 (RTE_LE16 a))"
    unfolding be16 be32 by (simp_all add: bytes32_def bytes16_def RTE_LE32_def RTE_LE16_def htonl_def htons_def)
qed

end
