(* ===== verification/Rte_Pause.thy ===== *)
theory Rte_Pause
  imports Prelude
begin

text \<open>
  \<^verbatim>\<open>generic/rte_pause.h\<close>: the loops that wait for a shared word.  What other processors store is not known, so a wait is a
  function of the values that its loads return, one after the other; its result is the number of loads, and \<open>None\<close> when the
  values end before the condition holds.
\<close>

datatype memorder = ATOMIC_RELAXED | ATOMIC_CONSUME | ATOMIC_ACQUIRE | ATOMIC_RELEASE | ATOMIC_ACQ_REL | ATOMIC_SEQ_CST

fun wait_loop :: "('a \<Rightarrow> bool) \<Rightarrow> 'a list \<Rightarrow> nat option" where
  "wait_loop stop [] = None"
| "wait_loop stop (v # vs) = (if stop v then Some 1 else map_option Suc (wait_loop stop vs))"

definition wait_order_ok :: "memorder \<Rightarrow> bool" where
  "wait_order_ok memorder \<longleftrightarrow> memorder = ATOMIC_ACQUIRE \<or> memorder = ATOMIC_RELAXED"

definition rte_wait_until_equal_16 :: "u16 list \<Rightarrow> u16 \<Rightarrow> memorder \<Rightarrow> nat option cres" where
  "rte_wait_until_equal_16 loads expected memorder =
     (if wait_order_ok memorder then Inr (wait_loop (\<lambda>v. v = expected) loads) else Inl AssertFail)"

definition rte_wait_until_equal_32 :: "u32 list \<Rightarrow> u32 \<Rightarrow> memorder \<Rightarrow> nat option cres" where
  "rte_wait_until_equal_32 loads expected memorder =
     (if wait_order_ok memorder then Inr (wait_loop (\<lambda>v. v = expected) loads) else Inl AssertFail)"

definition rte_wait_until_equal_64 :: "u64 list \<Rightarrow> u64 \<Rightarrow> memorder \<Rightarrow> nat option cres" where
  "rte_wait_until_equal_64 loads expected memorder =
     (if wait_order_ok memorder then Inr (wait_loop (\<lambda>v. v = expected) loads) else Inl AssertFail)"

text \<open>The macro checks the order when it is compiled; \<open>cond\<close> is a comparison.\<close>

definition RTE_WAIT_UNTIL_MASKED :: "'a::len word list \<Rightarrow> 'a word \<Rightarrow> ('a word \<Rightarrow> 'a word \<Rightarrow> bool) \<Rightarrow> 'a word \<Rightarrow> nat option" where
  "RTE_WAIT_UNTIL_MASKED loads msk cond expected = wait_loop (\<lambda>v. cond (v AND msk) expected) loads"

text \<open>A wait ends with the first value that satisfies the condition, and it ends if there is one.\<close>

lemma wait_loop_first:
  "wait_loop stop vs = Some n \<longleftrightarrow> 0 < n \<and> n \<le> length vs \<and> stop (vs ! (n - 1)) \<and> (\<forall>i < n - 1. \<not> stop (vs ! i))"
proof (induction vs arbitrary: n)
  case (Cons v vs)
  show ?case
  proof (cases "stop v")
    case True
    then show ?thesis by (cases n; cases "n - 1") (auto simp: All_less_Suc2)
  next
    case False
    show ?thesis
    proof (cases n)
      case (Suc m)
      have "wait_loop stop (v # vs) = Some (Suc m) \<longleftrightarrow> wait_loop stop vs = Some m" using False by auto
      then show ?thesis
        using Suc False Cons.IH[of m] by (cases m) (auto simp: All_less_Suc2)
    qed (use False in auto)
  qed
qed auto

lemma wait_loop_ends: "\<exists>v \<in> set vs. stop v \<Longrightarrow> \<exists>n. wait_loop stop vs = Some n"
  by (induction vs) auto

lemma wait_until_equal_first:
  "rte_wait_until_equal_32 loads expected ATOMIC_RELAXED = Inr (Some n) \<longleftrightarrow>
     0 < n \<and> n \<le> length loads \<and> loads ! (n - 1) = expected \<and> expected \<notin> set (take (n - 1) loads)"
proof -
  have "(\<forall>i < n - 1. loads ! i \<noteq> expected) \<longleftrightarrow> expected \<notin> set (take (n - 1) loads)" if "n \<le> length loads"
    using that by (auto simp: in_set_conv_nth)
  then show ?thesis by (auto simp: rte_wait_until_equal_32_def wait_order_ok_def wait_loop_first)
qed

lemma wait_until_equal_masked:
  "rte_wait_until_equal_32 loads expected ATOMIC_ACQUIRE = Inr (RTE_WAIT_UNTIL_MASKED loads (- 1) (=) expected)"
  by (simp add: rte_wait_until_equal_32_def wait_order_ok_def RTE_WAIT_UNTIL_MASKED_def)

end
