(* ===== verification/Spec2Isabelle.thy ===== *)
theory Spec2Isabelle
  imports Ring_Correct Ring_Lifecycle Ring_Peek Ring_Threads_Live Common_Correct Lock_Correct Jhash
    Cuckoo_Correct Cuckoo_Ext Cuckoo_Limits Hash_Create Bitmap_Correct
    L3fwd_Main Rpc_Stats Tailq_Registry Queue_Checks Rte_Reciprocal Rte_Time Rte_Bits Rte_Pause
begin

text \<open>
  \<^bold>\<open>A verification of my\_l3fwd.\<close>

  The program is a layer-3 forwarder for a simulated network interface.  \<^verbatim>\<open>src/l3fwd\<close> parses options, starts
  one worker per thread, and each worker receives messages and replies to them.  It talks to the interface
  through an RPC layer (\<^verbatim>\<open>src/rpc_shm\<close>) and a pair of queues in shared memory (\<^verbatim>\<open>src/libzsim\<close>).  Under \<^verbatim>\<open>src/rte_lib\<close> is
  a copy of parts of DPDK: a lock-free ring, a cuckoo hash table that keeps its free slots in such a ring and hashes keys
  with jhash, locks, atomic operations, a bit map, linked lists, a registry of lists, and bit, time and string functions.  This library
  models these parts and proves them correct.

  \<^bold>\<open>Conventions.\<close>  A C function is a HOL function on the state it reads and writes; its result is the return
  value, the out-parameters and the new state.  \<open>'a cres\<close> is a result or a fault (\<open>Prelude\<close>): an access outside an
  object, a \<open>NULL\<close> dereference, a failed assertion, undefined behaviour, or \<open>Spins\<close>, a loop whose condition
  can no longer change while nobody else runs.  Integers are words of their C width, so additions wrap as in C.  Names are those
  of the source, without leading underscores.  Uninitialised variables and the results of code outside the repository are
  arguments.  Locales state the contract between a component and its users and are interpreted on the model of the component.

  \<^bold>\<open>Shared.\<close>
  \<^item> \<open>Prelude\<close>: faults, the named collections of lemmas, lists, circular buffers, words.
  \<^item> \<open>Byte_Memory\<close>: a little-endian memory of bytes, its loads, stores and copies.
  \<^item> \<open>Rte_Common\<close>, \<open>Common_Correct\<close>: \<^verbatim>\<open>rte_common.h\<close> (alignment, powers of two, bit searches); that they
    round as documented, with the ends of the number range.
  \<^item> \<open>Rte_Bits\<close>: \<^verbatim>\<open>rte_bitops.h\<close>, \<^verbatim>\<open>generic/rte_byteorder.h\<close> and the pointer macros; bits of a word as a set, swaps as reversal.
  \<^item> \<open>Rte_Reciprocal\<close>: \<^verbatim>\<open>rte_reciprocal.h\<close>; multiplication with a reciprocal is division.
  \<^item> \<open>Rte_Time\<close>: \<^verbatim>\<open>rte_time.h\<close>; the time counter follows the ticks of a hardware counter that wraps around.
  \<^item> \<open>Rte_Strings\<close>: \<open>rte_str_to_size\<close> and \<open>rte_strlcat\<close>; decimal numbers with units are read back.
  \<^item> \<open>Rte_Atomic\<close>: \<^verbatim>\<open>generic/rte_atomic.h\<close>.  The compare-and-set is atomic in the models that use it;
    a theorem shows what the source's instruction without the lock prefix allows.
  \<^item> \<open>Rte_Pause\<close>: \<^verbatim>\<open>generic/rte_pause.h\<close>; a wait ends with the first value that satisfies its condition.

  \<^bold>\<open>The application\<close> (\<^verbatim>\<open>src/l3fwd\<close>, \<^verbatim>\<open>src/rpc_shm\<close>, \<^verbatim>\<open>src/libzsim\<close>), from the bottom up.
  \<^item> \<open>Sense_Reversal\<close>: the bit that tells entries of this turn of a circular array from those of the last, shared by
    the three circular buffers below.
  \<^item> \<open>Nic_Queues\<close>: the work queue and the completion queue.  Posting never overwrites an entry in use, polling ends and takes
    entries in order.  The work queue under posts and completions is a step relation.
  \<^item> \<open>Rpc_Pack\<close>: packing and unpacking of messages, a round trip in the simulator build; the other build disagrees with itself.
  \<^item> \<open>Cbuf\<close>: the circular receive buffer, refined to a window of entries, and the numbering of the buffers.
  \<^item> \<open>Rpc_Context\<close>: the context, registration, sending and receiving.  What the simulator does between two polls is a list of functions on
    the queues.  The locale \<open>completion_source\<close> is what the receiver needs of the queues; its client lemma (a delivered message is
    returned) is used through the interpretation on \<open>Nic_Queues\<close>.
  \<^item> \<open>Rpc_Stats\<close>: the statistics container and its files; what is written is read back, also when the file is too short or missing.
  \<^item> \<open>L3fwd_Worker\<close>: the worker's loop.  It posts one reply for every message, gives its buffer back, and stops when the client is done.
  \<^item> \<open>L3fwd_Main\<close>: options, checks, thread parameters, the route table.  Every worker that is started finds its place in the context and is
    ready to serve.

  \<^bold>\<open>The lists\<close> (\<^verbatim>\<open>queue.h\<close>, \<^verbatim>\<open>eal_common_tailqs.c\<close>).
  \<^item> \<open>Queue_Macros\<close>: the macros of the four kinds of lists on an explicit heap of links.
  \<^item> \<open>Queue_Lists\<close>: each kind of list stands for a HOL list, and what every operation does to it; the locale \<open>linked_queue\<close> with two interpretations.
    \<open>Queue_Checks\<close>: the consistency checks of the debugging build hold on every such list.
  \<^item> \<open>Tailq_Registry\<close>: registration before and after initialisation, refined to the list of registered elements.

  \<^bold>\<open>The ring\<close> (\<^verbatim>\<open>src/rte_lib/ring\<close>).
  \<^item> \<open>Ring_Core\<close>: the structure and the unrolled copy loops, which are proved to be circular reads and writes.
  \<^item> \<open>Ring_Elem\<close>: moving heads and tails in the four synchronisation modes (single, multi, HTS, RTS), generic and C11 variants,
    the ring invariant and what an enqueue or dequeue of \<open>n\<close> elements does to the contents.
  \<^item> \<open>Ring_Api\<close>: every public enqueue, dequeue and query.  \<open>Ring_Queue\<close>: the ring as an instance of the
    bounded queue of \<open>Bounded_Queue\<close>, whose sequences of operations refine those on a list.
  \<^item> \<open>Ring_Init\<close>, \<open>Ring_Lifecycle\<close>: \<^verbatim>\<open>rte_ring.c\<close>, sizes, initialisation, creation, freeing and lookup; the memory zones are parameters.
  \<^item> \<open>Ring_Peek\<close>: the two-phase and zero-copy operations.
  \<^item> \<open>Ring_Reserve\<close>: what every mode promises to threads, a ring of reservations as a step relation on unbounded positions, with its
    invariant.  The locale \<open>slotting\<close> is what it needs of slots; \<open>Ring_Positions\<close> interprets it on the masked 32-bit indices.
  \<^item> \<open>Ring_Threads\<close>: enqueue and dequeue of any number of threads, split at every access to shared memory, on
    sequentially consistent memory, each side in any of the four modes.  \<open>Ring_Threads_Inv\<close> has the invariant that ties words to positions,
    \<open>Ring_Threads_Sim\<close> the refinement: every step is a step of the reservations or none.
  \<^item> \<open>Ring_Threads_Correct\<close>: for every interleaving elements come out in the order of their reservation (RTS consumers: each exactly once),
    no slot has two owners, no access is out of range.  \<open>Ring_Threads_Live\<close>: there is no deadlock, and a call alone is the sequential operation.
  \<^item> \<open>Ring_Correct\<close>: the statements about one thread, with instances.

  \<^bold>\<open>Locks\<close> (\<^verbatim>\<open>generic/rte_spinlock.h\<close>, \<^verbatim>\<open>rte_ticketlock.h\<close>, \<^verbatim>\<open>rte_rwlock.h\<close>).  \<open>Lock_Protocol\<close> is what a lock
  promises; \<open>Locks\<close> has the operations, their step relations with any number of threads and the interpretations; \<open>Lock_Correct\<close>
  the statements: mutual exclusion, ticket order, one writer or many readers, nesting.

  \<^bold>\<open>The hash\<close> (\<^verbatim>\<open>rte_jhash.h\<close>, \<^verbatim>\<open>rte_cuckoo_hash.c\<close>, \<^verbatim>\<open>rte_cuckoo_hash.h\<close>, \<^verbatim>\<open>rte_hash.h\<close>).
  \<^item> \<open>Jhash\<close>: all variants, equal to one reference hash of the bytes of the key.
  \<^item> \<open>Cuckoo_Hash\<close>: the structures and the insertion of a key: search, slot allocation, direct insertion,
    breadth-first search for a path of moves, extendable buckets.
  \<^item> \<open>Cuckoo_Table\<close>, \<open>Cuckoo_Store\<close>, \<open>Cuckoo_Search\<close>, \<open>Cuckoo_Insert\<close>: the entries of the buckets as a multiset that moves
    conserve, the key store, the search, and every way to insert.  The free slots are used through the interpretation of the
    bounded queue on the ring.
  \<^item> \<open>Cuckoo_Correct\<close>: the invariant of the table and the map from keys to data it stands for; adding a key updates
    this map.  \<open>Cuckoo_Limits\<close>: what happens with longer keys and without free slots.
  \<^item> \<open>Cuckoo_Ext\<close>: the chains of extendable buckets stay disjoint and acyclic, and the new entry is added to one of them or no bucket is free.
  \<^item> \<open>Hash_Create\<close>: creation; it ends in a \<open>NULL\<close> dereference, and the set-up behind that establishes the invariant when the
    one bucket it allocates is enough.

  \<^bold>\<open>The bit map\<close> (\<^verbatim>\<open>rte_bitmap.h\<close>).  \<open>Bitmap\<close> has the two-level map and its scan, \<open>Bitmap_Set\<close> the contract of a set of
  bits as a locale, the invariant that the first array summarises the second, and the interpretation;
  \<open>Bitmap_Correct\<close> the scan, the memory layout and the statements.

  \<^bold>\<open>Bounds.\<close>  The only fuel is in the walk along a chain of extendable buckets: the number of extendable buckets plus
  two, which a chain without a cycle never exceeds.  The breadth-first search ends because its queue has 1000 nodes, as in C.
  Retry loops of one thread end at once or are \<open>Spins\<close>; in the step relations a retry is another step.  Walks along linked lists are
  partial functions whose result on a cycle is \<open>None\<close>, and are proved to have a result on every list.  The inner loop of the completion poll
  has a termination proof.  The receiver and the worker consume a list of what the simulator does between
  two accesses; \<open>None\<close> is a list that is too short, and the theorems say when it is long enough.

  \<^bold>\<open>Not modelled.\<close>  The magic instructions of the simulator and the simulator itself; the code of the RPC layer under \<^verbatim>\<open>#if 0\<close> and for
  the other platforms (FLEXUS, QFLEX); pinning, barriers and the destruction of the context; printing.
  Weak memory: the models with several threads interleave single accesses, so acquire and
  release orders and fences have no effect in them.  The two-phase and zero-copy operations of the ring and hash tables with several
  threads are open; so is the map from keys to data of a table with extendable buckets, whose chains are proved correct.  The environment headers declare functions whose implementation is
  not in the repository; what is used of them is a parameter.

  \<^bold>\<open>Plan.\<close>  Next: the map from keys to data of tables with extendable buckets.
\<close>

end
